(* ===== verification/Prelude.thy ===== *)
theory Prelude
  imports Main "HOL-Library.Sublist"
begin

text \<open>
  What every theory of the development shares: the C conventions of the code
  (return codes, \<open>errno\<close> values, NUL-terminated strings in fixed arrays,
  the ctype predicates it calls) and generic list facts.

  A C \<open>int\<close> return code is an \<open>int\<close>: a failure is a negative errno value, as in
  the code. A C string is a \<open>string\<close> without NUL characters; a fixed array of
  characters is a list that may hold NULs, read with \<open>cstr\<close>.
\<close>

named_theorems os_simps "evaluation rules of the operating system model"
named_theorems inv_intros "introduction rules for the component invariants"
named_theorems frame_simps "what an operation leaves unchanged"

section \<open>Return codes\<close>

abbreviation (input) EPERM :: int where "EPERM \<equiv> 1"
abbreviation (input) ENOENT :: int where "ENOENT \<equiv> 2"
abbreviation (input) EINTR :: int where "EINTR \<equiv> 4"
abbreviation (input) EAGAIN :: int where "EAGAIN \<equiv> 11"
abbreviation (input) ENOMEM :: int where "ENOMEM \<equiv> 12"
abbreviation (input) EACCES :: int where "EACCES \<equiv> 13"
abbreviation (input) EBUSY :: int where "EBUSY \<equiv> 16"
abbreviation (input) EEXIST :: int where "EEXIST \<equiv> 17"
abbreviation (input) ENOTDIR :: int where "ENOTDIR \<equiv> 20"
abbreviation (input) EISDIR :: int where "EISDIR \<equiv> 21"
abbreviation (input) EINVAL :: int where "EINVAL \<equiv> 22"
abbreviation (input) EPIPE :: int where "EPIPE \<equiv> 32"
abbreviation (input) ENAMETOOLONG :: int where "ENAMETOOLONG \<equiv> 36"
abbreviation (input) ELOOP :: int where "ELOOP \<equiv> 40"
abbreviation (input) ENODATA :: int where "ENODATA \<equiv> 61"
abbreviation (input) EPROTO :: int where "EPROTO \<equiv> 71"
abbreviation (input) EMSGSIZE :: int where "EMSGSIZE \<equiv> 90"
abbreviation (input) EAFNOSUPPORT :: int where "EAFNOSUPPORT \<equiv> 97"
abbreviation (input) ENOBUFS :: int where "ENOBUFS \<equiv> 105"
abbreviation (input) ECANCELED :: int where "ECANCELED \<equiv> 125"
abbreviation (input) ENOTRECOVERABLE :: int where "ENOTRECOVERABLE \<equiv> 131"

abbreviation (input) INT_MAX :: int where "INT_MAX \<equiv> 2147483647"

section \<open>Sizes of src/sizes.h\<close>

abbreviation (input) MAX_SIZE_DIR :: nat where "MAX_SIZE_DIR \<equiv> 1024"
abbreviation (input) MAX_SIZE_PATH :: nat where "MAX_SIZE_PATH \<equiv> 1024"
abbreviation (input) MIN_SIZE_ID :: nat where "MIN_SIZE_ID \<equiv> 2"
abbreviation (input) MAX_SIZE_ID :: nat where "MAX_SIZE_ID \<equiv> 200"
abbreviation (input) MAX_SIZE_LABEL :: nat where "MAX_SIZE_LABEL \<equiv> 255"
abbreviation (input) MIN_SIZE_PERMISSION :: nat where "MIN_SIZE_PERMISSION \<equiv> 2"
abbreviation (input) MAX_SIZE_PERMISSION :: nat where "MAX_SIZE_PERMISSION \<equiv> 1024"

section \<open>Characters and C strings\<close>

abbreviation (input) NUL :: char where "NUL \<equiv> CHR 0x00"
abbreviation (input) SLASH :: char where "SLASH \<equiv> CHR ''/''"
abbreviation (input) SPACE :: char where "SPACE \<equiv> CHR '' ''"
abbreviation (input) LF :: char where "LF \<equiv> CHR 0x0A"
abbreviation (input) BACKSLASH :: char where "BACKSLASH \<equiv> CHR 0x5C"

abbreviation byte :: "char \<Rightarrow> nat" where "byte c \<equiv> of_char c"

text \<open>The text of a NUL-terminated string held in a character array.\<close>

definition cstr :: "char list \<Rightarrow> string" where
  "cstr a = takeWhile (\<lambda>c. c \<noteq> NUL) a"

text \<open>Reading \<open>p[i]\<close> of a string pointer: the character, or the final NUL.\<close>

definition rd :: "string \<Rightarrow> nat \<Rightarrow> char" where
  "rd p i = (if i < length p then p ! i else NUL)"

definition no_nul :: "string \<Rightarrow> bool" where
  "no_nul s \<longleftrightarrow> NUL \<notin> set s"

text \<open>
  \<open>snprintf\<close> into an array of \<open>n\<close> characters keeps at most \<open>n - 1\<close> of them and
  returns the length of the untruncated text.
\<close>

definition snprintf :: "nat \<Rightarrow> string \<Rightarrow> int \<times> string" where
  "snprintf n text = (int (length text), take (n - 1) text)"

definition is_alnum :: "char \<Rightarrow> bool" where
  "is_alnum c \<longleftrightarrow> (48 \<le> byte c \<and> byte c \<le> 57) \<or> (65 \<le> byte c \<and> byte c \<le> 90)
     \<or> (97 \<le> byte c \<and> byte c \<le> 122)"

definition is_space :: "char \<Rightarrow> bool" where
  "is_space c \<longleftrightarrow> byte c = 32 \<or> (9 \<le> byte c \<and> byte c \<le> 13)"

definition to_lower :: "char \<Rightarrow> char" where
  "to_lower c = (if 65 \<le> byte c \<and> byte c \<le> 90 then char_of (byte c + 32) else c)"

text \<open>\<open>strcasecmp (a, b) == 0\<close>.\<close>

definition case_eq :: "string \<Rightarrow> string \<Rightarrow> bool" where
  "case_eq a b \<longleftrightarrow> map to_lower a = map to_lower b"

lemma cstr_no_nul [simp]: "no_nul (cstr a)"
  by (auto simp: no_nul_def cstr_def dest: set_takeWhileD)

lemma cstr_id [simp]: "no_nul s \<Longrightarrow> cstr s = s"
  by (auto simp: no_nul_def cstr_def takeWhile_eq_all_conv)

lemma cstr_append_nul: "no_nul s \<Longrightarrow> cstr (s @ NUL # r) = s"
  by (auto simp: no_nul_def cstr_def takeWhile_append)

lemma length_cstr_le: "b ! r = NUL \<Longrightarrow> length (cstr b) \<le> r"
proof (rule ccontr)
  assume r: "b ! r = NUL" and l: "\<not> length (cstr b) \<le> r"
  then have "cstr b ! r = NUL" by (simp add: cstr_def takeWhile_nth)
  moreover have "cstr b ! r \<in> set (cstr b)" using l by simp
  ultimately show False using cstr_no_nul[of b] by (simp add: no_nul_def)
qed

lemma cstr_take:
  assumes "b ! r = NUL" "r < length b" "no_nul (take r b)"
  shows "cstr b = take r b"
proof -
  have "b = take r b @ NUL # drop (Suc r) b"
    using id_take_nth_drop[OF assms(2)] assms(1) by simp
  then have "cstr b = cstr (take r b @ NUL # drop (Suc r) b)" by simp
  also have "\<dots> = take r b" by (rule cstr_append_nul[OF assms(3)])
  finally show ?thesis .
qed

lemma cstr_Nil [simp]: "cstr [] = []"
  by (simp add: cstr_def)

lemma cstr_Cons [simp]: "cstr (c # s) = (if c = NUL then [] else c # cstr s)"
  by (simp add: cstr_def)

lemma no_nul_simps [simp]:
  "no_nul []"
  "no_nul (c # s) \<longleftrightarrow> c \<noteq> NUL \<and> no_nul s"
  "no_nul (s @ t) \<longleftrightarrow> no_nul s \<and> no_nul t"
  by (auto simp: no_nul_def)

lemma rd_simps [simp]:
  "rd [] i = NUL"
  "rd (c # s) 0 = c"
  "rd (c # s) (Suc i) = rd s i"
  by (auto simp: rd_def)

lemma rd_0: "rd p 0 = (case p of [] \<Rightarrow> NUL | c # _ \<Rightarrow> c)"
  by (cases p) auto

lemma case_eq_refl [simp]: "case_eq a a"
  by (simp add: case_eq_def)

lemma case_eq_sym: "case_eq a b \<Longrightarrow> case_eq b a"
  by (simp add: case_eq_def)

lemma case_eq_trans: "case_eq a b \<Longrightarrow> case_eq b c \<Longrightarrow> case_eq a c"
  by (simp add: case_eq_def)

lemma alnum_not_nul: "is_alnum c \<Longrightarrow> c \<noteq> NUL"
  by (auto simp: is_alnum_def)

section \<open>Lists\<close>

lemma take_append_take: "n \<le> length a \<Longrightarrow> take n (a @ b) = take n a"
  by simp

lemma takeWhile_nth_len:
  "(\<forall>j < n. P (xs ! j)) \<Longrightarrow> n < length xs \<Longrightarrow> \<not> P (xs ! n) \<Longrightarrow> takeWhile P xs = take n xs"
  by (auto intro: takeWhile_eq_take_P_nth)

lemma take_list_update_extend:
  "n < length xs \<Longrightarrow> take (Suc n) (xs[n := x]) = take n xs @ [x]"
  by (simp add: take_Suc_conv_app_nth)

text \<open>Arrays that grow by blocks of 8 slots.\<close>

lemma div8_round_up:
  "n = 8 * q + r \<Longrightarrow> r < 8 \<Longrightarrow> (Suc n + 7) div 8 = Suc (q :: nat)"
  "n = 8 * q + r \<Longrightarrow> r < 8 \<Longrightarrow> 0 < r \<Longrightarrow> (n + 7) div 8 = Suc (q :: nat)"
  by (rule div_nat_eqI; simp)+

lemma blocks8_Suc:
  fixes n :: nat
  shows "8 * ((Suc n + 7) div 8) = (if n mod 8 = 0 then n + 8 else 8 * ((n + 7) div 8))"
proof -
  have n: "n = 8 * (n div 8) + n mod 8" and r: "n mod 8 < 8" by simp_all
  note up = div8_round_up[OF n r]
  show ?thesis
  proof (cases "n mod 8 = 0")
    case True
    then have "8 * (n div 8) = n" using n by linarith
    with True show ?thesis unfolding up(1) by simp
  next
    case False
    then show ?thesis unfolding up(1) using up(2) by simp
  qed
qed

lemma blocks8_ge: "n \<le> 8 * ((n + 7) div 8)" for n :: nat
proof -
  have "n + 7 = 8 * ((n + 7) div 8) + (n + 7) mod 8" by simp
  moreover have "(n + 7) mod 8 < 8" by simp
  ultimately show ?thesis by linarith
qed

end
