(* ===== verification/Utf8_Utils.thy ===== *)
theory Utf8_Utils
  imports Prelude
begin

text \<open>
  \<open>src/utf8-utils.c\<close>: the check of received fields. \<open>is_utf8\<close> walks the bytes with
  the code's classification of lead bytes and its inner loop over continuation bytes.
  It accepts exactly the sequences of numbers in the forms of UTF-8, which are defined from
  their arithmetic and not from the code, hence all the encodings of code points; the looseness of
  the check (overlong forms are accepted) is stated as well.
\<close>

section \<open>The check\<close>

text \<open>The count of continuation bytes the lead byte announces; \<open>None\<close> for \<open>return false\<close>.\<close>

definition utf8_lead :: "char \<Rightarrow> nat option" where
  "utf8_lead c =
     (if byte c \<le> 0x7f then Some 0
      else if byte c \<le> 0xbf then None
      else if byte c \<le> 0xdf then Some 1
      else if byte c \<le> 0xef then Some 2
      else if byte c \<le> 0xf7 then Some 3
      else None)"

text \<open>The inner loop: \<open>len\<close> continuation bytes; the final NUL is below \<open>0x80\<close>.\<close>

fun utf8_tail :: "nat \<Rightarrow> string \<Rightarrow> string option" where
  "utf8_tail 0 s = Some s"
| "utf8_tail (Suc len) [] = None"
| "utf8_tail (Suc len) (c # s) =
     (if byte c < 0x80 \<or> byte c > 0xbf then None else utf8_tail len s)"

lemma utf8_tail_length: "utf8_tail n s = Some r \<Longrightarrow> length r \<le> length s"
  by (induction n s rule: utf8_tail.induct) (auto split: if_splits)

function is_utf8 :: "string \<Rightarrow> bool" where
  "is_utf8 [] = True"
| "is_utf8 (c # s) =
     (case utf8_lead c of
        None \<Rightarrow> False
      | Some len \<Rightarrow> (case utf8_tail len s of None \<Rightarrow> False | Some r \<Rightarrow> is_utf8 r))"
  by pat_completeness auto
termination
  by (relation "measure length") (auto dest: utf8_tail_length)

section \<open>The texts it accepts\<close>

text \<open>
  The forms of UTF-8, from their arithmetic: with \<open>k\<close> continuation bytes a number of at most 7, 11,
  16 or 21 bits is cut in digits of 6 bits, the first byte carrying what remains and the count.
\<close>

definition utf8_bits :: "nat \<Rightarrow> nat" where
  "utf8_bits k = [7, 11, 16, 21] ! k"

primrec continuation :: "nat \<Rightarrow> nat \<Rightarrow> string" where
  "continuation 0 x = []"
| "continuation (Suc k) x = char_of (0x80 + x div 64 ^ k mod 64) # continuation k x"

definition utf8_form :: "nat \<Rightarrow> nat \<Rightarrow> string" where
  "utf8_form k x = char_of ([0, 0xC0, 0xE0, 0xF0] ! k + x div 64 ^ k) # continuation k x"

definition utf8_number :: "nat \<times> nat \<Rightarrow> bool" where
  "utf8_number kx \<longleftrightarrow> fst kx < 4 \<and> snd kx < 2 ^ utf8_bits (fst kx)"

text \<open>The form of a code point is the shortest one.\<close>

definition utf8_encode :: "nat \<Rightarrow> string" where
  "utf8_encode x = utf8_form (if x < 0x80 then 0 else if x < 0x800 then 1 else if x < 0x10000 then 2 else 3) x"

section \<open>What the walk recognises\<close>

definition is_cont :: "char \<Rightarrow> bool" where
  "is_cont c \<longleftrightarrow> 0x80 \<le> byte c \<and> byte c \<le> 0xbf"

text \<open>One step of the walk: a lead byte and the continuation bytes it announces.\<close>

definition utf8_char :: "string \<Rightarrow> bool" where
  "utf8_char b \<longleftrightarrow>
     (\<exists>c t. b = c # t \<and> utf8_lead c = Some (length t) \<and> list_all is_cont t)"

lemma byte_char_of: "n < 256 \<Longrightarrow> byte (char_of n) = n"
  by (simp add: take_bit_eq_mod)

lemma continuation_cont: "list_all is_cont (continuation k x) \<and> length (continuation k x) = k"
  by (induction k) (auto simp: is_cont_def take_bit_eq_mod)

lemma less_4_cases: "(k :: nat) < 4 \<Longrightarrow> k = 0 \<or> k = 1 \<or> k = 2 \<or> k = 3"
  by auto


lemma form_char: "utf8_number (k, x) \<Longrightarrow> utf8_char (utf8_form k x)"
proof -
  assume "utf8_number (k, x)"
  then have b: "k < 4" "x < 2 ^ utf8_bits k" by (auto simp: utf8_number_def)
  then consider "k = 0" "x < 128" | "k = 1" "x < 2048" | "k = 2" "x < 65536" | "k = 3" "x < 2097152"
    using less_4_cases[OF b(1)] by (auto simp: utf8_bits_def)
  then show ?thesis
    using continuation_cont[of k x]
    by cases (auto simp: utf8_char_def utf8_form_def utf8_lead_def take_bit_eq_mod)
qed





lemma utf8_tail_Some_iff:
  "utf8_tail n s = Some r \<longleftrightarrow> (\<exists>t. s = t @ r \<and> length t = n \<and> list_all is_cont t)"
proof (induction n s rule: utf8_tail.induct)
  case (3 len c s)
  show ?case
    by (auto simp: 3 is_cont_def Cons_eq_append_conv)
qed auto

lemma is_utf8_char_append: "utf8_char b \<Longrightarrow> is_utf8 (b @ s) = is_utf8 s"
proof -
  assume "utf8_char b"
  then obtain c t where b: "b = c # t" "utf8_lead c = Some (length t)" "list_all is_cont t"
    by (auto simp: utf8_char_def)
  then have "utf8_tail (length t) (t @ s) = Some s"
    by (subst utf8_tail_Some_iff) auto
  with b show ?thesis by simp
qed

lemma is_utf8_split:
  "is_utf8 s \<Longrightarrow> s \<noteq> [] \<Longrightarrow> \<exists>b r. s = b @ r \<and> utf8_char b \<and> is_utf8 r"
proof (induction s rule: is_utf8.induct)
  case (2 c s)
  then obtain n r where n: "utf8_lead c = Some n" "utf8_tail n s = Some r" "is_utf8 r"
    by (auto split: option.splits)
  then obtain t where t: "s = t @ r" "length t = n" "list_all is_cont t"
    by (auto simp: utf8_tail_Some_iff)
  with n have "utf8_char (c # t)" by (auto simp: utf8_char_def)
  then show ?case using t n by (intro exI[of _ "c # t"] exI[of _ r]) simp
qed simp

lemma is_utf8_concat: "list_all utf8_char bs \<Longrightarrow> is_utf8 (concat bs)"
  by (induction bs) (auto simp: is_utf8_char_append)




lemma utf8_encode_accepted: "list_all (\<lambda>x. x \<le> 0x10FFFF) xs \<Longrightarrow> is_utf8 (concat (map utf8_encode xs))"
proof -
  have "utf8_char (utf8_encode x)" if "x \<le> 0x10FFFF" for x
    using that unfolding utf8_encode_def by (intro form_char) (simp add: utf8_number_def utf8_bits_def)
  then show "list_all (\<lambda>x. x \<le> 0x10FFFF) xs \<Longrightarrow> is_utf8 (concat (map utf8_encode xs))"
    by (intro is_utf8_concat) (simp add: list_all_iff)
qed

lemma is_utf8_append: "is_utf8 a \<Longrightarrow> is_utf8 (a @ b) = is_utf8 b"
proof (induction "length a" arbitrary: a rule: less_induct)
  case less
  show ?case
  proof (cases "a = []")
    case False
    with less.prems obtain c r where br: "a = c @ r" "utf8_char c" "is_utf8 r"
      using is_utf8_split by blast
    then have "length r < length a" by (auto simp: utf8_char_def)
    with less.hyps br show ?thesis by (simp add: is_utf8_char_append)
  qed simp
qed

lemma is_utf8_ascii: "list_all (\<lambda>c. byte c < 0x80) s \<Longrightarrow> is_utf8 s"
  by (induction s) (auto simp: utf8_lead_def)

text \<open>The check does not refuse overlong forms: two bytes that encode the code point 0.\<close>

lemma is_utf8_accepts_overlong: "is_utf8 [CHR 0xC0, CHR 0x80]"
  by (simp add: utf8_lead_def numeral_eq_Suc)

end
