(* ===== verification/World.thy ===== *)
theory World
  imports Prelude
begin

text \<open>
  The part of libc and of the kernel the code calls: files, links, extended attributes
  and memory allocation. The state holds the file system as a map from the full path of
  an entry to its inode, and a schedule of faults: each fallible call takes one entry,
  and fails with that errno when it is positive, without any effect. An empty schedule
  injects nothing. Permission checks, full disks, missing parent directories and
  exhausted memory are thus failures of the schedule; the failures that depend on the
  entry itself (it is missing, it exists already, it is a directory) are computed.
  Every theorem of the components holds for every schedule unless it says otherwise.

  A system call returns a non-negative value or \<open>- errno\<close>. Symbolic links are resolved
  at the last component (as \<open>stat\<close> against \<open>lstat\<close> needs), their target being a full path.
\<close>

section \<open>State\<close>

datatype fkind = FReg | FDir | FLink string | FFifo

record inode =
  kind :: fkind
  xbit :: bool \<comment> \<open>one of \<open>S_IXUSR\<close>, \<open>S_IXGRP\<close>, \<open>S_IXOTH\<close>\<close>
  content :: string
  xattrs :: "string \<rightharpoonup> string"

record os =
  fs :: "string \<rightharpoonup> inode"
  faults :: "int list"

type_synonym 'z wstate = "'z os_scheme"

definition pop_fault :: "'z wstate \<Rightarrow> int \<times> 'z wstate" where
  "pop_fault w = (case faults w of [] \<Rightarrow> (0, w) | e # es \<Rightarrow> (max 0 e, w\<lparr>faults := es\<rparr>))"

text \<open>
  A call: a fault of the schedule, or the body of the call. The schedule cannot inject
  the errors that the body computes from the files (\<open>own\<close>): those are exact.
\<close>

definition sys ::
  "int list \<Rightarrow> ('z wstate \<Rightarrow> int \<times> 'z wstate) \<Rightarrow> 'z wstate \<Rightarrow> int \<times> 'z wstate" where
  "sys own body w =
     (case pop_fault w of (e, w1) \<Rightarrow>
        if e > 0 \<and> e \<notin> set own then (- e, w1) else body w1)"

section \<open>Calls\<close>

definition sys_malloc :: "'z wstate \<Rightarrow> bool \<times> 'z wstate" where
  "sys_malloc w = (case pop_fault w of (e, w1) \<Rightarrow> (e = 0, w1))"

text \<open>Following links, as the kernel does, at most 40 times.\<close>

fun resolve :: "nat \<Rightarrow> (string \<rightharpoonup> inode) \<Rightarrow> string \<Rightarrow> int + inode" where
  "resolve 0 f p = Inl ELOOP"
| "resolve (Suc n) f p =
     (case f p of
        None \<Rightarrow> Inl ENOENT
      | Some i \<Rightarrow> (case kind i of FLink t \<Rightarrow> resolve n f t | _ \<Rightarrow> Inr i))"

abbreviation (input) MAXSYMLINKS :: nat where "MAXSYMLINKS \<equiv> 40"

definition find_inode :: "bool \<Rightarrow> (string \<rightharpoonup> inode) \<Rightarrow> string \<Rightarrow> int + inode" where
  "find_inode follow f p =
     (if follow then resolve MAXSYMLINKS f p
      else case f p of None \<Rightarrow> Inl ENOENT | Some i \<Rightarrow> Inr i)"

text \<open>\<open>stat\<close> and \<open>lstat\<close>.\<close>

definition sys_stat :: "bool \<Rightarrow> string \<Rightarrow> 'z wstate \<Rightarrow> (int + inode) \<times> 'z wstate" where
  "sys_stat follow p w =
     (case pop_fault w of (e, w1) \<Rightarrow>
        if e > 0 \<and> e \<notin> set [ENOENT, ELOOP] then (Inl e, w1)
        else (find_inode follow (fs w1) p, w1))"

definition sys_lsetxattr :: "string \<Rightarrow> string \<Rightarrow> string \<Rightarrow> 'z wstate \<Rightarrow> int \<times> 'z wstate" where
  "sys_lsetxattr p a v = sys [ENOENT] (\<lambda>w.
     case fs w p of
       None \<Rightarrow> (- ENOENT, w)
     | Some i \<Rightarrow> (0, w\<lparr>fs := (fs w)(p \<mapsto> i\<lparr>xattrs := (xattrs i)(a \<mapsto> v)\<rparr>)\<rparr>))"

definition sys_lremovexattr :: "string \<Rightarrow> string \<Rightarrow> 'z wstate \<Rightarrow> int \<times> 'z wstate" where
  "sys_lremovexattr p a = sys [ENOENT, ENODATA] (\<lambda>w.
     case fs w p of
       None \<Rightarrow> (- ENOENT, w)
     | Some i \<Rightarrow> (if xattrs i a = None then (- ENODATA, w)
                 else (0, w\<lparr>fs := (fs w)(p \<mapsto> i\<lparr>xattrs := (xattrs i)(a := None)\<rparr>)\<rparr>)))"

definition sys_symlink :: "string \<Rightarrow> string \<Rightarrow> 'z wstate \<Rightarrow> int \<times> 'z wstate" where
  "sys_symlink target p = sys [EEXIST] (\<lambda>w.
     if fs w p \<noteq> None then (- EEXIST, w)
     else (0, w\<lparr>fs := (fs w)(p \<mapsto> \<lparr>kind = FLink target, xbit = True, content = [],
                                    xattrs = Map.empty\<rparr>)\<rparr>))"

definition sys_unlink :: "string \<Rightarrow> 'z wstate \<Rightarrow> int \<times> 'z wstate" where
  "sys_unlink p = sys [ENOENT, EISDIR] (\<lambda>w.
     case fs w p of
       None \<Rightarrow> (- ENOENT, w)
     | Some i \<Rightarrow> (if kind i = FDir then (- EISDIR, w) else (0, w\<lparr>fs := (fs w)(p := None)\<rparr>)))"

text \<open>\<open>remove\<close>: \<open>unlink\<close>, or \<open>rmdir\<close> for a directory.\<close>

definition sys_remove :: "string \<Rightarrow> 'z wstate \<Rightarrow> int \<times> 'z wstate" where
  "sys_remove p = sys [ENOENT] (\<lambda>w.
     if fs w p = None then (- ENOENT, w) else (0, w\<lparr>fs := (fs w)(p := None)\<rparr>))"

text \<open>\<open>creat\<close> and \<open>fopen (_, "w")\<close>: create the file, or truncate it.\<close>

definition sys_creat :: "bool \<Rightarrow> string \<Rightarrow> 'z wstate \<Rightarrow> int \<times> 'z wstate" where
  "sys_creat x p = sys [EISDIR] (\<lambda>w.
     case fs w p of
       None \<Rightarrow> (0, w\<lparr>fs := (fs w)(p \<mapsto> \<lparr>kind = FReg, xbit = x, content = [],
                                             xattrs = Map.empty\<rparr>)\<rparr>)
     | Some i \<Rightarrow> (if kind i = FDir then (- EISDIR, w)
                 else (0, w\<lparr>fs := (fs w)(p \<mapsto> i\<lparr>content := []\<rparr>)\<rparr>)))"

text \<open>Text written to a stream opened on \<open>p\<close>.\<close>

definition sys_append :: "string \<Rightarrow> string \<Rightarrow> 'z wstate \<Rightarrow> 'z wstate" where
  "sys_append p t w =
     (case fs w p of None \<Rightarrow> w
      | Some i \<Rightarrow> w\<lparr>fs := (fs w)(p \<mapsto> i\<lparr>content := content i @ t\<rparr>)\<rparr>)"

text \<open>\<open>open (_, O_RDONLY)\<close>: the inode the descriptor refers to.\<close>

definition sys_open :: "string \<Rightarrow> 'z wstate \<Rightarrow> (int + inode) \<times> 'z wstate" where
  "sys_open p = sys_stat True p"

section \<open>Evaluation rules and frames\<close>

text \<open>Two states with the same files.\<close>

definition same_fs :: "'z wstate \<Rightarrow> 'z wstate \<Rightarrow> bool" where
  "same_fs w w' \<longleftrightarrow> fs w' = fs w"

lemma pop_fault_nil [os_simps]: "faults w = [] \<Longrightarrow> pop_fault w = (0, w)"
  by (simp add: pop_fault_def)

lemma pop_fault_frame: "pop_fault w = (e, w1) \<Longrightarrow> fs w1 = fs w \<and> 0 \<le> e"
  by (auto simp: pop_fault_def split: list.splits)

lemma pop_fault_rest: "pop_fault w = (e, w1) \<Longrightarrow> w1 = w\<lparr>faults := tl (faults w)\<rparr>"
  by (cases "faults w") (auto simp: pop_fault_def)

lemma sys_nil [os_simps]: "faults w = [] \<Longrightarrow> sys own body w = body w"
  by (simp add: sys_def pop_fault_nil)

lemma sys_cases:
  assumes "sys own body w = (rc, w')"
  obtains (fault) e where "e > 0" "e \<notin> set own" "rc = - e" "w' = w\<lparr>faults := tl (faults w)\<rparr>"
  | (body) "body (w\<lparr>faults := tl (faults w)\<rparr>) = (rc, w')"
proof -
  obtain e w1 where p: "pop_fault w = (e, w1)" by fastforce
  note w1 = pop_fault_rest[OF p]
  show ?thesis
    using assms that by (cases "e > 0 \<and> e \<notin> set own") (auto simp: sys_def p w1)
qed

lemma sys_malloc_nil [os_simps]: "faults w = [] \<Longrightarrow> sys_malloc w = (True, w)"
  by (simp add: sys_malloc_def pop_fault_nil)

lemma sys_malloc_rest: "sys_malloc w = (ok, w1) \<Longrightarrow> w1 = w\<lparr>faults := tl (faults w)\<rparr>"
  by (auto simp: sys_malloc_def split: prod.splits dest: pop_fault_rest)

lemma sys_stat_nil [os_simps]: "faults w = [] \<Longrightarrow> sys_stat fo p w = (find_inode fo (fs w) p, w)"
  by (simp add: sys_stat_def pop_fault_nil)

lemma sys_stat_rest: "sys_stat fo p w = (r, w1) \<Longrightarrow> w1 = w\<lparr>faults := tl (faults w)\<rparr>"
  by (auto simp: sys_stat_def split: prod.splits if_splits dest: pop_fault_rest)

lemma sys_stat_found: "sys_stat fo p w = (Inr i, w1) \<Longrightarrow> find_inode fo (fs w) p = Inr i"
  by (auto simp: sys_stat_def split: prod.splits if_splits dest: pop_fault_frame)

lemma resolve_pos: "resolve n f p = Inl e \<Longrightarrow> 0 < e"
  by (induction n arbitrary: p) (auto split: option.splits fkind.splits)

lemma find_inode_pos: "find_inode fo f p = Inl e \<Longrightarrow> 0 < e"
  by (auto simp: find_inode_def split: if_splits option.splits dest: resolve_pos)

lemma sys_stat_pos: "sys_stat fo p w = (Inl e, w1) \<Longrightarrow> 0 < e"
  by (auto simp: sys_stat_def split: prod.splits if_splits dest: find_inode_pos)

text \<open>No call invents a positive return code.\<close>

lemma sys_rc_le:
  "sys_lsetxattr p a v w = (rc, w1) \<Longrightarrow> rc \<le> 0"
  "sys_lremovexattr p a w = (rc, w1) \<Longrightarrow> rc \<le> 0"
  "sys_symlink t p w = (rc, w1) \<Longrightarrow> rc \<le> 0"
  "sys_unlink p w = (rc, w1) \<Longrightarrow> rc \<le> 0"
  "sys_remove p w = (rc, w1) \<Longrightarrow> rc \<le> 0"
  "sys_creat x p w = (rc, w1) \<Longrightarrow> rc \<le> 0"
  by (auto simp: sys_lsetxattr_def sys_lremovexattr_def sys_symlink_def sys_unlink_def
        sys_remove_def sys_creat_def elim!: sys_cases split: option.splits if_splits)

text \<open>The entries a call can change: only the path it names.\<close>

lemma sys_fs_frame:
  "sys_lsetxattr p a v w = (rc, w1) \<Longrightarrow> q \<noteq> p \<Longrightarrow> fs w1 q = fs w q"
  "sys_lremovexattr p a w = (rc, w1) \<Longrightarrow> q \<noteq> p \<Longrightarrow> fs w1 q = fs w q"
  "sys_symlink t p w = (rc, w1) \<Longrightarrow> q \<noteq> p \<Longrightarrow> fs w1 q = fs w q"
  "sys_unlink p w = (rc, w1) \<Longrightarrow> q \<noteq> p \<Longrightarrow> fs w1 q = fs w q"
  "sys_remove p w = (rc, w1) \<Longrightarrow> q \<noteq> p \<Longrightarrow> fs w1 q = fs w q"
  "sys_creat x p w = (rc, w1) \<Longrightarrow> q \<noteq> p \<Longrightarrow> fs w1 q = fs w q"
  by (auto simp: sys_lsetxattr_def sys_lremovexattr_def sys_symlink_def sys_unlink_def
        sys_remove_def sys_creat_def elim!: sys_cases split: option.splits if_splits)

text \<open>A failed call has no effect on the files.\<close>

lemma sys_fail_same:
  "sys_lsetxattr p a v w = (rc, w1) \<Longrightarrow> rc < 0 \<Longrightarrow> fs w1 = fs w"
  "sys_lremovexattr p a w = (rc, w1) \<Longrightarrow> rc < 0 \<Longrightarrow> fs w1 = fs w"
  "sys_symlink t p w = (rc, w1) \<Longrightarrow> rc < 0 \<Longrightarrow> fs w1 = fs w"
  "sys_unlink p w = (rc, w1) \<Longrightarrow> rc < 0 \<Longrightarrow> fs w1 = fs w"
  "sys_remove p w = (rc, w1) \<Longrightarrow> rc < 0 \<Longrightarrow> fs w1 = fs w"
  "sys_creat x p w = (rc, w1) \<Longrightarrow> rc < 0 \<Longrightarrow> fs w1 = fs w"
  by (auto simp: sys_lsetxattr_def sys_lremovexattr_def sys_symlink_def sys_unlink_def
        sys_remove_def sys_creat_def elim!: sys_cases split: option.splits if_splits)

end
