(* ===== verification/Keyed_Set.thy ===== *)
theory Keyed_Set
  imports Main "HOL-Library.Multiset"
begin

text \<open>
  The contract the three collections of a session (permissions, paths, plugs) offer to
  the session context: a search by key, and an insertion that either adds exactly the
  given key or leaves the keys as they are. The client adds a key only after the search
  has failed; the library shows once that such a discipline never stores two equal keys.
\<close>

locale keyed_set =
  fixes has :: "'s \<Rightarrow> 'k \<Rightarrow> bool"
    and keys :: "'s \<Rightarrow> 'k list"
    and eq :: "'k \<Rightarrow> 'k \<Rightarrow> bool"
    and add :: "'s \<Rightarrow> 'k \<Rightarrow> 'v \<Rightarrow> 'w \<Rightarrow> int \<times> 's \<times> 'w"
  assumes has_iff: "has s k \<longleftrightarrow> (\<exists>q \<in> set (keys s). eq k q)"
    and eq_sym: "eq k q \<Longrightarrow> eq q k"
    and add_ok: "add s k v w = (rc, s', w') \<Longrightarrow> 0 \<le> rc \<Longrightarrow> \<not> has s k \<Longrightarrow>
           mset (keys s') = add_mset k (mset (keys s))"
    and add_fail: "add s k v w = (rc, s', w') \<Longrightarrow> rc < 0 \<Longrightarrow> keys s' = keys s"
begin

text \<open>No key is equal to another one of the collection.\<close>

definition unique_keys :: "'s \<Rightarrow> bool" where
  "unique_keys s \<longleftrightarrow> (\<forall>k. k \<in># mset (keys s) \<longrightarrow>
     (\<forall>q. q \<in># mset (keys s) - {#k#} \<longrightarrow> \<not> eq k q))"

lemma unique_keys_empty: "keys s = [] \<Longrightarrow> unique_keys s"
  by (simp add: unique_keys_def)

lemma unique_keys_distinct:
  assumes "unique_keys s" "\<And>k. eq k k"
  shows "distinct (keys s)"
proof (rule ccontr)
  assume "\<not> distinct (keys s)"
  then obtain xs ys zs y where d: "keys s = xs @ [y] @ ys @ [y] @ zs"
    using not_distinct_decomp by blast
  then have "y \<in># mset (keys s)" "y \<in># mset (keys s) - {#y#}" by simp_all
  then show False using assms by (auto simp: unique_keys_def)
qed

lemma unique_keys_add:
  assumes "add s k v w = (rc, s', w')" "\<not> has s k" "unique_keys s"
  shows "unique_keys s'"
proof (cases "rc < 0")
  case True
  then show ?thesis using assms add_fail by (simp add: unique_keys_def)
next
  case False
  then have m: "mset (keys s') = add_mset k (mset (keys s))"
    using assms add_ok[of s k v w rc s' w'] by simp
  have new: "\<not> eq k q \<and> \<not> eq q k" if "q \<in># mset (keys s)" for q
    using that assms(2) eq_sym has_iff[of s k] by auto
  show ?thesis
    unfolding unique_keys_def m
  proof (intro allI impI)
    fix a b
    assume a: "a \<in># add_mset k (mset (keys s))" and b: "b \<in># add_mset k (mset (keys s)) - {#a#}"
    show "\<not> eq a b"
    proof (cases "a = k")
      case True
      then show ?thesis using b new by simp
    next
      case False
      then have "a \<in># mset (keys s)" using a by simp
      moreover have "b = k \<or> b \<in># mset (keys s) - {#a#}"
        using b False by (auto simp: add_mset_remove_trivial_If add_mset_commute
            diff_add_mset_swap)
      ultimately show ?thesis using new assms(3) by (auto simp: unique_keys_def)
    qed
  qed
qed

lemma has_after_add:
  assumes "add s k v w = (rc, s', w')" "0 \<le> rc" "\<not> has s k" "eq k k"
  shows "has s' k"
proof -
  have "k \<in># mset (keys s')" using add_ok[OF assms(1-3)] by simp
  then show ?thesis using assms(4) has_iff by auto
qed

lemma has_mono:
  assumes "add s k v w = (rc, s', w')" "\<not> has s k" "has s q"
  shows "has s' q"
proof (cases "rc < 0")
  case True
  then show ?thesis using add_fail[OF assms(1)] assms(3) has_iff by auto
next
  case False
  then have "mset (keys s') = add_mset k (mset (keys s))"
    using add_ok[OF assms(1)] assms(2) by simp
  then have "set (keys s') = insert k (set (keys s))"
    by (metis set_mset_add_mset_insert set_mset_mset)
  then show ?thesis using assms(3) has_iff by auto
qed

end

end
