(* ===== verification/Permissions.thy ===== *)
theory Permissions
  imports World Keyed_Set
begin

text \<open>
  \<open>src/context/permissions.c\<close>: the set of permissions of a session. The array grows by
  blocks of 8 pointers; \<open>slots\<close> is the number of pointers allocated, so that the store
  at index \<open>size\<close> can be shown to be inside the array. Permissions are compared with
  \<open>strcasecmp\<close> (the default, \<open>PERMISSIONS_DISTINCT_CASE\<close> unset).
\<close>

record permission_set =
  permissions :: "string list"
  slots :: nat

definition permission_set_init :: permission_set where
  "permission_set_init = \<lparr>permissions = [], slots = 0\<rparr>"

text \<open>The loop pops and frees every item, then the array.\<close>

definition permission_set_clear :: "permission_set \<Rightarrow> permission_set" where
  "permission_set_clear s = s\<lparr>permissions := [], slots := 0\<rparr>"

fun permission_find :: "string \<Rightarrow> string list \<Rightarrow> bool" where
  "permission_find permission [] = False"
| "permission_find permission (p # ps) =
     (if case_eq permission p then True else permission_find permission ps)"

definition permission_set_has :: "permission_set \<Rightarrow> string \<Rightarrow> bool" where
  "permission_set_has s permission = permission_find permission (permissions s)"

definition permission_set_add ::
  "permission_set \<Rightarrow> string \<Rightarrow> 'z wstate \<Rightarrow> int \<times> permission_set \<times> 'z wstate" where
  "permission_set_add s permission w =
     (if permission_set_has s permission then (0, s, w)
      else if length permission < MIN_SIZE_PERMISSION
              \<or> length permission > MAX_SIZE_PERMISSION then (- EINVAL, s, w)
      else
        case sys_malloc w of (ok, w1) \<Rightarrow>
          if \<not> ok then (- ENOMEM, s, w1)
          else
            let n = length (permissions s) in
            if n mod 8 = 0 then
              (case sys_malloc w1 of (ok, w2) \<Rightarrow>
                 if \<not> ok then (- ENOMEM, s, w2)
                 else (0, s\<lparr>slots := n + 8, permissions := permissions s @ [permission]\<rparr>, w2))
            else (0, s\<lparr>permissions := permissions s @ [permission]\<rparr>, w1))"

section \<open>Invariant\<close>

definition permission_set_inv :: "permission_set \<Rightarrow> bool" where
  "permission_set_inv s \<longleftrightarrow>
     slots s = 8 * ((length (permissions s) + 7) div 8)
     \<and> (\<forall>p \<in> set (permissions s). MIN_SIZE_PERMISSION \<le> length p \<and> length p \<le> MAX_SIZE_PERMISSION)"

lemma permission_find_iff: "permission_find p ps \<longleftrightarrow> (\<exists>q \<in> set ps. case_eq p q)"
  by (induction ps) auto

lemma permission_set_has_iff:
  "permission_set_has s p \<longleftrightarrow> (\<exists>q \<in> set (permissions s). case_eq p q)"
  by (simp add: permission_set_has_def permission_find_iff)

lemma permission_set_init_inv [inv_intros]: "permission_set_inv permission_set_init"
  by (simp add: permission_set_inv_def permission_set_init_def)

lemma permission_set_clear_inv [inv_intros]: "permission_set_inv (permission_set_clear s)"
  by (simp add: permission_set_inv_def permission_set_clear_def)

lemma permission_set_add_cases:
  assumes "permission_set_add s p w = (rc, s', w')"
  obtains (present) "permission_set_has s p" "rc = 0" "s' = s"
  | (bad) "\<not> permission_set_has s p" "rc = - EINVAL" "s' = s"
      "length p < MIN_SIZE_PERMISSION \<or> length p > MAX_SIZE_PERMISSION"
  | (nomem) "\<not> permission_set_has s p" "rc = - ENOMEM" "s' = s"
  | (added) "\<not> permission_set_has s p" "rc = 0" "permissions s' = permissions s @ [p]"
      "slots s' = (if length (permissions s) mod 8 = 0 then length (permissions s) + 8 else slots s)"
      "MIN_SIZE_PERMISSION \<le> length p" "length p \<le> MAX_SIZE_PERMISSION"
proof (cases "permission_set_has s p")
  case True
  then have "rc = 0" "s' = s" using assms by (auto simp: permission_set_add_def)
  with True show ?thesis by (rule present)
next
  case new: False
  show ?thesis
  proof (cases "length p < MIN_SIZE_PERMISSION \<or> length p > MAX_SIZE_PERMISSION")
    case True
    then have "rc = - EINVAL" "s' = s" using assms new by (auto simp: permission_set_add_def)
    with True show ?thesis by (intro bad[OF new])
  next
    case False
    then have "rc = - ENOMEM \<and> s' = s
      \<or> rc = 0 \<and> permissions s' = permissions s @ [p] \<and> slots s' =
          (if length (permissions s) mod 8 = 0 then length (permissions s) + 8 else slots s)"
      using assms new
      by (simp add: permission_set_add_def Let_def split: prod.splits if_splits) auto
    with False show ?thesis using nomem[OF new] added[OF new] by linarith
  qed
qed

lemma permission_set_add_inv [inv_intros]:
  assumes "permission_set_add s p w = (rc, s', w')" "permission_set_inv s"
  shows "permission_set_inv s'"
  using assms(1)
proof (cases rule: permission_set_add_cases)
  case added
  then show ?thesis
    using assms(2) blocks8_Suc[of "length (permissions s)"] by (auto simp: permission_set_inv_def)
qed (use assms(2) in simp_all)

text \<open>The store of the new pointer is inside the array.\<close>

lemma permission_set_add_in_bounds:
  assumes "permission_set_add s p w = (rc, s', w')" "permission_set_inv s"
  shows "length (permissions s') \<le> slots s'"
  using permission_set_add_inv[OF assms] blocks8_ge by (simp add: permission_set_inv_def)

interpretation perm_set: keyed_set
  "\<lambda>s p. permission_set_has s p" permissions "\<lambda>p q. case_eq p q"
  "\<lambda>s p (_::unit) w. permission_set_add s p w"
proof unfold_locales
  fix s s' :: permission_set and p rc and w w' :: "'a wstate" and u :: unit
  assume add: "permission_set_add s p w = (rc, s', w')"
  show "mset (permissions s') = add_mset p (mset (permissions s))"
    if "0 \<le> rc" "\<not> permission_set_has s p"
    using add that by (cases rule: permission_set_add_cases) simp_all
  show "permissions s' = permissions s" if "rc < 0"
    using add that by (cases rule: permission_set_add_cases) simp_all
qed (auto simp: case_eq_def permission_set_has_iff)

end
