(* ===== verification/Paths.thy ===== *)
theory Paths
  imports World Keyed_Set
begin

text \<open>
  \<open>src/context/paths.c\<close> and \<open>paths.h\<close>: the typed paths of a session. The enumeration
  keeps the order of the code, which its validity test compares; the search of a type by
  name walks the table of names downwards, as the code does.
\<close>

section \<open>Path types\<close>

datatype path_type =
  type_unset | type_default | type_conf | type_data | type_exec | type_http | type_icon
  | type_id | type_lib | type_plug | type_public | number_path_type

fun path_type_index :: "path_type \<Rightarrow> nat" where
  "path_type_index type_unset = 0"
| "path_type_index type_default = 1"
| "path_type_index type_conf = 2"
| "path_type_index type_data = 3"
| "path_type_index type_exec = 4"
| "path_type_index type_http = 5"
| "path_type_index type_icon = 6"
| "path_type_index type_id = 7"
| "path_type_index type_lib = 8"
| "path_type_index type_plug = 9"
| "path_type_index type_public = 10"
| "path_type_index number_path_type = 11"

definition all_path_types :: "path_type list" where
  "all_path_types = [type_unset, type_default, type_conf, type_data, type_exec, type_http,
     type_icon, type_id, type_lib, type_plug, type_public, number_path_type]"

text \<open>The order of the enumerators is the order of their values.\<close>

instantiation path_type :: linorder
begin

definition less_eq_path_type :: "path_type \<Rightarrow> path_type \<Rightarrow> bool" where
  "less_eq_path_type s t \<longleftrightarrow> path_type_index s \<le> path_type_index t"

definition less_path_type :: "path_type \<Rightarrow> path_type \<Rightarrow> bool" where
  "less_path_type s t \<longleftrightarrow> path_type_index s < path_type_index t"

instance
proof
  fix x y :: path_type
  show "x \<le> y \<Longrightarrow> y \<le> x \<Longrightarrow> x = y"
    by (cases x; cases y) (simp_all add: less_eq_path_type_def)
qed (auto simp: less_eq_path_type_def less_path_type_def)

end

definition type_strings :: "string list" where
  "type_strings = [''<unset>'', ''default'', ''conf'', ''data'', ''exec'', ''http'', ''icon'',
     ''id'', ''lib'', ''plug'', ''public'']"

definition path_type_is_valid :: "path_type \<Rightarrow> bool" where
  "path_type_is_valid t \<longleftrightarrow> t > type_unset \<and> t < number_path_type"

text \<open>\<open>while (--type != type_unset && strcmp (s, type_strings[type]) != 0);\<close>\<close>

fun path_type_search :: "string \<Rightarrow> nat \<Rightarrow> nat" where
  "path_type_search s 0 = 0"
| "path_type_search s (Suc t) =
     (if t \<noteq> 0 \<and> s \<noteq> type_strings ! t then path_type_search s t else t)"

definition path_type_get :: "string \<Rightarrow> path_type" where
  "path_type_get s = all_path_types ! path_type_search s (path_type_index number_path_type)"

definition path_type_name :: "path_type \<Rightarrow> string" where
  "path_type_name t =
     (if t \<ge> type_unset \<and> t < number_path_type then type_strings ! path_type_index t
      else ''invalid'')"

section \<open>The set of paths\<close>

record path_t =
  path_type :: path_type
  path :: string

type_synonym path_set = "path_t list"

definition path_set_init :: path_set where
  "path_set_init = []"

definition path_set_clear :: "path_set \<Rightarrow> path_set" where
  "path_set_clear s = []"

fun path_set_search :: "path_set \<Rightarrow> string \<Rightarrow> path_t option" where
  "path_set_search [] p = None"
| "path_set_search (i # s) p = (if p = path i then Some i else path_set_search s p)"

definition path_set_has :: "path_set \<Rightarrow> string \<Rightarrow> bool" where
  "path_set_has s p \<longleftrightarrow> path_set_search s p \<noteq> None"

definition path_set_add ::
  "path_set \<Rightarrow> string \<Rightarrow> path_type \<Rightarrow> 'z wstate \<Rightarrow> int \<times> path_set \<times> 'z wstate" where
  "path_set_add s p t w =
     (if length p < 1 \<or> length p \<ge> MAX_SIZE_PATH then (- EINVAL, s, w)
      else if \<not> path_type_is_valid t then (- EINVAL, s, w)
      else
        case sys_malloc w of (ok, w1) \<Rightarrow>
          if \<not> ok then (- ENOMEM, s, w1)
          else case sys_malloc w1 of (ok2, w2) \<Rightarrow>
            if \<not> ok2 then (- ENOMEM, s, w2)
            else (0, s @ [\<lparr>path_type = t, path = p\<rparr>], w2))"

section \<open>Names and types\<close>

lemma path_type_valid_iff: "path_type_is_valid t \<longleftrightarrow> t \<noteq> type_unset \<and> t \<noteq> number_path_type"
  by (cases t) (simp_all add: path_type_is_valid_def less_path_type_def)

lemma path_type_ex:
  "(\<exists>t. P t) \<longleftrightarrow> P type_unset \<or> P type_default \<or> P type_conf \<or> P type_data \<or> P type_exec
     \<or> P type_http \<or> P type_icon \<or> P type_id \<or> P type_lib \<or> P type_plug \<or> P type_public
     \<or> P number_path_type" (is "?l \<longleftrightarrow> ?r")
proof
  assume ?l
  then obtain t where "P t" by blast
  then show ?r by (cases t) blast+
qed blast

lemma path_type_get_eval:
  "path_type_get s =
     (if s = ''public'' then type_public else if s = ''plug'' then type_plug
      else if s = ''lib'' then type_lib else if s = ''id'' then type_id
      else if s = ''icon'' then type_icon else if s = ''http'' then type_http
      else if s = ''exec'' then type_exec else if s = ''data'' then type_data
      else if s = ''conf'' then type_conf else if s = ''default'' then type_default
      else type_unset)"
  by (simp add: path_type_get_def type_strings_def all_path_types_def eval_nat_numeral)

lemma path_type_name_eval [simp]:
  "path_type_name type_default = ''default''" "path_type_name type_conf = ''conf''"
  "path_type_name type_data = ''data''" "path_type_name type_exec = ''exec''"
  "path_type_name type_http = ''http''" "path_type_name type_icon = ''icon''"
  "path_type_name type_id = ''id''" "path_type_name type_lib = ''lib''"
  "path_type_name type_plug = ''plug''" "path_type_name type_public = ''public''"
  "path_type_name number_path_type = ''invalid''" "path_type_name type_unset = ''<unset>''"
  by (simp_all add: path_type_name_def type_strings_def less_eq_path_type_def less_path_type_def
       eval_nat_numeral)

text \<open>
  The name of a type and the search by name are inverse of each other: the search
  returns a valid type exactly for its name, and \<open>type_unset\<close>, which the requests refuse,
  for every other text, \<open><unset>\<close> included.
\<close>

theorem path_type_get_iff_name:
  "path_type_get s = t \<longleftrightarrow>
     (if path_type_is_valid t then s = path_type_name t
      else t = type_unset \<and> \<not> (\<exists>u. path_type_is_valid u \<and> s = path_type_name u))"
  unfolding path_type_ex by (cases t) (auto simp: path_type_get_eval path_type_valid_iff)

section \<open>The set\<close>

definition path_set_inv :: "path_set \<Rightarrow> bool" where
  "path_set_inv s \<longleftrightarrow> (\<forall>i \<in> set s. path_type_is_valid (path_type i)
     \<and> 1 \<le> length (path i) \<and> length (path i) < MAX_SIZE_PATH)"

lemma path_set_has_iff: "path_set_has s p \<longleftrightarrow> (\<exists>i \<in> set s. path i = p)"
  unfolding path_set_has_def by (induction s) auto

lemma path_set_init_inv [inv_intros]: "path_set_inv path_set_init"
  by (simp add: path_set_inv_def path_set_init_def)

lemma path_set_clear_inv [inv_intros]: "path_set_inv (path_set_clear s)"
  by (simp add: path_set_inv_def path_set_clear_def)

lemma path_set_add_cases:
  assumes "path_set_add s p t w = (rc, s', w')"
  obtains (fail) "rc < 0" "s' = s"
  | (added) "rc = 0" "s' = s @ [\<lparr>path_type = t, path = p\<rparr>]" "path_type_is_valid t"
      "1 \<le> length p" "length p < MAX_SIZE_PATH"
proof -
  have "rc < 0 \<and> s' = s \<or> rc = 0 \<and> s' = s @ [\<lparr>path_type = t, path = p\<rparr>] \<and> path_type_is_valid t
      \<and> 1 \<le> length p \<and> length p < MAX_SIZE_PATH"
    using assms by (auto simp: path_set_add_def Suc_le_eq split: prod.splits if_splits)
  then show ?thesis using fail added by blast
qed

lemma path_set_add_inv [inv_intros]:
  assumes "path_set_add s p t w = (rc, s', w')" "path_set_inv s"
  shows "path_set_inv s'"
  using assms(1)
proof (cases rule: path_set_add_cases)
  case added
  then show ?thesis using assms(2) by (simp add: path_set_inv_def)
qed (use assms(2) in simp)

interpretation path_keys: keyed_set path_set_has "map path" "(=)" path_set_add
proof unfold_locales
  fix s s' :: path_set and p t rc and w w' :: "'a wstate"
  assume add: "path_set_add s p t w = (rc, s', w')"
  show "mset (map path s') = add_mset p (mset (map path s))" if "0 \<le> rc" "\<not> path_set_has s p"
    using add that by (cases rule: path_set_add_cases) simp_all
  show "map path s' = map path s" if "rc < 0"
    using add that by (cases rule: path_set_add_cases) simp_all
qed (auto simp: path_set_has_iff)

end
