(* ===== verification/Plugs.thy ===== *)
theory Plugs
  imports World Keyed_Set
begin

text \<open>
  \<open>src/context/plugs.c\<close>: the plugs of a session, a linked list that grows at its head.
  The search takes optional criteria, a NULL pointer being \<open>None\<close>.
\<close>

record plug =
  expdir :: string
  impid :: string
  impdir :: string

text \<open>The list from the head, following \<open>next\<close>.\<close>

type_synonym plugset = "plug list"

definition plugset_init :: plugset where
  "plugset_init = []"

text \<open>Unlink and free the head until the list is empty.\<close>

fun plugset_clear :: "plugset \<Rightarrow> plugset" where
  "plugset_clear [] = []"
| "plugset_clear (plug # next) = plugset_clear next"

definition plugset_add ::
  "plugset \<Rightarrow> string \<Rightarrow> string \<Rightarrow> string \<Rightarrow> 'z wstate \<Rightarrow> int \<times> plugset \<times> 'z wstate" where
  "plugset_add s exp iid imp w =
     (if length exp < 1 \<or> length exp > MAX_SIZE_PATH
         \<or> length imp < 1 \<or> length imp > MAX_SIZE_PATH
         \<or> length iid < MIN_SIZE_ID \<or> length iid > MAX_SIZE_ID then (- EINVAL, s, w)
      else
        case sys_malloc w of (ok, w1) \<Rightarrow>
          if \<not> ok then (- ENOMEM, s, w1)
          else (0, \<lparr>expdir = exp, impid = iid, impdir = imp\<rparr> # s, w1))"

definition differs :: "string option \<Rightarrow> string \<Rightarrow> bool" where
  "differs crit v = (case crit of None \<Rightarrow> False | Some c \<Rightarrow> v \<noteq> c)"

fun plug_search ::
  "plugset \<Rightarrow> string option \<Rightarrow> string option \<Rightarrow> string option \<Rightarrow> plug option" where
  "plug_search [] exp iid imp = None"
| "plug_search (p # s) exp iid imp =
     (if differs exp (expdir p) \<or> differs iid (impid p) \<or> differs imp (impdir p)
      then plug_search s exp iid imp else Some p)"

definition plugset_has ::
  "plugset \<Rightarrow> string option \<Rightarrow> string option \<Rightarrow> string option \<Rightarrow> bool" where
  "plugset_has s exp iid imp \<longleftrightarrow> plug_search s exp iid imp \<noteq> None"

section \<open>Invariant and contract\<close>

definition plugset_inv :: "plugset \<Rightarrow> bool" where
  "plugset_inv s \<longleftrightarrow> (\<forall>p \<in> set s.
     1 \<le> length (expdir p) \<and> length (expdir p) \<le> MAX_SIZE_PATH
     \<and> 1 \<le> length (impdir p) \<and> length (impdir p) \<le> MAX_SIZE_PATH
     \<and> MIN_SIZE_ID \<le> length (impid p) \<and> length (impid p) \<le> MAX_SIZE_ID)"

lemma plug_search_iff:
  "plug_search s exp iid imp \<noteq> None \<longleftrightarrow>
     (\<exists>p \<in> set s. \<not> differs exp (expdir p) \<and> \<not> differs iid (impid p) \<and> \<not> differs imp (impdir p))"
  by (induction s) auto

lemma plugset_has_impdir: "plugset_has s None None (Some d) \<longleftrightarrow> (\<exists>p \<in> set s. impdir p = d)"
  unfolding plugset_has_def plug_search_iff by (auto simp: differs_def)

lemma plugset_clear_Nil [simp]: "plugset_clear s = []"
  by (induction s) auto

lemma plugset_init_inv [inv_intros]: "plugset_inv plugset_init"
  by (simp add: plugset_inv_def plugset_init_def)

lemma plugset_clear_inv [inv_intros]: "plugset_inv (plugset_clear s)"
  by (simp add: plugset_inv_def)

lemma plugset_add_cases:
  assumes "plugset_add s exp iid imp w = (rc, s', w')"
  obtains (fail) "rc < 0" "s' = s"
  | (added) "rc = 0" "s' = \<lparr>expdir = exp, impid = iid, impdir = imp\<rparr> # s"
      "1 \<le> length exp" "length exp \<le> MAX_SIZE_PATH" "1 \<le> length imp"
      "length imp \<le> MAX_SIZE_PATH" "MIN_SIZE_ID \<le> length iid" "length iid \<le> MAX_SIZE_ID"
proof (cases "rc < 0")
  case True
  then have "s' = s"
    using assms by (auto simp: plugset_add_def split: prod.splits if_splits)
  with True show ?thesis by (rule fail)
next
  case False
  then have "rc = 0 \<and> s' = \<lparr>expdir = exp, impid = iid, impdir = imp\<rparr> # s
      \<and> 1 \<le> length exp \<and> length exp \<le> MAX_SIZE_PATH \<and> 1 \<le> length imp
      \<and> length imp \<le> MAX_SIZE_PATH \<and> MIN_SIZE_ID \<le> length iid \<and> length iid \<le> MAX_SIZE_ID"
    using assms by (auto simp: plugset_add_def not_less Suc_le_eq split: prod.splits if_splits)
  then show ?thesis by (intro added) blast+
qed

lemma plugset_add_inv [inv_intros]:
  assumes "plugset_add s exp iid imp w = (rc, s', w')" "plugset_inv s"
  shows "plugset_inv s'"
  using assms(1)
proof (cases rule: plugset_add_cases)
  case added
  then show ?thesis using assms(2) by (simp add: plugset_inv_def)
qed (use assms(2) in simp)

interpretation plug_keys: keyed_set
  "\<lambda>s d. plugset_has s None None (Some d)" "map impdir" "(=)"
  "\<lambda>s d (exp, iid) w. plugset_add s exp iid d w"
proof unfold_locales
  fix s s' :: plugset and d rc and v :: "string \<times> string" and w w' :: "'a wstate"
  obtain exp iid where v: "v = (exp, iid)" by fastforce
  assume "(case v of (exp, iid) \<Rightarrow> plugset_add s exp iid d) w = (rc, s', w')"
  then have add: "plugset_add s exp iid d w = (rc, s', w')" by (simp add: v)
  show "mset (map impdir s') = add_mset d (mset (map impdir s))"
    if "0 \<le> rc" "\<not> plugset_has s None None (Some d)"
    using add that by (cases rule: plugset_add_cases) simp_all
  show "map impdir s' = map impdir s" if "rc < 0"
    using add that by (cases rule: plugset_add_cases) simp_all
qed (auto simp: plugset_has_impdir)

end
