(* ===== verification/Path_Utils.thy ===== *)
theory Path_Utils
  imports Prelude
begin

text \<open>
  \<open>src/path-utils.c\<close>: \<open>path_std\<close>, the normalisation every path of a request goes
  through. The loop keeps the code's variables: the length written so far, the pending
  slash \<open>ps\<close>, the start-of-component flag \<open>sd\<close>, whether the path is absolute
  (\<open>fps\<close>) and the output buffer of fixed size. It is shown to compute, for absolute
  paths, the component-wise normalisation \<open>std_abs\<close>, and to stay within its buffer.
\<close>

section \<open>The code\<close>

text \<open>\<open>if (len < size) buffer[len] = c\<close>\<close>

definition put_at :: "char list \<Rightarrow> nat \<Rightarrow> char \<Rightarrow> char list" where
  "put_at buf len c = (if len < length buf then buf[len := c] else buf)"

text \<open>\<open>while (len > 0 && buffer[--len] != '/');\<close>\<close>

fun back_to_slash :: "char list \<Rightarrow> nat \<Rightarrow> nat" where
  "back_to_slash buf 0 = 0"
| "back_to_slash buf (Suc len) =
     (if buf ! len \<noteq> SLASH then back_to_slash buf len else len)"

text \<open>
  The loop. \<open>path\<close> is the rest of the path; \<open>rd path i\<close> is \<open>path[i]\<close>, NUL at its end.
  The result is the returned length and the buffer.
\<close>

function path_std_loop ::
  "bool \<Rightarrow> string \<Rightarrow> char list \<Rightarrow> nat \<Rightarrow> bool \<Rightarrow> bool \<Rightarrow> nat \<times> char list" where
  "path_std_loop fps path buf len ps sd =
     (if rd path 0 = SLASH then path_std_loop fps (drop 1 path) buf len True True
      else if sd \<and> rd path 0 = CHR ''.'' \<and> (rd path 1 = SLASH \<or> rd path 1 = NUL) then
        path_std_loop fps (drop (if rd path 1 \<noteq> NUL then 2 else 1) path) buf len ps sd
      else if sd \<and> rd path 0 = CHR ''.'' \<and> rd path 1 = CHR ''.''
              \<and> (rd path 2 = SLASH \<or> rd path 2 = NUL) then
        (let len' = (if len \<le> length buf then back_to_slash buf len else len)
         in path_std_loop fps (drop (if rd path 2 \<noteq> NUL then 3 else 2) path)
              buf len' (len' > 0 \<or> fps) sd)
      else
        (let slash = ps \<and> (rd path 0 \<noteq> NUL \<or> len = 0);
             buf1 = (if slash then put_at buf len SLASH else buf);
             len1 = (if slash then len + 1 else len);
             buf2 = put_at buf1 len1 (rd path 0)
         in if rd path 0 = NUL then
              (if len1 = 0 then (1, put_at (put_at buf2 0 (CHR ''.'')) 1 NUL)
               else (len1, buf2))
            else path_std_loop fps (drop 1 path) buf2 (len1 + 1) False False))"
  by pat_completeness auto
termination
  by (relation "measure (\<lambda>(_, path, _). length path)") (auto simp: rd_def split: if_splits)

declare path_std_loop.simps [simp del]

definition path_std :: "char list \<Rightarrow> string \<Rightarrow> nat \<times> char list" where
  "path_std buf path = path_std_loop (rd path 0 = SLASH) path buf 0 False True"

section \<open>The specification: normalisation by components\<close>

fun comps :: "string \<Rightarrow> string list" where
  "comps [] = [[]]"
| "comps (c # s) =
     (if c = SLASH then [] # comps s
      else (c # hd (comps s)) # tl (comps s))"

text \<open>One component: empty and \<open>.\<close> are dropped, \<open>..\<close> removes the last one kept.\<close>

definition add_comp :: "string list \<Rightarrow> string \<Rightarrow> string list" where
  "add_comp acc c =
     (if c = [] \<or> c = ''.'' then acc else if c = ''..'' then butlast acc else acc @ [c])"

fun join_comps :: "string list \<Rightarrow> string" where
  "join_comps [] = []"
| "join_comps (c # cs) = SLASH # c @ join_comps cs"

definition norm_comps :: "string list \<Rightarrow> string \<Rightarrow> string list" where
  "norm_comps acc p = foldl add_comp acc (comps p)"

definition show_abs :: "string list \<Rightarrow> string" where
  "show_abs cs = (if cs = [] then [SLASH] else join_comps cs)"

definition std_abs :: "string \<Rightarrow> string" where
  "std_abs p = show_abs (norm_comps [] p)"

definition good_comp :: "string \<Rightarrow> bool" where
  "good_comp c \<longleftrightarrow> c \<noteq> [] \<and> c \<noteq> ''.'' \<and> c \<noteq> ''..'' \<and> SLASH \<notin> set c"

section \<open>Facts about the specification\<close>

lemma comps_ne [simp]: "comps s \<noteq> []"
  by (cases s) auto

lemma comps_no_slash: "c \<in> set (comps s) \<Longrightarrow> SLASH \<notin> set c"
proof (induction s arbitrary: c)
  case (Cons a s)
  then show ?case
    by (cases "comps s") (auto split: if_splits)
qed auto

lemma join_comps_append [simp]: "join_comps (a @ b) = join_comps a @ join_comps b"
  by (induction a) auto

lemma add_comp_good:
  "list_all good_comp acc \<Longrightarrow> SLASH \<notin> set c \<Longrightarrow> list_all good_comp (add_comp acc c)"
  by (auto simp: add_comp_def good_comp_def list_all_iff dest: in_set_butlastD)

lemma norm_comps_good: "list_all good_comp acc \<Longrightarrow> list_all good_comp (norm_comps acc p)"
proof -
  have "list_all good_comp (foldl add_comp acc cs)"
    if "list_all good_comp acc" "\<forall>c \<in> set cs. SLASH \<notin> set c" for cs acc
    using that by (induction cs arbitrary: acc) (auto intro: add_comp_good)
  then show "list_all good_comp acc \<Longrightarrow> list_all good_comp (norm_comps acc p)"
    by (simp add: norm_comps_def comps_no_slash)
qed

lemma comps_append_noslash:
  "SLASH \<notin> set c \<Longrightarrow> comps (c @ s) = (c @ hd (comps s)) # tl (comps s)"
  by (induction c) auto

lemma comps_noslash: "SLASH \<notin> set c \<Longrightarrow> comps c = [c]"
  by (induction c) auto

lemma comps_join: "list_all good_comp cs \<Longrightarrow> cs \<noteq> [] \<Longrightarrow> comps (join_comps cs) = [] # cs"
proof (induction cs)
  case (Cons c cs)
  then have "SLASH \<notin> set c" by (simp add: good_comp_def)
  then show ?case
    using Cons by (cases cs) (simp_all add: comps_append_noslash comps_noslash)
qed simp

lemma fold_good: "list_all good_comp cs \<Longrightarrow> foldl add_comp acc cs = acc @ cs"
  by (induction cs arbitrary: acc) (auto simp: add_comp_def good_comp_def)

lemma norm_comps_show: "list_all good_comp cs \<Longrightarrow> norm_comps [] (show_abs cs) = cs"
  by (cases "cs = []")
     (auto simp: show_abs_def norm_comps_def comps_join fold_good add_comp_def)

lemma comps_chars: "c \<in> set (comps p) \<Longrightarrow> set c \<subseteq> set p"
proof (induction p arbitrary: c)
  case (Cons a p)
  have "set (hd (comps p)) \<subseteq> set p" by (rule Cons.IH) simp
  moreover have "c \<in> set (comps p)" if "c \<in> set (tl (comps p))"
    using that by (cases "comps p") auto
  ultimately show ?case
    using Cons.prems Cons.IH[of c] by (auto split: if_splits)
qed simp

lemma norm_comps_chars: "c \<in> set (norm_comps [] p) \<Longrightarrow> set c \<subseteq> set p"
proof -
  have "set c \<subseteq> A"
    if "c \<in> set (foldl add_comp acc cs)" "\<forall>d \<in> set cs. set d \<subseteq> A" "\<forall>d \<in> set acc. set d \<subseteq> A"
    for A and acc cs :: "string list"
    using that
  proof (induction cs arbitrary: acc)
    case (Cons d cs)
    have "\<forall>e \<in> set (add_comp acc d). set e \<subseteq> A"
      using Cons.prems(2,3) by (auto simp: add_comp_def dest!: in_set_butlastD)
    then show ?case using Cons.IH[of "add_comp acc d"] Cons.prems(1,2) by simp
  qed simp
  then show "c \<in> set (norm_comps [] p) \<Longrightarrow> set c \<subseteq> set p"
    unfolding norm_comps_def using comps_chars by (metis empty_iff empty_set)
qed

lemma no_nul_std_abs: "no_nul p \<Longrightarrow> no_nul (std_abs p)"
proof -
  have "no_nul (join_comps cs)" if "\<forall>c \<in> set cs. no_nul c" for cs
    using that by (induction cs) auto
  moreover assume "no_nul p"
  then have "\<forall>c \<in> set (norm_comps [] p). no_nul c"
    using norm_comps_chars by (auto simp: no_nul_def)
  ultimately show ?thesis by (auto simp: std_abs_def show_abs_def)
qed

lemma std_abs_idem: "std_abs (std_abs p) = std_abs p"
  by (simp add: std_abs_def norm_comps_show norm_comps_good)

section \<open>The loop follows the specification\<close>

lemma length_put_at [simp]: "length (put_at buf len c) = length buf"
  by (simp add: put_at_def)

lemma back_to_slash_le: "back_to_slash buf len \<le> len"
  by (induction buf len rule: back_to_slash.induct) auto

text \<open>Once the length has passed the size, nothing brings it back.\<close>

lemma path_std_loop_overflow:
  "length buf < len \<Longrightarrow> length buf < fst (path_std_loop fps path buf len ps sd)"
proof (induction fps path buf len ps sd rule: path_std_loop.induct)
  case (1 fps path buf len ps sd)
  show ?case
    apply (subst path_std_loop.simps)
    using 1 by (cases ps) (simp_all add: Let_def)
qed

lemma path_std_loop_length:
  "length (snd (path_std_loop fps path buf len ps sd)) = length buf"
proof (induction fps path buf len ps sd rule: path_std_loop.induct)
  case (1 fps path buf len ps sd)
  show ?case
    apply (subst path_std_loop.simps)
    using 1 by (cases ps) (simp_all add: Let_def)
qed

lemma loop_slash:
  "path_std_loop fps (SLASH # p) buf len ps sd = path_std_loop fps p buf len True True"
  by (subst path_std_loop.simps) simp

lemma loop_end:
  "path_std_loop fps [] buf len ps sd =
     (let len1 = (if ps \<and> len = 0 then 1 else len);
          buf2 = put_at (if ps \<and> len = 0 then put_at buf 0 SLASH else buf) len1 NUL
      in if len1 = 0 then (1, put_at (put_at buf2 0 (CHR ''.'')) 1 NUL) else (len1, buf2))"
  by (subst path_std_loop.simps) (simp add: Let_def)

lemma loop_dot:
  "q = [] \<or> hd q = SLASH \<Longrightarrow>
   path_std_loop fps (CHR ''.'' # q) buf len ps True = path_std_loop fps (tl q) buf len ps True"
  by (subst path_std_loop.simps, cases q) (auto simp: drop_Suc)

lemma loop_dotdot:
  "q = [] \<or> hd q = SLASH \<Longrightarrow> len \<le> length buf \<Longrightarrow>
   path_std_loop True (CHR ''.'' # CHR ''.'' # q) buf len ps True =
   path_std_loop True (tl q) buf (back_to_slash buf len) True True"
  by (subst path_std_loop.simps, cases q) (auto simp: numeral_2_eq_2 numeral_3_eq_3 Let_def)

text \<open>The characters of a component, after the first one, are copied as they are.\<close>

fun put_all :: "char list \<Rightarrow> nat \<Rightarrow> string \<Rightarrow> char list" where
  "put_all buf len [] = buf"
| "put_all buf len (c # s) = put_all (put_at buf len c) (Suc len) s"

lemma length_put_all [simp]: "length (put_all buf len s) = length buf"
  by (induction buf len s rule: put_all.induct) auto

lemma take_put_all:
  "len + length s \<le> length buf \<Longrightarrow>
   take (len + length s) (put_all buf len s) = take len buf @ s"
proof (induction buf len s rule: put_all.induct)
  case (2 buf len c s)
  then have "take (Suc len) (put_at buf len c) = take len buf @ [c]"
    by (simp add: put_at_def take_list_update_extend)
  with 2 show ?case by simp
qed simp

lemma loop_chars:
  "SLASH \<notin> set c \<Longrightarrow> no_nul c \<Longrightarrow>
   path_std_loop fps (c @ q) buf len False False =
   path_std_loop fps q (put_all buf len c) (len + length c) False False"
proof (induction c arbitrary: buf len)
  case (Cons x c)
  then show ?case
    by (subst path_std_loop.simps) (auto simp: Let_def)
qed simp

lemma good_comp_not_dot:
  assumes "good_comp (x # c)" "q = [] \<or> hd q = SLASH"
  shows "\<not> (x = CHR ''.'' \<and> (rd (c @ q) 0 = SLASH \<or> (c @ q) = []))"
    and "\<not> (x = CHR ''.'' \<and> rd (c @ q) 0 = CHR ''.'' \<and>
            (rd (c @ q) (Suc 0) = SLASH \<or> length (c @ q) \<le> Suc 0))"
  using assms by (cases c; cases "tl c"; cases q; auto simp: good_comp_def)+

lemma rd_nul_iff: "no_nul p \<Longrightarrow> rd p i = NUL \<longleftrightarrow> length p \<le> i"
  by (auto simp: rd_def no_nul_def) (metis nth_mem)

lemma loop_comp:
  assumes "good_comp c" "no_nul (c @ q)" "q = [] \<or> hd q = SLASH"
  shows "path_std_loop fps (c @ q) buf len True True =
         path_std_loop fps q (put_all buf len (SLASH # c)) (len + Suc (length c)) False False"
proof -
  obtain x c' where c: "c = x # c'" using assms(1) by (cases c) (auto simp: good_comp_def)
  have x: "x \<noteq> SLASH" "x \<noteq> NUL" "SLASH \<notin> set c'" "no_nul c'" "no_nul (c' @ q)"
    using assms by (auto simp: good_comp_def c)
  have "path_std_loop fps (x # c' @ q) buf len True True =
        path_std_loop fps (c' @ q) (put_at (put_at buf len SLASH) (Suc len) x)
          (Suc (Suc len)) False False"
    using good_comp_not_dot[OF assms(1)[unfolded c] assms(3)] x
    by (subst path_std_loop.simps) (auto simp: Let_def rd_nul_iff numeral_2_eq_2)
  also have "\<dots> = path_std_loop fps q (put_all buf len (SLASH # c)) (len + Suc (length c)) False False"
    using x by (simp add: loop_chars c)
  finally show ?thesis by (simp add: c)
qed

lemma back_to_slash_join:
  assumes "SLASH \<notin> set c" "take (length a + Suc (length c)) buf = a @ SLASH # c"
  shows "back_to_slash buf (length a + Suc (length c)) = length a"
  using assms
proof (induction c rule: rev_induct)
  case Nil
  then have "take (Suc (length a)) buf ! length a = SLASH" by simp
  then show ?case by simp
next
  case (snoc x c)
  let ?n = "length a + Suc (length c)"
  have "take (Suc ?n) buf ! ?n = x" using snoc.prems by (simp add: nth_append)
  then have x: "buf ! ?n \<noteq> SLASH" using snoc.prems by auto
  have "take ?n (take (Suc ?n) buf) = a @ SLASH # c" using snoc.prems by simp
  then have "back_to_slash buf ?n = length a" using snoc by simp
  with x show ?case by simp
qed

lemma comps_split:
  obtains c q where "p = c @ q" "comps p = c # (if q = [] then [] else comps (tl q))"
    "SLASH \<notin> set c" "q = [] \<or> hd q = SLASH"
proof (induction p arbitrary: thesis)
  case Nil
  show ?case by (rule Nil[of "[]" "[]"]) simp_all
next
  case (Cons x p)
  show ?case
  proof (cases "x = SLASH")
    case True
    then show ?thesis by (intro Cons.prems[of "[]" "x # p"]) simp_all
  next
    case False
    obtain c q where "p = c @ q" "comps p = c # (if q = [] then [] else comps (tl q))"
      "SLASH \<notin> set c" "q = [] \<or> hd q = SLASH" by (rule Cons.IH)
    with False show ?thesis by (intro Cons.prems[of "x # c" q]) simp_all
  qed
qed

lemma join_comps_Nil_iff: "join_comps acc = [] \<longleftrightarrow> acc = []"
  by (cases acc) auto

text \<open>The first \<open>r\<close> characters of the buffer are the text, followed by a NUL.\<close>

definition holds_str :: "char list \<Rightarrow> nat \<Rightarrow> string \<Rightarrow> bool" where
  "holds_str b r s \<longleftrightarrow> take r b = s \<and> r = length s \<and> b ! r = NUL"

lemma loop_end_tt:
  assumes "take len buf = join_comps acc" "len = length (join_comps acc)"
    "path_std_loop True [] buf len True True = (r, b)" "r < length buf"
  shows "holds_str b r (show_abs acc)"
proof (cases "acc = []")
  case True
  then have "len = 0" using assms(2) by simp
  with True assms show ?thesis
    by (auto simp: holds_str_def loop_end Let_def put_at_def show_abs_def take_Suc_conv_app_nth)
next
  case False
  then have "len \<noteq> 0" using assms(2) by (simp add: join_comps_Nil_iff)
  with False assms show ?thesis
    by (auto simp: holds_str_def loop_end Let_def put_at_def show_abs_def)
qed

lemma loop_end_ff:
  assumes "take len buf = join_comps acc" "len = length (join_comps acc)" "acc \<noteq> []"
    "path_std_loop fps [] buf len False False = (r, b)" "r < length buf"
  shows "holds_str b r (show_abs acc)"
proof -
  have "len \<noteq> 0" using assms(2,3) by (simp add: join_comps_Nil_iff)
  with assms show ?thesis
    by (auto simp: holds_str_def loop_end Let_def put_at_def show_abs_def)
qed

lemma back_to_slash_butlast:
  assumes "list_all good_comp acc" "take len buf = join_comps acc" "len = length (join_comps acc)"
    "len \<le> length buf"
  shows "take (back_to_slash buf len) buf = join_comps (butlast acc)"
    and "back_to_slash buf len = length (join_comps (butlast acc))"
proof -
  have "back_to_slash buf len = length (join_comps (butlast acc))"
  proof (cases acc rule: rev_cases)
    case (snoc ys y)
    then show ?thesis
      using assms back_to_slash_join[of y "join_comps ys" buf] by (simp add: good_comp_def)
  qed (use assms in simp)
  moreover have "take (length (join_comps (butlast acc))) (take len buf) = join_comps (butlast acc)"
    using assms by (cases acc rule: rev_cases) auto
  moreover have "length (join_comps (butlast acc)) \<le> len"
    using assms(3) by (cases acc rule: rev_cases) auto
  ultimately show "take (back_to_slash buf len) buf = join_comps (butlast acc)"
    and "back_to_slash buf len = length (join_comps (butlast acc))"
    by (simp_all add: min_def)
qed

lemma norm_comps_Nil [simp]: "norm_comps acc [] = acc"
  by (simp add: norm_comps_def add_comp_def)

lemma norm_comps_step:
  assumes "comps p = c # (if q = [] then [] else comps (tl q))"
  shows "norm_comps acc p = norm_comps (add_comp acc c) (tl q)"
proof (cases "q = []")
  case True
  then show ?thesis using assms by (simp add: norm_comps_def add_comp_def)
next
  case False
  then show ?thesis using assms by (simp add: norm_comps_def)
qed

lemma path_std_loop_abs:
  assumes "list_all good_comp acc" "take len buf = join_comps acc"
    "len = length (join_comps acc)" "len \<le> length buf" "no_nul p"
    "path_std_loop True p buf len True True = (r, b)" "r < length buf"
  shows "holds_str b r (show_abs (norm_comps acc p))"
  using assms
proof (induction "length p" arbitrary: p acc buf len rule: less_induct)
  case less
  obtain c q where p: "p = c @ q" and cp: "comps p = c # (if q = [] then [] else comps (tl q))"
    and c: "SLASH \<notin> set c" and q: "q = [] \<or> hd q = SLASH"
    by (rule comps_split[of p])
  note step = norm_comps_step[OF cp, of acc]
  have nn: "no_nul (tl q)" using less.prems(5) p by (cases q) auto
  have q': "q \<noteq> [] \<Longrightarrow> q = SLASH # tl q" using q by (cases q) auto
  have shorter: "length (tl q) < length p" if "p \<noteq> []"
    using that p q' by (cases q) auto
  note IH = less.hyps[OF shorter _ _ _ _ nn _ ]
  consider (none) "c = []" | (dot) "c = ''.''" | (dotdot) "c = ''..''" | (good) "good_comp c"
    using c by (auto simp: good_comp_def)
  then show ?case
  proof cases
    case none
    show ?thesis
    proof (cases "q = []")
      case True
      then have "p = []" using none p by simp
      then show ?thesis using loop_end_tt[OF less.prems(2,3) _ less.prems(7)] less.prems(6) by (metis norm_comps_Nil)
    next
      case False
      then have "p = SLASH # tl q" using none p q' by simp
      then have "path_std_loop True (tl q) buf len True True = (r, b)"
        using less.prems(6) loop_slash by metis
      then show ?thesis
        using IH[OF _ less.prems(1-4) _ less.prems(7)] False p step none by (simp add: add_comp_def)
    qed
  next
    case dot
    then have "path_std_loop True (tl q) buf len True True = (r, b)"
      using less.prems(6) q by (simp add: p loop_dot)
    then show ?thesis
      using IH[OF _ less.prems(1-4) _ less.prems(7)] p step dot by (simp add: add_comp_def)
  next
    case dotdot
    let ?l = "back_to_slash buf len"
    have l: "take ?l buf = join_comps (butlast acc)" "?l = length (join_comps (butlast acc))"
      using back_to_slash_butlast[OF less.prems(1-4)] by auto
    have le: "?l \<le> length buf" using back_to_slash_le[of buf len] less.prems(4) by simp
    have run: "path_std_loop True (tl q) buf ?l True True = (r, b)"
      using less.prems(4,6) q dotdot by (simp add: p loop_dotdot)
    have "list_all good_comp (butlast acc)"
      using less.prems(1) by (auto simp: list_all_iff dest: in_set_butlastD)
    from IH[OF _ this l le run less.prems(7)] show ?thesis
      using p step dotdot by (simp add: add_comp_def)
  next
    case good
    let ?s = "SLASH # c"
    let ?b = "put_all buf len ?s" and ?l = "len + Suc (length c)" and ?acc = "acc @ [c]"
    have run: "path_std_loop True q ?b ?l False False = (r, b)"
      using less.prems(5,6) q good loop_comp[of c q True buf len] by (simp only: p)
    have lb: "length ?b = length buf" by (rule length_put_all)
    have fits: "?l \<le> length ?b"
    proof (rule ccontr)
      assume "\<not> ?l \<le> length ?b"
      then have "length ?b < fst (path_std_loop True q ?b ?l False False)"
        by (intro path_std_loop_overflow) simp
      then show False using less.prems(7) lb unfolding run by simp
    qed
    have "take (len + length ?s) ?b = take len buf @ ?s"
      by (rule take_put_all) (use fits lb in simp)
    then have l: "take ?l ?b = join_comps ?acc" "?l = length (join_comps ?acc)"
      by (simp_all only: less.prems(2) length_Cons join_comps_append join_comps.simps
            length_append append_Nil2) (simp add: less.prems(3))
    have acc: "add_comp acc c = ?acc" "list_all good_comp ?acc"
      using good less.prems(1) by (auto simp: add_comp_def good_comp_def)
    have r: "r < length ?b" using less.prems(7) lb by simp
    show ?thesis
    proof (cases "q = []")
      case True
      then show ?thesis
        using loop_end_ff[OF l _ _ r] run step acc by simp
    next
      case False
      then have "path_std_loop True (tl q) ?b ?l True True = (r, b)"
        using run loop_slash[of True "tl q" ?b ?l False False] by (simp only: q'[OF False, symmetric])
      from IH[OF _ acc(2) l fits this r] show ?thesis using False p step acc(1) by simp
    qed
  qed
qed

lemma path_std_abs:
  assumes "no_nul p" "rd p 0 = SLASH" "path_std buf p = (r, b)" "r < length buf"
  shows "take r b = std_abs p \<and> r = length (std_abs p) \<and> b ! r = NUL"
proof -
  obtain p' where p: "p = SLASH # p'" using assms(2) by (cases p) auto
  have "path_std_loop True p' buf 0 True True = (r, b)"
    using assms(3) by (simp add: p path_std_def loop_slash)
  then have "holds_str b r (show_abs (norm_comps [] p'))"
    using assms(1,4) by (intro path_std_loop_abs[of "[]" 0 buf]) (auto simp: p)
  moreover have "std_abs p = show_abs (norm_comps [] p')"
    by (simp add: std_abs_def p norm_comps_def add_comp_def)
  ultimately show ?thesis unfolding holds_str_def by metis
qed

text \<open>
  C21: for an absolute path, whenever the returned length is below the size of the
  buffer (the only case the callers accept), the buffer holds the component-wise
  normalisation of the path (no empty component, no \<open>.\<close>, every \<open>..\<close> resolved
  without ever leaving the root), NUL-terminated, and the length is its length.
\<close>

theorem path_std_absolute:
  assumes "no_nul p" "rd p 0 = SLASH" "path_std buf p = (r, b)" "r < length buf"
  shows "take r b = std_abs p \<and> r = length (std_abs p) \<and> b ! r = NUL"
  using assms by (rule path_std_abs)

text \<open>\<open>path_std_absolute\<close> at a request path with every kind of component.\<close>

theorem path_std_absolute_witness:
  "let (r, b) = path_std (replicate 30 NUL) ''///a///./b/..//////c//'' in
   take r b = ''/a/c'' \<and> r = 4 \<and> b ! r = NUL"
proof -
  define p where "p = ''///a///./b/..//////c//''"
  define r where "r = fst (path_std (replicate 30 NUL) p)"
  define b where "b = snd (path_std (replicate 30 NUL) p)"
  have run: "path_std (replicate 30 NUL) p = (r, b)" by (simp add: r_def b_def)
  have "r < length (replicate 30 NUL)" unfolding r_def p_def by code_simp
  moreover have "no_nul p" "rd p 0 = SLASH" by (simp_all add: p_def)
  ultimately have "take r b = std_abs p \<and> r = length (std_abs p) \<and> b ! r = NUL"
    using path_std_absolute[OF _ _ run] by blast
  moreover have "std_abs p = ''/a/c''" unfolding p_def by code_simp
  ultimately show ?thesis using run by (auto simp: p_def)
qed

section \<open>The length returned\<close>

lemma loop_at_nul:
  "rd path 0 = NUL \<Longrightarrow> path_std_loop fps path buf len ps sd = path_std_loop fps [] buf len ps sd"
  by (subst (1 2) path_std_loop.simps) simp

lemma loop_end_terminated:
  "path_std_loop fps [] buf len ps sd = (r, b) \<Longrightarrow> r < length buf \<Longrightarrow> b ! r = NUL"
  by (cases ps; cases "len = 0") (auto simp: loop_end Let_def put_at_def)

lemma path_std_loop_terminated:
  "path_std_loop fps path buf len ps sd = (r, b) \<Longrightarrow> r < length buf \<Longrightarrow> b ! r = NUL"
proof (induction fps path buf len ps sd rule: path_std_loop.induct)
  case (1 fps path buf len ps sd)
  show ?case
  proof (cases "rd path 0 = NUL")
    case True
    then show ?thesis using "1.prems" loop_end_terminated loop_at_nul by metis
  next
    case nn: False
    note run = "1.prems"(1)[unfolded path_std_loop.simps[of fps path]]
    consider (a) "rd path 0 = SLASH"
      | (b) "rd path 0 \<noteq> SLASH" "sd \<and> rd path 0 = CHR ''.'' \<and> (rd path 1 = SLASH \<or> rd path 1 = NUL)"
      | (c) "rd path 0 \<noteq> SLASH" "\<not> (sd \<and> rd path 0 = CHR ''.'' \<and> (rd path 1 = SLASH \<or> rd path 1 = NUL))"
          "sd \<and> rd path 0 = CHR ''.'' \<and> rd path 1 = CHR ''.'' \<and> (rd path 2 = SLASH \<or> rd path 2 = NUL)"
      | (d) "rd path 0 \<noteq> SLASH" "\<not> (sd \<and> rd path 0 = CHR ''.'' \<and> (rd path 1 = SLASH \<or> rd path 1 = NUL))"
          "\<not> (sd \<and> rd path 0 = CHR ''.'' \<and> rd path 1 = CHR ''.'' \<and> (rd path 2 = SLASH \<or> rd path 2 = NUL))"
      by blast
    then show ?thesis
    proof cases
      case a
      show ?thesis using "1.IH"(1)[OF a] run "1.prems"(2) unfolding if_P[OF a] by blast
    next
      case b
      show ?thesis using "1.IH"(2)[OF b] run "1.prems"(2)
        unfolding if_not_P[OF b(1)] if_P[OF b(2)] by blast
    next
      case c
      show ?thesis using "1.IH"(3)[OF c refl] run "1.prems"(2)
        unfolding if_not_P[OF c(1)] if_not_P[OF c(2)] if_P[OF c(3)] Let_def by blast
    next
      case d
      show ?thesis using "1.IH"(4)[OF d refl refl refl refl nn] run "1.prems"(2)
        unfolding if_not_P[OF d(1)] if_not_P[OF d(2)] if_not_P[OF d(3)] Let_def if_not_P[OF nn]
        by (simp split: if_splits)
    qed
  qed
qed

lemma path_std_terminated: "path_std buf p = (r, b) \<Longrightarrow> r < length buf \<Longrightarrow> b ! r = NUL"
  by (simp add: path_std_def path_std_loop_terminated)

lemma path_std_loop_bound:
  "fst (path_std_loop fps path buf len ps sd) \<le> max 1 (len + length path + (if ps then 1 else 0))"
proof (induction fps path buf len ps sd rule: path_std_loop.induct)
  case (1 fps path buf len ps sd)
  have short: "Suc 0 \<le> length path" if "rd path 0 \<noteq> NUL"
    using that by (cases path) auto
  have short2: "2 \<le> length path" if "rd path 1 \<noteq> NUL"
    using that by (cases path; cases "tl path") auto
  have short3: "3 \<le> length path" if "rd path 2 \<noteq> NUL"
    using that by (auto simp: rd_def split: if_splits)
  note pop = back_to_slash_le[of buf len]
  show ?case
  proof (cases "rd path 0 = SLASH")
    case True
    then show ?thesis
      using "1.IH"(1) short by (subst path_std_loop.simps) (auto simp: le_max_iff_disj)
  next
    case not_slash: False
    show ?thesis
    proof (cases "sd \<and> rd path 0 = CHR ''.'' \<and> (rd path 1 = SLASH \<or> rd path 1 = NUL)")
      case True
      then show ?thesis
        using "1.IH"(2) not_slash short short2
        by (subst path_std_loop.simps) (auto simp: le_max_iff_disj)
    next
      case not_dot: False
      show ?thesis
      proof (cases "sd \<and> rd path 0 = CHR ''.'' \<and> rd path 1 = CHR ''.''
              \<and> (rd path 2 = SLASH \<or> rd path 2 = NUL)")
        case True
        then have "2 \<le> length path" using short2 by auto
        with True show ?thesis
          using "1.IH"(3)[OF not_slash not_dot True refl] not_slash not_dot short3 pop
          by (subst path_std_loop.simps) (auto simp: Let_def le_max_iff_disj split: if_splits)
      next
        case False
        then show ?thesis
          using "1.IH"(4)[OF not_slash not_dot False refl refl refl refl] not_slash not_dot short
          by (subst path_std_loop.simps)
             (cases ps; auto simp: Let_def le_max_iff_disj split: if_splits)
      qed
    qed
  qed
qed

lemma path_std_short:
  assumes "rd p 0 = SLASH" "length p < length buf"
  shows "fst (path_std buf p) \<le> length p"
proof -
  obtain p' where p: "p = SLASH # p'" using assms(1) by (cases p) auto
  show ?thesis
    using path_std_loop_bound[of True p' buf 0 True True] by (simp add: path_std_def p loop_slash)
qed

text \<open>
  An absolute path that is shorter than the buffer is always accepted: its
  normalisation is never longer than the path itself, whatever its components.
\<close>

theorem path_std_accepts_short:
  assumes "rd p 0 = SLASH" "length p < length buf"
  shows "fst (path_std buf p) \<le> length p"
  using assms by (rule path_std_short)

theorem path_std_accepts_short_witness:
  "fst (path_std (replicate 10 NUL) ''/a/../b'') \<le> 7"
  using path_std_accepts_short[of "''/a/../b''" "replicate 10 NUL"] by simp

text \<open>
  A relative path is not always kept relative. The pending slash set by an empty
  component survives when nothing has been written yet, so \<open>.//etc\<close> and
  \<open>a/..//etc\<close> come out as the absolute path \<open>/etc\<close>, which the callers accept.
\<close>

theorem path_std_relative_becomes_absolute:
  "(let (r, b) = path_std (replicate 16 NUL) ''.//etc'' in r = 4 \<and> take 4 b = ''/etc'')
   \<and> (let (r, b) = path_std (replicate 16 NUL) ''a/..//etc'' in r = 4 \<and> take 4 b = ''/etc'')"
  by code_simp

end
