(* ===== verification/File_Utils.thy ===== *)
theory File_Utils
  imports World
begin

text \<open>
  \<open>src/file-utils.c\<close> and \<open>src/xattr-utils.c\<close>: the file helpers of the daemon over the
  calls of \<open>World\<close>, with their return codes. \<open>read_file\<close> keeps the code's growing
  buffer and its treatment of an interrupted read.
\<close>

section \<open>\<open>xattr-utils.c\<close>\<close>

definition set_xattr :: "string \<Rightarrow> string \<Rightarrow> string \<Rightarrow> 'z wstate \<Rightarrow> int \<times> 'z wstate" where
  "set_xattr path xattr value w =
     (let (rc, w1) = sys_lsetxattr path xattr value w in if rc < 0 then (rc, w1) else (0, w1))"

definition unset_xattr :: "string \<Rightarrow> string \<Rightarrow> 'z wstate \<Rightarrow> int \<times> 'z wstate" where
  "unset_xattr path xattr w =
     (let (rc, w1) = sys_lremovexattr path xattr w
      in if rc < 0 \<and> rc \<noteq> - ENODATA then (rc, w1) else (0, w1))"

section \<open>\<open>file-utils.c\<close>\<close>

abbreviation (input) PATH_FILE_DATA :: int where "PATH_FILE_DATA \<equiv> 0"
abbreviation (input) PATH_FILE_EXEC :: int where "PATH_FILE_EXEC \<equiv> 1"
abbreviation (input) PATH_DIRECTORY :: int where "PATH_DIRECTORY \<equiv> 2"
abbreviation (input) PATH_LINK :: int where "PATH_LINK \<equiv> 3"

definition get_path_property :: "string \<Rightarrow> bool \<Rightarrow> 'z wstate \<Rightarrow> int \<times> 'z wstate" where
  "get_path_property path follow w =
     (case sys_stat follow path w of
        (Inl e, w1) \<Rightarrow>
          (if e = ENOENT \<or> e = ENOTDIR then (- ENOENT, w1)
           else if e = ENOMEM then (- ENOMEM, w1)
           else (- EACCES, w1))
      | (Inr s, w1) \<Rightarrow>
          ((case kind s of
              FLink _ \<Rightarrow> PATH_LINK
            | FDir \<Rightarrow> PATH_DIRECTORY
            | _ \<Rightarrow> if xbit s then PATH_FILE_EXEC else PATH_FILE_DATA), w1))"

text \<open>\<open>get_file_informations\<close>: whether it exists, is executable, is a directory.\<close>

definition get_file_informations ::
  "string \<Rightarrow> bool \<Rightarrow> 'z wstate \<Rightarrow> (bool \<times> bool \<times> bool) \<times> 'z wstate" where
  "get_file_informations path follow w =
     (let (rc, w1) = get_path_property path follow w
      in ((rc \<ge> 0, rc = PATH_FILE_EXEC, rc = PATH_DIRECTORY), w1))"

definition check_path_exists :: "string \<Rightarrow> bool \<Rightarrow> 'z wstate \<Rightarrow> int \<times> 'z wstate" where
  "check_path_exists path follow w =
     (let (rc, w1) = get_path_property path follow w in (if rc < 0 then rc else 0, w1))"

definition check_directory_exists :: "string \<Rightarrow> bool \<Rightarrow> 'z wstate \<Rightarrow> int \<times> 'z wstate" where
  "check_directory_exists path follow w =
     (let (rc, w1) = get_path_property path follow w
      in (if rc < 0 then rc else if rc = PATH_DIRECTORY then 0 else - ENOTDIR, w1))"

definition create_file :: "string \<Rightarrow> 'z wstate \<Rightarrow> int \<times> 'z wstate" where
  "create_file path w =
     (let (rc, w1) = sys_creat True path w in if rc < 0 then (rc, w1) else (0, w1))"

definition remove_file :: "string \<Rightarrow> 'z wstate \<Rightarrow> int \<times> 'z wstate" where
  "remove_file path w =
     (let (rc, w1) = sys_remove path w in if rc < 0 then (rc, w1) else (0, w1))"

abbreviation (input) BLOCKSIZE :: nat where "BLOCKSIZE \<equiv> 8192"

text \<open>
  The reading loop of \<open>read_file\<close>: \<open>rest\<close> is what the descriptor still has, \<open>acc\<close> what
  is in the buffer (\<open>pos\<close> characters), \<open>sz\<close> the size. A read asks for
  \<open>(size - pos) + 1\<close> bytes; a failed read stops the loop, with what was read when the
  failure is \<open>EINTR\<close>, with an error otherwise; passing the size grows the buffer.
\<close>

function read_loop ::
  "string \<Rightarrow> string \<Rightarrow> nat \<Rightarrow> 'z wstate \<Rightarrow> string option \<times> 'z wstate" where
  "read_loop rest acc sz w =
     (case pop_fault w of (e, w1) \<Rightarrow>
        if e > 0 then (if e \<noteq> EINTR then None else Some acc, w1)
        else
          let chunk = take (sz - length acc + 1) rest;
              acc1 = acc @ chunk
          in if chunk = [] then (Some acc, w1)
             else if length acc1 > sz then
               (case sys_malloc w1 of (ok, w2) \<Rightarrow>
                  if \<not> ok then (None, w2)
                  else read_loop (drop (length chunk) rest) acc1 (length acc1 + BLOCKSIZE) w2)
             else read_loop (drop (length chunk) rest) acc1 sz w1)"
  by pat_completeness auto
termination
  by (relation "measure (\<lambda>(rest, _). length rest)") auto

declare read_loop.simps [simp del]

text \<open>The content as the caller sees it: a NUL-terminated string.\<close>

definition read_file :: "string \<Rightarrow> 'z wstate \<Rightarrow> string option \<times> 'z wstate" where
  "read_file filename w =
     (case sys_open filename w of
        (Inl e, w1) \<Rightarrow> (None, w1)
      | (Inr i, w1) \<Rightarrow>
          (if kind i \<noteq> FReg \<and> kind i \<noteq> FFifo then (None, w1)
           else
             let sz = (if kind i = FReg then length (content i) else BLOCKSIZE)
             in case sys_malloc w1 of (ok, w2) \<Rightarrow>
                  if \<not> ok then (None, w2)
                  else case read_loop (content i) [] sz w2 of (r, w3) \<Rightarrow> (map_option cstr r, w3)))"

section \<open>Frames and return codes\<close>

text \<open>What a helper that only looks at files leaves: everything but the schedule.\<close>

lemma get_path_property_rest [frame_simps]:
  "get_path_property p fo w = (rc, w1) \<Longrightarrow> w1 = w\<lparr>faults := tl (faults w)\<rparr>"
  by (auto simp: get_path_property_def split: prod.splits sum.splits if_splits dest: sys_stat_rest)

lemma check_rest [frame_simps]:
  "check_path_exists p fo w = (rc, w1) \<Longrightarrow> w1 = w\<lparr>faults := tl (faults w)\<rparr>"
  "check_directory_exists p fo w = (rc, w1) \<Longrightarrow> w1 = w\<lparr>faults := tl (faults w)\<rparr>"
  by (auto simp: check_path_exists_def check_directory_exists_def split: prod.splits
        dest: get_path_property_rest)

lemma get_path_property_nil [os_simps]:
  "faults w = [] \<Longrightarrow> get_path_property p fo w =
     (case find_inode fo (fs w) p of
        Inl e \<Rightarrow> (if e = ENOENT \<or> e = ENOTDIR then - ENOENT else if e = ENOMEM then - ENOMEM
                  else - EACCES)
      | Inr s \<Rightarrow> (case kind s of FLink _ \<Rightarrow> PATH_LINK | FDir \<Rightarrow> PATH_DIRECTORY
                  | _ \<Rightarrow> if xbit s then PATH_FILE_EXEC else PATH_FILE_DATA), w)"
  by (auto simp: get_path_property_def sys_stat_nil split: sum.splits)

lemma set_xattr_rc: "set_xattr p a v w = (rc, w1) \<Longrightarrow> rc \<le> 0"
  by (auto simp: set_xattr_def Let_def split: prod.splits if_splits dest: sys_rc_le)

lemma unset_xattr_rc: "unset_xattr p a w = (rc, w1) \<Longrightarrow> rc \<le> 0"
  by (auto simp: unset_xattr_def Let_def split: prod.splits if_splits dest: sys_rc_le)

lemma set_xattr_frame:
  "set_xattr p a v w = (rc, w1) \<Longrightarrow> q \<noteq> p \<Longrightarrow> fs w1 q = fs w q"
  by (auto simp: set_xattr_def Let_def split: prod.splits if_splits dest: sys_fs_frame)

lemma unset_xattr_frame:
  "unset_xattr p a w = (rc, w1) \<Longrightarrow> q \<noteq> p \<Longrightarrow> fs w1 q = fs w q"
  by (auto simp: unset_xattr_def Let_def split: prod.splits if_splits dest: sys_fs_frame)

text \<open>The value of an attribute of a path, if the path exists and has it.\<close>

definition attr_of :: "'z wstate \<Rightarrow> string \<Rightarrow> string \<Rightarrow> string option" where
  "attr_of w p a = (case fs w p of None \<Rightarrow> None | Some i \<Rightarrow> xattrs i a)"

lemma set_xattr_ok:
  "set_xattr p a v w = (rc, w1) \<Longrightarrow> 0 \<le> rc \<Longrightarrow> attr_of w1 p = (attr_of w p)(a \<mapsto> v)"
  by (auto simp: set_xattr_def sys_lsetxattr_def attr_of_def fun_eq_iff Let_def
        elim!: sys_cases split: prod.splits if_splits option.splits)

lemma unset_xattr_ok:
  "unset_xattr p a w = (rc, w1) \<Longrightarrow> 0 \<le> rc \<Longrightarrow> attr_of w1 p = (attr_of w p)(a := None)"
  by (auto simp: unset_xattr_def sys_lremovexattr_def attr_of_def fun_eq_iff Let_def
        elim!: sys_cases split: prod.splits if_splits option.splits)

end
