(* ===== verification/Context.thy ===== *)
theory Context
  imports Permissions Paths Plugs Path_Utils File_Utils
begin

text \<open>
  \<open>src/context/context.c\<close>: the data of a session. The identifier is kept as the code
  keeps it, in an array of \<open>MAX_SIZE_ID + 1\<close> characters that \<open>setids\<close> fills with
  \<open>memcpy\<close> and \<open>context_clear\<close> resets at its first character only; its text is
  \<open>context_id\<close>. The record is polymorphic in what a permission manager is.
\<close>

record 'p ctx =
  id_array :: "char list"
  permission_set :: permission_set
  path_set :: path_set
  plugset :: plugset
  need_id :: bool
  error_flag :: bool
  permgr :: "'p option"

section \<open>Life of a context\<close>

text \<open>\<open>memset (context->id, 0, MAX_SIZE_ID)\<close>: the last character of the array is not reset.\<close>

definition context_init :: "'p ctx \<Rightarrow> 'p ctx" where
  "context_init c = c
     \<lparr>id_array := replicate MAX_SIZE_ID NUL @ drop MAX_SIZE_ID (id_array c),
      path_set := path_set_init, plugset := plugset_init,
      permission_set := permission_set_init,
      need_id := False, error_flag := False, permgr := None\<rparr>"

text \<open>\<open>mem\<close> is the memory \<open>malloc\<close> returned, not initialised.\<close>

definition context_create :: "'p ctx \<Rightarrow> 'z wstate \<Rightarrow> int \<times> 'p ctx option \<times> 'z wstate" where
  "context_create mem w =
     (case sys_malloc w of (ok, w1) \<Rightarrow>
        if \<not> ok then (- ENOMEM, None, w1) else (0, Some (context_init mem), w1))"

definition context_clear :: "'p ctx \<Rightarrow> 'p ctx" where
  "context_clear c = c
     \<lparr>id_array := (id_array c)[0 := NUL],
      permission_set := permission_set_clear (permission_set c),
      plugset := plugset_clear (plugset c),
      path_set := path_set_clear (path_set c),
      need_id := False, error_flag := False\<rparr>"

text \<open>Clear, then free: what the memory held when it was freed.\<close>

definition context_destroy :: "'p ctx \<Rightarrow> 'p ctx" where
  "context_destroy c = context_clear c"

definition context_raise_error :: "'p ctx \<Rightarrow> 'p ctx" where
  "context_raise_error c = c\<lparr>error_flag := True\<rparr>"

definition context_has_error :: "'p ctx \<Rightarrow> bool" where
  "context_has_error c = error_flag c"

section \<open>The identifier\<close>

text \<open>The loop of \<open>context_is_valid_id\<close> over the rest of the text and the index.\<close>

fun valid_id_loop :: "string \<Rightarrow> nat \<Rightarrow> int" where
  "valid_id_loop [] idx = (if idx < MIN_SIZE_ID then - EINVAL else int idx)"
| "valid_id_loop (car # s) idx =
     (if idx \<ge> MAX_SIZE_ID then - EINVAL
      else if \<not> is_alnum car \<and> car \<noteq> CHR ''-'' \<and> car \<noteq> CHR ''_'' then - EINVAL
      else valid_id_loop s (idx + 1))"

definition context_is_valid_id :: "string \<Rightarrow> int" where
  "context_is_valid_id s = valid_id_loop s 0"

text \<open>\<open>memcpy (id, src, rc)\<close>: the characters of the text, without its final NUL.\<close>

definition setids :: "string \<Rightarrow> char list \<Rightarrow> int \<times> char list" where
  "setids src arr =
     (let rc = context_is_valid_id src
      in if rc \<ge> 0 then (0, take (nat rc) src @ drop (nat rc) arr) else (rc, arr))"

definition has_id :: "'p ctx \<Rightarrow> bool" where
  "has_id c \<longleftrightarrow> rd (id_array c) 0 \<noteq> NUL"

definition context_id :: "'p ctx \<Rightarrow> string" where
  "context_id c = cstr (id_array c)"

definition context_set_id :: "'p ctx \<Rightarrow> string \<Rightarrow> int \<times> 'p ctx" where
  "context_set_id c s =
     (if error_flag c then (- ENOTRECOVERABLE, c)
      else if has_id c then (- EEXIST, c)
      else
        let (rc, arr) = setids s (id_array c)
        in (rc, c\<lparr>id_array := (if rc < 0 then arr[0 := NUL] else arr)\<rparr>))"

section \<open>Permissions, paths and plugs\<close>

definition context_add_permission ::
  "'p ctx \<Rightarrow> string \<Rightarrow> 'z wstate \<Rightarrow> int \<times> 'p ctx \<times> 'z wstate" where
  "context_add_permission c permission w =
     (if error_flag c then (- ENOTRECOVERABLE, c, w)
      else if permission_set_has (permission_set c) permission then (- EEXIST, c, w)
      else
        case permission_set_add (permission_set c) permission w of (rc, ps, w1) \<Rightarrow>
          if rc < 0 then (rc, c\<lparr>permission_set := ps\<rparr>, w1)
          else (0, c\<lparr>permission_set := ps, need_id := True\<rparr>, w1))"

text \<open>
  Normalise into an array of \<open>MAX_SIZE_PATH + 1\<close> characters; refuse what is too long or
  not absolute (\<open>None\<close>, the code's \<open>-EINVAL\<close>).
\<close>

definition std_path :: "string \<Rightarrow> string option" where
  "std_path p =
     (let (len, buf) = path_std (replicate (MAX_SIZE_PATH + 1) NUL) p
      in if len \<ge> MAX_SIZE_PATH + 1 then None
         else if len < 1 \<or> buf ! 0 \<noteq> SLASH then None
         else Some (cstr buf))"

definition context_add_path ::
  "'p ctx \<Rightarrow> string \<Rightarrow> string \<Rightarrow> 'z wstate \<Rightarrow> int \<times> 'p ctx \<times> 'z wstate" where
  "context_add_path c p ty w =
     (if error_flag c then (- ENOTRECOVERABLE, c, w)
      else
        let t = path_type_get ty in
        if \<not> path_type_is_valid t then (- EINVAL, c, w)
        else case std_path p of
          None \<Rightarrow> (- EINVAL, c, w)
        | Some stdpath \<Rightarrow>
            if path_set_has (path_set c) stdpath then (- EEXIST, c, w)
            else case check_path_exists stdpath False w of (rc, w1) \<Rightarrow>
              if rc < 0 then (rc, c, w1)
              else case path_set_add (path_set c) stdpath t w1 of (rc, ps, w2) \<Rightarrow>
                if rc < 0 then (rc, c\<lparr>path_set := ps\<rparr>, w2)
                else (0, c\<lparr>path_set := ps,
                          need_id := (if t \<noteq> type_default then True else need_id c)\<rparr>, w2))"

definition context_add_plug ::
  "'p ctx \<Rightarrow> string \<Rightarrow> string \<Rightarrow> string \<Rightarrow> 'z wstate \<Rightarrow> int \<times> 'p ctx \<times> 'z wstate" where
  "context_add_plug c exp iid imp w =
     (if error_flag c then (- ENOTRECOVERABLE, c, w)
      else case std_path exp of
        None \<Rightarrow> (- EINVAL, c, w)
      | Some stdexp \<Rightarrow> (case std_path imp of
          None \<Rightarrow> (- EINVAL, c, w)
        | Some stdimp \<Rightarrow>
            if plugset_has (plugset c) None None (Some stdimp) then (- EEXIST, c, w)
            else let rc = context_is_valid_id iid in
            if rc < 0 then (rc, c, w)
            else case check_directory_exists stdexp True w of (rc, w1) \<Rightarrow>
              if rc < 0 then (rc, c, w1)
              else case check_directory_exists stdimp True w1 of (rc, w2) \<Rightarrow>
                if rc < 0 then (rc, c, w2)
                else case plugset_add (plugset c) stdexp iid stdimp w2 of (rc, ps, w3) \<Rightarrow>
                  if rc < 0 then (rc, c\<lparr>plugset := ps\<rparr>, w3)
                  else (0, c\<lparr>plugset := ps, need_id := True\<rparr>, w3)))"

definition context_has_permission :: "'p ctx \<Rightarrow> string \<Rightarrow> bool" where
  "context_has_permission c permission = permission_set_has (permission_set c) permission"

definition context_set_permission_manager ::
  "'p ctx \<Rightarrow> 'p option \<Rightarrow> 'p option \<times> 'p ctx" where
  "context_set_permission_manager c pm = (permgr c, c\<lparr>permgr := pm\<rparr>)"

section \<open>Visiting a context\<close>

text \<open>The visitor callbacks over the visitor state; a NULL callback is \<open>None\<close>.\<close>

record 'v context_visitor =
  visit_id :: "(string \<Rightarrow> 'v \<Rightarrow> int \<times> 'v) option"
  visit_path :: "(string \<Rightarrow> string \<Rightarrow> 'v \<Rightarrow> int \<times> 'v) option"
  visit_permission :: "(string \<Rightarrow> 'v \<Rightarrow> int \<times> 'v) option"
  visit_plug :: "(string \<Rightarrow> string \<Rightarrow> string \<Rightarrow> 'v \<Rightarrow> int \<times> 'v) option"

text \<open>\<open>for (...; !rc && ...; ...) rc = callback (...)\<close>\<close>

fun visit_all :: "('x \<Rightarrow> 'v \<Rightarrow> int \<times> 'v) \<Rightarrow> 'x list \<Rightarrow> int \<Rightarrow> 'v \<Rightarrow> int \<times> 'v" where
  "visit_all f [] rc v = (rc, v)"
| "visit_all f (x # xs) rc v =
     (if rc \<noteq> 0 then (rc, v) else case f x v of (rc', v') \<Rightarrow> visit_all f xs rc' v')"

definition context_visit :: "'p ctx \<Rightarrow> 'v context_visitor \<Rightarrow> 'v \<Rightarrow> int \<times> 'v" where
  "context_visit c itf v =
     (let (rc, v) = (case visit_id itf of
                       Some f \<Rightarrow> if has_id c then f (context_id c) v else (0, v)
                     | None \<Rightarrow> (0, v));
          (rc, v) = (case visit_path itf of
                       Some f \<Rightarrow> visit_all (\<lambda>i. f (path i) (path_type_name (path_type i)))
                                  (path_set c) rc v
                     | None \<Rightarrow> (rc, v));
          (rc, v) = (case visit_permission itf of
                       Some f \<Rightarrow> visit_all f (permissions (permission_set c)) rc v
                     | None \<Rightarrow> (rc, v));
          (rc, v) = (case visit_plug itf of
                       Some f \<Rightarrow> visit_all (\<lambda>p. f (expdir p) (impid p) (impdir p)) (plugset c) rc v
                     | None \<Rightarrow> (rc, v))
      in (rc, v))"

section \<open>Normalised paths\<close>

lemma length_path_std: "path_std buf p = (r, b) \<Longrightarrow> length b = length buf"
  using path_std_loop_length[of "rd p 0 = SLASH" p buf 0 False True] by (simp add: path_std_def)

lemma std_path_Some:
  assumes "std_path p = Some q"
  shows "no_nul q \<and> rd q 0 = SLASH \<and> 1 \<le> length q \<and> length q \<le> MAX_SIZE_PATH"
proof -
  let ?buf = "replicate 1025 NUL"
  obtain r b where run: "path_std ?buf p = (r, b)" by fastforce
  have r: "r < 1025" and q: "q = cstr b" and b: "b ! 0 = SLASH"
    using assms run by (auto simp: std_path_def Let_def split: if_splits)
  have l: "length b = 1025" using length_path_std[OF run] by simp
  have "b ! r = NUL" using path_std_terminated[OF run] r by simp
  then have "length q \<le> r" by (simp add: q length_cstr_le)
  moreover have "q = SLASH # cstr (tl b)" using b l by (cases b) (auto simp: q)
  moreover have "no_nul q" by (simp add: q)
  ultimately show ?thesis using r by auto
qed

lemma std_path_absolute:
  assumes "no_nul p" "rd p 0 = SLASH" "length p \<le> MAX_SIZE_PATH"
  shows "std_path p = Some (std_abs p)"
proof -
  let ?buf = "replicate 1025 NUL"
  obtain r b where run: "path_std ?buf p = (r, b)" by fastforce
  have "r \<le> length p" using path_std_short[of p ?buf] assms run by simp
  then have r: "r < length ?buf" using assms(3) by simp
  have res: "take r b = std_abs p \<and> r = length (std_abs p) \<and> b ! r = NUL"
    using assms(1,2) run r by (rule path_std_abs)
  have l: "length b = 1025" using length_path_std[OF run] by simp
  have "no_nul (take r b)" using res no_nul_std_abs[OF assms(1)] by metis
  moreover have "b ! r = NUL" "r < length b" using res r l by auto
  ultimately have cs: "cstr b = std_abs p"
    using res by (metis cstr_take)
  have hd: "std_abs p = SLASH # tl (std_abs p)"
    by (cases "norm_comps [] p") (auto simp: std_abs_def show_abs_def)
  then have "b ! 0 = SLASH" "0 < r"
    using res by (metis length_greater_0_conv list.distinct(1) nth_Cons_0 nth_take)+
  then show ?thesis using run r cs by (simp add: std_path_def Let_def)
qed

end
