(* ===== verification/Context_Inv.thy ===== *)
theory Context_Inv
  imports Context
begin

text \<open>
  What a session's context guarantees: the invariant of \<open>context_t\<close> and its preservation
  by every operation, the reachable contexts, the effect of each operation, and the
  behaviour of the identifier across \<open>context_clear\<close>.
\<close>

section \<open>The invariant\<close>

definition id_char :: "char \<Rightarrow> bool" where
  "id_char c \<longleftrightarrow> is_alnum c \<or> c = CHR ''-'' \<or> c = CHR ''_''"

definition valid_id :: "string \<Rightarrow> bool" where
  "valid_id s \<longleftrightarrow> MIN_SIZE_ID \<le> length s \<and> length s \<le> MAX_SIZE_ID \<and> list_all id_char s"

definition id_array_inv :: "char list \<Rightarrow> bool" where
  "id_array_inv a \<longleftrightarrow> length a = 201 \<and> (\<forall>i < 200. a ! i = NUL \<or> id_char (a ! i))"

text \<open>An absolute, NUL-free text short enough for its array.\<close>

definition abs_path :: "string \<Rightarrow> bool" where
  "abs_path q \<longleftrightarrow> no_nul q \<and> rd q 0 = SLASH \<and> length q \<le> MAX_SIZE_PATH"

definition wants_id :: "'p ctx \<Rightarrow> bool" where
  "wants_id c \<longleftrightarrow> permissions (permission_set c) \<noteq> [] \<or> plugset c \<noteq> []
     \<or> (\<exists>i \<in> set (path_set c). path_type i \<noteq> type_default)"

definition ctx_sets_inv :: "'p ctx \<Rightarrow> bool" where
  "ctx_sets_inv c \<longleftrightarrow> permission_set_inv (permission_set c) \<and> path_set_inv (path_set c)
     \<and> plugset_inv (plugset c)"

definition ctx_unique :: "'p ctx \<Rightarrow> bool" where
  "ctx_unique c \<longleftrightarrow> perm_set.unique_keys (permission_set c) \<and> path_keys.unique_keys (path_set c)
     \<and> plug_keys.unique_keys (plugset c)"

definition ctx_texts :: "'p ctx \<Rightarrow> bool" where
  "ctx_texts c \<longleftrightarrow> (\<forall>i \<in> set (path_set c). abs_path (path i))
     \<and> (\<forall>p \<in> set (plugset c). abs_path (expdir p) \<and> abs_path (impdir p) \<and> valid_id (impid p))"

definition ctx_inv :: "'p ctx \<Rightarrow> bool" where
  "ctx_inv c \<longleftrightarrow> id_array_inv (id_array c) \<and> ctx_sets_inv c \<and> ctx_unique c \<and> ctx_texts c
     \<and> (need_id c \<longleftrightarrow> wants_id c)"

lemmas ctx_inv_defs = ctx_inv_def ctx_sets_inv_def ctx_unique_def ctx_texts_def wants_id_def

section \<open>Identifiers\<close>

lemma valid_id_loop_iff:
  "valid_id_loop s idx = (if MIN_SIZE_ID \<le> idx + length s \<and> (s = [] \<or> idx + length s \<le> MAX_SIZE_ID)
     \<and> list_all id_char s then int (idx + length s) else - EINVAL)"
  by (induction s idx rule: valid_id_loop.induct) (auto simp: id_char_def)

lemma is_valid_id: "context_is_valid_id s = (if valid_id s then int (length s) else - EINVAL)"
  by (auto simp: context_is_valid_id_def valid_id_loop_iff valid_id_def)

lemma id_char_not_nul: "id_char c \<Longrightarrow> c \<noteq> NUL"
  by (auto simp: id_char_def is_alnum_def)

lemma valid_id_no_nul: "valid_id s \<Longrightarrow> no_nul s"
  by (auto simp: valid_id_def no_nul_def list_all_iff dest: id_char_not_nul)

lemma setids_valid: "valid_id s \<Longrightarrow> setids s a = (0, s @ drop (length s) a)"
  by (simp add: setids_def is_valid_id)

lemma setids_invalid: "\<not> valid_id s \<Longrightarrow> setids s a = (- EINVAL, a)"
  by (simp add: setids_def is_valid_id)

lemma id_array_inv_set:
  assumes "id_array_inv a" "valid_id s"
  shows "id_array_inv (s @ drop (length s) a)"
proof -
  have "id_char (s ! i)" if "i < length s" for i
    using that assms(2) by (simp add: valid_id_def list_all_length)
  then show ?thesis
    using assms by (auto simp: id_array_inv_def valid_id_def nth_append)
qed

lemma id_array_inv_upd: "id_array_inv a \<Longrightarrow> id_array_inv (a[0 := NUL])"
  by (auto simp: id_array_inv_def nth_list_update)

lemma context_set_id_eq:
  "context_set_id c s =
     (if error_flag c then (- ENOTRECOVERABLE, c)
      else if has_id c then (- EEXIST, c)
      else if valid_id s then (0, c\<lparr>id_array := s @ drop (length s) (id_array c)\<rparr>)
      else (- EINVAL, c\<lparr>id_array := (id_array c)[0 := NUL]\<rparr>))"
  by (simp add: context_set_id_def setids_valid setids_invalid)

lemma context_id_set:
  "valid_id s \<Longrightarrow> context_id (c\<lparr>id_array := s @ drop (length s) a\<rparr>) = s @ cstr (drop (length s) a)"
  by (auto simp: context_id_def cstr_def takeWhile_append no_nul_def dest: valid_id_no_nul)

text \<open>The id a context presents before its first clear: the array is all NUL.\<close>

definition fresh_id :: "'p ctx \<Rightarrow> bool" where
  "fresh_id c \<longleftrightarrow> length (id_array c) = 201 \<and> take 200 (id_array c) = replicate 200 NUL"

lemma fresh_id_drop: "fresh_id c \<Longrightarrow> n < 200 \<Longrightarrow> cstr (drop n (id_array c)) = []"
proof -
  assume f: "fresh_id c" and n: "n < 200"
  then have "id_array c ! n = take 200 (id_array c) ! n" by simp
  also have "\<dots> = replicate 200 NUL ! n" using f by (simp only: fresh_id_def)
  finally have "id_array c ! n = NUL" using n by simp
  moreover have "drop n (id_array c) = id_array c ! n # drop (Suc n) (id_array c)"
    using f n by (simp add: fresh_id_def Cons_nth_drop_Suc)
  ultimately show ?thesis by simp
qed

section \<open>Preservation\<close>

lemma context_init_inv:
  "length (id_array c) = 201 \<Longrightarrow> ctx_inv (context_init c) \<and> fresh_id (context_init c)"
  by (auto simp: ctx_inv_defs context_init_def id_array_inv_def fresh_id_def nth_append
        path_set_init_def plugset_init_def permission_set_init_def
        perm_set.unique_keys_empty path_keys.unique_keys_empty plug_keys.unique_keys_empty
        permission_set_inv_def path_set_inv_def plugset_inv_def)

lemma context_clear_inv: "ctx_inv c \<Longrightarrow> ctx_inv (context_clear c)"
  by (auto simp: ctx_inv_defs context_clear_def id_array_inv_upd
        path_set_clear_def permission_set_clear_def
        perm_set.unique_keys_empty path_keys.unique_keys_empty plug_keys.unique_keys_empty
        permission_set_inv_def path_set_inv_def plugset_inv_def)

lemma context_raise_error_inv: "ctx_inv c \<Longrightarrow> ctx_inv (context_raise_error c)"
  by (simp add: ctx_inv_defs context_raise_error_def)

lemma context_set_id_inv: "context_set_id c s = (rc, c') \<Longrightarrow> ctx_inv c \<Longrightarrow> ctx_inv c'"
  by (auto simp: context_set_id_eq ctx_inv_defs id_array_inv_set id_array_inv_upd split: if_splits)

lemma context_set_permission_manager_inv:
  "context_set_permission_manager c pm = (old, c') \<Longrightarrow> ctx_inv c \<Longrightarrow> ctx_inv c'"
  by (auto simp: context_set_permission_manager_def ctx_inv_defs)

lemma context_add_permission_cases:
  assumes "context_add_permission c p w = (rc, c', w')"
  obtains (fail) "rc < 0" "c' = c"
  | (added) ps where "rc = 0" "\<not> error_flag c" "\<not> permission_set_has (permission_set c) p"
      "permission_set_add (permission_set c) p w = (0, ps, w')"
      "permissions ps = permissions (permission_set c) @ [p]"
      "c' = c\<lparr>permission_set := ps, need_id := True\<rparr>"
proof (cases "error_flag c \<or> permission_set_has (permission_set c) p")
  case True
  then show ?thesis using assms fail by (auto simp: context_add_permission_def split: if_splits)
next
  case False
  obtain r ps w1 where a: "permission_set_add (permission_set c) p w = (r, ps, w1)"
    by (metis prod_cases3)
  show ?thesis
    using a
  proof (cases rule: permission_set_add_cases)
    case added
    then show ?thesis
      using assms False a by (intro that(2)[of ps]) (simp_all add: context_add_permission_def)
  qed (use assms False a fail in \<open>auto simp: context_add_permission_def\<close>)
qed

lemma context_add_permission_inv:
  assumes "context_add_permission c p w = (rc, c', w')" "ctx_inv c"
  shows "ctx_inv c'"
  using assms(1)
proof (cases rule: context_add_permission_cases)
  case (added ps)
  then show ?thesis
    using assms(2) permission_set_add_inv[OF added(4)] perm_set.unique_keys_add[OF added(4,3)]
    by (simp add: ctx_inv_defs)
qed (use assms(2) in simp)

lemma context_add_path_cases:
  assumes "context_add_path c p ty w = (rc, c', w')"
  obtains (fail) "rc < 0" "c' = c"
  | (added) q w1 where "rc = 0" "\<not> error_flag c" "path_type_is_valid (path_type_get ty)"
      "std_path p = Some q" "\<not> path_set_has (path_set c) q"
      "check_path_exists q False w = (0, w1)"
      "path_set_add (path_set c) q (path_type_get ty) w1 =
         (0, path_set c @ [\<lparr>path_type = path_type_get ty, path = q\<rparr>], w')"
      "c' = c\<lparr>path_set := path_set c @ [\<lparr>path_type = path_type_get ty, path = q\<rparr>],
              need_id := (path_type_get ty \<noteq> type_default \<or> need_id c)\<rparr>"
proof -
  let ?t = "path_type_get ty"
  show ?thesis
  proof (cases "error_flag c \<or> \<not> path_type_is_valid ?t \<or> std_path p = None
      \<or> path_set_has (path_set c) (the (std_path p))")
    case True
    then have "rc < 0 \<and> c' = c"
      using assms by (auto simp: context_add_path_def Let_def split: if_splits option.splits)
    then show ?thesis using fail by blast
  next
    case False
    then obtain q where q: "std_path p = Some q" and ok: "\<not> error_flag c" "path_type_is_valid ?t"
      "\<not> path_set_has (path_set c) q" by auto
    obtain r w1 where ck: "check_path_exists q False w = (r, w1)" by fastforce
    have r0: "r \<le> 0" using ck by (auto simp: check_path_exists_def split: prod.splits if_splits)
    obtain r2 ps w2 where ad: "path_set_add (path_set c) q ?t w1 = (r2, ps, w2)"
      by (metis prod_cases3)
    note run = assms[unfolded context_add_path_def Let_def, simplified ok q option.case if_False
        ck ad prod.case simp_thms if_True]
    show ?thesis
    proof (cases "r < 0")
      case True
      then show ?thesis using run by (intro fail) auto
    next
      case r: False
      show ?thesis
        using ad
      proof (cases rule: path_set_add_cases)
        case fail
        then show ?thesis using run r by (intro that(1)) auto
      next
        case added
        have e: "r = 0" using r r0 by simp
        from added run r show ?thesis
          by (intro that(2)[OF _ ok(1,2) q ok(3)]) (auto simp: ck ad e)
      qed
    qed
  qed
qed

lemma std_path_abs_path: "std_path p = Some q \<Longrightarrow> abs_path q"
  using std_path_Some by (auto simp: abs_path_def)

lemma context_add_path_inv:
  assumes "context_add_path c p ty w = (rc, c', w')" "ctx_inv c"
  shows "ctx_inv c'"
  using assms(1)
proof (cases rule: context_add_path_cases)
  case (added q w1)
  then show ?thesis
    using assms(2) path_set_add_inv[OF added(7)] path_keys.unique_keys_add[OF added(7,5)]
      std_path_abs_path[OF added(4)]
    by (auto simp: ctx_inv_defs)
qed (use assms(2) in simp)

lemma context_add_plug_cases:
  assumes "context_add_plug c exp iid imp w = (rc, c', w')"
  obtains (fail) "rc < 0" "c' = c"
  | (added) e i w1 w2 where "rc = 0" "\<not> error_flag c" "std_path exp = Some e" "std_path imp = Some i"
      "\<not> plugset_has (plugset c) None None (Some i)" "valid_id iid"
      "check_directory_exists e True w = (0, w1)" "check_directory_exists i True w1 = (0, w2)"
      "plugset_add (plugset c) e iid i w2 =
         (0, \<lparr>expdir = e, impid = iid, impdir = i\<rparr> # plugset c, w')"
      "c' = c\<lparr>plugset := \<lparr>expdir = e, impid = iid, impdir = i\<rparr> # plugset c, need_id := True\<rparr>"
proof (cases "error_flag c \<or> std_path exp = None \<or> std_path imp = None
      \<or> plugset_has (plugset c) None None (Some (the (std_path imp))) \<or> \<not> valid_id iid")
  case True
  then have "rc < 0 \<and> c' = c"
    using assms by (auto simp: context_add_plug_def Let_def is_valid_id split: if_splits option.splits)
  then show ?thesis using fail by blast
next
  case False
  then obtain e i where ei: "std_path exp = Some e" "std_path imp = Some i"
    and ok: "\<not> error_flag c" "\<not> plugset_has (plugset c) None None (Some i)" "valid_id iid" by auto
  obtain r1 w1 where c1: "check_directory_exists e True w = (r1, w1)" by fastforce
  obtain r2 w2 where c2: "check_directory_exists i True w1 = (r2, w2)" by fastforce
  have le: "r1 \<le> 0" "r2 \<le> 0"
    using c1 c2 by (auto simp: check_directory_exists_def split: prod.splits if_splits)
  obtain r3 ps w3 where ad: "plugset_add (plugset c) e iid i w2 = (r3, ps, w3)"
    by (metis prod_cases3)
  note run = assms[unfolded context_add_plug_def Let_def is_valid_id, simplified ok ei option.case
      if_False c1 c2 ad prod.case simp_thms if_True]
  show ?thesis
  proof (cases "r1 < 0 \<or> r2 < 0")
    case True
    then show ?thesis using run by (intro fail) (auto split: if_splits)
  next
    case r: False
    then have z: "r1 = 0" "r2 = 0" using le by auto
    show ?thesis
      using ad
    proof (cases rule: plugset_add_cases)
      case fail
      then show ?thesis using run z by (intro that(1)) auto
    next
      case added
      with run z show ?thesis
        by (intro that(2)[OF _ ok(1) ei ok(2,3)]) (auto simp: c1 c2 ad)
    qed
  qed
qed

lemma context_add_plug_inv:
  assumes "context_add_plug c exp iid imp w = (rc, c', w')" "ctx_inv c"
  shows "ctx_inv c'"
  using assms(1)
proof (cases rule: context_add_plug_cases)
  case (added e i w1 w2)
  have "plug_keys.unique_keys (\<lparr>expdir = e, impid = iid, impdir = i\<rparr> # plugset c)"
    using plug_keys.unique_keys_add[of "plugset c" i "(e, iid)" w2] added(5,9) assms(2)
    by (auto simp: ctx_inv_defs)
  then show ?thesis
    using assms(2) added plugset_add_inv[OF added(9)] std_path_abs_path
    by (auto simp: ctx_inv_defs)
qed (use assms(2) in simp)

section \<open>Reachable contexts\<close>

text \<open>What a client can ask of its context, in any order.\<close>

datatype ctx_op =
  SetId string | AddPath string string | AddPlug string string string | AddPermission string
| RaiseError | ClearCtx

fun ctx_do :: "ctx_op \<Rightarrow> 'p ctx \<Rightarrow> 'z wstate \<Rightarrow> int \<times> 'p ctx \<times> 'z wstate" where
  "ctx_do (SetId s) c w = (case context_set_id c s of (rc, c') \<Rightarrow> (rc, c', w))"
| "ctx_do (AddPath p t) c w = context_add_path c p t w"
| "ctx_do (AddPlug e i d) c w = context_add_plug c e i d w"
| "ctx_do (AddPermission p) c w = context_add_permission c p w"
| "ctx_do RaiseError c w = (0, context_raise_error c, w)"
| "ctx_do ClearCtx c w = (0, context_clear c, w)"

text \<open>
  A context and the world: created by \<open>context_create\<close> over any memory of the size of the
  structure, then changed by operations while the world changes in any way between them.
\<close>

inductive ctx_reach :: "'p ctx \<Rightarrow> 'z wstate \<Rightarrow> bool" where
  create: "context_create mem w = (0, Some c, w') \<Longrightarrow> length (id_array mem) = 201 \<Longrightarrow> ctx_reach c w'"
| oper: "ctx_reach c w \<Longrightarrow> ctx_do op c w = (rc, c', w') \<Longrightarrow> ctx_reach c' w'"
| manager: "ctx_reach c w \<Longrightarrow> context_set_permission_manager c pm = (old, c') \<Longrightarrow> ctx_reach c' w"
| world: "ctx_reach c w \<Longrightarrow> ctx_reach c w'"

lemma ctx_do_inv: "ctx_do op c w = (rc, c', w') \<Longrightarrow> ctx_inv c \<Longrightarrow> ctx_inv c'"
  by (cases op)
     (auto intro: context_set_id_inv context_add_path_inv context_add_plug_inv
        context_add_permission_inv context_raise_error_inv context_clear_inv split: prod.splits)

lemma ctx_reach_ctx_inv: "ctx_reach c w \<Longrightarrow> ctx_inv c"
proof (induction rule: ctx_reach.induct)
  case (create mem w c w')
  then show ?case
    using context_init_inv[of mem] by (auto simp: context_create_def split: prod.splits if_splits)
qed (auto intro: ctx_do_inv context_set_permission_manager_inv)

text \<open>A run of operations, for the concrete instances.\<close>

fun ctx_run :: "ctx_op list \<Rightarrow> 'p ctx \<Rightarrow> 'z wstate \<Rightarrow> 'p ctx \<times> 'z wstate" where
  "ctx_run [] c w = (c, w)"
| "ctx_run (op # ops) c w = (case ctx_do op c w of (_, c', w') \<Rightarrow> ctx_run ops c' w')"

lemma ctx_run_reach: "ctx_reach c w \<Longrightarrow> ctx_run ops c w = (c', w') \<Longrightarrow> ctx_reach c' w'"
  by (induction ops c w rule: ctx_run.induct) (auto split: prod.splits intro: ctx_reach.oper)

text \<open>A context and a file system for the concrete instances.\<close>

definition demo_mem :: "nat ctx" where
  "demo_mem = \<lparr>id_array = replicate 201 (CHR ''Z''),
     permission_set = \<lparr>permissions = [], slots = 0\<rparr>, path_set = [], plugset = [],
     need_id = True, error_flag = True, permgr = None\<rparr>"

definition demo_dir :: inode where
  "demo_dir = \<lparr>kind = FDir, xbit = True, content = [], xattrs = Map.empty\<rparr>"

definition demo_os :: os where
  "demo_os = \<lparr>fs = [''/'' \<mapsto> demo_dir, ''/opt/app'' \<mapsto> demo_dir, ''/opt/imp'' \<mapsto> demo_dir],
     faults = []\<rparr>"

lemma demo_create: "context_create demo_mem demo_os = (0, Some (context_init demo_mem), demo_os)"
  by (simp add: context_create_def sys_malloc_def pop_fault_def demo_os_def)

lemma demo_reach: "ctx_reach (context_init demo_mem) demo_os"
  by (rule ctx_reach.create[OF demo_create]) (simp add: demo_mem_def)

text \<open>
  C13: whatever a client asks of its context, in any order and with any failure of the
  system calls, the context stays well formed: the identifier array holds only identifier
  characters and NULs, the sets respect their sizes and hold no key twice, every recorded
  path is absolute, NUL-free and short enough, every plug has a valid identifier, and
  \<open>need_id\<close> is set exactly when a permission, a plug or a non-default path needs one.
\<close>

theorem context_invariant: "ctx_reach c w \<Longrightarrow> ctx_inv c"
  by (rule ctx_reach_ctx_inv)

theorem context_invariant_witness:
  "ctx_inv (fst (ctx_run [SetId ''appli'', AddPath ''/opt//app/'' ''data'',
     AddPermission ''perm'', AddPlug ''/opt/app'' ''other'' ''/opt/imp'']
     (context_init demo_mem) demo_os))"
  by (rule context_invariant[OF ctx_run_reach[OF demo_reach]]) (rule surjective_pairing)

section \<open>The error flag\<close>

text \<open>
  Once an error has been raised, nothing but \<open>context_clear\<close> changes the session:
  every setter is refused with \<open>ENOTRECOVERABLE\<close> and leaves the context and the system as
  they are.
\<close>

theorem error_blocks_changes:
  assumes "context_has_error c"
  shows "context_set_id c s = (- ENOTRECOVERABLE, c)
    \<and> context_add_path c p t w = (- ENOTRECOVERABLE, c, w)
    \<and> context_add_plug c e i d w = (- ENOTRECOVERABLE, c, w)
    \<and> context_add_permission c q w = (- ENOTRECOVERABLE, c, w)
    \<and> \<not> context_has_error (context_clear c)"
  using assms
  by (auto simp: context_has_error_def context_set_id_def context_add_path_def
        context_add_plug_def context_add_permission_def context_clear_def)

theorem error_blocks_changes_witness:
  "context_set_id (context_raise_error demo_mem) ''app'' =
     (- ENOTRECOVERABLE, context_raise_error demo_mem)"
  by (rule error_blocks_changes[THEN conjunct1])
     (simp add: context_has_error_def context_raise_error_def)

section \<open>The identifier across operations\<close>

lemma fresh_id_no_id: "fresh_id c \<Longrightarrow> \<not> has_id c"
  using fresh_id_drop[of c 0]
  by (cases "id_array c") (auto simp: fresh_id_def has_id_def rd_def split: if_splits)

lemma set_id_fresh:
  assumes "fresh_id c" "\<not> error_flag c" "valid_id s" "length s < MAX_SIZE_ID"
  shows "fst (context_set_id c s) = 0 \<and> context_id (snd (context_set_id c s)) = s"
  using assms fresh_id_no_id[OF assms(1)] fresh_id_drop[OF assms(1,4)]
  by (simp add: context_set_id_eq context_id_set)

text \<open>
  C28: in a context that has had no identifier yet, setting one succeeds exactly for two to
  two hundred characters of \<open>[A-Za-z0-9_-]\<close>, and, below two hundred, the identifier is then
  the text that was given; a second identifier is refused and changes nothing.
\<close>

theorem context_set_id_fresh:
  assumes "fresh_id c" "\<not> error_flag c"
  shows "(fst (context_set_id c s) = 0 \<longleftrightarrow> valid_id s)
    \<and> (valid_id s \<and> length s < MAX_SIZE_ID \<longrightarrow>
           context_id (snd (context_set_id c s)) = s
           \<and> context_set_id (snd (context_set_id c s)) t = (- EEXIST, snd (context_set_id c s)))"
proof (intro conjI impI; (elim conjE)?)
  show "fst (context_set_id c s) = 0 \<longleftrightarrow> valid_id s"
    using fresh_id_no_id[OF assms(1)] assms(2) by (simp add: context_set_id_eq)
  assume s: "valid_id s" "length s < MAX_SIZE_ID"
  let ?c = "snd (context_set_id c s)"
  show id: "context_id ?c = s" using set_id_fresh[OF assms s] by blast
  then have "has_id ?c"
    using s(1) by (cases "id_array ?c") (auto simp: context_id_def has_id_def rd_def valid_id_def split: if_splits)
  moreover have "\<not> error_flag ?c" using assms(2) by (simp add: context_set_id_eq)
  ultimately show "context_set_id ?c t = (- EEXIST, ?c)" by (simp add: context_set_id_eq)
qed

theorem context_set_id_fresh_witness:
  "context_id (snd (context_set_id (context_init demo_mem) ''demo-app'')) = ''demo-app''"
proof -
  have f: "fresh_id (context_init demo_mem)"
    using context_init_inv[of demo_mem] by (simp add: demo_mem_def)
  have e: "\<not> error_flag (context_init demo_mem)" by (simp add: context_init_def)
  have "valid_id ''demo-app'' \<and> length ''demo-app'' < MAX_SIZE_ID"
    by (simp add: valid_id_def id_char_def is_alnum_def)
  then show ?thesis using context_set_id_fresh[OF f e, of "''demo-app''"] by blast
qed

lemma set_id_after_clear:
  assumes "fresh_id c" "\<not> error_flag c" "valid_id s" "length s < MAX_SIZE_ID"
    and "valid_id t" "length t < length s"
  shows "context_id (snd (context_set_id (context_clear (snd (context_set_id c s))) t)) =
           t @ drop (length t) s"
proof -
  let ?a = "s @ drop (length s) (id_array c)"
  let ?c = "context_clear (c\<lparr>id_array := ?a\<rparr>)"
  have ne: "0 < length t" using assms(5) by (cases t) (auto simp: valid_id_def)
  have c: "snd (context_set_id c s) = c\<lparr>id_array := ?a\<rparr>"
    using assms fresh_id_no_id[OF assms(1)] by (simp add: context_set_id_eq)
  have l: "?a \<noteq> []" using assms by (auto simp: fresh_id_def)
  have "\<not> has_id ?c" "\<not> error_flag ?c" "id_array ?c = ?a[0 := NUL]"
    using l by (auto simp: context_clear_def has_id_def rd_def)
  then have "context_id (snd (context_set_id ?c t)) = t @ cstr (drop (length t) (?a[0 := NUL]))"
    using assms(5) by (simp add: context_set_id_eq context_id_set)
  also have "drop (length t) (?a[0 := NUL]) = drop (length t) ?a"
    using ne by (simp add: drop_update_cancel)
  also have "cstr (drop (length t) ?a) = drop (length t) s"
  proof -
    have "no_nul (drop (length t) s)"
      using valid_id_no_nul[OF assms(3)] by (auto simp: no_nul_def dest: in_set_dropD)
    moreover have "drop (length s) (id_array c) \<noteq> []" using assms by (simp add: fresh_id_def)
    then have "drop (length s) (id_array c) = hd (drop (length s) (id_array c)) # tl (drop (length s) (id_array c))"
      by simp
    moreover have "cstr (drop (length s) (id_array c)) = []"
      by (rule fresh_id_drop[OF assms(1,4)])
    ultimately show ?thesis
      using assms(6) by (auto simp: cstr_def takeWhile_append no_nul_def)
  qed
  finally show ?thesis by (simp add: c)
qed

text \<open>
  The identifier of a session survives \<open>context_clear\<close> beyond its first character:
  after a clear, setting an identifier shorter than the previous one yields the new one
  followed by the rest of the old one, which is not the identifier that was asked for.
\<close>

theorem stale_id_after_clear:
  assumes "fresh_id c" "\<not> error_flag c" "valid_id s" "length s < MAX_SIZE_ID"
    and "valid_id t" "length t < length s"
  shows "context_id (snd (context_set_id (context_clear (snd (context_set_id c s))) t)) =
           t @ drop (length t) s"
  using assms by (rule set_id_after_clear)

theorem stale_id_after_clear_witness:
  "context_id (snd (context_set_id (context_clear (snd (context_set_id (context_init demo_mem)
     ''application-demo''))) ''ab'')) = ''abplication-demo''"
proof -
  have "fresh_id (context_init demo_mem)"
    using context_init_inv[of demo_mem] by (simp add: demo_mem_def)
  moreover have "\<not> error_flag (context_init demo_mem)" by (simp add: context_init_def)
  moreover have "valid_id ''application-demo''" "valid_id ''ab''"
    by (simp_all add: valid_id_def id_char_def is_alnum_def)
  ultimately show ?thesis
    using stale_id_after_clear[of _ "''application-demo''" "''ab''"] by simp
qed

section \<open>Adding a path\<close>

lemma check_path_exists_le: "check_path_exists q fo w = (r, w1) \<Longrightarrow> r \<le> 0"
  by (auto simp: check_path_exists_def split: prod.splits if_splits)

lemma check_path_exists_nil [os_simps]:
  "faults w = [] \<Longrightarrow> fst (check_path_exists q False w) = 0 \<longleftrightarrow> fs w q \<noteq> None"
  by (auto simp: check_path_exists_def get_path_property_nil find_inode_def
        split: option.splits fkind.splits)

lemma context_add_path_absolute:
  assumes "faults w = []" "\<not> error_flag c" "no_nul p" "rd p 0 = SLASH" "length p < MAX_SIZE_PATH"
  shows "fst (context_add_path c p ty w) = 0 \<longleftrightarrow>
           path_type_is_valid (path_type_get ty) \<and> fs w (std_abs p) \<noteq> None
           \<and> \<not> (\<exists>i \<in> set (path_set c). path i = std_abs p)"
proof -
  have sp: "std_path p = Some (std_abs p)"
    using assms(3-5) by (intro std_path_absolute) auto
  have len: "length (std_abs p) < MAX_SIZE_PATH" "1 \<le> length (std_abs p)"
  proof -
    obtain r b where run: "path_std (replicate 1025 NUL) p = (r, b)" by fastforce
    have "r \<le> length p" using path_std_short[of p "replicate 1025 NUL"] assms(4,5) run by simp
    moreover from this have "r = length (std_abs p)"
      using path_std_abs[OF assms(3,4) run] assms(5) by simp
    ultimately show "length (std_abs p) < MAX_SIZE_PATH" using assms(5) by simp
    show "1 \<le> length (std_abs p)" using std_path_Some[OF sp] by simp
  qed
  obtain r w1 where ck: "check_path_exists (std_abs p) False w = (r, w1)" by fastforce
  have r: "r = 0 \<longleftrightarrow> fs w (std_abs p) \<noteq> None" "r \<le> 0" and w1: "faults w1 = []"
    using check_path_exists_nil[OF assms(1), of "std_abs p"] ck check_rest(1)[OF ck] assms(1)
      check_path_exists_le[OF ck] by simp_all
  have ad: "path_set_add (path_set c) (std_abs p) (path_type_get ty) w1 =
      (0, path_set c @ [\<lparr>path_type = path_type_get ty, path = std_abs p\<rparr>], w1)"
    if "path_type_is_valid (path_type_get ty)"
    using that len w1 by (simp add: path_set_add_def sys_malloc_nil Suc_le_eq)
  show ?thesis
    using assms(2) r ad
    by (cases "r < 0") (auto simp: context_add_path_def sp ck path_set_has_iff Let_def)
qed

text \<open>
  C27: on a system where no call fails by itself, adding an absolute path that is short
  enough succeeds exactly when its type is the name of a valid type, its normalisation is
  in the file system and is not yet in the session.
\<close>

theorem context_add_path_success:
  assumes "faults w = []" "\<not> error_flag c" "no_nul p" "rd p 0 = SLASH" "length p < MAX_SIZE_PATH"
  shows "fst (context_add_path c p ty w) = 0 \<longleftrightarrow>
           path_type_is_valid (path_type_get ty) \<and> fs w (std_abs p) \<noteq> None
           \<and> \<not> (\<exists>i \<in> set (path_set c). path i = std_abs p)"
  using assms by (rule context_add_path_absolute)

theorem context_add_path_success_witness:
  "fst (context_add_path (context_init demo_mem) ''/opt//./app/'' ''data'' demo_os) = 0"
proof -
  have "std_abs ''/opt//./app/'' = ''/opt/app''" by code_simp
  moreover have "path_type_is_valid (path_type_get ''data'')" by code_simp
  ultimately show ?thesis
    using context_add_path_success[of demo_os "context_init demo_mem" "''/opt//./app/''" "''data''"]
    by (simp add: demo_os_def context_init_def path_set_init_def rd_def)
qed

section \<open>Visiting\<close>

datatype visited =
  VId string | VPath string string | VPermission string | VPlug string string string

text \<open>The items a complete visit presents, in order.\<close>

definition ctx_items :: "'p ctx \<Rightarrow> visited list" where
  "ctx_items c =
     (if has_id c then [VId (context_id c)] else [])
     @ map (\<lambda>i. VPath (path i) (path_type_name (path_type i))) (path_set c)
     @ map VPermission (permissions (permission_set c))
     @ map (\<lambda>p. VPlug (expdir p) (impid p) (impdir p)) (plugset c)"

definition visitor_of :: "(visited \<Rightarrow> 'v \<Rightarrow> int \<times> 'v) \<Rightarrow> 'v context_visitor" where
  "visitor_of f = \<lparr>visit_id = Some (\<lambda>i. f (VId i)), visit_path = Some (\<lambda>p t. f (VPath p t)),
     visit_permission = Some (\<lambda>p. f (VPermission p)),
     visit_plug = Some (\<lambda>e i d. f (VPlug e i d))\<rparr>"

lemma visit_all_append:
  "visit_all f (xs @ ys) rc v = (case visit_all f xs rc v of (rc', v') \<Rightarrow> visit_all f ys rc' v')"
proof (induction f xs rc v rule: visit_all.induct)
  case (2 f x xs rc v)
  have "visit_all f ys rc v = (rc, v)" if "rc \<noteq> 0" using that by (cases ys) auto
  with 2 show ?case by (auto split: prod.splits)
qed simp

lemma visit_all_map: "visit_all f (map g xs) rc v = visit_all (\<lambda>x. f (g x)) xs rc v"
  by (induction xs arbitrary: rc v) (auto split: prod.splits)

lemma visit_in_order: "context_visit c (visitor_of f) v = visit_all f (ctx_items c) 0 v"
  by (auto simp: context_visit_def visitor_of_def ctx_items_def visit_all_append visit_all_map
        Let_def split: prod.splits)

text \<open>
  A complete visit presents the identifier (when there is one), the paths, the
  permissions and the plugs, in this order, each in the order of its collection, and stops
  at the first callback that returns something else than zero, which is its result.
\<close>

theorem context_visit_order:
  "context_visit c (visitor_of f) v = visit_all f (ctx_items c) 0 v"
  by (rule visit_in_order)

end
