(* ===== verification/Channel.thy ===== *)
theory Channel
  imports Prelude
begin

text \<open>
  A connected descriptor (an errno is positive), as \<open>read\<close> and \<open>writev\<close> see it: what the peer and the kernel do
  next is a schedule of events, what was written is recorded. An exhausted schedule of
  reads means that nothing arrives (\<open>EAGAIN\<close>); an exhausted schedule of writes accepts
  everything. Both loops retry on \<open>EINTR\<close> as the code does.
\<close>

datatype rx_event = RxData string | RxErr int | RxEof
datatype tx_event = TxTake nat | TxErr int

record chan =
  rx :: "rx_event list"
  tx :: "tx_event list"
  sent :: string

text \<open>\<open>read (fd, buffer, n)\<close>: a chunk longer than what is asked stays for the next call.\<close>

definition sys_read :: "nat \<Rightarrow> chan \<Rightarrow> (int + string) \<times> chan" where
  "sys_read n ch =
     (case rx ch of
        [] \<Rightarrow> (Inl EAGAIN, ch)
      | RxErr e # es \<Rightarrow> (Inl (max 1 e), ch\<lparr>rx := es\<rparr>)
      | RxEof # es \<Rightarrow> (Inr [], ch)
      | RxData s # es \<Rightarrow>
          (Inr (take n s), ch\<lparr>rx := (if length s \<le> n then es else RxData (drop n s) # es)\<rparr>))"

definition sys_writev :: "string list \<Rightarrow> chan \<Rightarrow> (int + nat) \<times> chan" where
  "sys_writev vec ch =
     (let bytes = concat vec
      in case tx ch of
           [] \<Rightarrow> (Inr (length bytes), ch\<lparr>sent := sent ch @ bytes\<rparr>)
         | TxErr e # es \<Rightarrow> (Inl (max 1 e), ch\<lparr>tx := es\<rparr>)
         | TxTake k # es \<Rightarrow> (Inr (min k (length bytes)),
             ch\<lparr>tx := es, sent := sent ch @ take (min k (length bytes)) bytes\<rparr>))"

text \<open>\<open>do { ... } while (rc < 0 && errno == EINTR);\<close>\<close>

function read_retry :: "nat \<Rightarrow> chan \<Rightarrow> (int + string) \<times> chan" where
  "read_retry n ch =
     (case sys_read n ch of
        (Inl e, ch1) \<Rightarrow> if e = EINTR then read_retry n ch1 else (Inl e, ch1)
      | (Inr s, ch1) \<Rightarrow> (Inr s, ch1))"
  by pat_completeness auto
termination
  by (relation "measure (\<lambda>(_, ch). length (rx ch))")
     (auto simp: sys_read_def split: list.splits rx_event.splits)

function writev_retry :: "string list \<Rightarrow> chan \<Rightarrow> (int + nat) \<times> chan" where
  "writev_retry vec ch =
     (case sys_writev vec ch of
        (Inl e, ch1) \<Rightarrow> if e = EINTR then writev_retry vec ch1 else (Inl e, ch1)
      | (Inr k, ch1) \<Rightarrow> (Inr k, ch1))"
  by pat_completeness auto
termination
  by (relation "measure (\<lambda>(_, ch). length (tx ch))")
     (auto simp: sys_writev_def Let_def split: list.splits tx_event.splits)

declare read_retry.simps [simp del] writev_retry.simps [simp del]

text \<open>What a write does: a prefix of the bytes is added to what was sent.\<close>

lemma writev_retry_ok:
  "writev_retry vec ch = (Inr k, ch') \<Longrightarrow>
   k \<le> length (concat vec) \<and> sent ch' = sent ch @ take k (concat vec) \<and> rx ch' = rx ch"
proof (induction vec ch rule: writev_retry.induct)
  case (1 vec ch)
  show ?case
    using "1.prems" "1.IH"
    by (subst (asm) writev_retry.simps)
       (auto simp: sys_writev_def Let_def split: list.splits tx_event.splits if_splits)
qed

lemma writev_retry_err:
  "writev_retry vec ch = (Inl e, ch') \<Longrightarrow> sent ch' = sent ch \<and> rx ch' = rx ch \<and> e \<noteq> EINTR \<and> 0 < e"
proof (induction vec ch rule: writev_retry.induct)
  case (1 vec ch)
  show ?case
    using "1.prems" "1.IH"
    by (subst (asm) writev_retry.simps)
       (auto simp: sys_writev_def Let_def split: list.splits tx_event.splits if_splits)
qed

text \<open>The events of the writes are consumed; an error is one of them.\<close>

lemma writev_retry_events:
  "writev_retry vec ch = (r, ch') \<Longrightarrow> set (tx ch') \<subseteq> set (tx ch)
     \<and> (\<forall>e. r = Inl e \<longrightarrow> (\<exists>k. TxErr k \<in> set (tx ch) \<and> e = max 1 k))"
proof (induction vec ch rule: writev_retry.induct)
  case (1 vec ch)
  obtain q c where q: "sys_writev vec ch = (q, c)" by fastforce
  have c: "set (tx c) \<subseteq> set (tx ch)" "\<And>e. q = Inl e \<Longrightarrow> \<exists>k. TxErr k \<in> set (tx ch) \<and> e = max 1 k"
    using q by (auto simp: sys_writev_def Let_def split: list.splits tx_event.splits)
  show ?case
  proof (cases "q = Inl EINTR")
    case True
    then have "writev_retry vec c = (r, ch')" using "1.prems" q by (subst (asm) writev_retry.simps) simp
    from "1.IH"[OF q[symmetric] True refl this] show ?thesis using c(1) by blast
  next
    case False
    then have "r = q" "ch' = c" using "1.prems" q by (subst (asm) writev_retry.simps; auto split: sum.splits if_splits)+
    then show ?thesis using c by blast
  qed
qed

text \<open>What is still to come on the channel, up to its end.\<close>

fun incoming :: "rx_event list \<Rightarrow> string" where
  "incoming [] = []"
| "incoming (RxData s # es) = s @ incoming es"
| "incoming (RxErr e # es) = incoming es"
| "incoming (RxEof # es) = []"

lemma read_retry_ok:
  "read_retry n ch = (Inr s, ch') \<Longrightarrow>
   length s \<le> n \<and> incoming (rx ch) = s @ incoming (rx ch') \<and> sent ch' = sent ch"
proof (induction n ch rule: read_retry.induct)
  case (1 n ch)
  show ?case
    using "1.prems" "1.IH"
    by (subst (asm) read_retry.simps)
       (auto simp: sys_read_def split: list.splits rx_event.splits if_splits)
qed

lemma read_retry_err:
  "read_retry n ch = (Inl e, ch') \<Longrightarrow>
   incoming (rx ch') = incoming (rx ch) \<and> sent ch' = sent ch \<and> e \<noteq> EINTR \<and> 0 < e"
proof (induction n ch rule: read_retry.induct)
  case (1 n ch)
  show ?case
    using "1.prems" "1.IH"
    by (subst (asm) read_retry.simps)
       (auto simp: sys_read_def split: list.splits rx_event.splits if_splits)
qed

end
