(* ===== verification/Prot.thy ===== *)
theory Prot
  imports Channel
begin

text \<open>
  \<open>src/protocol/prot.c\<close>: records of fields over two fixed buffers. The output buffer is
  circular, the input buffer is scanned from its start, decoded in place and cropped. The
  definitions keep positions, counts and contents as the code does; an access outside of
  the input buffer or the failure of its assertion is the result \<open>None\<close>.
\<close>

definition PROT_MAX_FIELDS :: nat where "PROT_MAX_FIELDS = 20"
definition PROT_MAX_BUFFER_LENGTH :: nat where "PROT_MAX_BUFFER_LENGTH = 2000"

abbreviation (input) PROT_FIELD_SEPARATOR :: char where "PROT_FIELD_SEPARATOR \<equiv> SPACE"
abbreviation (input) PROT_RECORD_SEPARATOR :: char where "PROT_RECORD_SEPARATOR \<equiv> LF"
abbreviation (input) PROT_ESCAPE :: char where "PROT_ESCAPE \<equiv> BACKSLASH"

record buf =
  bpos :: nat
  bcount :: nat
  bcontent :: "char list"

text \<open>The count is negative when no record is decoded; a field is its offset in the content.\<close>

record fields_t =
  fcount :: int
  foffs :: "nat list"

record prot =
  inbuf :: buf
  outbuf :: buf
  outfields :: nat
  wrokcnt :: nat
  allow_empty :: bool
  pfields :: fields_t

section \<open>Output buffer\<close>

definition wrap :: "nat \<Rightarrow> nat" where
  "wrap pos = (if pos \<ge> PROT_MAX_BUFFER_LENGTH then pos - PROT_MAX_BUFFER_LENGTH else pos)"

definition buf_put_car :: "buf \<Rightarrow> char \<Rightarrow> int \<times> buf" where
  "buf_put_car b car =
     (let pos = bcount b
      in if pos \<ge> PROT_MAX_BUFFER_LENGTH then (- ECANCELED, b)
         else (0, b\<lparr>bcount := pos + 1, bcontent := (bcontent b)[wrap (pos + bpos b) := car]\<rparr>))"

text \<open>\<open>if (!remain--) goto cancel; buf->content[pos++] = c; if (pos == MAX) pos = 0;\<close>\<close>

type_synonym put_state = "nat \<times> nat \<times> char list"

definition put_next :: "char \<Rightarrow> put_state \<Rightarrow> put_state option" where
  "put_next c st = (case st of (pos, remain, cont) \<Rightarrow>
     if remain = 0 then None
     else Some (if pos + 1 = PROT_MAX_BUFFER_LENGTH then 0 else pos + 1, remain - 1, cont[pos := c]))"

definition needs_escape :: "char \<Rightarrow> string \<Rightarrow> bool" where
  "needs_escape c next \<longleftrightarrow>
     c = PROT_FIELD_SEPARATOR \<or> c = PROT_RECORD_SEPARATOR
     \<or> c = PROT_ESCAPE \<and> (next = [] \<or> hd next = PROT_FIELD_SEPARATOR
          \<or> hd next = PROT_RECORD_SEPARATOR \<or> hd next = PROT_ESCAPE)"

fun put_string_loop :: "string \<Rightarrow> put_state \<Rightarrow> put_state option" where
  "put_string_loop [] st = Some st"
| "put_string_loop (c # s) st =
     (if needs_escape c s then
        (case put_next PROT_ESCAPE st of
           None \<Rightarrow> None
         | Some st1 \<Rightarrow> (case put_next c st1 of None \<Rightarrow> None | Some st2 \<Rightarrow> put_string_loop s st2))
      else (case put_next c st of None \<Rightarrow> None | Some st1 \<Rightarrow> put_string_loop s st1))"

text \<open>
  The characters are stored as the loop goes, the count is recorded at the end; what a
  cancelled loop stored lies after the count.
\<close>

definition buf_put_string :: "buf \<Rightarrow> string \<Rightarrow> int \<times> buf" where
  "buf_put_string b s =
     (case put_string_loop s (wrap (bpos b + bcount b), PROT_MAX_BUFFER_LENGTH - bcount b, bcontent b)
      of None \<Rightarrow> (- ECANCELED, b)
       | Some (pos, remain, cont) \<Rightarrow>
           (0, b\<lparr>bcount := PROT_MAX_BUFFER_LENGTH - remain, bcontent := cont\<rparr>))"

definition buf_write_length :: "buf \<Rightarrow> nat \<Rightarrow> chan \<Rightarrow> int \<times> buf \<times> chan" where
  "buf_write_length b cnt ch =
     (let cnt = (if cnt > bcount b then bcount b else cnt)
      in if cnt = 0 then (- ENODATA, b, ch)
         else
           let vec = (if bpos b + cnt \<le> PROT_MAX_BUFFER_LENGTH
                      then [take cnt (drop (bpos b) (bcontent b))]
                      else (let len0 = PROT_MAX_BUFFER_LENGTH - bpos b
                            in [take len0 (drop (bpos b) (bcontent b)),
                                take (cnt - len0) (bcontent b)]))
           in case writev_retry vec ch of
                (Inl e, ch1) \<Rightarrow> (- e, b, ch1)
              | (Inr n, ch1) \<Rightarrow>
                  (int n, b\<lparr>bcount := bcount b - n, bpos := wrap (bpos b + n)\<rparr>, ch1))"

section \<open>Input buffer\<close>

text \<open>
  The loop of \<open>buf_get_fields\<close>, reading at \<open>rd\<close> and writing at \<open>wr\<close>; \<open>cnt\<close> and \<open>offs\<close>
  are the count of fields and the offsets recorded.
\<close>

function get_fields_loop ::
  "char list \<Rightarrow> nat \<Rightarrow> nat \<Rightarrow> nat \<Rightarrow> nat list \<Rightarrow> (char list \<times> nat \<times> nat list) option" where
  "get_fields_loop cont rp wr cnt offs =
     (if rp \<ge> length cont then None
      else
        let c = cont ! rp; rp = rp + 1
        in if c = PROT_FIELD_SEPARATOR then
             let cont = cont[wr := NUL]; wr = wr + 1
             in if cnt \<ge> PROT_MAX_FIELDS then Some (cont, cnt, offs)
                else get_fields_loop cont rp wr (cnt + 1)
                       (if cnt + 1 < PROT_MAX_FIELDS then offs @ [wr] else offs)
           else if c = PROT_RECORD_SEPARATOR then
             Some (cont[wr := NUL], if wr > 0 \<and> cnt < PROT_MAX_FIELDS then cnt + 1 else cnt, offs)
           else if c = PROT_ESCAPE then
             (if rp \<ge> length cont then None
              else
                let c = cont ! rp; rp = rp + 1;
                    esc = c \<noteq> PROT_FIELD_SEPARATOR \<and> c \<noteq> PROT_RECORD_SEPARATOR \<and> c \<noteq> PROT_ESCAPE;
                    cont1 = (if esc then cont[wr := PROT_ESCAPE] else cont);
                    wr1 = (if esc then wr + 1 else wr)
                in get_fields_loop (cont1[wr1 := c]) rp (wr1 + 1) cnt offs)
           else get_fields_loop (cont[wr := c]) rp (wr + 1) cnt offs)"
  by pat_completeness auto
termination
  by (relation "measure (\<lambda>(cont, rp, _). length cont - rp)") (auto simp: Let_def)

declare get_fields_loop.simps [simp del]

definition buf_get_fields :: "buf \<Rightarrow> (buf \<times> fields_t) option" where
  "buf_get_fields b =
     (if bpos b < length (bcontent b) \<and> bcontent b ! bpos b = PROT_RECORD_SEPARATOR then
        (case get_fields_loop (bcontent b) 0 0 0 [0] of
           None \<Rightarrow> None
         | Some (cont, cnt, offs) \<Rightarrow>
             Some (b\<lparr>bpos := bpos b + 1, bcontent := cont\<rparr>, \<lparr>fcount = int cnt, foffs = offs\<rparr>))
      else None)"

text \<open>\<open>while (buf->pos > nesc && buf->content[buf->pos - (nesc + 1)] == PROT_ESCAPE) nesc++;\<close>\<close>

fun count_escapes :: "char list \<Rightarrow> nat \<Rightarrow> nat" where
  "count_escapes cont 0 = 0"
| "count_escapes cont (Suc n) = (if cont ! n = PROT_ESCAPE then Suc (count_escapes cont n) else 0)"

function scan_loop :: "char list \<Rightarrow> nat \<Rightarrow> nat \<Rightarrow> bool \<times> nat" where
  "scan_loop cont cnt pos =
     (if pos < cnt then
        if cont ! pos = PROT_RECORD_SEPARATOR \<and> count_escapes cont pos mod 2 = 0 then (True, pos)
        else scan_loop cont cnt (pos + 1)
      else (False, pos))"
  by pat_completeness auto
termination
  by (relation "measure (\<lambda>(_, cnt, pos). cnt - pos)") auto

declare scan_loop.simps [simp del]

definition buf_scan_end_record :: "buf \<Rightarrow> bool \<times> buf" where
  "buf_scan_end_record b =
     (case scan_loop (bcontent b) (bcount b) (bpos b) of (found, pos) \<Rightarrow> (found, b\<lparr>bpos := pos\<rparr>))"

text \<open>\<open>memmove (content, content + pos, count)\<close>\<close>

definition buf_crop :: "buf \<Rightarrow> buf" where
  "buf_crop b =
     (let n = bcount b - bpos b; cont = bcontent b
      in b\<lparr>bcount := n, bcontent := take n (drop (bpos b) cont) @ drop n cont, bpos := 0\<rparr>)"

definition inbuf_read :: "buf \<Rightarrow> chan \<Rightarrow> int \<times> buf \<times> chan" where
  "inbuf_read b ch =
     (if bcount b = PROT_MAX_BUFFER_LENGTH then (- ENOBUFS, b, ch)
      else case read_retry (PROT_MAX_BUFFER_LENGTH - bcount b) ch of
        (Inl e, ch1) \<Rightarrow> (- e, b, ch1)
      | (Inr s, ch1) \<Rightarrow>
          (int (length s),
           b\<lparr>bcontent := take (bcount b) (bcontent b) @ s @ drop (bcount b + length s) (bcontent b),
             bcount := bcount b + length s\<rparr>, ch1))"

section \<open>The protocol handler\<close>

definition prot_reset :: "prot \<Rightarrow> prot" where
  "prot_reset p = p
     \<lparr>inbuf := (inbuf p)\<lparr>bpos := 0, bcount := 0\<rparr>,
      outbuf := (outbuf p)\<lparr>bpos := 0, bcount := 0\<rparr>,
      outfields := 0, wrokcnt := 0,
      pfields := (pfields p)\<lparr>fcount := -1\<rparr>, allow_empty := False\<rparr>"

text \<open>\<open>mem\<close> is the memory \<open>malloc\<close> returned, or none.\<close>

definition prot_create :: "prot option \<Rightarrow> int \<times> prot option" where
  "prot_create mem = (case mem of None \<Rightarrow> (- ENOMEM, None) | Some p \<Rightarrow> (0, Some (prot_reset p)))"

definition prot_is_empty_allowed :: "prot \<Rightarrow> bool" where
  "prot_is_empty_allowed p = allow_empty p"

definition prot_set_allow_empty :: "prot \<Rightarrow> int \<Rightarrow> prot" where
  "prot_set_allow_empty p value = p\<lparr>allow_empty := (value \<noteq> 0)\<rparr>"

definition prot_put_cancel :: "prot \<Rightarrow> prot" where
  "prot_put_cancel p =
     (if outfields p > 0 then p\<lparr>outbuf := (outbuf p)\<lparr>bcount := wrokcnt p\<rparr>, outfields := 0\<rparr> else p)"

definition prot_put_end :: "prot \<Rightarrow> int \<times> prot" where
  "prot_put_end p =
     (if outfields p > 0 \<or> allow_empty p then
        (case buf_put_car (outbuf p) PROT_RECORD_SEPARATOR of (rc, b) \<Rightarrow>
           if rc = 0 then (rc, p\<lparr>outbuf := b, wrokcnt := bcount b, outfields := 0\<rparr>)
           else (rc, p\<lparr>outbuf := b\<rparr>))
      else (0, p))"

text \<open>A NULL field is \<open>None\<close>.\<close>

definition prot_put_field :: "prot \<Rightarrow> string option \<Rightarrow> int \<times> prot" where
  "prot_put_field p field =
     (let (rc, b) = (if outfields p > 0 then buf_put_car (outbuf p) PROT_FIELD_SEPARATOR
                     else (0, outbuf p));
          (rc, b) = (case field of
                       None \<Rightarrow> (rc, b)
                     | Some s \<Rightarrow> if rc \<ge> 0 then buf_put_string b s else (rc, b))
      in (rc, p\<lparr>outbuf := b, outfields := outfields p + 1\<rparr>))"

fun prot_put_fields :: "prot \<Rightarrow> string option list \<Rightarrow> int \<times> prot" where
  "prot_put_fields p [] = (0, p)"
| "prot_put_fields p (f # fs) =
     (case prot_put_field p f of (rc, p1) \<Rightarrow>
        if rc \<ge> 0 \<and> fs \<noteq> [] then prot_put_fields p1 fs else (rc, p1))"

definition prot_put :: "prot \<Rightarrow> string option list \<Rightarrow> int \<times> prot" where
  "prot_put p fs =
     (let (rc, p) = prot_put_fields p fs;
          (rc, p) = (if rc = 0 then prot_put_end p else (rc, p))
      in (rc, if rc \<noteq> 0 then prot_put_cancel p else p))"

text \<open>\<open>prot_putx\<close> with its arguments up to NULL.\<close>

fun putx_loop :: "prot \<Rightarrow> string list \<Rightarrow> int \<times> prot" where
  "putx_loop p [] = (0, p)"
| "putx_loop p (f # fs) =
     (case prot_put_field p (Some f) of (rc, p1) \<Rightarrow> if rc = 0 then putx_loop p1 fs else (rc, p1))"

definition prot_putx :: "prot \<Rightarrow> string list \<Rightarrow> int \<times> prot" where
  "prot_putx p fs =
     (case putx_loop p fs of (rc, p1) \<Rightarrow> if rc \<noteq> 0 then (rc, prot_put_cancel p1) else prot_put_end p1)"

definition prot_should_write :: "prot \<Rightarrow> bool" where
  "prot_should_write p \<longleftrightarrow> wrokcnt p > 0"

definition prot_write :: "prot \<Rightarrow> chan \<Rightarrow> int \<times> prot \<times> chan" where
  "prot_write p ch =
     (case buf_write_length (outbuf p) (wrokcnt p) ch of (rc, b, ch1) \<Rightarrow>
        (rc, p\<lparr>outbuf := b, wrokcnt := (if rc > 0 then wrokcnt p - nat rc else wrokcnt p)\<rparr>, ch1))"

definition prot_can_read :: "prot \<Rightarrow> bool" where
  "prot_can_read p \<longleftrightarrow> bcount (inbuf p) < PROT_MAX_BUFFER_LENGTH"

definition prot_read :: "prot \<Rightarrow> chan \<Rightarrow> int \<times> prot \<times> chan" where
  "prot_read p ch =
     (case inbuf_read (inbuf p) ch of (rc, b, ch1) \<Rightarrow> (rc, p\<lparr>inbuf := b\<rparr>, ch1))"

definition prot_next :: "prot \<Rightarrow> prot" where
  "prot_next p =
     (if fcount (pfields p) \<ge> 0
      then p\<lparr>inbuf := buf_crop (inbuf p), pfields := (pfields p)\<lparr>fcount := -1\<rparr>\<rparr> else p)"

text \<open>The fields of the decoded record, as the caller reads them.\<close>

definition prot_fields :: "prot \<Rightarrow> string list" where
  "prot_fields p = map (\<lambda>i. cstr (drop (foffs (pfields p) ! i) (bcontent (inbuf p))))
     [0..<nat (fcount (pfields p))]"

lemma scan_loop_bounds: "scan_loop cont cnt pos = (f, pos') \<Longrightarrow>
   pos \<le> pos' \<and> (f \<longrightarrow> pos' < cnt) \<and> (\<not> f \<longrightarrow> pos' = max cnt pos)"
proof (induction cont cnt pos rule: scan_loop.induct)
  case (1 cont cnt pos)
  show ?case
    using "1.IH" "1.prems" by (subst (asm) scan_loop.simps) (auto split: if_splits simp: max_def)
qed

function prot_get :: "prot \<Rightarrow> (int \<times> prot) option" where
  "prot_get p =
     (if fcount (pfields p) < 0 then
        (case buf_scan_end_record (inbuf p) of (found, b) \<Rightarrow>
           if \<not> found then
             Some (if bcount b < PROT_MAX_BUFFER_LENGTH then - EAGAIN else - EMSGSIZE,
                   p\<lparr>inbuf := b\<rparr>)
           else case buf_get_fields b of
             None \<Rightarrow> None
           | Some (b2, fs) \<Rightarrow>
               let p2 = p\<lparr>inbuf := b2, pfields := fs\<rparr>
               in if fcount fs = 0 \<and> \<not> allow_empty p2 then prot_get (prot_next p2)
                  else Some (fcount fs, p2))
      else if fcount (pfields p) = 0 \<and> \<not> allow_empty p then prot_get (prot_next p)
      else Some (fcount (pfields p), p))"
  by pat_completeness auto
termination
proof (relation "measure (\<lambda>p. 2 * bcount (inbuf p) + (if fcount (pfields p) < 0 then 0 else 1))")
  fix p p2 :: prot and found b y b2 fs
  assume a: "fcount (pfields p) < 0" "(found, b) = buf_scan_end_record (inbuf p)" "\<not> \<not> found"
    "buf_get_fields b = Some y" "(b2, fs) = y" "p2 = p\<lparr>inbuf := b2, pfields := fs\<rparr>"
    "fcount fs = 0 \<and> \<not> allow_empty p2"
  have b: "bpos b < bcount b" "bcount b = bcount (inbuf p)"
    using a(2,3) by (auto simp: buf_scan_end_record_def split: prod.splits dest: scan_loop_bounds)
  have b2: "bpos b2 = bpos b + 1" "bcount b2 = bcount b"
    using a(4,5) by (auto simp: buf_get_fields_def split: if_splits option.splits prod.splits)
  show "(prot_next p2, p)
      \<in> measure (\<lambda>p. 2 * bcount (inbuf p) + (if fcount (pfields p) < 0 then 0 else 1))"
    using a b b2 by (simp add: prot_next_def buf_crop_def Let_def)
qed (auto simp: prot_next_def buf_crop_def Let_def)

declare prot_get.simps [simp del]

end
