(* ===== verification/Prot_Out.thy ===== *)
theory Prot_Out
  imports Prot
begin

text \<open>
  The output side of \<open>prot.c\<close>: the circular buffer refines a queue of bytes, a record is
  put entirely or not at all, and what is written is a prefix of the committed bytes.
\<close>

section \<open>The queue of bytes\<close>

definition cview :: "char list \<Rightarrow> nat \<Rightarrow> nat \<Rightarrow> string" where
  "cview cont start n = map (\<lambda>i. cont ! wrap (start + i)) [0..<n]"

definition obytes :: "buf \<Rightarrow> string" where
  "obytes b = cview (bcontent b) (bpos b) (bcount b)"

definition obuf_inv :: "buf \<Rightarrow> bool" where
  "obuf_inv b \<longleftrightarrow> length (bcontent b) = PROT_MAX_BUFFER_LENGTH
     \<and> bpos b < PROT_MAX_BUFFER_LENGTH \<and> bcount b \<le> PROT_MAX_BUFFER_LENGTH"

fun escape_field :: "string \<Rightarrow> string" where
  "escape_field [] = []"
| "escape_field (c # s) = (if needs_escape c s then [PROT_ESCAPE, c] else [c]) @ escape_field s"

fun join_fields :: "string list \<Rightarrow> string" where
  "join_fields [] = []"
| "join_fields [f] = escape_field f"
| "join_fields (f # fs) = escape_field f @ PROT_FIELD_SEPARATOR # join_fields fs"

definition encode :: "string list \<Rightarrow> string" where
  "encode fs = join_fields fs @ [PROT_RECORD_SEPARATOR]"

lemma length_cview [simp]: "length (cview cont start n) = n"
  by (simp add: cview_def)

lemma length_obytes [simp]: "length (obytes b) = bcount b"
  by (simp add: obytes_def)

lemma cview_0 [simp]: "cview cont start 0 = []"
  by (simp add: cview_def)

lemma wrap_less: "start < PROT_MAX_BUFFER_LENGTH \<Longrightarrow> n \<le> PROT_MAX_BUFFER_LENGTH \<Longrightarrow>
   wrap (start + n) < PROT_MAX_BUFFER_LENGTH"
  by (auto simp: wrap_def)

lemma wrap_inj: "start < PROT_MAX_BUFFER_LENGTH \<Longrightarrow> i < n \<Longrightarrow> n < PROT_MAX_BUFFER_LENGTH \<Longrightarrow>
   wrap (start + i) \<noteq> wrap (start + n)"
  by (auto simp: wrap_def)

lemma wrap_Suc: "start < PROT_MAX_BUFFER_LENGTH \<Longrightarrow> n < PROT_MAX_BUFFER_LENGTH \<Longrightarrow>
   (if wrap (start + n) + 1 = PROT_MAX_BUFFER_LENGTH then 0 else wrap (start + n) + 1) =
   wrap (start + Suc n)"
  by (auto simp: wrap_def)

lemma cview_snoc:
  assumes "start < PROT_MAX_BUFFER_LENGTH" "n < PROT_MAX_BUFFER_LENGTH"
    "length cont = PROT_MAX_BUFFER_LENGTH"
  shows "cview (cont[wrap (start + n) := c]) start (Suc n) = cview cont start n @ [c]"
proof -
  have "cont[wrap (start + n) := c] ! wrap (start + i) = cont ! wrap (start + i)" if "i < n" for i
    using wrap_inj[OF assms(1) that assms(2)] by (simp add: nth_list_update_neq)
  then have "cview (cont[wrap (start + n) := c]) start n = cview cont start n"
    by (simp add: cview_def)
  moreover have "cont[wrap (start + n) := c] ! wrap (start + n) = c"
    using assms wrap_less[of start n] by simp
  ultimately show ?thesis by (simp add: cview_def)
qed

lemma cview_drop:
  assumes "k \<le> n" "start < PROT_MAX_BUFFER_LENGTH" "n \<le> PROT_MAX_BUFFER_LENGTH"
  shows "cview cont (wrap (start + k)) (n - k) = drop k (cview cont start n)"
proof (rule nth_equalityI)
  fix i assume "i < length (cview cont (wrap (start + k)) (n - k))"
  then have i: "i < n - k" by simp
  then have "wrap (wrap (start + k) + i) = wrap (start + (k + i))"
    using assms by (auto simp: wrap_def)
  moreover have "k + i < n" using i by simp
  ultimately show "cview cont (wrap (start + k)) (n - k) ! i = drop k (cview cont start n) ! i"
    using i by (simp add: cview_def nth_upt[of 0 "k + i" n, simplified])
qed simp

lemma cview_take: "k \<le> n \<Longrightarrow> take k (cview cont start n) = cview cont start k"
  by (simp add: cview_def take_map)

text \<open>The two vectors of \<open>buf_write_length\<close> are the bytes to write.\<close>

lemma cview_vectors:
  assumes "start < PROT_MAX_BUFFER_LENGTH" "n \<le> PROT_MAX_BUFFER_LENGTH"
    "length cont = PROT_MAX_BUFFER_LENGTH"
  shows "concat (if start + n \<le> PROT_MAX_BUFFER_LENGTH then [take n (drop start cont)]
       else [take (PROT_MAX_BUFFER_LENGTH - start) (drop start cont),
             take (n - (PROT_MAX_BUFFER_LENGTH - start)) cont]) = cview cont start n"
    (is "?l = _")
proof (rule nth_equalityI)
  show len: "length ?l = length (cview cont start n)" using assms by auto
  fix i assume "i < length ?l"
  then have i: "i < n" using len by simp
  show "?l ! i = cview cont start n ! i"
    using i assms by (auto simp: cview_def wrap_def nth_append add.commute)
qed

section \<open>Putting characters and strings\<close>

lemma buf_put_car_cases:
  assumes "buf_put_car b c = (rc, b')" "obuf_inv b"
  obtains (full) "rc = - ECANCELED" "b' = b" "bcount b = PROT_MAX_BUFFER_LENGTH"
  | (put) "rc = 0" "obuf_inv b'" "obytes b' = obytes b @ [c]" "bpos b' = bpos b"
      "bcount b < PROT_MAX_BUFFER_LENGTH"
proof (cases "bcount b < PROT_MAX_BUFFER_LENGTH")
  case True
  then have "rc = 0" "obuf_inv b'" "obytes b' = obytes b @ [c]" "bpos b' = bpos b"
    using assms cview_snoc[of "bpos b" "bcount b" "bcontent b" c]
    by (auto simp: buf_put_car_def obuf_inv_def obytes_def add.commute Let_def)
  with True show ?thesis by (intro put)
next
  case False
  then show ?thesis using assms by (intro full) (auto simp: buf_put_car_def obuf_inv_def Let_def)
qed

fun put_list :: "string \<Rightarrow> put_state \<Rightarrow> put_state option" where
  "put_list [] st = Some st"
| "put_list (c # s) st = (case put_next c st of None \<Rightarrow> None | Some st1 \<Rightarrow> put_list s st1)"

lemma put_string_loop_escape: "put_string_loop s st = put_list (escape_field s) st"
  by (induction s st rule: put_string_loop.induct) (auto split: option.splits)

lemma put_list_view:
  assumes "start < PROT_MAX_BUFFER_LENGTH" "n \<le> PROT_MAX_BUFFER_LENGTH"
    "length cont = PROT_MAX_BUFFER_LENGTH"
  shows "(if n + length xs \<le> PROT_MAX_BUFFER_LENGTH then
      \<exists>cont'. put_list xs (wrap (start + n), PROT_MAX_BUFFER_LENGTH - n, cont) =
          Some (wrap (start + (n + length xs)), PROT_MAX_BUFFER_LENGTH - (n + length xs), cont')
        \<and> length cont' = PROT_MAX_BUFFER_LENGTH
        \<and> cview cont' start (n + length xs) = cview cont start n @ xs
      else put_list xs (wrap (start + n), PROT_MAX_BUFFER_LENGTH - n, cont) = None)"
  using assms(2,3)
proof (induction xs arbitrary: n cont)
  case (Cons x xs)
  show ?case
  proof (cases "n < PROT_MAX_BUFFER_LENGTH")
    case True
    let ?c = "cont[wrap (start + n) := x]"
    have "put_next x (wrap (start + n), PROT_MAX_BUFFER_LENGTH - n, cont) =
        Some (wrap (start + Suc n), PROT_MAX_BUFFER_LENGTH - Suc n, ?c)"
      using True wrap_Suc[OF assms(1) True] by (simp add: put_next_def)
    then show ?thesis
      using Cons.IH[of "Suc n" ?c] True Cons.prems cview_snoc[OF assms(1) True Cons.prems(2), of x]
      by (auto split: if_splits)
  next
    case False
    then show ?thesis using Cons.prems by (simp add: put_next_def)
  qed
qed simp

lemma buf_put_string_cases:
  assumes "buf_put_string b s = (rc, b')" "obuf_inv b"
  obtains (full) "rc = - ECANCELED" "b' = b"
      "bcount b + length (escape_field s) > PROT_MAX_BUFFER_LENGTH"
  | (put) "rc = 0" "obuf_inv b'" "obytes b' = obytes b @ escape_field s"
      "bcount b + length (escape_field s) \<le> PROT_MAX_BUFFER_LENGTH"
proof -
  let ?n = "bcount b" and ?x = "escape_field s"
  have inv: "bpos b < PROT_MAX_BUFFER_LENGTH" "?n \<le> PROT_MAX_BUFFER_LENGTH"
    "length (bcontent b) = PROT_MAX_BUFFER_LENGTH" using assms(2) by (auto simp: obuf_inv_def)
  note v = put_list_view[OF inv, of ?x]
  show ?thesis
  proof (cases "?n + length ?x \<le> PROT_MAX_BUFFER_LENGTH")
    case True
    then obtain c' where
      "put_list ?x (wrap (bpos b + ?n), PROT_MAX_BUFFER_LENGTH - ?n, bcontent b) =
        Some (wrap (bpos b + (?n + length ?x)), PROT_MAX_BUFFER_LENGTH - (?n + length ?x), c')"
      "length c' = PROT_MAX_BUFFER_LENGTH"
      "cview c' (bpos b) (?n + length ?x) = cview (bcontent b) (bpos b) ?n @ ?x"
      using v by auto
    with True inv assms(1) have "rc = 0" "obuf_inv b'" "obytes b' = obytes b @ ?x"
      by (auto simp: buf_put_string_def put_string_loop_escape obuf_inv_def obytes_def)
    with True show ?thesis by (intro put)
  next
    case False
    then show ?thesis using v assms(1)
      by (intro full) (auto simp: buf_put_string_def put_string_loop_escape)
  qed
qed

section \<open>The handler\<close>

definition out_inv :: "prot \<Rightarrow> bool" where
  "out_inv p \<longleftrightarrow> obuf_inv (outbuf p) \<and> wrokcnt p \<le> bcount (outbuf p)
     \<and> (outfields p = 0 \<longrightarrow> wrokcnt p = bcount (outbuf p))"

definition committed :: "prot \<Rightarrow> string" where
  "committed p = take (wrokcnt p) (obytes (outbuf p))"

text \<open>What an output operation leaves alone: the input side and the configuration.\<close>

definition same_in :: "prot \<Rightarrow> prot \<Rightarrow> bool" where
  "same_in p p' \<longleftrightarrow> inbuf p' = inbuf p \<and> pfields p' = pfields p \<and> allow_empty p' = allow_empty p"

lemma same_in_trans: "same_in p q \<Longrightarrow> same_in q r \<Longrightarrow> same_in p r"
  by (simp add: same_in_def)

text \<open>The state in the middle of a record: \<open>x\<close> has been put since the last commit.\<close>

definition building :: "prot \<Rightarrow> prot \<Rightarrow> string \<Rightarrow> bool" where
  "building p p' x \<longleftrightarrow> obuf_inv (outbuf p') \<and> wrokcnt p' = wrokcnt p \<and> same_in p p'
     \<and> obytes (outbuf p') = obytes (outbuf p) @ x"

lemma prot_put_field_cases:
  assumes "prot_put_field p (Some f) = (rc, p')" "obuf_inv (outbuf p)"
  defines "sep \<equiv> if outfields p > 0 then [PROT_FIELD_SEPARATOR] else []"
  obtains (full) x where "rc = - ECANCELED" "building p p' x" "outfields p' = outfields p + 1"
      "bcount (outbuf p) + length (sep @ escape_field f) > PROT_MAX_BUFFER_LENGTH"
  | (put) "rc = 0" "building p p' (sep @ escape_field f)" "outfields p' = outfields p + 1"
proof -
  obtain r1 b1 where b1: "(if outfields p > 0 then buf_put_car (outbuf p) PROT_FIELD_SEPARATOR
      else (0, outbuf p)) = (r1, b1)" by fastforce
  have 1: "r1 = - ECANCELED \<and> b1 = outbuf p \<and> sep \<noteq> [] \<and> bcount (outbuf p) = PROT_MAX_BUFFER_LENGTH
      \<or> r1 = 0 \<and> obuf_inv b1 \<and> obytes b1 = obytes (outbuf p) @ sep"
    using b1 assms(2) by (auto simp: sep_def split: if_splits elim: buf_put_car_cases)
  then show ?thesis
  proof
    assume c: "r1 = - ECANCELED \<and> b1 = outbuf p \<and> sep \<noteq> [] \<and> bcount (outbuf p) = PROT_MAX_BUFFER_LENGTH"
    then show ?thesis
      using assms(1,2) b1
      by (intro full[of "[]"]) (auto simp: prot_put_field_def Let_def building_def same_in_def)
  next
    assume c: "r1 = 0 \<and> obuf_inv b1 \<and> obytes b1 = obytes (outbuf p) @ sep"
    then have l: "bcount b1 = bcount (outbuf p) + length sep" by (metis length_append length_obytes)
    obtain r2 b2 where b2: "buf_put_string b1 f = (r2, b2)" by fastforce
    have p': "rc = r2" "p' = p\<lparr>outbuf := b2, outfields := outfields p + 1\<rparr>"
      using assms(1) b1 b2 c by (auto simp: prot_put_field_def Let_def)
    show ?thesis
      using b2 conjunct1[OF conjunct2[OF c]]
    proof (cases rule: buf_put_string_cases)
      case full
      then show ?thesis
        using c p' l by (intro that(1)[of sep]) (auto simp: building_def same_in_def)
    next
      case put
      then show ?thesis using c p' by (intro that(2)) (auto simp: building_def same_in_def)
    qed
  qed
qed

lemma building_trans: "building p q x \<Longrightarrow> building q r y \<Longrightarrow> building p r (x @ y)"
  by (auto simp: building_def same_in_def)

lemma join_fields_Cons:
  "join_fields (f # fs) =
     escape_field f @ (if fs = [] then [] else PROT_FIELD_SEPARATOR # join_fields fs)"
  by (cases fs) auto

lemma prot_put_fields_cases:
  assumes "prot_put_fields p (map Some fs) = (rc, p')" "obuf_inv (outbuf p)" "fs \<noteq> []"
  defines "sep \<equiv> if outfields p > 0 then [PROT_FIELD_SEPARATOR] else []"
  shows "outfields p' > 0 \<and>
    ((\<exists>x. rc = - ECANCELED \<and> building p p' x
        \<and> bcount (outbuf p) + length (sep @ join_fields fs) > PROT_MAX_BUFFER_LENGTH)
     \<or> rc = 0 \<and> building p p' (sep @ join_fields fs))"
  using assms(1-3) unfolding sep_def
proof (induction fs arbitrary: p)
  case (Cons f fs)
  obtain r1 p1 where p1: "prot_put_field p (Some f) = (r1, p1)" by fastforce
  let ?s = "if outfields p > 0 then [PROT_FIELD_SEPARATOR] else []"
  show ?case
    using p1 Cons.prems(2)
  proof (cases rule: prot_put_field_cases)
    case (full x)
    then have "rc = - ECANCELED" "p' = p1" using Cons.prems(1) p1 by auto
    then show ?thesis using full by (auto simp: join_fields_Cons)
  next
    case put
    show ?thesis
    proof (cases "fs = []")
      case True
      then show ?thesis using put Cons.prems(1) p1 by auto
    next
      case False
      have run: "prot_put_fields p1 (map Some fs) = (rc, p')"
        using Cons.prems(1) p1 put(1) False by simp
      have i1: "obuf_inv (outbuf p1)" using put(2) by (simp add: building_def)
      have l1: "bcount (outbuf p1) = bcount (outbuf p) + length (?s @ escape_field f)"
        using put(2) unfolding building_def by (metis length_append length_obytes)
      note IH = Cons.IH[OF run i1 False]
      show ?thesis
        using IH put(3) l1 False building_trans[OF put(2)]
        by (auto simp: join_fields_Cons)
    qed
  qed
qed simp

lemma prot_put_cancel_restores:
  assumes "building p p' x" "out_inv p" "outfields p = 0"
  shows "out_inv (prot_put_cancel p') \<and> obytes (outbuf (prot_put_cancel p')) = obytes (outbuf p)
     \<and> wrokcnt (prot_put_cancel p') = wrokcnt p \<and> same_in p (prot_put_cancel p')
     \<or> outfields p' = 0"
proof (cases "outfields p' = 0")
  case False
  have w: "wrokcnt p = bcount (outbuf p)" using assms(2,3) by (simp add: out_inv_def)
  have b: "obytes (outbuf p') = obytes (outbuf p) @ x" "wrokcnt p' = wrokcnt p"
    using assms(1) by (auto simp: building_def)
  then have l: "bcount (outbuf p') = bcount (outbuf p) + length x"
    by (metis length_append length_obytes)
  have "cview (bcontent (outbuf p')) (bpos (outbuf p')) (bcount (outbuf p))
      = take (bcount (outbuf p)) (obytes (outbuf p'))"
    using l by (simp add: obytes_def cview_take)
  also have "\<dots> = obytes (outbuf p)" using b(1) by simp
  finally show ?thesis
    using False assms(1) w l
    by (simp add: prot_put_cancel_def building_def out_inv_def obuf_inv_def obytes_def same_in_def)
qed simp

lemma prot_put_end_cases:
  assumes "prot_put_end p = (rc, p')" "obuf_inv (outbuf p)" "outfields p > 0"
  obtains (full) "rc = - ECANCELED" "p' = p" "bcount (outbuf p) = PROT_MAX_BUFFER_LENGTH"
  | (put) "rc = 0" "out_inv p'" "outfields p' = 0" "same_in p p'"
      "obytes (outbuf p') = obytes (outbuf p) @ [PROT_RECORD_SEPARATOR]"
proof -
  obtain r b where rb: "buf_put_car (outbuf p) PROT_RECORD_SEPARATOR = (r, b)" by fastforce
  show ?thesis
    using rb assms(2)
  proof (cases rule: buf_put_car_cases)
    case full
    then show ?thesis using assms(1,3) rb by (intro that(1)) (auto simp: prot_put_end_def)
  next
    case put
    then show ?thesis using assms(1,3) rb
      by (intro that(2)) (auto simp: prot_put_end_def out_inv_def same_in_def)
  qed
qed

lemma prot_put_record:
  assumes "prot_put p (map Some fs) = (rc, p')" "out_inv p" "outfields p = 0" "fs \<noteq> []"
  shows "out_inv p' \<and> outfields p' = 0 \<and> same_in p p' \<and>
    (if bcount (outbuf p) + length (encode fs) \<le> PROT_MAX_BUFFER_LENGTH
     then rc = 0 \<and> obytes (outbuf p') = obytes (outbuf p) @ encode fs
     else rc = - ECANCELED \<and> obytes (outbuf p') = obytes (outbuf p))"
proof -
  obtain r1 p1 where p1: "prot_put_fields p (map Some fs) = (r1, p1)" by fastforce
  have inv: "obuf_inv (outbuf p)" using assms(2) by (simp add: out_inv_def)
  note c = prot_put_fields_cases[OF p1 inv assms(4)]
  have o1: "outfields p1 > 0" using c by blast
  have cancel: "out_inv (prot_put_cancel q) \<and> outfields (prot_put_cancel q) = 0
       \<and> same_in p (prot_put_cancel q) \<and> obytes (outbuf (prot_put_cancel q)) = obytes (outbuf p)"
    if "building p q x" "outfields q > 0" for q x
    using prot_put_cancel_restores[OF that(1) assms(2,3)] that(2) by (auto simp: prot_put_cancel_def)
  from c assms(3) consider
    (full) x where "r1 = - ECANCELED" "building p p1 x"
      "bcount (outbuf p) + length (join_fields fs) > PROT_MAX_BUFFER_LENGTH"
    | (put) "r1 = 0" "building p p1 (join_fields fs)" by auto
  then show ?thesis
  proof cases
    case full
    then have "rc = - ECANCELED" "p' = prot_put_cancel p1"
      using assms(1) p1 by (auto simp: prot_put_def)
    then show ?thesis using full cancel[OF full(2) o1] by (simp add: encode_def)
  next
    case put
    obtain r2 p2 where p2: "prot_put_end p1 = (r2, p2)" by fastforce
    note sofar = put(2)
    have i1: "obuf_inv (outbuf p1)" using put by (simp add: building_def)
    have l1: "bcount (outbuf p1) = bcount (outbuf p) + length (join_fields fs)"
      using put(2) unfolding building_def by (metis length_append length_obytes)
    have p': "rc = r2" "p' = (if r2 \<noteq> 0 then prot_put_cancel p2 else p2)"
      using assms(1) p1 p2 put(1) by (auto simp: prot_put_def)
    show ?thesis
      using p2 i1 o1
    proof (cases rule: prot_put_end_cases)
      case full
      then show ?thesis using p' l1 cancel[OF sofar o1] by (simp add: encode_def)
    next
      case put
      have "bcount (outbuf p2) = bcount (outbuf p1) + 1"
        using put(5) by (metis length_append length_obytes One_nat_def list.size(3,4) add_0)
      then have fits: "bcount (outbuf p) + length (encode fs) \<le> PROT_MAX_BUFFER_LENGTH"
        using put(2) l1 by (simp add: encode_def out_inv_def obuf_inv_def)
      show ?thesis
        using put p' sofar fits by (auto simp: building_def encode_def same_in_def)
    qed
  qed
qed

section \<open>Writing\<close>

lemma prot_write_vec:
  assumes "out_inv p" "wrokcnt p > 0"
  obtains vec where "concat vec = committed p"
    "\<And>ch. prot_write p ch = (case writev_retry vec ch of
        (Inl e, ch1) \<Rightarrow> (- e, p, ch1)
      | (Inr n, ch1) \<Rightarrow> (int n, p\<lparr>outbuf := (outbuf p)\<lparr>bcount := bcount (outbuf p) - n,
           bpos := wrap (bpos (outbuf p) + n)\<rparr>, wrokcnt := wrokcnt p - n\<rparr>, ch1))"
proof -
  let ?b = "outbuf p" and ?w = "wrokcnt p"
  have inv: "bpos ?b < PROT_MAX_BUFFER_LENGTH" "bcount ?b \<le> PROT_MAX_BUFFER_LENGTH"
    "length (bcontent ?b) = PROT_MAX_BUFFER_LENGTH" "?w \<le> bcount ?b"
    using assms(1) by (auto simp: obuf_inv_def out_inv_def)
  define vec where "vec = (if bpos ?b + ?w \<le> PROT_MAX_BUFFER_LENGTH
     then [take ?w (drop (bpos ?b) (bcontent ?b))]
     else [take (PROT_MAX_BUFFER_LENGTH - bpos ?b) (drop (bpos ?b) (bcontent ?b)),
           take (?w - (PROT_MAX_BUFFER_LENGTH - bpos ?b)) (bcontent ?b)])"
  have cv: "concat vec = committed p"
    unfolding vec_def committed_def obytes_def cview_take[OF inv(4)]
    by (rule cview_vectors) (use inv in simp_all)
  have "prot_write p ch = (case writev_retry vec ch of
        (Inl e, ch1) \<Rightarrow> (- e, p, ch1)
      | (Inr n, ch1) \<Rightarrow> (int n, p\<lparr>outbuf := ?b\<lparr>bcount := bcount ?b - n,
           bpos := wrap (bpos ?b + n)\<rparr>, wrokcnt := ?w - n\<rparr>, ch1))" for ch
  proof -
    have "buf_write_length ?b ?w ch = (case writev_retry vec ch of
        (Inl e, ch1) \<Rightarrow> (- e, ?b, ch1)
      | (Inr n, ch1) \<Rightarrow> (int n, ?b\<lparr>bcount := bcount ?b - n, bpos := wrap (bpos ?b + n)\<rparr>, ch1))"
      using assms(2) inv(4) by (simp add: buf_write_length_def vec_def Let_def)
    moreover have "0 < e" if "writev_retry vec ch = (Inl e, ch1)" for e ch1
      using writev_retry_err[OF that] by simp
    ultimately show ?thesis
      by (cases "writev_retry vec ch"; cases "fst (writev_retry vec ch)") (auto simp: prot_write_def)
  qed
  then show ?thesis using that cv by blast
qed

lemma prot_write_cases:
  assumes "prot_write p ch = (rc, p', ch')" "out_inv p"
  obtains (nodata) "rc = - ENODATA" "wrokcnt p = 0" "p' = p" "ch' = ch"
  | (error) e where "rc = - e" "0 < e" "e \<noteq> EINTR" "p' = p" "sent ch' = sent ch" "rx ch' = rx ch"
      "wrokcnt p > 0"
  | (wrote) n where "rc = int n" "n \<le> wrokcnt p" "wrokcnt p > 0" "wrokcnt p' = wrokcnt p - n"
      "sent ch' = sent ch @ take n (committed p)" "committed p' = drop n (committed p)"
      "obytes (outbuf p') = drop n (obytes (outbuf p))" "same_in p p'" "out_inv p'"
      "outfields p' = outfields p" "rx ch' = rx ch"
proof -
  let ?b = "outbuf p" and ?w = "wrokcnt p"
  have inv: "bpos ?b < PROT_MAX_BUFFER_LENGTH" "bcount ?b \<le> PROT_MAX_BUFFER_LENGTH"
    "length (bcontent ?b) = PROT_MAX_BUFFER_LENGTH" "?w \<le> bcount ?b"
    using assms(2) by (auto simp: obuf_inv_def out_inv_def)
  show ?thesis
  proof (cases "?w = 0")
    case True
    then show ?thesis
      using assms(1) by (intro nodata) (auto simp: prot_write_def buf_write_length_def)
  next
    case w: False
    obtain vec where cv: "concat vec = committed p" and pw: "\<And>ch. prot_write p ch =
        (case writev_retry vec ch of (Inl e, ch1) \<Rightarrow> (- e, p, ch1)
         | (Inr n, ch1) \<Rightarrow> (int n, p\<lparr>outbuf := ?b\<lparr>bcount := bcount ?b - n,
              bpos := wrap (bpos ?b + n)\<rparr>, wrokcnt := ?w - n\<rparr>, ch1))"
      using prot_write_vec[OF assms(2)] w by blast
    obtain res ch1 where wr: "writev_retry vec ch = (res, ch1)" by fastforce
    show ?thesis
    proof (cases res)
      case (Inl e)
      then show ?thesis
        using writev_retry_err[of vec ch e ch1] assms(1) wr w
        by (intro error[of e]) (auto simp: pw)
    next
      case (Inr n)
      note ok = writev_retry_ok[of vec ch n ch1, unfolded cv, OF wr[unfolded Inr]]
      have n: "n \<le> ?w" using ok by (simp add: committed_def)
      have run: "rc = int n" "ch' = ch1" "p' = p\<lparr>outbuf := ?b\<lparr>bcount := bcount ?b - n,
           bpos := wrap (bpos ?b + n)\<rparr>, wrokcnt := ?w - n\<rparr>"
        using assms(1) wr Inr by (auto simp: pw)
      have ob: "obytes (outbuf p') = drop n (obytes ?b)"
        using cview_drop[of n "bcount ?b" "bpos ?b" "bcontent ?b"] n inv by (simp add: run obytes_def)
      have "committed p' = drop n (committed p)"
        unfolding committed_def ob by (simp add: run drop_take)
      moreover have "out_inv p'"
        using assms(2) n inv wrap_less[of "bpos ?b" n] by (auto simp: out_inv_def obuf_inv_def run)
      ultimately show ?thesis
        using ok n w ob run by (intro wrote[of n]) (auto simp: same_in_def)
    qed
  qed
qed

end
