(* ===== verification/Prot_In.thy ===== *)
theory Prot_In
  imports Prot_Out
begin

text \<open>
  The input side of \<open>prot.c\<close>: the backward count of escapes of the scan and the forward
  decoding agree on where a record ends, the decoding never leaves its record, and
  \<open>prot_get\<close> computes the records of the stream of bytes. With the output side: what is put
  on one end is got on the other.
\<close>

section \<open>Records and fields of a stream\<close>

text \<open>The place of the first separator that is not escaped; the flag: after an escape.\<close>

fun record_end :: "bool \<Rightarrow> string \<Rightarrow> nat option" where
  "record_end b [] = None"
| "record_end b (c # s) =
     (if \<not> b \<and> c = PROT_RECORD_SEPARATOR then Some 0
      else map_option Suc (record_end (\<not> b \<and> c = PROT_ESCAPE) s))"

definition pre :: "string \<Rightarrow> string list \<Rightarrow> string list" where
  "pre xs l = (xs @ hd l) # tl l"

definition special :: "char \<Rightarrow> bool" where
  "special c \<longleftrightarrow> c = PROT_FIELD_SEPARATOR \<or> c = PROT_RECORD_SEPARATOR \<or> c = PROT_ESCAPE"

fun split_fields :: "string \<Rightarrow> string list" where
  "split_fields [] = [[]]"
| "split_fields (c # s) =
     (if c = PROT_FIELD_SEPARATOR then [] # split_fields s
      else if c = PROT_ESCAPE then
        (case s of [] \<Rightarrow> [[PROT_ESCAPE]]
         | d # t \<Rightarrow> pre (if special d then [d] else [PROT_ESCAPE, d]) (split_fields t))
      else pre [c] (split_fields s))"

definition decode_fields :: "string \<Rightarrow> string list" where
  "decode_fields r = (if r = [] then [] else map cstr (take PROT_MAX_FIELDS (split_fields r)))"

definition next_record :: "string \<Rightarrow> (string list \<times> string) option" where
  "next_record w = map_option (\<lambda>k. (decode_fields (take k w), drop (Suc k) w)) (record_end False w)"

lemma record_end_less: "record_end b w = Some k \<Longrightarrow> k < length w"
  by (induction b w arbitrary: k rule: record_end.induct) (auto split: if_splits)

lemma next_record_shorter: "next_record w = Some (fs, rest) \<Longrightarrow> length rest < length w"
  by (auto simp: next_record_def dest!: record_end_less)

function next_fields :: "bool \<Rightarrow> string \<Rightarrow> string list option \<times> string" where
  "next_fields allow w =
     (case next_record w of
        None \<Rightarrow> (None, w)
      | Some (fs, rest) \<Rightarrow> if fs = [] \<and> \<not> allow then next_fields allow rest else (Some fs, rest))"
  by pat_completeness auto
termination
  by (relation "measure (\<lambda>(_, w). length w)") (auto dest!: sym[of _ "next_record _"] next_record_shorter)

declare next_fields.simps [simp del]

lemma split_fields_ne [simp]: "split_fields s \<noteq> []"
  by (cases s) (auto simp: pre_def split: list.splits)

lemma pre_ne [simp]: "pre xs l \<noteq> []"
  by (simp add: pre_def)

lemma pre_Nil [simp]: "l \<noteq> [] \<Longrightarrow> pre [] l = l"
  by (simp add: pre_def)

lemma pre_pre [simp]: "pre xs (pre ys l) = pre (xs @ ys) l"
  by (simp add: pre_def)

section \<open>Encoding and decoding\<close>

lemma escape_step:
  obtains (nil) "f = []"
  | (plain) c g where "f = c # g" "\<not> special c" "escape_field f = c # escape_field g"
  | (escaped) c g where "f = c # g" "special c" "escape_field f = PROT_ESCAPE # c # escape_field g"
  | (lone) d g where "f = PROT_ESCAPE # d # g" "\<not> special d"
      "escape_field f = PROT_ESCAPE # d # escape_field g"
proof (cases f)
  case (Cons c g)
  show ?thesis
  proof (cases "needs_escape c g")
    case True
    then show ?thesis using Cons by (intro escaped[of c g]) (auto simp: special_def needs_escape_def)
  next
    case False
    show ?thesis
    proof (cases "c = PROT_ESCAPE")
      case True
      then obtain d g' where g: "g = d # g'" using False by (cases g) (auto simp: needs_escape_def)
      then have "\<not> special d" using False True by (auto simp: needs_escape_def special_def)
      moreover from this have "\<not> needs_escape d g'" by (simp add: needs_escape_def special_def)
      ultimately show ?thesis using Cons True False g by (intro lone[of d g']) auto
    next
      case c: False
      then show ?thesis using Cons False by (intro plain[of c g]) (auto simp: special_def needs_escape_def)
    qed
  qed
qed (rule nil)

lemma record_end_escape:
  "record_end False (escape_field f @ s) = map_option ((+) (length (escape_field f))) (record_end False s)"
proof (induction "length f" arbitrary: f rule: less_induct)
  case less
  have IH: "record_end False (escape_field g @ s) =
      map_option ((+) (length (escape_field g))) (record_end False s)" if "length g < length f" for g
    by (rule less[OF that])
  show ?case
  proof (cases f rule: escape_step)
    case nil
    then show ?thesis by (cases "record_end False s") auto
  next
    case (plain c g)
    then show ?thesis unfolding plain(3) using IH[of g]
      by (cases "record_end False s") (simp_all add: special_def)
  next
    case (escaped c g)
    then show ?thesis unfolding escaped(3) using IH[of g] by (cases "record_end False s") simp_all
  next
    case (lone d g)
    then show ?thesis unfolding lone(3) using IH[of g] by (cases "record_end False s") simp_all
  qed
qed

lemma special_escape [simp]: "special PROT_ESCAPE"
  by (simp add: special_def)

lemma split_fields_escape:
  "s = [] \<or> hd s = PROT_FIELD_SEPARATOR \<Longrightarrow> split_fields (escape_field f @ s) = pre f (split_fields s)"
proof (induction "length f" arbitrary: f rule: less_induct)
  case less
  have IH: "split_fields (escape_field g @ s) = pre g (split_fields s)" if "length g < length f" for g
    using that less by blast
  show ?case
  proof (cases f rule: escape_step)
    case nil
    then show ?thesis by simp
  next
    case (plain c g)
    then have "split_fields (escape_field g @ s) = pre g (split_fields s)" by (intro IH) simp
    then show ?thesis unfolding plain(3) unfolding plain(1) using plain(2) by (simp add: special_def)
  next
    case (escaped c g)
    then have "split_fields (escape_field g @ s) = pre g (split_fields s)" by (intro IH) simp
    then show ?thesis unfolding escaped(3) unfolding escaped(1) using escaped(2) by simp
  next
    case (lone d g)
    then have "split_fields (escape_field g @ s) = pre g (split_fields s)" by (intro IH) simp
    then show ?thesis unfolding lone(3) unfolding lone(1) using lone(2) by simp
  qed
qed

lemma record_end_join: "record_end False (join_fields fs @ PROT_RECORD_SEPARATOR # rest) =
   Some (length (join_fields fs))"
  by (induction fs rule: join_fields.induct) (auto simp: record_end_escape)

lemma split_fields_join: "fs \<noteq> [] \<Longrightarrow> split_fields (join_fields fs) = fs"
proof (induction fs rule: join_fields.induct)
  case (2 f)
  then show ?case using split_fields_escape[of "[]" f] by (simp add: pre_def)
next
  case (3 f g fs)
  then show ?case
    using split_fields_escape[of "PROT_FIELD_SEPARATOR # join_fields (g # fs)" f] by (simp add: pre_def)
qed simp

lemma escape_field_Nil_iff [simp]: "escape_field f = [] \<longleftrightarrow> f = []"
  by (cases f) auto

lemma join_fields_Nil_iff: "fs \<noteq> [] \<Longrightarrow> join_fields fs = [] \<longleftrightarrow> fs = [[]]"
  by (cases fs rule: join_fields.cases) auto

lemma next_record_encode:
  assumes "fs \<noteq> []" "fs \<noteq> [[]]" "length fs \<le> PROT_MAX_FIELDS" "\<forall>f \<in> set fs. no_nul f"
  shows "next_record (encode fs @ rest) = Some (fs, rest)"
proof -
  have "map cstr fs = fs" using assms(4) by (induction fs) auto
  then show ?thesis
    using assms record_end_join[of fs rest]
    by (simp add: next_record_def encode_def decode_fields_def split_fields_join join_fields_Nil_iff)
qed

section \<open>The scan finds the end of the record\<close>

lemma scan_record_end:
  assumes "cnt \<le> length cont"
  shows "record_end (odd (count_escapes cont pos)) (drop pos (take cnt cont)) =
    (case scan_loop cont cnt pos of (f, k) \<Rightarrow> if f then Some (k - pos) else None)"
  using assms
proof (induction cont cnt pos rule: scan_loop.induct)
  case (1 cont cnt pos)
  show ?case
  proof (cases "pos < cnt")
    case True
    then have d: "drop pos (take cnt cont) = cont ! pos # drop (Suc pos) (take cnt cont)"
      using "1.prems" by (metis Cons_nth_drop_Suc length_take min.absorb2 nth_take)
    let ?found = "cont ! pos = PROT_RECORD_SEPARATOR \<and> count_escapes cont pos mod 2 = 0"
    have s: "scan_loop cont cnt pos = (if ?found then (True, pos) else scan_loop cont cnt (pos + 1))"
      using True by (subst scan_loop.simps) simp
    show ?thesis
    proof (cases ?found)
      case f: True
      then show ?thesis unfolding s d by (simp add: even_iff_mod_2_eq_zero)
    next
      case f: False
      obtain g k where gk: "scan_loop cont cnt (pos + 1) = (g, k)" by fastforce
      have k: "pos + 1 \<le> k" using scan_loop_bounds[OF gk] by simp
      have st: "(\<not> odd (count_escapes cont pos) \<and> cont ! pos = PROT_ESCAPE) =
          odd (count_escapes cont (pos + 1))" by auto
      have nf: "\<not> (\<not> odd (count_escapes cont pos) \<and> cont ! pos = PROT_RECORD_SEPARATOR)"
        using f by (auto simp: even_iff_mod_2_eq_zero)
      show ?thesis
        using "1.IH"[OF True f "1.prems"] k f nf
        unfolding s d record_end.simps st gk by auto
    qed
  next
    case False
    then show ?thesis by (subst scan_loop.simps) simp
  qed
qed

definition no_end_before :: "char list \<Rightarrow> nat \<Rightarrow> bool" where
  "no_end_before cont n \<longleftrightarrow>
     (\<forall>i < n. \<not> (cont ! i = PROT_RECORD_SEPARATOR \<and> count_escapes cont i mod 2 = 0))"

lemma scan_step:
  "pos < cnt \<Longrightarrow> \<not> (cont ! pos = PROT_RECORD_SEPARATOR \<and> count_escapes cont pos mod 2 = 0) \<Longrightarrow>
   scan_loop cont cnt pos = scan_loop cont cnt (pos + 1)"
  by (subst scan_loop.simps) (simp only: if_True if_False simp_thms)

lemma scan_stop:
  "\<not> (pos < cnt \<and> \<not> (cont ! pos = PROT_RECORD_SEPARATOR \<and> count_escapes cont pos mod 2 = 0)) \<Longrightarrow>
   scan_loop cont cnt pos = (pos < cnt, pos)"
  by (subst scan_loop.simps) auto

lemma scan_skip: "no_end_before cont n \<Longrightarrow> n \<le> cnt \<Longrightarrow> pos \<le> n \<Longrightarrow>
   scan_loop cont cnt pos = scan_loop cont cnt n"
proof (induction "n - pos" arbitrary: pos)
  case (Suc m)
  have p: "pos < n" using Suc.hyps(2) by simp
  have "scan_loop cont cnt pos = scan_loop cont cnt (pos + 1)"
    by (rule scan_step) (use p Suc.prems in \<open>auto simp: no_end_before_def\<close>)
  also have "\<dots> = scan_loop cont cnt n"
    by (rule Suc.hyps(1)) (use p Suc in auto)
  finally show ?case .
qed simp

lemma scan_no_end: "scan_loop cont cnt pos = (f, k) \<Longrightarrow> no_end_before cont pos \<Longrightarrow>
   no_end_before cont k \<and> (f \<longrightarrow> cont ! k = PROT_RECORD_SEPARATOR)"
proof (induction cont cnt pos rule: scan_loop.induct)
  case (1 cont cnt pos)
  show ?case
  proof (cases "pos < cnt \<and> \<not> (cont ! pos = PROT_RECORD_SEPARATOR \<and> count_escapes cont pos mod 2 = 0)")
    case True
    then have r: "scan_loop cont cnt (pos + 1) = (f, k)"
      using "1.prems"(1) scan_step[of pos cnt cont] by metis
    have n: "no_end_before cont (pos + 1)"
      using True "1.prems"(2) by (auto simp: no_end_before_def less_Suc_eq)
    show ?thesis by (rule "1.IH"[OF conjunct1[OF True] conjunct2[OF True] r n])
  next
    case False
    then show ?thesis using "1.prems" scan_stop[OF False] by auto
  qed
qed

lemma count_escapes_cong: "take n a = take n b \<Longrightarrow> n \<le> length a \<Longrightarrow> n \<le> length b \<Longrightarrow>
   count_escapes a n = count_escapes b n"
proof (induction n)
  case (Suc n)
  have "take n a = take n b" using Suc.prems(1) by (metis le_SucI nle_le take_take min.absorb1 order_refl)
  moreover have "a ! n = b ! n" using Suc.prems(1) by (metis lessI nth_take)
  ultimately show ?case using Suc by simp
qed simp

lemma no_end_before_cong:
  assumes "take n a = take n b" "n \<le> length a" "n \<le> length b" "no_end_before a n"
  shows "no_end_before b n"
  unfolding no_end_before_def
proof (intro allI impI)
  fix i assume i: "i < n"
  have "take i a = take i b" using assms(1) i by (metis less_imp_le_nat min.absorb2 take_take min.commute)
  then have "count_escapes a i = count_escapes b i" using i assms by (intro count_escapes_cong) auto
  moreover have "a ! i = b ! i" using assms(1) i by (metis nth_take)
  ultimately show "\<not> (b ! i = PROT_RECORD_SEPARATOR \<and> count_escapes b i mod 2 = 0)"
    using assms(4) i by (auto simp: no_end_before_def)
qed

section \<open>The decoding in place\<close>

text \<open>Fields as the decoding lays them out, each followed by a NUL.\<close>

definition lay :: "string list \<Rightarrow> string" where
  "lay fs = concat (map (\<lambda>f. f @ [NUL]) fs)"

definition offsets :: "string list \<Rightarrow> nat \<Rightarrow> nat list" where
  "offsets fs n = map (\<lambda>i. length (lay (take i fs))) [0..<n]"

lemma lay_snoc: "lay (fs @ [f]) = lay fs @ f @ [NUL]"
  by (simp add: lay_def)

lemma lay_take_prefix: "prefix (lay (take n fs)) (lay fs)"
  unfolding lay_def by (metis append_take_drop_id concat_append map_append prefixI)

text \<open>What the loop has done: fields finished, the field in progress, where it stands.\<close>

definition decoding :: "char list \<Rightarrow> nat \<Rightarrow> nat \<Rightarrow> nat list \<Rightarrow> string list \<Rightarrow> string \<Rightarrow> bool" where
  "decoding cont wr cnt offs done cur \<longleftrightarrow>
     take wr cont = lay done @ cur \<and> wr = length (lay done @ cur) \<and> cnt = length done
     \<and> cnt \<le> PROT_MAX_FIELDS \<and> offs = offsets done (min PROT_MAX_FIELDS (Suc cnt))"

text \<open>The result: the first fields, laid out from the start.\<close>

definition decoded :: "char list \<Rightarrow> nat \<Rightarrow> nat list \<Rightarrow> string list \<Rightarrow> bool" where
  "decoded cont cnt offs fs \<longleftrightarrow>
     prefix (lay (take PROT_MAX_FIELDS fs)) cont
     \<and> cnt = (if fs = [[]] then 0 else min PROT_MAX_FIELDS (length fs))
     \<and> offs = offsets fs (min PROT_MAX_FIELDS (length fs))"

lemma decoding_take: "decoding cont wr cnt offs done cur \<Longrightarrow> take wr cont = lay done @ cur"
  unfolding decoding_def by (elim conjE)

lemma decoding_take_Suc:
  "decoding cont wr cnt offs done cur \<Longrightarrow> wr < length cont \<Longrightarrow>
   take (Suc wr) (cont[wr := NUL]) = lay (done @ [cur])"
  using decoding_take by (simp add: take_list_update_extend lay_snoc)

lemma decoding_put:
  assumes "decoding cont wr cnt offs done cur" "wr < length cont"
  shows "decoding (cont[wr := c]) (Suc wr) cnt offs done (cur @ [c])"
proof -
  have "take (Suc wr) (cont[wr := c]) = lay done @ cur @ [c]"
    using decoding_take[OF assms(1)] assms(2) by (simp add: take_list_update_extend)
  then show ?thesis using assms(1) by (auto simp: decoding_def)
qed

lemma offsets_snoc:
  "n \<le> Suc (length fs) \<Longrightarrow> offsets (fs @ [f]) n = offsets fs n"
  by (auto simp: offsets_def)

lemma decoding_sep:
  assumes "decoding cont wr cnt offs done cur" "wr < length cont" "cnt < PROT_MAX_FIELDS"
  shows "decoding (cont[wr := NUL]) (Suc wr) (Suc cnt)
     (if Suc cnt < PROT_MAX_FIELDS then offs @ [Suc wr] else offs) (done @ [cur]) []"
proof -
  have t: "take (Suc wr) (cont[wr := NUL]) = lay (done @ [cur])"
    using assms(1,2) by (rule decoding_take_Suc)
  have l: "Suc wr = length (lay (done @ [cur]))" using assms(1) by (simp add: decoding_def lay_snoc)
  have o: "(if Suc cnt < PROT_MAX_FIELDS then offs @ [Suc wr] else offs) =
      offsets (done @ [cur]) (min PROT_MAX_FIELDS (Suc (Suc cnt)))"
  proof (cases "Suc cnt < PROT_MAX_FIELDS")
    case True
    then have "offs = offsets done (Suc cnt)" using assms(1) by (simp add: decoding_def)
    then have "offs @ [Suc wr] = offsets (done @ [cur]) (Suc cnt) @ [length (lay (take (Suc cnt) (done @ [cur])))]"
      using assms(1) l by (simp add: decoding_def offsets_snoc)
    also have "\<dots> = offsets (done @ [cur]) (Suc (Suc cnt))" by (simp add: offsets_def)
    finally have "offs @ [Suc wr] = offsets (done @ [cur]) (Suc (Suc cnt))" .
    moreover have "min PROT_MAX_FIELDS (Suc (Suc cnt)) = Suc (Suc cnt)" using True by simp
    ultimately show ?thesis using True by simp
  next
    case False
    then have "Suc cnt = PROT_MAX_FIELDS" using assms(3) by simp
    then show ?thesis using assms(1) by (simp add: decoding_def offsets_snoc min_def)
  qed
  show ?thesis using assms t l o by (simp add: decoding_def)
qed

lemma decoded_end:
  assumes "decoding cont wr cnt offs done cur" "wr < length cont"
  shows "decoded (cont[wr := NUL]) (if wr > 0 \<and> cnt < PROT_MAX_FIELDS then Suc cnt else cnt) offs
     (done @ [cur])"
proof -
  have t: "take (Suc wr) (cont[wr := NUL]) = lay (done @ [cur])"
    using assms(1,2) by (rule decoding_take_Suc)
  then have p: "prefix (lay (done @ [cur])) (cont[wr := NUL])" by (metis take_is_prefix)
  have e: "done @ [cur] = [[]] \<longleftrightarrow> wr = 0" using assms(1) by (auto simp: decoding_def lay_def)
  have cnt: "cnt = length done" "cnt \<le> PROT_MAX_FIELDS"
    "offs = offsets done (min PROT_MAX_FIELDS (Suc cnt))"
    using assms(1) by (auto simp: decoding_def)
  have z: "wr = 0 \<Longrightarrow> cnt = 0" using e cnt(1) by auto
  have "(if wr > 0 \<and> cnt < PROT_MAX_FIELDS then Suc cnt else cnt) =
      (if done @ [cur] = [[]] then 0 else min PROT_MAX_FIELDS (length (done @ [cur])))"
    using e z cnt(1,2) by auto
  moreover have "offs = offsets (done @ [cur]) (min PROT_MAX_FIELDS (length (done @ [cur])))"
    using cnt by (simp add: offsets_snoc)
  moreover have "prefix (lay (take PROT_MAX_FIELDS (done @ [cur]))) (cont[wr := NUL])"
    by (rule prefix_order.trans[OF lay_take_prefix p])
  ultimately show ?thesis unfolding decoded_def by blast
qed

lemma decoded_full:
  assumes "decoding cont wr cnt offs done cur" "wr < length cont" "cnt = PROT_MAX_FIELDS" "oth \<noteq> []"
  shows "decoded (cont[wr := NUL]) cnt offs (done @ oth)"
proof -
  have "take wr (cont[wr := NUL]) = lay done @ cur"
    using decoding_take[OF assms(1)] by (metis order_refl take_update_cancel)
  then have "prefix (lay done) (cont[wr := NUL])" by (metis prefixI prefix_order.trans take_is_prefix)
  moreover have "done \<noteq> []" using assms(1,3) by (auto simp: decoding_def PROT_MAX_FIELDS_def)
  moreover have "offsets (done @ oth) cnt = offsets done cnt"
    using assms(1) by (simp add: offsets_def decoding_def)
  moreover have "done @ oth \<noteq> [[]]" using calculation(2) assms(4) by (cases "done") auto
  ultimately show ?thesis
    using assms by (auto simp: decoded_def decoding_def min_def)
qed

lemma PROT_MAX_FIELDS_pos: "0 < PROT_MAX_FIELDS"
  by (simp add: PROT_MAX_FIELDS_def)

lemma get_fields_loop_decodes:
  assumes "decoding cont wr cnt offs done cur" "wr \<le> rp" "drop rp cont = r @ PROT_RECORD_SEPARATOR # t"
    "record_end False (r @ [PROT_RECORD_SEPARATOR]) = Some (length r)"
  shows "\<exists>cont' cnt' offs'. get_fields_loop cont rp wr cnt offs = Some (cont', cnt', offs')
     \<and> length cont' = length cont \<and> drop (rp + length r + 1) cont' = t
     \<and> decoded cont' cnt' offs' (done @ pre cur (split_fields r))"
  using assms
proof (induction "length r" arbitrary: r cont wr rp cnt offs "done" cur rule: less_induct)
  case less
  note run = get_fields_loop.simps[of cont rp wr cnt offs]
  have rp: "rp < length cont" using less.prems(3) by (metis drop_eq_Nil2 list.discI append_is_Nil_conv not_le)
  then have wr: "wr < length cont" using less.prems(2) by simp
  have dr: "cont ! rp # drop (Suc rp) cont = r @ PROT_RECORD_SEPARATOR # t"
    using rp less.prems(3) by (simp add: Cons_nth_drop_Suc)
  have upd: "drop (Suc n) (xs[k := c]) = drop (Suc n) xs" if "k \<le> n" for k n c and xs :: "char list"
    using that by simp
  show ?case
  proof (cases r)
    case Nil
    then have c: "cont ! rp = PROT_RECORD_SEPARATOR" "drop (Suc rp) cont = t" using dr by auto
    then have "get_fields_loop cont rp wr cnt offs =
        Some (cont[wr := NUL], if wr > 0 \<and> cnt < PROT_MAX_FIELDS then Suc cnt else cnt, offs)"
      using rp by (simp add: run Let_def)
    then show ?thesis
      using decoded_end[OF less.prems(1) wr] c(2) less.prems(2) Nil by (simp add: pre_def)
  next
    case (Cons c s)
    then have c: "cont ! rp = c" and ds: "drop (Suc rp) cont = s @ PROT_RECORD_SEPARATOR # t"
      using dr by auto
    have e: "c \<noteq> PROT_RECORD_SEPARATOR" using less.prems(4) Cons by auto
    show ?thesis
    proof (cases "c = PROT_FIELD_SEPARATOR")
      case sep: True
      have re: "record_end False (s @ [PROT_RECORD_SEPARATOR]) = Some (length s)"
        using less.prems(4) Cons sep by auto
      show ?thesis
      proof (cases "cnt \<ge> PROT_MAX_FIELDS")
        case True
        then have cnt: "cnt = PROT_MAX_FIELDS" using less.prems(1) by (simp add: decoding_def)
        have "get_fields_loop cont rp wr cnt offs = Some (cont[wr := NUL], cnt, offs)"
          using rp c sep True by (simp add: run Let_def)
        moreover have "drop (rp + length r + 1) (cont[wr := NUL]) = t"
        proof -
          have "drop (rp + length r + 1) (cont[wr := NUL]) = drop (rp + length r + 1) cont"
            using less.prems(2) by simp
          also have "\<dots> = drop (length r + 1) (drop rp cont)" by (simp add: add.commute)
          also have "\<dots> = t" unfolding less.prems(3) by simp
          finally show ?thesis .
        qed
        ultimately show ?thesis
          using decoded_full[OF less.prems(1) wr cnt, of "pre cur (split_fields r)"] by simp
      next
        case False
        then have cnt: "cnt < PROT_MAX_FIELDS" by simp
        let ?offs = "if Suc cnt < PROT_MAX_FIELDS then offs @ [Suc wr] else offs"
        have st: "get_fields_loop cont rp wr cnt offs =
            get_fields_loop (cont[wr := NUL]) (Suc rp) (Suc wr) (Suc cnt) ?offs"
          using rp c sep False by (simp add: run Let_def)
        have d1: "drop (Suc rp) (cont[wr := NUL]) = s @ PROT_RECORD_SEPARATOR # t"
          using less.prems(2) ds by simp
        have "length s < length r" using Cons by simp
        from less.hyps[OF this decoding_sep[OF less.prems(1) wr cnt] _ d1 re] less.prems(2)
        show ?thesis using st Cons sep by (simp add: pre_def)
      qed
    next
      case nsep: False
      show ?thesis
      proof (cases "c = PROT_ESCAPE")
        case esc: True
        obtain d u where s: "s = d # u"
          using less.prems(4) Cons esc by (cases s) auto
        have re: "record_end False (u @ [PROT_RECORD_SEPARATOR]) = Some (length u)"
          using less.prems(4) Cons esc s by auto
        have rp2: "Suc rp < length cont" using ds
          by (metis append_is_Nil_conv drop_eq_Nil2 list.discI not_le)
        have dd: "cont ! Suc rp # drop (Suc (Suc rp)) cont = d # u @ PROT_RECORD_SEPARATOR # t"
          using ds s rp2 by (simp add: Cons_nth_drop_Suc)
        have lu: "length u < length r" using Cons s by simp
        show ?thesis
        proof (cases "special d")
          case True
          have st: "get_fields_loop cont rp wr cnt offs =
              get_fields_loop (cont[wr := d]) (Suc (Suc rp)) (Suc wr) cnt offs"
            using rp rp2 c esc dd True by (auto simp: run Let_def special_def)
          have d1: "drop (Suc (Suc rp)) (cont[wr := d]) = u @ PROT_RECORD_SEPARATOR # t"
            using less.prems(2) dd by simp
          from less.hyps[OF lu decoding_put[OF less.prems(1) wr] _ d1 re] less.prems(2)
          show ?thesis using st Cons esc s True by simp
        next
          case False
          have st: "get_fields_loop cont rp wr cnt offs =
              get_fields_loop (cont[wr := PROT_ESCAPE, Suc wr := d]) (Suc (Suc rp)) (Suc (Suc wr)) cnt offs"
            using rp rp2 c esc dd False by (auto simp: run Let_def special_def)
          have d1: "drop (Suc (Suc rp)) (cont[wr := PROT_ESCAPE, Suc wr := d]) = u @ PROT_RECORD_SEPARATOR # t"
            using less.prems(2) dd by simp
          have w2: "Suc wr < length (cont[wr := PROT_ESCAPE])" using rp2 less.prems(2) by simp
          from less.hyps[OF lu decoding_put[OF decoding_put[OF less.prems(1) wr] w2] _ d1 re] less.prems(2)
          show ?thesis using st Cons esc s False by simp
        qed
      next
        case False
        have re: "record_end False (s @ [PROT_RECORD_SEPARATOR]) = Some (length s)"
          using less.prems(4) Cons False e by auto
        have st: "get_fields_loop cont rp wr cnt offs =
            get_fields_loop (cont[wr := c]) (Suc rp) (Suc wr) cnt offs"
          using rp c nsep False e by (simp add: run Let_def)
        have d1: "drop (Suc rp) (cont[wr := c]) = s @ PROT_RECORD_SEPARATOR # t"
          using less.prems(2) ds by simp
        have "length s < length r" using Cons by simp
        from less.hyps[OF this decoding_put[OF less.prems(1) wr] _ d1 re] less.prems(2)
        show ?thesis using st Cons nsep False by simp
      qed
    qed
  qed
qed

lemma cstr_append_stop: "cstr (a @ NUL # b) = cstr a"
  by (induction a) auto

lemma decoded_fields:
  assumes "decoded cont cnt offs (split_fields r)"
  shows "cnt = length (decode_fields r)
    \<and> map (\<lambda>i. cstr (drop (offs ! i) cont)) [0..<cnt] = decode_fields r"
proof -
  let ?fs = "split_fields r"
  have r: "?fs = [[]] \<longleftrightarrow> r = []"
  proof
    show "?fs = [[]] \<Longrightarrow> r = []"
      by (cases r) (auto simp: pre_def split: if_splits list.splits)
  qed simp
  have cnt: "cnt = length (decode_fields r)"
    using assms r by (auto simp: decoded_def decode_fields_def)
  have "cstr (drop (offs ! i) cont) = decode_fields r ! i" if i: "i < cnt" for i
  proof -
    have ne: "r \<noteq> []" using cnt i by (auto simp: decode_fields_def)
    then have li: "i < PROT_MAX_FIELDS" "i < length ?fs" using i assms r by (auto simp: decoded_def)
    then have o: "offs ! i = length (lay (take i ?fs))" using assms by (simp add: decoded_def offsets_def)
    obtain z where z: "cont = lay (take PROT_MAX_FIELDS ?fs) @ z"
      using assms by (auto simp: decoded_def prefix_def)
    have "take PROT_MAX_FIELDS ?fs = take i ?fs @ ?fs ! i # drop (Suc i) (take PROT_MAX_FIELDS ?fs)"
      using li id_take_nth_drop[of i "take PROT_MAX_FIELDS ?fs"] by (simp add: min_def)
    then have "lay (take PROT_MAX_FIELDS ?fs) =
        lay (take i ?fs) @ ?fs ! i @ NUL # lay (drop (Suc i) (take PROT_MAX_FIELDS ?fs))"
      by (metis lay_def append.assoc append_Cons append_Nil concat.simps(2) concat_append list.simps(9) map_append)
    then have "drop (offs ! i) cont =
        ?fs ! i @ NUL # lay (drop (Suc i) (take PROT_MAX_FIELDS ?fs)) @ z" by (simp add: z o)
    then have "cstr (drop (offs ! i) cont) = cstr (?fs ! i)" by (simp add: cstr_append_stop)
    then show ?thesis using ne li by (simp add: decode_fields_def)
  qed
  then show ?thesis using cnt by (auto intro: nth_equalityI)
qed

section \<open>Getting records\<close>

definition in_inv :: "prot \<Rightarrow> bool" where
  "in_inv p \<longleftrightarrow> length (bcontent (inbuf p)) = PROT_MAX_BUFFER_LENGTH
     \<and> bcount (inbuf p) \<le> PROT_MAX_BUFFER_LENGTH \<and> bpos (inbuf p) \<le> bcount (inbuf p)
     \<and> (fcount (pfields p) < 0 \<longrightarrow> no_end_before (bcontent (inbuf p)) (bpos (inbuf p)))"

text \<open>The bytes received and not yet decoded.\<close>

definition unread :: "prot \<Rightarrow> string" where
  "unread p = (if fcount (pfields p) < 0 then take (bcount (inbuf p)) (bcontent (inbuf p))
     else drop (bpos (inbuf p)) (take (bcount (inbuf p)) (bcontent (inbuf p))))"

text \<open>What an input operation leaves alone.\<close>

definition same_out :: "prot \<Rightarrow> prot \<Rightarrow> bool" where
  "same_out p p' \<longleftrightarrow> outbuf p' = outbuf p \<and> outfields p' = outfields p \<and> wrokcnt p' = wrokcnt p
     \<and> allow_empty p' = allow_empty p"

lemma same_out_refl [simp]: "same_out p p"
  by (simp add: same_out_def)

lemma same_out_trans: "same_out p q \<Longrightarrow> same_out q r \<Longrightarrow> same_out p r"
  by (simp add: same_out_def)

lemma same_out_inv: "same_out p p' \<Longrightarrow> out_inv p \<Longrightarrow> out_inv p'"
  by (simp add: same_out_def out_inv_def)

lemma same_in_inv: "same_in p p' \<Longrightarrow> in_inv p \<Longrightarrow> in_inv p' \<and> unread p' = unread p"
  by (simp add: same_in_def in_inv_def unread_def)

lemma no_end_before_0 [simp]: "no_end_before cont 0"
  by (simp add: no_end_before_def)

lemma prot_next_in:
  assumes "in_inv p"
  shows "in_inv (prot_next p) \<and> unread (prot_next p) = unread p \<and> fcount (pfields (prot_next p)) < 0
     \<and> same_out p (prot_next p)"
proof (cases "fcount (pfields p) < 0")
  case True
  then show ?thesis using assms by (simp add: prot_next_def)
next
  case False
  let ?b = "inbuf p"
  have l: "length (bcontent ?b) = PROT_MAX_BUFFER_LENGTH" "bcount ?b \<le> PROT_MAX_BUFFER_LENGTH"
    "bpos ?b \<le> bcount ?b" using assms by (auto simp: in_inv_def)
  have "take (bcount ?b - bpos ?b) (drop (bpos ?b) (bcontent ?b)) = drop (bpos ?b) (take (bcount ?b) (bcontent ?b))"
    by (simp add: drop_take)
  then show ?thesis
    using False l by (auto simp: prot_next_def buf_crop_def in_inv_def unread_def Let_def same_out_def)
qed

lemma scan_end_spec:
  assumes "in_inv p" "fcount (pfields p) < 0" "buf_scan_end_record (inbuf p) = (found, b)"
  shows "bcount b = bcount (inbuf p) \<and> bcontent b = bcontent (inbuf p)
    \<and> no_end_before (bcontent b) (bpos b) \<and> bpos b \<le> bcount b
    \<and> record_end False (unread p) = (if found then Some (bpos b) else None)
    \<and> (found \<longrightarrow> bpos b < bcount b \<and> bcontent b ! bpos b = PROT_RECORD_SEPARATOR)"
proof -
  let ?c = "bcontent (inbuf p)" and ?n = "bcount (inbuf p)" and ?p = "bpos (inbuf p)"
  have i: "no_end_before ?c ?p" "?p \<le> ?n" "?n \<le> length ?c" using assms(1,2) by (auto simp: in_inv_def)
  obtain f k where s: "scan_loop ?c ?n ?p = (f, k)" by fastforce
  have b: "found = f" "b = (inbuf p)\<lparr>bpos := k\<rparr>"
    using assms(3) s by (auto simp: buf_scan_end_record_def)
  have s0: "scan_loop ?c ?n 0 = (f, k)" using scan_skip[OF i(1,2)] s by simp
  have "record_end False (take ?n ?c) = (if f then Some k else None)"
    using scan_record_end[OF i(3), of 0] s0 by simp
  then show ?thesis
    using scan_no_end[OF s i(1)] scan_loop_bounds[OF s] b assms(2) i by (auto simp: unread_def)
qed

lemma get_fields_spec:
  assumes "length (bcontent b) = PROT_MAX_BUFFER_LENGTH" "bcount b \<le> PROT_MAX_BUFFER_LENGTH"
    "record_end False (take (bcount b) (bcontent b)) = Some (bpos b)"
    "bpos b < bcount b" "bcontent b ! bpos b = PROT_RECORD_SEPARATOR"
  shows "\<exists>cont offs. buf_get_fields b =
      Some (b\<lparr>bpos := bpos b + 1, bcontent := cont\<rparr>,
            \<lparr>fcount = int (length (decode_fields (take (bpos b) (bcontent b)))), foffs = offs\<rparr>)
    \<and> length cont = PROT_MAX_BUFFER_LENGTH
    \<and> drop (bpos b + 1) cont = drop (bpos b + 1) (bcontent b)
    \<and> map (\<lambda>i. cstr (drop (offs ! i) cont)) [0..<length (decode_fields (take (bpos b) (bcontent b)))]
        = decode_fields (take (bpos b) (bcontent b))"
proof -
  let ?c = "bcontent b" and ?n = "bpos b"
  let ?r = "take ?n ?c" and ?t = "drop (Suc ?n) ?c"
  have n: "?n < length ?c" using assms by simp
  then have split: "drop 0 ?c = ?r @ PROT_RECORD_SEPARATOR # ?t"
    using id_take_nth_drop[OF n] assms(5) by simp
  have re: "record_end False (?r @ [PROT_RECORD_SEPARATOR]) = Some (length ?r)"
  proof -
    have prefix_end: "record_end f (xs @ ys) = Some k \<Longrightarrow> k < length xs \<Longrightarrow> record_end f xs = Some k"
      for f xs ys k
      by (induction f xs arbitrary: k rule: record_end.induct) (auto split: if_splits)
    have "take (bcount b) ?c = take (Suc ?n) ?c @ drop (Suc ?n) (take (bcount b) ?c)"
      using assms(4) by (metis append_take_drop_id min.absorb1 take_take Suc_leI)
    then have "record_end False (take (Suc ?n) ?c) = Some ?n"
      using prefix_end[of False "take (Suc ?n) ?c"] assms(3) n by (metis length_take lessI min.absorb2 Suc_leI)
    moreover have "take (Suc ?n) ?c = ?r @ [PROT_RECORD_SEPARATOR]"
      using n assms(5) by (simp add: take_Suc_conv_app_nth)
    ultimately show ?thesis using n by simp
  qed
  have d0: "decoding ?c 0 0 [0] [] []"
  proof -
    have "min PROT_MAX_FIELDS (Suc 0) = Suc 0" using PROT_MAX_FIELDS_pos by simp
    then show ?thesis by (simp add: decoding_def lay_def offsets_def)
  qed
  obtain cont cnt offs where g: "get_fields_loop ?c 0 0 0 [0] = Some (cont, cnt, offs)"
    and l: "length cont = length ?c" and t: "drop (0 + length ?r + 1) cont = ?t"
    and dd: "decoded cont cnt offs ([] @ pre [] (split_fields ?r))"
    using get_fields_loop_decodes[OF d0 _ split re] by blast
  have dd: "decoded cont cnt offs (split_fields ?r)" using dd by simp
  have "buf_get_fields b = Some (b\<lparr>bpos := ?n + 1, bcontent := cont\<rparr>, \<lparr>fcount = int cnt, foffs = offs\<rparr>)"
    using n assms(5) g by (simp add: buf_get_fields_def)
  then show ?thesis using decoded_fields[OF dd] l t n assms(1) by auto
qed

definition got :: "prot \<Rightarrow> int \<Rightarrow> prot \<Rightarrow> bool" where
  "got p rc p' \<longleftrightarrow> in_inv p' \<and> same_out p p' \<and>
    (case next_fields (allow_empty p) (unread p) of
       (None, rest) \<Rightarrow> rc = (if length rest < PROT_MAX_BUFFER_LENGTH then - EAGAIN else - EMSGSIZE)
         \<and> fcount (pfields p') < 0 \<and> unread p' = rest
     | (Some fs, rest) \<Rightarrow> rc = int (length fs) \<and> fcount (pfields p') = rc \<and> prot_fields p' = fs
         \<and> unread p' = rest)"

lemma prot_get_pending:
  "in_inv p \<Longrightarrow> fcount (pfields p) < 0 \<Longrightarrow> \<exists>rc p'. prot_get p = Some (rc, p') \<and> got p rc p'"
proof (induction "bcount (inbuf p)" arbitrary: p rule: less_induct)
  case less
  let ?b = "inbuf p"
  obtain found b where sc: "buf_scan_end_record ?b = (found, b)" by fastforce
  note spec = scan_end_spec[OF less.prems sc]
  have len: "length (bcontent b) = PROT_MAX_BUFFER_LENGTH" "bcount b \<le> PROT_MAX_BUFFER_LENGTH"
    using spec less.prems(1) by (auto simp: in_inv_def)
  have ur: "unread p = take (bcount b) (bcontent b)" using less.prems(2) spec by (simp add: unread_def)
  show ?case
  proof (cases found)
    case False
    let ?p = "p\<lparr>inbuf := b\<rparr>"
    have run: "prot_get p = Some (if bcount b < PROT_MAX_BUFFER_LENGTH then - EAGAIN else - EMSGSIZE, ?p)"
      using less.prems(2) sc False by (subst prot_get.simps) simp
    have nf: "next_fields (allow_empty p) (unread p) = (None, unread p)"
      using spec False by (subst next_fields.simps) (simp add: next_record_def)
    have "in_inv ?p" "unread ?p = unread p" using spec len less.prems(2) ur by (auto simp: in_inv_def unread_def)
    moreover have "length (unread p) = bcount b" using ur len by simp
    ultimately show ?thesis
      using run nf less.prems(2) by (auto simp: got_def same_out_def)
  next
    case True
    let ?r = "take (bpos b) (bcontent b)"
    let ?rest = "drop (Suc (bpos b)) (unread p)"
    have re: "record_end False (take (bcount b) (bcontent b)) = Some (bpos b)"
      and pb: "bpos b < bcount b" "bcontent b ! bpos b = PROT_RECORD_SEPARATOR"
      using spec True ur by auto
    obtain cont offs where gf: "buf_get_fields b = Some (b\<lparr>bpos := bpos b + 1, bcontent := cont\<rparr>,
            \<lparr>fcount = int (length (decode_fields ?r)), foffs = offs\<rparr>)"
      and lc: "length cont = PROT_MAX_BUFFER_LENGTH"
      and dc: "drop (bpos b + 1) cont = drop (bpos b + 1) (bcontent b)"
      and fl: "map (\<lambda>i. cstr (drop (offs ! i) cont)) [0..<length (decode_fields ?r)] = decode_fields ?r"
      using get_fields_spec[OF len re pb] by blast
    define p2 where "p2 = p\<lparr>inbuf := b\<lparr>bpos := bpos b + 1, bcontent := cont\<rparr>,
        pfields := \<lparr>fcount = int (length (decode_fields ?r)), foffs = offs\<rparr>\<rparr>"
    have i2: "in_inv p2" using lc len pb by (simp add: p2_def in_inv_def)
    have u2: "unread p2 = ?rest"
      using dc ur by (simp add: p2_def unread_def drop_take)
    have f2: "prot_fields p2 = decode_fields ?r" using fl by (simp add: prot_fields_def p2_def)
    have s2: "same_out p p2" "allow_empty p2 = allow_empty p" by (simp_all add: same_out_def p2_def)
    have nr: "next_record (unread p) = Some (decode_fields ?r, ?rest)"
      using re pb(1) by (simp add: next_record_def ur min_def)
    have run: "prot_get p = (if decode_fields ?r = [] \<and> \<not> allow_empty p then prot_get (prot_next p2)
        else Some (int (length (decode_fields ?r)), p2))"
      using less.prems(2) sc True gf by (subst prot_get.simps) (simp add: p2_def Let_def)
    show ?thesis
    proof (cases "decode_fields ?r = [] \<and> \<not> allow_empty p")
      case skip: True
      note nx = prot_next_in[OF i2]
      have sm: "bcount (inbuf (prot_next p2)) < bcount (inbuf p)"
        using spec pb by (simp add: p2_def prot_next_def buf_crop_def Let_def)
      have "in_inv (prot_next p2)" "fcount (pfields (prot_next p2)) < 0" using nx by auto
      from less.hyps[OF sm this] obtain rc p' where
        "prot_get (prot_next p2) = Some (rc, p')" "got (prot_next p2) rc p'" by blast
      moreover have "next_fields (allow_empty p) (unread p) = next_fields (allow_empty p) ?rest"
        using nr skip by (subst next_fields.simps) simp
      moreover have "allow_empty (prot_next p2) = allow_empty p" "unread (prot_next p2) = ?rest"
        "same_out p (prot_next p2)"
        using nx u2 s2 same_out_trans by (auto simp: same_out_def)
      ultimately show ?thesis
        using run skip same_out_trans by (auto simp: got_def)
    next
      case False
      then have "next_fields (allow_empty p) (unread p) = (Some (decode_fields ?r), ?rest)"
        using nr by (subst next_fields.simps) auto
      then show ?thesis
        using run False i2 u2 f2 s2 by (auto simp: got_def p2_def)
    qed
  qed
qed

text \<open>\<open>prot_get\<close> from any state: a decoded record that is kept is given again.\<close>

lemma prot_get_again:
  "fcount (pfields p) > 0 \<or> fcount (pfields p) = 0 \<and> allow_empty p \<Longrightarrow>
   prot_get p = Some (fcount (pfields p), p)"
  by (subst prot_get.simps) auto

lemma prot_read_cases:
  assumes "prot_read p ch = (rc, p', ch')" "in_inv p"
  obtains (full) "rc = - ENOBUFS" "p' = p" "ch' = ch" "bcount (inbuf p) = PROT_MAX_BUFFER_LENGTH"
  | (error) e where "rc = - e" "0 < e" "e \<noteq> EINTR" "p' = p" "incoming (rx ch') = incoming (rx ch)"
      "sent ch' = sent ch"
  | (data) s where "rc = int (length s)" "unread p' = unread p @ s" "in_inv p'" "same_out p p'"
      "incoming (rx ch) = s @ incoming (rx ch')" "sent ch' = sent ch" "pfields p' = pfields p"
proof -
  let ?b = "inbuf p"
  have i: "length (bcontent ?b) = PROT_MAX_BUFFER_LENGTH" "bcount ?b \<le> PROT_MAX_BUFFER_LENGTH"
    "bpos ?b \<le> bcount ?b" using assms(2) by (auto simp: in_inv_def)
  show ?thesis
  proof (cases "bcount ?b = PROT_MAX_BUFFER_LENGTH")
    case True
    then show ?thesis using assms(1) by (intro full) (auto simp: prot_read_def inbuf_read_def)
  next
    case False
    obtain res ch1 where r: "read_retry (PROT_MAX_BUFFER_LENGTH - bcount ?b) ch = (res, ch1)" by fastforce
    show ?thesis
    proof (cases res)
      case (Inl e)
      note ok = read_retry_err[OF r[unfolded Inl]]
      have "rc = - e" "p' = p" "ch' = ch1"
        using assms(1) r Inl False by (auto simp: prot_read_def inbuf_read_def)
      with ok show ?thesis by (intro error[of e]) auto
    next
      case (Inr s)
      note ok = read_retry_ok[OF r[unfolded Inr]]
      let ?c = "take (bcount ?b) (bcontent ?b) @ s @ drop (bcount ?b + length s) (bcontent ?b)"
      have p': "rc = int (length s)" "ch' = ch1"
        "p' = p\<lparr>inbuf := ?b\<lparr>bcontent := ?c, bcount := bcount ?b + length s\<rparr>\<rparr>"
        using assms(1) r Inr False by (auto simp: prot_read_def inbuf_read_def)
      have fit: "bcount ?b + length s \<le> PROT_MAX_BUFFER_LENGTH"
        using conjunct1[OF ok] i(2) by linarith
      have tk: "take (bcount ?b + length s) ?c = take (bcount ?b) (bcontent ?b) @ s"
        using i by simp
      have lc: "length ?c = PROT_MAX_BUFFER_LENGTH" using i fit by simp
      have ne: "no_end_before ?c (bpos ?b)" if "no_end_before (bcontent ?b) (bpos ?b)"
        by (rule no_end_before_cong[OF _ _ _ that]) (use i lc in \<open>simp_all add: min_def\<close>)
      have "unread p' = unread p @ s"
        using tk i unfolding unread_def p' by simp
      moreover have "in_inv p'" using lc fit i ne assms(2) by (auto simp: in_inv_def p')
      ultimately show ?thesis
        using ok p' by (intro data[of s]) (auto simp: same_out_def)
    qed
  qed
qed

lemma prot_reset_inv:
  "length (bcontent (inbuf p)) = PROT_MAX_BUFFER_LENGTH \<Longrightarrow>
   length (bcontent (outbuf p)) = PROT_MAX_BUFFER_LENGTH \<Longrightarrow>
   in_inv (prot_reset p) \<and> out_inv (prot_reset p) \<and> unread (prot_reset p) = []
   \<and> obytes (outbuf (prot_reset p)) = [] \<and> fcount (pfields (prot_reset p)) < 0
   \<and> outfields (prot_reset p) = 0 \<and> \<not> allow_empty (prot_reset p)"
  by (simp add: prot_reset_def in_inv_def out_inv_def obuf_inv_def unread_def obytes_def
        PROT_MAX_BUFFER_LENGTH_def)

section \<open>Offsets\<close>

text \<open>Every field counted has its offset recorded.\<close>

lemma get_fields_offsets:
  "get_fields_loop cont rp wr cnt offs = Some (cont', cnt', offs') \<Longrightarrow> cnt \<le> PROT_MAX_FIELDS \<Longrightarrow>
   min (cnt + 1) PROT_MAX_FIELDS \<le> length offs \<Longrightarrow> cnt' \<le> length offs'"
proof (induction cont rp wr cnt offs rule: get_fields_loop.induct)
  case (1 cont rp wr cnt offs)
  note run = "1.prems"(1)[unfolded get_fields_loop.simps[of cont rp wr cnt offs]]
  show ?case
    using run "1.IH" "1.prems"(2,3) by (auto simp: Let_def split: if_splits)
qed

lemma prot_get_offsets:
  "prot_get p = Some (k, q) \<Longrightarrow> fcount (pfields p) < 0 \<Longrightarrow> 0 \<le> k \<Longrightarrow>
   fcount (pfields q) = k \<and> nat k \<le> length (foffs (pfields q))"
proof (induction p rule: prot_get.induct)
  case (1 p)
  obtain found b where sc: "buf_scan_end_record (inbuf p) = (found, b)" by fastforce
  note run = "1.prems"(1)[unfolded prot_get.simps[of p] sc prod.case]
  have found: found using run "1.prems"(2,3) by (cases found) (auto simp: PROT_MAX_BUFFER_LENGTH_def split: if_splits)
  obtain b2 f where gf: "buf_get_fields b = Some (b2, f)" using run found "1.prems"(2) by (auto split: option.splits)
  have off: "fcount f \<le> int (length (foffs f))"
    using gf get_fields_offsets[of "bcontent b" 0 0 0 "[0]"] PROT_MAX_FIELDS_pos
    by (auto simp: buf_get_fields_def split: if_splits option.splits)
  let ?p = "p\<lparr>inbuf := b2, pfields := f\<rparr>"
  have run2: "(if fcount f = 0 \<and> \<not> allow_empty ?p then prot_get (prot_next ?p) else Some (fcount f, ?p)) = Some (k, q)"
    using run found gf "1.prems"(2) by (simp add: Let_def)
  show ?case
  proof (cases "fcount f = 0 \<and> \<not> allow_empty ?p")
    case True
    have "fcount (pfields (prot_next ?p)) < 0" using True by (simp add: prot_next_def)
    then show ?thesis using "1.IH"(1)[OF "1.prems"(2) sc[symmetric] _ gf refl refl True] run2 True "1.prems"(3) found by simp
  next
    case False
    then show ?thesis using run2 off by auto
  qed
qed

end
