(* ===== verification/Prot_Link.thy ===== *)
theory Prot_Link
  imports Prot_In
begin

text \<open>
  The properties of \<open>prot.c\<close> as a whole: what \<open>prot_get\<close> returns, atomic puts, what is
  written, and the delivery of records between two handlers joined by a stream of bytes,
  whatever the sizes of the reads and writes.
\<close>

section \<open>Concrete handlers\<close>

definition raw_prot :: prot where
  "raw_prot = \<lparr>inbuf = \<lparr>bpos = 7, bcount = 7, bcontent = replicate 2000 (CHR ''#'')\<rparr>,
     outbuf = \<lparr>bpos = 7, bcount = 7, bcontent = replicate 2000 (CHR ''#'')\<rparr>,
     outfields = 1, wrokcnt = 1, allow_empty = True, pfields = \<lparr>fcount = 3, foffs = []\<rparr>\<rparr>"

definition new_prot :: prot where
  "new_prot = prot_reset raw_prot"

lemma new_prot_inv:
  "in_inv new_prot" "out_inv new_prot" "unread new_prot = []" "obytes (outbuf new_prot) = []"
  "fcount (pfields new_prot) < 0" "outfields new_prot = 0" "\<not> allow_empty new_prot"
  "bcount (outbuf new_prot) = 0"
  using prot_reset_inv[of raw_prot]
  by (auto simp: new_prot_def raw_prot_def PROT_MAX_BUFFER_LENGTH_def prot_reset_def)

section \<open>Getting\<close>

text \<open>
  On any received bytes, \<open>prot_get\<close> returns, without reading outside of its buffer and
  without failing its assertion. It gives the fields of the next record of the bytes (the
  next non-empty one when empty records are not allowed): at most twenty of them, unescaped.
  When no record is complete it returns \<open>EAGAIN\<close>, or \<open>EMSGSIZE\<close> when the buffer is full,
  and keeps the bytes.
\<close>

theorem prot_get_next_record:
  assumes "in_inv p" "fcount (pfields p) < 0"
  shows "\<exists>rc p'. prot_get p = Some (rc, p') \<and> in_inv p' \<and> same_out p p' \<and>
    (case next_fields (allow_empty p) (unread p) of
       (None, rest) \<Rightarrow> rc = (if length rest < PROT_MAX_BUFFER_LENGTH then - EAGAIN else - EMSGSIZE)
         \<and> unread p' = rest
     | (Some fs, rest) \<Rightarrow> rc = int (length fs) \<and> prot_fields p' = fs \<and> unread p' = rest)"
proof -
  obtain rc p' where "prot_get p = Some (rc, p')" "got p rc p'"
    using prot_get_pending[OF assms] by blast
  then show ?thesis
    by (intro exI[of _ rc] exI[of _ p'])
       (cases "next_fields (allow_empty p) (unread p)"; cases "fst (next_fields (allow_empty p) (unread p))";
        simp add: got_def)
qed

lemma received:
  assumes "length s < PROT_MAX_BUFFER_LENGTH"
  shows "\<exists>p ch. prot_read new_prot \<lparr>rx = [RxData s], tx = [], sent = []\<rparr> = (int (length s), p, ch)
     \<and> in_inv p \<and> unread p = s \<and> fcount (pfields p) < 0 \<and> same_out new_prot p"
proof -
  let ?ch = "\<lparr>rx = [RxData s], tx = [], sent = []\<rparr>"
  obtain rc p ch where r: "prot_read new_prot ?ch = (rc, p, ch)" by (metis prod_cases3)
  have rr: "read_retry PROT_MAX_BUFFER_LENGTH ?ch = (Inr s, ?ch\<lparr>rx := []\<rparr>)"
    using assms by (subst read_retry.simps) (simp add: sys_read_def)
  have b: "bcount (inbuf new_prot) = 0" by (simp add: new_prot_def prot_reset_def)
  then have "rc = int (length s)"
    using r rr by (auto simp: prot_read_def inbuf_read_def PROT_MAX_BUFFER_LENGTH_def)
  moreover have "in_inv p \<and> unread p = s \<and> fcount (pfields p) < 0 \<and> same_out new_prot p"
    using r new_prot_inv(1)
  proof (cases rule: prot_read_cases)
    case full
    then show ?thesis using b by (simp add: PROT_MAX_BUFFER_LENGTH_def)
  next
    case (error e)
    then show ?thesis using \<open>rc = int (length s)\<close> by simp
  next
    case (data t)
    have "s = t @ incoming (rx ch)" using data(5) by simp
    moreover have "length t = length s" using data(1) \<open>rc = int (length s)\<close> by simp
    ultimately have "s = t" by (metis append_eq_conv_conj append_Nil2 take_all_iff order_refl)
    then show ?thesis using data new_prot_inv by simp
  qed
  ultimately show ?thesis using r by blast
qed

theorem prot_get_next_record_witness:
  "\<exists>p q. unread p = ''id demo'' @ [LF] \<and> prot_get p = Some (2, q) \<and> prot_fields q = [''id'', ''demo'']"
proof -
  have "length (''id demo'' @ [LF]) < PROT_MAX_BUFFER_LENGTH" by (simp add: PROT_MAX_BUFFER_LENGTH_def)
  then obtain p where p: "in_inv p" "unread p = ''id demo'' @ [LF]" "fcount (pfields p) < 0"
    "same_out new_prot p" using received by blast
  have e: "encode [''id'', ''demo''] = ''id demo'' @ [LF]"
    by (simp add: encode_def needs_escape_def)
  have "next_record (encode [''id'', ''demo''] @ []) = Some ([''id'', ''demo''], [])"
    by (rule next_record_encode) (simp_all add: PROT_MAX_FIELDS_def)
  then have nr: "next_record (unread p) = Some ([''id'', ''demo''], [])" by (simp add: e p(2))
  have "next_fields (allow_empty p) (unread p) = (Some [''id'', ''demo''], [])"
    by (subst next_fields.simps) (simp add: nr)
  with prot_get_next_record[OF p(1,3)] show ?thesis using p(2) by auto
qed

section \<open>Putting\<close>

text \<open>
  C29: \<open>prot_put\<close> is atomic: a record is added, encoded, after what waits already, or, when
  its encoding does not fit in the 2000 bytes of the buffer, \<open>ECANCELED\<close> is returned and
  the waiting bytes are what they were. The input side is never touched.
\<close>

theorem prot_put_atomic:
  assumes "prot_put p (map Some fs) = (rc, p')" "out_inv p" "outfields p = 0" "fs \<noteq> []"
  shows "out_inv p' \<and> outfields p' = 0 \<and> same_in p p' \<and>
    (if bcount (outbuf p) + length (encode fs) \<le> PROT_MAX_BUFFER_LENGTH
     then rc = 0 \<and> obytes (outbuf p') = obytes (outbuf p) @ encode fs
     else rc = - ECANCELED \<and> obytes (outbuf p') = obytes (outbuf p))"
  using assms by (rule prot_put_record)

theorem prot_put_atomic_witness:
  "obytes (outbuf (snd (prot_put new_prot [Some ''log'', Some ''on off'']))) = ''log on'' @ BACKSLASH # '' off'' @ [LF]"
proof -
  obtain rc p' where r: "prot_put new_prot (map Some [''log'', ''on off'']) = (rc, p')" by fastforce
  have "encode [''log'', ''on off''] = ''log on'' @ BACKSLASH # '' off'' @ [LF]"
    by (simp add: encode_def needs_escape_def)
  then show ?thesis
    using prot_put_atomic[OF r new_prot_inv(2,6)] r new_prot_inv
    by (simp add: PROT_MAX_BUFFER_LENGTH_def)
qed

lemma prot_put_field_rc: "prot_put_field p f = (rc, q) \<Longrightarrow> rc \<le> 0 \<and> outfields q = outfields p + 1"
  by (cases f)
     (auto simp: prot_put_field_def buf_put_car_def buf_put_string_def Let_def
        split: prod.splits if_splits option.splits)

lemma putx_loop_fields: "putx_loop p fs = prot_put_fields p (map Some fs)"
proof (induction p fs rule: putx_loop.induct)
  case (2 p f fs)
  obtain rc q where q: "prot_put_field p (Some f) = (rc, q)" by fastforce
  show ?case
  proof (cases "rc = 0")
    case True
    then show ?thesis using 2 q by (cases "fs = []") simp_all
  next
    case False
    then show ?thesis using prot_put_field_rc[OF q] q by simp
  qed
qed simp

lemma prot_put_fields_count:
  "prot_put_fields p fs = (0, p') \<Longrightarrow> outfields p' = outfields p + length fs"
proof (induction fs arbitrary: p)
  case (Cons f fs)
  obtain rc q where q: "prot_put_field p f = (rc, q)" by fastforce
  note o = prot_put_field_rc[OF q]
  show ?case
  proof (cases "rc \<ge> 0 \<and> fs \<noteq> []")
    case True
    then have "prot_put_fields q fs = (0, p')" using Cons.prems q by simp
    then show ?thesis using Cons.IH o by simp
  next
    case False
    then show ?thesis using Cons.prems q o by (auto split: if_splits)
  qed
qed simp

lemma putx_keeps_partial:
  assumes "out_inv p" "outfields p = 0" "fs \<noteq> []"
    "bcount (outbuf p) + length (join_fields fs) = PROT_MAX_BUFFER_LENGTH"
  shows "\<exists>p'. prot_putx p fs = (- ECANCELED, p') \<and> outfields p' = length fs
    \<and> obytes (outbuf p') = obytes (outbuf p) @ join_fields fs"
proof -
  have inv: "obuf_inv (outbuf p)" using assms(1) by (simp add: out_inv_def)
  obtain rc q where q: "prot_put_fields p (map Some fs) = (rc, q)" by fastforce
  note c = prot_put_fields_cases[OF q inv assms(3)]
  have b: "rc = 0" "building p q (join_fields fs)" using c assms(2,4) by auto
  have l: "bcount (outbuf q) = PROT_MAX_BUFFER_LENGTH"
    using b(2) assms(4) unfolding building_def by (metis length_append length_obytes)
  have "prot_put_end q = (- ECANCELED, q)"
    using l c by (auto simp: prot_put_end_def buf_put_car_def)
  then have "prot_putx p fs = (- ECANCELED, q)"
    using putx_loop_fields[of p fs] q b(1) by (simp add: prot_putx_def)
  moreover have "outfields q = length fs" using prot_put_fields_count[of p "map Some fs"] q b(1) assms(2) by simp
  ultimately show ?thesis using b(2) by (auto simp: building_def)
qed

text \<open>
  \<open>prot_putx\<close> is not atomic: when the fields fill the buffer exactly and the record
  separator does not fit, it returns \<open>ECANCELED\<close> but keeps the fields, so that the next
  record put starts with them.
\<close>

theorem prot_putx_keeps_partial_record:
  assumes "out_inv p" "outfields p = 0" "fs \<noteq> []"
    "bcount (outbuf p) + length (join_fields fs) = PROT_MAX_BUFFER_LENGTH"
  shows "\<exists>p'. prot_putx p fs = (- ECANCELED, p') \<and> outfields p' = length fs
    \<and> obytes (outbuf p') = obytes (outbuf p) @ join_fields fs"
  using assms by (rule putx_keeps_partial)

lemma escape_plain: "\<not> special c \<Longrightarrow> escape_field (replicate n c) = replicate n c"
  by (induction n) (auto simp: needs_escape_def special_def)

theorem prot_putx_keeps_partial_record_witness:
  "\<exists>p'. prot_putx new_prot [replicate 2000 (CHR ''x'')] = (- ECANCELED, p') \<and> outfields p' = 1"
proof -
  have "escape_field (replicate 2000 (CHR ''x'')) = replicate 2000 (CHR ''x'')"
    by (rule escape_plain) (simp add: special_def)
  then have "bcount (outbuf new_prot) + length (join_fields [replicate 2000 (CHR ''x'')]) = PROT_MAX_BUFFER_LENGTH"
    unfolding join_fields.simps by (simp only: length_replicate new_prot_inv PROT_MAX_BUFFER_LENGTH_def)
  from prot_putx_keeps_partial_record[OF new_prot_inv(2,6) _ this] show ?thesis by auto
qed

section \<open>Two handlers and a wire\<close>

text \<open>The records the protocol can carry: see \<open>next_record_encode\<close>.\<close>

definition valid_msg :: "string list \<Rightarrow> bool" where
  "valid_msg fs \<longleftrightarrow> fs \<noteq> [] \<and> fs \<noteq> [[]] \<and> length fs \<le> PROT_MAX_FIELDS \<and> (\<forall>f \<in> set fs. no_nul f)"

record link =
  sender :: prot
  receiver :: prot
  wire :: string
  puts :: "string list list" \<comment> \<open>the records put with success\<close>
  gets :: "string list list" \<comment> \<open>the records got\<close>

text \<open>
  The sender puts records and writes with any result of \<open>writev\<close>; the receiver reads with
  any result of \<open>read\<close> over the bytes on the wire, and gets.
\<close>

inductive link_step :: "link \<Rightarrow> link \<Rightarrow> bool" where
  put: "valid_msg fs \<Longrightarrow> prot_put (sender l) (map Some fs) = (rc, p) \<Longrightarrow>
    link_step l (l\<lparr>sender := p, puts := (if rc = 0 then puts l @ [fs] else puts l)\<rparr>)"
| send: "sent ch = [] \<Longrightarrow> prot_write (sender l) ch = (rc, p, ch') \<Longrightarrow>
    link_step l (l\<lparr>sender := p, wire := wire l @ sent ch'\<rparr>)"
| recv: "incoming (rx ch) = wire l \<Longrightarrow> prot_read (receiver l) ch = (rc, p, ch') \<Longrightarrow>
    link_step l (l\<lparr>receiver := p, wire := incoming (rx ch')\<rparr>)"
| take_record: "prot_get (receiver l) = Some (rc, p) \<Longrightarrow>
    link_step l (l\<lparr>receiver := prot_next p,
                   gets := (if rc > 0 then gets l @ [prot_fields p] else gets l)\<rparr>)"

definition link_init :: "link \<Rightarrow> bool" where
  "link_init l \<longleftrightarrow> sender l = new_prot \<and> receiver l = new_prot \<and> wire l = [] \<and> puts l = [] \<and> gets l = []"

inductive link_reach :: "link \<Rightarrow> bool" where
  init: "link_init l \<Longrightarrow> link_reach l"
| step: "link_reach l \<Longrightarrow> link_step l m \<Longrightarrow> link_reach m"

definition stream :: "string list list \<Rightarrow> string" where
  "stream ms = concat (map encode ms)"

text \<open>The bytes between the two ends are the encoding of the records not yet got.\<close>

definition link_inv :: "link \<Rightarrow> bool" where
  "link_inv l \<longleftrightarrow> out_inv (sender l) \<and> outfields (sender l) = 0
     \<and> in_inv (receiver l) \<and> fcount (pfields (receiver l)) < 0 \<and> \<not> allow_empty (receiver l)
     \<and> (\<exists>ms. puts l = gets l @ ms \<and> list_all valid_msg ms
           \<and> unread (receiver l) @ wire l @ obytes (outbuf (sender l)) = stream ms)"

lemma record_end_append: "record_end b w = Some k \<Longrightarrow> record_end b (w @ x) = Some k"
  by (induction b w arbitrary: k rule: record_end.induct) (auto split: if_splits)

lemma next_record_append:
  assumes "next_record w = Some (fs, rest)"
  shows "next_record (w @ x) = Some (fs, rest @ x)"
proof -
  obtain k where k: "record_end False w = Some k" "fs = decode_fields (take k w)" "rest = drop (Suc k) w"
    using assms by (auto simp: next_record_def)
  then show ?thesis
    using record_end_append[OF k(1)] record_end_less[OF k(1)] by (simp add: next_record_def)
qed

lemma next_fields_valid:
  assumes "w @ x = stream ms" "list_all valid_msg ms"
  shows "next_fields False w = (None, w)
    \<or> (\<exists>m ms' rest. ms = m # ms' \<and> next_fields False w = (Some m, rest) \<and> rest @ x = stream ms')"
proof (cases "next_record w")
  case None
  then show ?thesis by (subst next_fields.simps) simp
next
  case (Some fr)
  obtain fs rest where fr: "fr = (fs, rest)" by fastforce
  have full: "next_record (stream ms) = Some (fs, rest @ x)"
    using next_record_append[of w fs rest x] Some fr assms(1) by simp
  then obtain m ms' where ms: "ms = m # ms'"
    by (cases ms) (auto simp: stream_def next_record_def)
  then have "next_record (encode m @ stream ms') = Some (m, stream ms')"
    using assms(2) by (intro next_record_encode) (auto simp: valid_msg_def)
  then have eq: "fs = m" "rest @ x = stream ms'" using full ms by (auto simp: stream_def)
  have "fs \<noteq> []" using assms(2) ms eq by (simp add: valid_msg_def)
  then have "next_fields False w = (Some fs, rest)" using Some fr by (subst next_fields.simps) simp
  then show ?thesis using ms eq by blast
qed

lemma link_step_inv: "link_step l m \<Longrightarrow> link_inv l \<Longrightarrow> link_inv m"
proof (induction rule: link_step.induct)
  case (put fs l rc p)
  then obtain ms where ms: "puts l = gets l @ ms" "list_all valid_msg ms"
    "unread (receiver l) @ wire l @ obytes (outbuf (sender l)) = stream ms"
    by (auto simp: link_inv_def)
  have "fs \<noteq> []" using put(1) by (simp add: valid_msg_def)
  with put have rec: "out_inv p \<and> outfields p = 0 \<and> same_in (sender l) p \<and>
    (if bcount (outbuf (sender l)) + length (encode fs) \<le> PROT_MAX_BUFFER_LENGTH
     then rc = 0 \<and> obytes (outbuf p) = obytes (outbuf (sender l)) @ encode fs
     else rc = - ECANCELED \<and> obytes (outbuf p) = obytes (outbuf (sender l)))"
    by (intro prot_put_record) (auto simp: link_inv_def)
  show ?case
  proof (cases "rc = 0")
    case True
    then have ob: "obytes (outbuf p) = obytes (outbuf (sender l)) @ encode fs"
      using rec by (auto split: if_splits)
    have "unread (receiver l) @ wire l @ obytes (outbuf p) = stream (ms @ [fs])"
      unfolding ob using ms(3) by (simp add: stream_def flip: append_assoc)
    moreover have "puts l @ [fs] = gets l @ (ms @ [fs])" "list_all valid_msg (ms @ [fs])"
      using ms put(1) by auto
    ultimately have ex: "\<exists>ns. puts l @ [fs] = gets l @ ns \<and> list_all valid_msg ns
        \<and> unread (receiver l) @ wire l @ obytes (outbuf p) = stream ns" by blast
    have rest: "out_inv p \<and> outfields p = 0 \<and> in_inv (receiver l)
       \<and> fcount (pfields (receiver l)) < 0 \<and> \<not> allow_empty (receiver l)"
      using rec put.prems by (simp add: link_inv_def)
    show ?thesis unfolding link_inv_def using True ex rest by simp
  next
    case False
    then show ?thesis using rec put.prems by (auto simp: link_inv_def split: if_splits)
  qed
next
  case (send ch l rc p ch')
  have oi: "out_inv (sender l)" using send.prems by (simp add: link_inv_def)
  show ?case
    using send(2) oi
  proof (cases rule: prot_write_cases)
    case (wrote n)
    have "obytes (outbuf (sender l)) = take n (committed (sender l)) @ drop n (obytes (outbuf (sender l)))"
      using wrote(2) unfolding committed_def by (metis append_take_drop_id min.absorb1 take_take)
    then show ?thesis
      using send wrote by (auto simp: link_inv_def)
  qed (use send in \<open>auto simp: link_inv_def\<close>)
next
  case (recv ch l rc p ch')
  have ii: "in_inv (receiver l)" using recv.prems by (simp add: link_inv_def)
  show ?case
    using recv(2) ii
  proof (cases rule: prot_read_cases)
    case (data s)
    have e: "wire l = s @ incoming (rx ch')" using data(5) recv(1) by simp
    have "\<not> allow_empty p" "fcount (pfields p) < 0" using data(4,7) recv.prems by (auto simp: link_inv_def same_out_def)
    then show ?thesis using recv.prems data(2,3) e by (auto simp: link_inv_def)
  qed (use recv in \<open>auto simp: link_inv_def\<close>)
next
  case (take_record l rc p)
  then obtain ms where ms: "puts l = gets l @ ms" "list_all valid_msg ms"
    "unread (receiver l) @ wire l @ obytes (outbuf (sender l)) = stream ms"
    and r: "in_inv (receiver l)" "fcount (pfields (receiver l)) < 0" "\<not> allow_empty (receiver l)"
    by (auto simp: link_inv_def)
  have g: "got (receiver l) rc p" using prot_get_pending[OF r(1,2)] take_record(1) by auto
  have ii: "in_inv p" "same_out (receiver l) p" using g by (auto simp: got_def)
  note nx = prot_next_in[OF ii(1)]
  have base: "out_inv (sender l) \<and> outfields (sender l) = 0 \<and> in_inv (prot_next p)
     \<and> fcount (pfields (prot_next p)) < 0 \<and> \<not> allow_empty (prot_next p)"
    using nx ii take_record.prems r(3) by (auto simp: link_inv_def same_out_def)
  from next_fields_valid[OF ms(3,2)] show ?case
  proof
    assume n: "next_fields False (unread (receiver l)) = (None, unread (receiver l))"
    then have "rc < 0" "unread p = unread (receiver l)" using g r(3) by (auto simp: got_def)
    then show ?thesis using base ms nx by (auto simp: link_inv_def)
  next
    assume "\<exists>m ms' rest. ms = m # ms' \<and> next_fields False (unread (receiver l)) = (Some m, rest)
      \<and> rest @ wire l @ obytes (outbuf (sender l)) = stream ms'"
    then obtain m ms' rest where m: "ms = m # ms'"
      "next_fields False (unread (receiver l)) = (Some m, rest)"
      "rest @ wire l @ obytes (outbuf (sender l)) = stream ms'" by blast
    have "m \<noteq> []" using ms(2) m(1) by (simp add: valid_msg_def)
    then have "rc > 0" "prot_fields p = m" "unread p = rest" using g r(3) m(2) by (auto simp: got_def)
    then show ?thesis using base ms m nx by (auto simp: link_inv_def)
  qed
qed

lemma link_init_inv: "link_init l \<Longrightarrow> link_inv l"
  using new_prot_inv by (auto simp: link_init_def link_inv_def stream_def)

lemma link_reach_inv: "link_reach l \<Longrightarrow> link_inv l"
  by (induction rule: link_reach.induct) (auto intro: link_init_inv link_step_inv)

text \<open>
  C18: whatever the sizes and failures of the reads and the writes, and however they are
  interleaved with the puts and the gets, the receiver gets the records that were put, field
  by field, in order, none lost, changed or doubled; when no byte is left on the way, it has
  got all of them.
\<close>

theorem link_delivers:
  assumes "link_reach l"
  shows "prefix (gets l) (puts l)
    \<and> (unread (receiver l) = [] \<and> wire l = [] \<and> obytes (outbuf (sender l)) = [] \<longrightarrow> gets l = puts l)"
proof -
  obtain ms where ms: "puts l = gets l @ ms"
    "unread (receiver l) @ wire l @ obytes (outbuf (sender l)) = stream ms"
    using link_reach_inv[OF assms] by (auto simp: link_inv_def)
  have "ms = []" if "stream ms = []" using that by (cases ms) (auto simp: stream_def encode_def)
  then show ?thesis using ms by auto
qed

theorem link_delivers_witness:
  "\<exists>l. link_reach l \<and> gets l = [] \<and> puts l = [[''id'', ''demo'']] \<and> prefix (gets l) (puts l)"
proof -
  define l0 where "l0 = \<lparr>sender = new_prot, receiver = new_prot, wire = [], puts = [], gets = []\<rparr>"
  have r0: "link_reach l0" by (rule link_reach.init) (simp add: link_init_def l0_def)
  have v: "valid_msg [''id'', ''demo'']" by (simp add: valid_msg_def PROT_MAX_FIELDS_def)
  obtain rc p where p: "prot_put (sender l0) (map Some [''id'', ''demo'']) = (rc, p)" by fastforce
  have "rc = 0"
    using prot_put_record[OF p] new_prot_inv
    by (auto simp: l0_def encode_def needs_escape_def PROT_MAX_BUFFER_LENGTH_def)
  with link_reach.step[OF r0 link_step.put[OF v p]]
  have "link_reach (l0\<lparr>sender := p, puts := [[''id'', ''demo'']]\<rparr>)" by (simp add: l0_def)
  from link_delivers[OF this] this show ?thesis
    by (intro exI[of _ "l0\<lparr>sender := p, puts := [[''id'', ''demo'']]\<rparr>"]) (simp add: l0_def)
qed

end
