(* ===== verification/Mustach.thy ===== *)
theory Mustach
  imports Prelude
begin

text \<open>
  \<open>src/templating/mustach.c\<close> as it is compiled, none of the macros that remove its extensions
  being defined (a colon starts a name, an empty tag is refused): the template processor over an
  interface of callbacks.
  The callbacks change a closure of any type and produce text; text is appended to the
  output, a write error of the stream showing only when it is closed by the caller. A
  position in the template is the rest of the template. The loop has fuel, one unit for a
  turn: \<open>None\<close> is a run that has not ended, or the underflow of \<open>len\<close> on
  an empty tag whose closing delimiter starts with the mark of a tag (\<open>LexUndefined\<close>).
\<close>

abbreviation (input) MUSTACH_MAX_DEPTH :: nat where "MUSTACH_MAX_DEPTH \<equiv> 256"
abbreviation (input) MUSTACH_MAX_LENGTH :: nat where "MUSTACH_MAX_LENGTH \<equiv> 1024"
abbreviation (input) MUSTACH_OK :: int where "MUSTACH_OK \<equiv> 0"
abbreviation (input) MUSTACH_ERROR_UNEXPECTED_END :: int where "MUSTACH_ERROR_UNEXPECTED_END \<equiv> -2"
abbreviation (input) MUSTACH_ERROR_EMPTY_TAG :: int where "MUSTACH_ERROR_EMPTY_TAG \<equiv> -3"
abbreviation (input) MUSTACH_ERROR_TAG_TOO_LONG :: int where "MUSTACH_ERROR_TAG_TOO_LONG \<equiv> -4"
abbreviation (input) MUSTACH_ERROR_BAD_SEPARATORS :: int where "MUSTACH_ERROR_BAD_SEPARATORS \<equiv> -5"
abbreviation (input) MUSTACH_ERROR_TOO_DEEP :: int where "MUSTACH_ERROR_TOO_DEEP \<equiv> -6"
abbreviation (input) MUSTACH_ERROR_CLOSING :: int where "MUSTACH_ERROR_CLOSING \<equiv> -7"
abbreviation (input) MUSTACH_ERROR_BAD_UNESCAPE_TAG :: int where "MUSTACH_ERROR_BAD_UNESCAPE_TAG \<equiv> -8"
abbreviation (input) MUSTACH_ERROR_INVALID_ITF :: int where "MUSTACH_ERROR_INVALID_ITF \<equiv> -9"

section \<open>Interface\<close>

record 'c mustach_itf =
  mi_start :: "('c \<Rightarrow> int \<times> 'c) option"
  mi_put :: "(string \<Rightarrow> bool \<Rightarrow> 'c \<Rightarrow> int \<times> string \<times> 'c) option"
  mi_enter :: "(string \<Rightarrow> 'c \<Rightarrow> int \<times> 'c) option"
  mi_next :: "('c \<Rightarrow> int \<times> 'c) option"
  mi_leave :: "('c \<Rightarrow> 'c) option"
  mi_partial :: "(string \<Rightarrow> 'c \<Rightarrow> int \<times> string \<times> 'c) option"
  mi_emit :: "(string \<Rightarrow> bool \<Rightarrow> 'c \<Rightarrow> int \<times> string \<times> 'c) option"
  mi_get :: "(string \<Rightarrow> 'c \<Rightarrow> int \<times> string \<times> 'c) option"
  mi_stop :: "(int \<Rightarrow> 'c \<Rightarrow> 'c) option"

text \<open>The wrapped interface: every callback there.\<close>

record 'c iwrap =
  emit :: "string \<Rightarrow> bool \<Rightarrow> 'c \<Rightarrow> int \<times> string \<times> 'c"
  put :: "string \<Rightarrow> bool \<Rightarrow> 'c \<Rightarrow> int \<times> string \<times> 'c"
  enter :: "string \<Rightarrow> 'c \<Rightarrow> int \<times> 'c"
  next_item :: "'c \<Rightarrow> int \<times> 'c"
  leave :: "'c \<Rightarrow> 'c"
  partial :: "string \<Rightarrow> 'c \<Rightarrow> int \<times> string \<times> 'c"

fun html_escape :: "string \<Rightarrow> string" where
  "html_escape [] = []"
| "html_escape (c # s) =
     (if c = CHR ''<'' then ''&lt;'' else if c = CHR ''>'' then ''&gt;''
      else if c = CHR ''&'' then ''&amp;'' else [c]) @ html_escape s"

definition iwrap_emit :: "string \<Rightarrow> bool \<Rightarrow> 'c \<Rightarrow> int \<times> string \<times> 'c" where
  "iwrap_emit buffer escape c = (MUSTACH_OK, if escape then html_escape buffer else buffer, c)"

definition iwrap_put ::
  "(string \<Rightarrow> bool \<Rightarrow> 'c \<Rightarrow> int \<times> string \<times> 'c) \<Rightarrow> (string \<Rightarrow> 'c \<Rightarrow> int \<times> string \<times> 'c) \<Rightarrow>
   string \<Rightarrow> bool \<Rightarrow> 'c \<Rightarrow> int \<times> string \<times> 'c" where
  "iwrap_put em get name escape c =
     (case get name c of (rc, value, c1) \<Rightarrow>
        if rc \<ge> 0 then (if value \<noteq> [] then em value escape c1 else (rc, [], c1))
        else (rc, [], c1))"

definition iwrap_partial ::
  "(string \<Rightarrow> bool \<Rightarrow> 'c \<Rightarrow> int \<times> string \<times> 'c) \<Rightarrow> string \<Rightarrow> 'c \<Rightarrow> int \<times> string \<times> 'c" where
  "iwrap_partial pu name c =
     (case pu name False c of (rc, text, c1) \<Rightarrow> if rc < 0 then (rc, [], c1) else (0, text, c1))"

section \<open>Tags\<close>

text \<open>\<open>strstr\<close>: what precedes the first occurrence, and the rest from it.\<close>

fun strstr :: "string \<Rightarrow> string \<Rightarrow> (string \<times> string) option" where
  "strstr [] pat = (if pat = [] then Some ([], []) else None)"
| "strstr (c # s) pat =
     (if prefix pat (c # s) then Some ([], c # s)
      else case strstr s pat of None \<Rightarrow> None | Some (a, b) \<Rightarrow> Some (c # a, b))"

definition trim :: "string \<Rightarrow> string" where
  "trim s = rev (dropWhile is_space (rev (dropWhile is_space s)))"

datatype lexed = LexError int | LexUndefined | Lexed char string string

text \<open>
  \<open>content\<close> is the text between the delimiters, \<open>term\<close> the template from the closing one.
  The first character tells the kind of the tag; it is that of \<open>term\<close> when the tag is empty.
\<close>

definition lex_tag :: "string \<Rightarrow> string \<Rightarrow> string \<Rightarrow> lexed" where
  "lex_tag content term clstr =
     (let c = hd (content @ term);
          template = drop (length clstr) term
      in if c = CHR ''!'' \<or> c = CHR ''='' then Lexed c content template
         else
           let r = (if c = CHR ''{'' then
                      if \<not> list_all (\<lambda>x. x = CHR ''}'') clstr then
                        (if content = [] \<or> last content \<noteq> CHR ''}''
                         then Inl MUSTACH_ERROR_BAD_UNESCAPE_TAG
                         else Inr (CHR ''&'', butlast content, template))
                      else if rd term (length clstr) \<noteq> CHR ''}''
                      then Inl MUSTACH_ERROR_BAD_UNESCAPE_TAG
                      else Inr (CHR ''&'', content, drop 1 template)
                    else Inr (c, content, template))
           in case r of
                Inl e \<Rightarrow> LexError e
              | Inr (c, content, template) \<Rightarrow>
                  let marked = c \<in> {CHR ''^'', CHR ''#'', CHR ''/'', CHR ''&'', CHR ''>'', CHR '':''} in
                  if marked \<and> content = [] then LexUndefined
                  else
                    let name = trim (if marked then drop 1 content else content)
                    in if name = [] then LexError MUSTACH_ERROR_EMPTY_TAG
                       else if length name > MUSTACH_MAX_LENGTH then LexError MUSTACH_ERROR_TAG_TOO_LONG
                       else Lexed c name template)"

text \<open>\<open>{{=<% %>=}}\<close>: the new delimiters, if they are there.\<close>

definition delimiters :: "string \<Rightarrow> (string \<times> string) option" where
  "delimiters content =
     (if length content < 5 \<or> last content \<noteq> CHR ''='' then None
      else
        let body = butlast (drop 1 content);
            opstr = takeWhile (\<lambda>c. \<not> is_space c) body;
            clstr = dropWhile is_space (drop (length opstr) body)
        in if clstr = [] then None else Some (opstr, clstr))"

section \<open>The processor\<close>

record frame =
  fr_name :: string
  fr_again :: string
  fr_enabled :: bool
  fr_entered :: bool

text \<open>The variables of the loop of \<open>process\<close>, the output and the closure.\<close>

record 'c mstate =
  template :: string
  opstr :: string
  clstr :: string
  stack :: "frame list"
  enabled :: bool
  out :: string
  clo :: 'c

text \<open>
  One turn of the loop: return, go on, or process a partial (\<open>Sub\<close>) before going on.
\<close>

datatype 'c turn =
  Return int "'c mstate" | Undefined | Go "'c mstate" | Sub string "'c mstate"

definition begin_section :: "'c iwrap \<Rightarrow> char \<Rightarrow> string \<Rightarrow> 'c mstate \<Rightarrow> 'c turn" where
  "begin_section iw k name st =
     (if length (stack st) = MUSTACH_MAX_DEPTH then Return MUSTACH_ERROR_TOO_DEEP st
      else case (if enabled st then enter iw name (clo st) else (0, clo st)) of (rc, c) \<Rightarrow>
        let st = st\<lparr>clo := c\<rparr> in
        if rc < 0 then Return rc st
        else Go (st\<lparr>stack := \<lparr>fr_name = name, fr_again = template st, fr_enabled = enabled st,
                             fr_entered = rc \<noteq> 0\<rparr> # stack st,
                   enabled := (if (k = CHR ''#'') = (rc = 0) then False else enabled st)\<rparr>))"

definition end_section :: "'c iwrap \<Rightarrow> string \<Rightarrow> 'c mstate \<Rightarrow> 'c turn" where
  "end_section iw name st =
     (case stack st of
        [] \<Rightarrow> Return MUSTACH_ERROR_CLOSING st
      | f # fs \<Rightarrow>
          if name \<noteq> fr_name f then Return MUSTACH_ERROR_CLOSING st
          else case (if enabled st \<and> fr_entered f then next_item iw (clo st) else (0, clo st)) of
            (rc, c) \<Rightarrow>
              let st = st\<lparr>clo := c\<rparr> in
              if rc < 0 then Return rc st
              else if rc \<noteq> 0 then Go (st\<lparr>template := fr_again f\<rparr>)
              else Go (st\<lparr>stack := fs, enabled := fr_enabled f,
                         clo := (if fr_enabled f \<and> fr_entered f then leave iw c else c)\<rparr>))"

definition do_tag :: "'c iwrap \<Rightarrow> char \<Rightarrow> string \<Rightarrow> 'c mstate \<Rightarrow> 'c turn" where
  "do_tag iw k name st =
     (if k = CHR ''!'' then Go st
      else if k = CHR ''='' then
        (case delimiters name of
           None \<Rightarrow> Return MUSTACH_ERROR_BAD_SEPARATORS st
         | Some (o', c') \<Rightarrow> Go (st\<lparr>opstr := o', clstr := c'\<rparr>))
      else if k = CHR ''^'' \<or> k = CHR ''#'' then begin_section iw k name st
      else if k = CHR ''/'' then end_section iw name st
      else if k = CHR ''>'' then
        (if enabled st then
           (case partial iw name (clo st) of (rc, sub, c) \<Rightarrow>
              if rc < 0 then Return rc (st\<lparr>clo := c\<rparr>) else Sub sub (st\<lparr>clo := c\<rparr>))
         else Go st)
      else if enabled st then
        (case put iw name (k \<noteq> CHR ''&'') (clo st) of (rc, t, c) \<Rightarrow>
           let st = st\<lparr>out := out st @ t, clo := c\<rparr> in if rc < 0 then Return rc st else Go st)
      else Go st)"

text \<open>\<open>if (enabled && n) rc = emit (...)\<close>\<close>

definition emit_text :: "'c iwrap \<Rightarrow> string \<Rightarrow> 'c mstate \<Rightarrow> int \<times> 'c mstate" where
  "emit_text iw text st =
     (if enabled st \<and> text \<noteq> [] then
        (case emit iw text False (clo st) of (rc, t, c) \<Rightarrow>
           (rc, st\<lparr>out := out st @ t, clo := c\<rparr>))
      else (0, st))"

definition process_turn :: "'c iwrap \<Rightarrow> 'c mstate \<Rightarrow> 'c turn" where
  "process_turn iw st =
     (case strstr (template st) (opstr st) of
        None \<Rightarrow>
          (case emit_text iw (template st) st of (rc, st) \<Rightarrow>
             Return (if rc < 0 then rc
                     else if stack st \<noteq> [] then MUSTACH_ERROR_UNEXPECTED_END else MUSTACH_OK) st)
      | Some (text, beg) \<Rightarrow>
          (case emit_text iw text st of (rc, st) \<Rightarrow>
             if rc < 0 then Return rc st
             else case strstr (drop (length (opstr st)) beg) (clstr st) of
               None \<Rightarrow> Return MUSTACH_ERROR_UNEXPECTED_END st
             | Some (content, term) \<Rightarrow>
                 (case lex_tag content term (clstr st) of
                    LexError e \<Rightarrow> Return e st
                  | LexUndefined \<Rightarrow> Undefined
                  | Lexed k name rest \<Rightarrow> do_tag iw k name (st\<lparr>template := rest\<rparr>))))"

fun process :: "nat \<Rightarrow> 'c iwrap \<Rightarrow> 'c mstate \<Rightarrow> (int \<times> 'c mstate) option" where
  "process 0 iw st = None"
| "process (Suc n) iw st =
     (case process_turn iw st of
        Return rc st \<Rightarrow> Some (rc, st)
      | Undefined \<Rightarrow> None
      | Go st \<Rightarrow> process n iw st
      | Sub sub st \<Rightarrow>
          (case process n iw (st\<lparr>template := sub, stack := [], enabled := True\<rparr>) of
             None \<Rightarrow> None
           | Some (rc, st2) \<Rightarrow>
               let st = st\<lparr>out := out st2, clo := clo st2\<rparr>
               in if rc < 0 then Some (rc, st) else process n iw st))"

definition fmustach ::
  "nat \<Rightarrow> string \<Rightarrow> 'c mustach_itf \<Rightarrow> 'c \<Rightarrow> (int \<times> string \<times> 'c) option" where
  "fmustach n tpl itf c =
     (case (mi_enter itf, mi_next itf, mi_leave itf) of
        (Some en, Some ne, Some le) \<Rightarrow>
          (if mi_put itf = None \<and> mi_get itf = None then Some (MUSTACH_ERROR_INVALID_ITF, [], c)
           else
             let em = (case mi_emit itf of Some f \<Rightarrow> f | None \<Rightarrow> iwrap_emit);
                 pu = (case mi_put itf of Some f \<Rightarrow> f | None \<Rightarrow> iwrap_put em (the (mi_get itf)));
                 pa = (case mi_partial itf of Some f \<Rightarrow> f
                       | None \<Rightarrow> (case mi_get itf of Some f \<Rightarrow> f | None \<Rightarrow> iwrap_partial pu));
                 iw = \<lparr>emit = em, put = pu, enter = en, next_item = ne, leave = le, partial = pa\<rparr>;
                 (rc, c) = (case mi_start itf of Some f \<Rightarrow> f c | None \<Rightarrow> (0, c));
                 st = \<lparr>template = tpl, opstr = ''{{'', clstr = ''}}'', stack = [], enabled = True,
                       out = [], clo = c\<rparr>;
                 r = (if rc = 0 then process n iw st else Some (rc, st))
             in case r of
                  None \<Rightarrow> None
                | Some (rc, st) \<Rightarrow>
                    Some (rc, out st, case mi_stop itf of Some f \<Rightarrow> f rc (clo st) | None \<Rightarrow> clo st))
      | _ \<Rightarrow> Some (MUSTACH_ERROR_INVALID_ITF, [], c))"

section \<open>More fuel changes nothing\<close>

lemma process_more:
  "process n iw st = Some r \<Longrightarrow> n \<le> m \<Longrightarrow> process m iw st = Some r"
proof (induction n arbitrary: m st r)
  case (Suc n)
  then obtain k where m: "m = Suc k" and k: "n \<le> k" by (cases m) auto
  have IH: "process k iw s = Some q" if "process n iw s = Some q" for s q
    using Suc.IH[OF that k] .
  show ?case
    using Suc.prems(1) unfolding m
    by (cases "process_turn iw st")
       (auto simp: Let_def IH split: option.splits prod.splits if_splits dest: IH)
qed simp

end
