(* ===== verification/Template.thy ===== *)
theory Template
  imports Mustach Context_Inv
begin

text \<open>
  \<open>src/templating/template.c\<close>: the callbacks that give a context to the templates, and
  \<open>template_process\<close>. The closure is the plug being presented: the rest of the list of
  plugs from it, empty for NULL.
\<close>

section \<open>The callbacks\<close>

definition underscored :: "string \<Rightarrow> string" where
  "underscored txt = map (\<lambda>c. if c = CHR ''-'' then CHR ''_'' else c) txt"

definition tpl_put :: "'p ctx \<Rightarrow> string \<Rightarrow> bool \<Rightarrow> plug list \<Rightarrow> int \<times> string \<times> plug list" where
  "tpl_put context name escape plugs =
     (let underscore = (rd name 0 = CHR ''_'');
          (txt, underscore) =
            (if name = ''id'' then (Some (context_id context), underscore)
             else if name = ''id_underscore'' then (Some (context_id context), True)
             else if name = ''_id_'' then (Some (context_id context), underscore)
             else if name = ''impid'' \<and> plugs \<noteq> [] then (Some (impid (hd plugs)), underscore)
             else if name = ''_impid_'' \<and> plugs \<noteq> [] then (Some (impid (hd plugs)), underscore)
             else (None, underscore))
      in (0, case txt of None \<Rightarrow> []
             | Some t \<Rightarrow> if underscore then underscored t else t, plugs))"

definition tpl_enter :: "'p ctx \<Rightarrow> string \<Rightarrow> plug list \<Rightarrow> int \<times> plug list" where
  "tpl_enter context name plugs =
     (if rd name 0 = CHR ''p'' \<and> rd name 1 = CHR ''='' then
        (if context_has_permission context (drop 2 name) then 1 else 0, plugs)
      else if plugs \<noteq> [] then (0, plugs)
      else if name = ''has-plugs'' then (if plugset context \<noteq> [] then 1 else 0, plugs)
      else if name = ''plugs'' then (if plugset context \<noteq> [] then 1 else 0, plugset context)
      else (0, plugs))"

definition tpl_leave :: "plug list \<Rightarrow> plug list" where
  "tpl_leave plugs = []"

definition tpl_next :: "plug list \<Rightarrow> int \<times> plug list" where
  "tpl_next plugs = (let plugs = tl plugs in (if plugs \<noteq> [] then 1 else 0, plugs))"

definition template_itf :: "'p ctx \<Rightarrow> plug list mustach_itf" where
  "template_itf context =
     \<lparr>mi_start = None, mi_put = Some (tpl_put context), mi_enter = Some (tpl_enter context),
      mi_next = Some tpl_next, mi_leave = Some tpl_leave, mi_partial = None, mi_emit = None,
      mi_get = None, mi_stop = None\<rparr>"

text \<open>The interface as \<open>fmustach\<close> wraps it.\<close>

definition tpl_wrap :: "'p ctx \<Rightarrow> plug list iwrap" where
  "tpl_wrap context =
     \<lparr>emit = iwrap_emit, put = tpl_put context, enter = tpl_enter context, next_item = tpl_next,
      leave = tpl_leave, partial = iwrap_partial (tpl_put context)\<rparr>"

definition tpl_start :: "string \<Rightarrow> plug list mstate" where
  "tpl_start tpl = \<lparr>template = tpl, opstr = ''{{'', clstr = ''}}'', stack = [], enabled = True,
     out = [], clo = []\<rparr>"

lemma fmustach_template:
  "fmustach n tpl (template_itf context) [] =
     map_option (\<lambda>(rc, st). (rc, out st, clo st)) (process n (tpl_wrap context) (tpl_start tpl))"
  by (cases "process n (tpl_wrap context) (tpl_start tpl)")
     (auto simp: fmustach_def template_itf_def tpl_wrap_def tpl_start_def Let_def)

section \<open>Processing a template file\<close>

text \<open>
  Turns enough for every template without delimiter or partial tags: see
  \<open>template_fuel_enough\<close> below. \<open>NO_RETURN\<close> stands for a run that does not return.
\<close>

definition template_fuel :: "'p ctx \<Rightarrow> string \<Rightarrow> nat" where
  "template_fuel context tpl =
     (let L = Suc (length tpl); K = Suc (length (plugset context)) in (L * K + K) * L + L)"

abbreviation (input) NO_RETURN :: int where "NO_RETURN \<equiv> -9999"

text \<open>
  The text goes to the stream opened on \<open>dest\<close>, and to the file when the stream is closed;
  a failure there is only reported.
\<close>

definition template_process ::
  "string \<Rightarrow> string \<Rightarrow> 'p ctx \<Rightarrow> 'z wstate \<Rightarrow> int \<times> 'z wstate" where
  "template_process template_path dest context w =
     (case read_file template_path w of
        (None, w1) \<Rightarrow> (- EINVAL, w1)
      | (Some tpl, w1) \<Rightarrow>
          (case sys_creat False dest w1 of (rc, w2) \<Rightarrow>
             if rc < 0 then (- EINVAL, w2)
             else case fmustach (template_fuel context tpl) tpl (template_itf context) [] of
               None \<Rightarrow> (NO_RETURN, w2)
             | Some (rc, text, _) \<Rightarrow>
                 (case pop_fault w2 of (e, w3) \<Rightarrow>
                    (rc, if e > 0 then w3 else sys_append dest text w3))))"

section \<open>Every run returns\<close>

text \<open>
  A plugs section is only entered when no plug is presented; the sections that loop are
  those opened since (\<open>since\<close>), and leaving any entered section forgets the plug. \<open>S\<close> is
  the length of the template after the last plugs section entered: it only decreases.
\<close>

definition since :: "nat \<Rightarrow> plug list mstate \<Rightarrow> bool" where
  "since S st \<longleftrightarrow> length (template st) \<le> S \<and>
     (clo st \<noteq> [] \<longrightarrow> (\<exists>us fs f. stack st = us @ f # fs \<and> fr_entered f \<and> fr_enabled f
        \<and> (\<forall>g \<in> set (us @ [f]). length (fr_again g) \<le> S)))"

definition default_delims :: "'c mstate \<Rightarrow> bool" where
  "default_delims st \<longleftrightarrow> opstr st = ''{{'' \<and> clstr st = ''}}''"

definition turn_rank :: "nat \<Rightarrow> nat \<Rightarrow> nat \<Rightarrow> plug list mstate \<Rightarrow> nat" where
  "turn_rank L K S st = (S * K + length (clo st)) * L + length (template st)"

text \<open>No tag of the template changes the delimiters or asks for a partial.\<close>

definition plain_template :: "string \<Rightarrow> bool" where
  "plain_template tpl \<longleftrightarrow>
     \<not> (\<exists>a b. tpl = a @ ''{{='' @ b) \<and> \<not> (\<exists>a b. tpl = a @ ''{{>'' @ b)"

text \<open>
  A partial is the text of a name, processed in turn. No identifier opens a tag: partials are
  then plain texts.
\<close>

definition flat_texts :: "'p ctx \<Rightarrow> bool" where
  "flat_texts context \<longleftrightarrow>
     strstr (context_id context) ''{{'' = None \<and> (\<forall>p \<in> set (plugset context). strstr (impid p) ''{{'' = None)"

definition tame :: "'p ctx \<Rightarrow> string \<Rightarrow> bool" where
  "tame context tpl \<longleftrightarrow>
     \<not> (\<exists>a b. tpl = a @ ''{{='' @ b) \<and> (\<not> (\<exists>a b. tpl = a @ ''{{>'' @ b) \<or> flat_texts context)"

lemma plain_tame: "plain_template tpl \<Longrightarrow> tame context tpl"
  by (simp add: plain_template_def tame_def)

lemma strstr_underscored: "strstr (underscored s) ''{{'' = None \<longleftrightarrow> strstr s ''{{'' = None"
proof (induction s)
  case (Cons c s)
  have "prefix ''{{'' (underscored (c # s)) = prefix ''{{'' (c # s)"
    by (cases s) (auto simp: underscored_def)
  then show ?case using Cons by (auto simp: underscored_def split: option.split prod.split)
qed (simp add: underscored_def)

lemma flat_put:
  assumes "flat_texts context" "set plugs \<subseteq> set (plugset context)"
  shows "strstr (fst (snd (tpl_put context name e plugs))) ''{{'' = None"
proof -
  have "strstr (impid (hd plugs)) ''{{'' = None" if "plugs \<noteq> []"
    using assms hd_in_set[OF that] by (auto simp: flat_texts_def)
  moreover have "strstr (context_id context) ''{{'' = None" using assms(1) by (simp add: flat_texts_def)
  ultimately show ?thesis by (simp add: tpl_put_def Let_def strstr_underscored)
qed

lemma enter_plugs:
  "tpl_enter context name plugs = (rc, c) \<Longrightarrow> set plugs \<subseteq> set (plugset context) \<Longrightarrow> set c \<subseteq> set (plugset context)"
  by (auto simp: tpl_enter_def split: if_splits)

lemma set_tl_subset: "set xs \<subseteq> A \<Longrightarrow> set (tl xs) \<subseteq> A"
  by (cases xs) auto

lemma strstr_append: "strstr s pat = Some (a, b) \<Longrightarrow> s = a @ b \<and> prefix pat b"
proof (induction s pat arbitrary: a b rule: strstr.induct)
  case (2 c s pat)
  then show ?case by (auto split: if_splits option.splits prod.splits)
qed (auto split: if_splits)

lemma lex_default:
  assumes "prefix ''}}'' term"
  shows "lex_tag cnt term ''}}'' \<noteq> LexUndefined"
    and "lex_tag cnt term ''}}'' = Lexed k name rest \<Longrightarrow> length rest < length term"
    and "lex_tag cnt term ''}}'' = Lexed k name rest \<Longrightarrow>
      k = CHR ''='' \<or> k = CHR ''>'' \<Longrightarrow> cnt \<noteq> [] \<and> hd cnt = k"
proof -
  obtain t where t: "term = ''}}'' @ t" using assms by (auto simp: prefix_def)
  have hd: "hd (cnt @ term) = (if cnt = [] then CHR ''}'' else hd cnt)" by (simp add: t hd_append)
  show "lex_tag cnt term ''}}'' \<noteq> LexUndefined"
    unfolding lex_tag_def hd by (auto simp: Let_def split: sum.splits if_splits)
  show "length rest < length term" if "lex_tag cnt term ''}}'' = Lexed k name rest"
    using that unfolding lex_tag_def by (auto simp: Let_def t split: sum.splits if_splits)
  show "cnt \<noteq> [] \<and> hd cnt = k"
    if "lex_tag cnt term ''}}'' = Lexed k name rest" "k = CHR ''='' \<or> k = CHR ''>''"
    using that unfolding lex_tag_def hd by (auto simp: Let_def split: sum.splits if_splits)
qed

lemma lex_default_suffix:
  assumes "prefix ''}}'' term" "lex_tag cnt term ''}}'' = Lexed k name rest"
  shows "\<exists>d. term = d @ rest"
proof -
  obtain t where t: "term = ''}}'' @ t" using assms by (auto simp: prefix_def)
  have "rest = t \<or> rest = drop 1 t"
    using assms(2) unfolding lex_tag_def t by (auto simp: Let_def split: sum.splits if_splits)
  then show ?thesis by (metis append.assoc append_take_drop_id t)
qed

definition tame_state :: "'p ctx \<Rightarrow> plug list mstate \<Rightarrow> bool" where
  "tame_state context st \<longleftrightarrow> default_delims st \<and> tame context (template st)
     \<and> (\<forall>f \<in> set (stack st). tame context (fr_again f)) \<and> set (clo st) \<subseteq> set (plugset context)"

definition short_state :: "nat \<Rightarrow> 'c mstate \<Rightarrow> bool" where
  "short_state L st \<longleftrightarrow> length (template st) < L \<and> (\<forall>f \<in> set (stack st). length (fr_again f) < L)"

lemma tame_suffix: "tame context (x @ y) \<Longrightarrow> tame context y"
  unfolding tame_def by (metis append.assoc)

text \<open>A turn that goes on is a tag after the text, and the rest of the template.\<close>

lemma process_turn_tag:
  assumes "default_delims st"
  obtains (stop) rc st' where "process_turn (tpl_wrap context) st = Return rc st'"
  | (tag) k name rest o' d where
      "process_turn (tpl_wrap context) st =
         do_tag (tpl_wrap context) k name (st\<lparr>template := rest, out := o'\<rparr>)"
      "template st = d @ rest" "d \<noteq> []"
      "k = CHR ''='' \<or> k = CHR ''>'' \<and> \<not> flat_texts context \<Longrightarrow> \<not> tame context (template st)"
proof -
  have em: "emit_text (tpl_wrap context) t st = (0, st\<lparr>out := (if enabled st then out st @ t else out st)\<rparr>)" for t
    by (auto simp: emit_text_def tpl_wrap_def iwrap_emit_def)
  have de: "opstr st = ''{{''" "clstr st = ''}}''" using assms by (auto simp: default_delims_def)
  show ?thesis
  proof (cases "strstr (template st) ''{{''")
    case None
    then show ?thesis by (intro stop) (simp add: process_turn_def de em)
  next
    case (Some tb)
    obtain t b where tb: "tb = (t, b)" by fastforce
    have 1: "template st = t @ b" "prefix ''{{'' b" using strstr_append Some tb by auto
    then obtain b' where b: "b = ''{{'' @ b'" by (auto simp: prefix_def)
    show ?thesis
    proof (cases "strstr b' ''}}''")
      case None
      then show ?thesis using Some tb b by (intro stop) (simp add: process_turn_def de em)
    next
      case (Some ct)
      obtain cnt trm where ct: "ct = (cnt, trm)" by fastforce
      have 2: "b' = cnt @ trm" "prefix ''}}'' trm" using strstr_append Some ct by auto
      show ?thesis
      proof (cases "lex_tag cnt trm ''}}''")
        case (LexError e)
        then show ?thesis
          using \<open>strstr (template st) ''{{'' = Some tb\<close> Some tb ct b
          by (intro stop) (simp add: process_turn_def de em)
      next
        case LexUndefined
        then show ?thesis using lex_default(1)[OF 2(2)] by simp
      next
        case (Lexed k name rest)
        obtain d where d: "trm = d @ rest" using lex_default_suffix[OF 2(2) Lexed] by blast
        let ?o = "if enabled st then out st @ t else out st"
        have "process_turn (tpl_wrap context) st =
            do_tag (tpl_wrap context) k name (st\<lparr>out := ?o, template := rest\<rparr>)"
          using \<open>strstr (template st) ''{{'' = Some tb\<close> Some tb ct b Lexed
          by (simp add: process_turn_def de em)
        moreover have "st\<lparr>out := ?o, template := rest\<rparr> = st\<lparr>template := rest, out := ?o\<rparr>" by simp
        ultimately have run: "process_turn (tpl_wrap context) st =
            do_tag (tpl_wrap context) k name (st\<lparr>template := rest, out := ?o\<rparr>)" by simp
        have s: "template st = (t @ ''{{'' @ cnt @ d) @ rest" using 1 b 2 d by simp
        have np: "\<not> tame context (template st)" if "k = CHR ''='' \<or> k = CHR ''>'' \<and> \<not> flat_texts context"
        proof -
          have "cnt \<noteq> [] \<and> hd cnt = k" using lex_default(3)[OF 2(2) Lexed] that by blast
          then obtain u where "cnt = k # u" by (cases cnt) auto
          then have "template st = t @ ''{{'' @ k # (u @ trm)" using 1 b 2 by simp
          then show ?thesis using that unfolding tame_def by auto
        qed
        show ?thesis by (rule tag[OF run s _ np]) auto
      qed
    qed
  qed
qed

definition turn_inv :: "'p ctx \<Rightarrow> nat \<Rightarrow> nat \<Rightarrow> nat \<Rightarrow> plug list mstate \<Rightarrow> bool" where
  "turn_inv context L K S st \<longleftrightarrow> tame_state context st \<and> short_state L st \<and> since S st \<and> length (clo st) < K"

lemma rank_forward:
  "length (template st') < length (template st) \<Longrightarrow> length (clo st') \<le> length (clo st) \<Longrightarrow>
   turn_rank L K S st' < turn_rank L K S st"
  unfolding turn_rank_def by (metis add_le_less_mono add_le_mono le_refl mult_le_mono1)

lemma rank_down:
  "S' * K + length (clo st') < S * K + length (clo st) \<Longrightarrow> length (template st') < L \<Longrightarrow>
   turn_rank L K S' st' < turn_rank L K S st"
proof -
  assume a: "S' * K + length (clo st') < S * K + length (clo st)" "length (template st') < L"
  then have "(S' * K + length (clo st') + 1) * L \<le> (S * K + length (clo st)) * L"
    by (intro mult_le_mono1) simp
  then show ?thesis using a(2) by (simp add: turn_rank_def algebra_simps)
qed

lemma end_section_down:
  assumes "turn_inv context L K S st" "template st = d @ rest" "d \<noteq> []"
    "end_section (tpl_wrap context) name (st\<lparr>template := rest, out := o'\<rparr>) = Go st'"
  shows "turn_inv context L K S st' \<and> turn_rank L K S st' < turn_rank L K S st"
proof -
  let ?st = "st\<lparr>template := rest, out := o'\<rparr>"
  obtain f fs where st: "stack st = f # fs" and nm: "name = fr_name f"
    using assms(4) by (cases "stack st") (auto simp: end_section_def split: if_splits)
  have sh: "length rest < length (template st)" using assms(2,3) by (cases d) auto
  have pl: "tame context rest" using assms(1,2) tame_suffix by (auto simp: turn_inv_def tame_state_def)
  have kept: "since S (?st\<lparr>stack := fs, enabled := e, clo := c\<rparr>)"
    if "c = [] \<or> c = clo st \<and> \<not> (fr_enabled f \<and> fr_entered f)" for c e
  proof (cases "c = []")
    case True
    then show ?thesis using assms(1) sh by (auto simp: turn_inv_def since_def)
  next
    case False
    then have c: "clo st \<noteq> []" "c = clo st" "\<not> (fr_enabled f \<and> fr_entered f)" using that by auto
    then obtain us g gs where g: "stack st = us @ g # gs" "fr_entered g" "fr_enabled g"
      "\<forall>h \<in> set (us @ [g]). length (fr_again h) \<le> S"
      using assms(1) by (auto simp: turn_inv_def since_def)
    then obtain us' where "us = f # us'" using st c(3) by (cases us) auto
    then have "fs = us' @ g # gs" "\<forall>h \<in> set (us' @ [g]). length (fr_again h) \<le> S" using g st by auto
    moreover have "length rest \<le> S" using assms(1) sh by (simp add: turn_inv_def since_def)
    ultimately show ?thesis
      unfolding since_def
      by (intro conjI impI exI[of _ us'] exI[of _ gs] exI[of _ g]) (use g in auto)
  qed
  show ?thesis
  proof (cases "enabled st \<and> fr_entered f \<and> tl (clo st) \<noteq> []")
    case True
    then have st': "st' = ?st\<lparr>clo := tl (clo st), template := fr_again f\<rparr>"
      using assms(4) nm by (simp add: end_section_def st tpl_wrap_def tpl_next_def Let_def)
    have ne: "clo st \<noteq> []" using True by auto
    then obtain us g gs where g: "stack st = us @ g # gs" "fr_entered g" "fr_enabled g"
      "\<forall>h \<in> set (us @ [g]). length (fr_again h) \<le> S"
      using assms(1) by (auto simp: turn_inv_def since_def)
    have "f \<in> set (us @ [g])" using g(1) st by (cases us) auto
    then have fS: "length (fr_again f) \<le> S" using g(4) by blast
    then have "since S st'" using g by (auto simp: since_def st')
    moreover have "tame_state context st'" "short_state L st'"
      using assms(1) st set_tl_subset[of "clo st"]
      by (auto simp: st' turn_inv_def tame_state_def short_state_def default_delims_def)
    moreover have "length (clo st') < length (clo st)" using ne by (cases "clo st") (auto simp: st')
    ultimately show ?thesis
      using assms(1) rank_down[of S K st' S st L] by (auto simp: turn_inv_def short_state_def)
  next
    case False
    define c1 where "c1 = (if enabled st \<and> fr_entered f then tl (clo st) else clo st)"
    have c1: "(if enabled st \<and> fr_entered f then tpl_next (clo st) else (0, clo st)) = (0, c1)"
      using False by (auto simp: tpl_next_def Let_def c1_def)
    let ?c = "if fr_enabled f \<and> fr_entered f then [] else c1"
    have c: "?c = [] \<or> ?c = clo st \<and> \<not> (fr_enabled f \<and> fr_entered f)"
      using c1 False by (auto simp: tpl_next_def Let_def split: if_splits)
    have st': "st' = ?st\<lparr>stack := fs, enabled := fr_enabled f, clo := ?c\<rparr>"
      using assms(4) nm c1
      by (auto simp: end_section_def st tpl_wrap_def tpl_leave_def Let_def split: if_splits)
    have "since S st'" unfolding st' by (rule kept[OF c])
    moreover have "set ?c \<subseteq> set (plugset context)"
      using assms(1) set_tl_subset[of "clo st"] by (simp add: turn_inv_def tame_state_def c1_def)
    then have "tame_state context st'" "short_state L st'"
      using assms(1) st pl sh
      by (auto simp: st' turn_inv_def tame_state_def short_state_def default_delims_def)
    moreover have "length (clo st') \<le> length (clo st)" using c by (auto simp: st')
    moreover have "length (template st') < length (template st)" using sh by (simp add: st')
    ultimately show ?thesis
      using assms(1) rank_forward[of st' st] by (auto simp: turn_inv_def)
  qed
qed

lemma begin_section_down:
  assumes "turn_inv context L K S st" "template st = d @ rest" "d \<noteq> []" "K = Suc (length (plugset context))"
    "begin_section (tpl_wrap context) k name (st\<lparr>template := rest, out := o'\<rparr>) = Go st'"
  shows "\<exists>S'. turn_inv context L K S' st' \<and> turn_rank L K S' st' < turn_rank L K S st"
proof -
  let ?st = "st\<lparr>template := rest, out := o'\<rparr>"
  have sh: "length rest < length (template st)" using assms(2,3) by (cases d) auto
  have pl: "tame context rest" using assms(1,2) tame_suffix by (auto simp: turn_inv_def tame_state_def)
  obtain rc c where e: "(if enabled st then tpl_enter context name (clo st) else (0, clo st)) = (rc, c)"
    by fastforce
  let ?f = "\<lparr>fr_name = name, fr_again = rest, fr_enabled = enabled st, fr_entered = rc \<noteq> 0\<rparr>"
  obtain en where st': "st' = ?st\<lparr>clo := c, stack := ?f # stack st, enabled := en\<rparr>"
    using assms(5) e
    by (auto simp: begin_section_def tpl_wrap_def Let_def split: if_splits)
  have "set (clo st) \<subseteq> set (plugset context)" using assms(1) by (simp add: turn_inv_def tame_state_def)
  then have "set c \<subseteq> set (plugset context)" using e enter_plugs[of "context" name "clo st" rc c] by (simp split: if_splits)
  then have ps: "tame_state context st'" "short_state L st'"
    using assms(1) pl sh
    by (auto simp: st' turn_inv_def tame_state_def short_state_def default_delims_def)
  show ?thesis
  proof (cases "clo st = [] \<and> c \<noteq> []")
    case True
    then have c: "c = plugset context" "rc = 1" "enabled st"
      using e by (auto simp: tpl_enter_def split: if_splits)
    have "since (length rest) st'"
      unfolding since_def
      by (intro conjI impI exI[of _ "[]"] exI[of _ "stack st"] exI[of _ ?f]) (auto simp: st' c)
    moreover have "Suc (length rest) \<le> S" using assms(1) sh by (simp add: turn_inv_def since_def)
    then have "Suc (length rest) * K \<le> S * K" by (rule mult_le_mono1)
    then have "length rest * K + length (clo st') < S * K + length (clo st)"
      using assms(4) by (simp add: st' c)
    ultimately show ?thesis
      using ps rank_down[of "length rest" K st' S st L] assms(4)
      by (intro exI[of _ "length rest"]) (auto simp: turn_inv_def short_state_def st' c)
  next
    case False
    then have c: "c = clo st" using e by (auto simp: tpl_enter_def split: if_splits)
    have "since S st'"
    proof (cases "clo st = []")
      case True
      then show ?thesis using assms(1) sh by (auto simp: since_def st' c turn_inv_def)
    next
      case ne: False
      then obtain us g gs where g: "stack st = us @ g # gs" "fr_entered g" "fr_enabled g"
        "\<forall>h \<in> set (us @ [g]). length (fr_again h) \<le> S"
        using assms(1) by (auto simp: turn_inv_def since_def)
      have l: "length rest \<le> S" using assms(1) sh by (simp add: turn_inv_def since_def)
      show ?thesis
        unfolding since_def
        by (intro conjI impI exI[of _ "?f # us"] exI[of _ gs] exI[of _ g]) (use g l in \<open>auto simp: st'\<close>)
    qed
    moreover have "turn_rank L K S st' < turn_rank L K S st"
      using rank_forward[of st' st] sh by (simp add: st' c)
    ultimately show ?thesis using ps assms(1) by (intro exI[of _ S]) (auto simp: turn_inv_def st' c)
  qed
qed

lemma tag_down:
  assumes "turn_inv context L K S st" "template st = d @ rest" "d \<noteq> []" "K = Suc (length (plugset context))"
    "k \<noteq> CHR ''=''" "k = CHR ''>'' \<longrightarrow> flat_texts context"
    and t_def: "t = do_tag (tpl_wrap context) k name (st\<lparr>template := rest, out := o'\<rparr>)"
  shows "(\<exists>rc st'. t = Return rc st')
    \<or> (\<exists>st' S'. t = Go st' \<and> turn_inv context L K S' st' \<and> turn_rank L K S' st' < turn_rank L K S st)
    \<or> (\<exists>sub st'. t = Sub sub st' \<and> strstr sub ''{{'' = None \<and> default_delims st'
         \<and> (\<forall>x. turn_inv context L K S (st'\<lparr>out := x\<rparr>) \<and> turn_rank L K S (st'\<lparr>out := x\<rparr>) < turn_rank L K S st))"
proof -
  let ?st = "st\<lparr>template := rest, out := o'\<rparr>"
  have sh: "length rest < length (template st)" using assms(2,3) by (cases d) auto
  have pl: "tame context rest" using assms(1,2) tame_suffix by (auto simp: turn_inv_def tame_state_def)
  have on: "turn_inv context L K S (?st\<lparr>out := x\<rparr>) \<and> turn_rank L K S (?st\<lparr>out := x\<rparr>) < turn_rank L K S st" for x
    using assms(1) sh pl rank_forward[of "?st\<lparr>out := x\<rparr>" st]
    by (auto simp: turn_inv_def tame_state_def short_state_def since_def default_delims_def)
  have on': "turn_inv context L K S ?st \<and> turn_rank L K S ?st < turn_rank L K S st" using on[of o'] by simp
  have pt: "put (tpl_wrap context) name e c = (0, fst (snd (tpl_put context name e c)), c)" for e c
    by (simp add: tpl_wrap_def tpl_put_def Let_def split: prod.splits)
  consider (bs) "k = CHR ''^'' \<or> k = CHR ''#''" | (es) "k = CHR ''/''" | (pa) "k = CHR ''>''"
    | (other) "k \<noteq> CHR ''^''" "k \<noteq> CHR ''#''" "k \<noteq> CHR ''/''" "k \<noteq> CHR ''>''" by blast
  then show ?thesis
  proof cases
    case bs
    then have t: "t = begin_section (tpl_wrap context) k name ?st" by (auto simp: t_def do_tag_def)
    show ?thesis
    proof (cases "begin_section (tpl_wrap context) k name ?st")
      case (Go st')
      then show ?thesis using begin_section_down[OF assms(1-4) Go] t by auto
    qed (auto simp: t begin_section_def Let_def split: if_splits prod.splits)
  next
    case es
    then have t: "t = end_section (tpl_wrap context) name ?st" by (auto simp: t_def do_tag_def)
    show ?thesis
    proof (cases "end_section (tpl_wrap context) name ?st")
      case (Go st')
      then show ?thesis using end_section_down[OF assms(1-3) Go] t by auto
    qed (auto simp: t end_section_def Let_def split: if_splits prod.splits list.splits)
  next
    case pa
    let ?sub = "fst (snd (tpl_put context name False (clo st)))"
    have fl: "flat_texts context" "set (clo st) \<subseteq> set (plugset context)"
      using assms(1,6) pa by (auto simp: turn_inv_def tame_state_def)
    have "t = (if enabled st then Sub ?sub ?st else Go ?st)"
      using pa by (simp add: t_def do_tag_def) (simp add: tpl_wrap_def iwrap_partial_def tpl_put_def Let_def split: prod.splits)
    moreover have "default_delims ?st" using assms(1) by (simp add: turn_inv_def tame_state_def default_delims_def)
    moreover have "\<forall>x. turn_inv context L K S (?st\<lparr>out := x\<rparr>) \<and> turn_rank L K S (?st\<lparr>out := x\<rparr>) < turn_rank L K S st"
      using on by blast
    ultimately show ?thesis using on' flat_put[OF fl, of name False] by (cases "enabled st") metis+
  next
    case other
    show ?thesis
    proof (cases "k \<noteq> CHR ''!'' \<and> enabled st")
      case True
      then have "t = Go (?st\<lparr>out := o' @ fst (snd (tpl_put context name (k \<noteq> CHR ''&'') (clo st)))\<rparr>)"
        using other assms(5) by (simp add: t_def do_tag_def pt)
      then show ?thesis using on by blast
    next
      case False
      then have "t = Go ?st" using other assms(5) by (auto simp: t_def do_tag_def)
      then show ?thesis using on' by blast
    qed
  qed
qed

text \<open>A text that opens no tag is emitted in one turn.\<close>

lemma process_flat:
  assumes "default_delims st" "strstr sub ''{{'' = None"
  shows "\<exists>x. process (Suc n) (tpl_wrap context) (st\<lparr>template := sub, stack := [], enabled := True\<rparr>) =
    Some (0, st\<lparr>template := sub, stack := [], enabled := True, out := x\<rparr>)"
  using assms
  by (intro exI[of _ "out st @ sub"])
     (simp add: process_turn_def default_delims_def emit_text_def tpl_wrap_def iwrap_emit_def)

lemma process_returns:
  assumes "K = Suc (length (plugset context))" "turn_inv context L K S st" "turn_rank L K S st < n"
  shows "process n (tpl_wrap context) st \<noteq> None"
  using assms(2,3)
proof (induction n arbitrary: S st)
  case (Suc n)
  have de: "default_delims st" "tame context (template st)"
    using Suc.prems(1) by (auto simp: turn_inv_def tame_state_def)
  show ?case
  proof (rule process_turn_tag[OF de(1), of "context"])
    fix rc st'
    assume "process_turn (tpl_wrap context) st = Return rc st'"
    then show ?thesis by simp
  next
    fix k name rest o' d
    assume tag: "process_turn (tpl_wrap context) st =
        do_tag (tpl_wrap context) k name (st\<lparr>template := rest, out := o'\<rparr>)"
      "template st = d @ rest" "d \<noteq> []"
      "k = CHR ''='' \<or> k = CHR ''>'' \<and> \<not> flat_texts context \<Longrightarrow> \<not> tame context (template st)"
    have "k \<noteq> CHR ''=''" "k = CHR ''>'' \<longrightarrow> flat_texts context" using tag(4) de(2) by auto
    from tag_down[OF Suc.prems(1) tag(2,3) assms(1) this refl, of name o']
    show ?thesis
    proof (elim disjE exE conjE)
      fix st' S'
      assume g: "do_tag (tpl_wrap context) k name (st\<lparr>template := rest, out := o'\<rparr>) = Go st'"
        "turn_inv context L K S' st'" "turn_rank L K S' st' < turn_rank L K S st"
      have "process n (tpl_wrap context) st' \<noteq> None" using Suc.IH[OF g(2)] g(3) Suc.prems(2) by simp
      then show ?thesis using tag(1) g(1) by simp
    next
      fix sub st'
      assume g: "do_tag (tpl_wrap context) k name (st\<lparr>template := rest, out := o'\<rparr>) = Sub sub st'"
        "strstr sub ''{{'' = None" "default_delims st'"
        "\<forall>x. turn_inv context L K S (st'\<lparr>out := x\<rparr>) \<and> turn_rank L K S (st'\<lparr>out := x\<rparr>) < turn_rank L K S st"
      then obtain m where m: "n = Suc m" using Suc.prems(2) by (cases n) auto
      obtain x where x: "process n (tpl_wrap context) (st'\<lparr>template := sub, stack := [], enabled := True\<rparr>) =
          Some (0, st'\<lparr>template := sub, stack := [], enabled := True, out := x\<rparr>)"
        using process_flat[OF g(3,2), of m "context"] unfolding m by blast
      have "turn_inv context L K S (st'\<lparr>out := x\<rparr>)" "turn_rank L K S (st'\<lparr>out := x\<rparr>) < n"
        using g(4)[rule_format, of x] Suc.prems(2) by auto
      then have "process n (tpl_wrap context) (st'\<lparr>out := x\<rparr>) \<noteq> None" by (rule Suc.IH)
      then show ?thesis using tag(1) g(1) x by (simp add: Let_def)
    qed (use tag(1) in simp)
  qed
qed simp

lemma template_fuel_enough:
  assumes "tame context tpl"
  shows "fmustach (template_fuel context tpl) tpl (template_itf context) [] \<noteq> None"
proof -
  let ?L = "Suc (length tpl)" and ?K = "Suc (length (plugset context))" and ?st = "tpl_start tpl"
  have "turn_inv context ?L ?K (length tpl) ?st"
    using assms by (auto simp: turn_inv_def tame_state_def short_state_def since_def tpl_start_def
        default_delims_def)
  moreover have "turn_rank ?L ?K (length tpl) ?st < template_fuel context tpl"
  proof -
    have "length tpl * ?K \<le> ?L * ?K + ?K" by simp
    then have "length tpl * ?K * ?L \<le> (?L * ?K + ?K) * ?L" by (rule mult_le_mono1)
    then have "length tpl * ?K * ?L + length tpl < (?L * ?K + ?K) * ?L + ?L" by linarith
    then show ?thesis unfolding turn_rank_def template_fuel_def tpl_start_def Let_def by simp
  qed
  ultimately have "process (template_fuel context tpl) (tpl_wrap context) ?st \<noteq> None"
    by (intro process_returns[OF refl])
  then show ?thesis by (simp add: fmustach_template)
qed

end
