(* ===== verification/Template_Render.thy ===== *)
theory Template_Render
  imports Template
begin

text \<open>
  What the processing of a template means: for templates made of text, replacements and
  sections without nesting (the shape of the Smack template), the result is the direct
  rendering of their structure, one copy of a plugs section for each plug.
\<close>

section \<open>Structured templates\<close>

datatype item = Text string | Var string
datatype node = Item item | Section string "item list"

fun show_item :: "item \<Rightarrow> string" where
  "show_item (Text t) = t"
| "show_item (Var n) = ''{{'' @ n @ ''}}''"

definition show_items :: "item list \<Rightarrow> string" where
  "show_items is = concat (map show_item is)"

fun show_node :: "node \<Rightarrow> string" where
  "show_node (Item i) = show_item i"
| "show_node (Section n is) = ''{{#'' @ n @ ''}}'' @ show_items is @ ''{{/'' @ n @ ''}}''"

definition show_template :: "node list \<Rightarrow> string" where
  "show_template ns = concat (map show_node ns)"

fun ok_item :: "item \<Rightarrow> bool" where
  "ok_item (Text t) \<longleftrightarrow> CHR ''{'' \<notin> set t"
| "ok_item (Var n) \<longleftrightarrow> n \<noteq> [] \<and> length n \<le> MUSTACH_MAX_LENGTH \<and> CHR ''}'' \<notin> set n
     \<and> list_all (\<lambda>c. \<not> is_space c) n
     \<and> hd n \<notin> {CHR ''!'', CHR ''='', CHR ''{'', CHR ''^'', CHR ''#'', CHR ''/'', CHR ''&'', CHR ''>'', CHR '':''}"

definition ok_name :: "string \<Rightarrow> bool" where
  "ok_name n \<longleftrightarrow> n \<noteq> [] \<and> length n \<le> MUSTACH_MAX_LENGTH \<and> CHR ''}'' \<notin> set n \<and> list_all (\<lambda>c. \<not> is_space c) n"

fun ok_node :: "node \<Rightarrow> bool" where
  "ok_node (Item i) = ok_item i"
| "ok_node (Section n is) \<longleftrightarrow> ok_name n \<and> list_all ok_item is"

section \<open>Rendering\<close>

text \<open>The value of a name, \<open>plugs\<close> being the plugs from the one presented.\<close>

definition value_of :: "'p ctx \<Rightarrow> plug list \<Rightarrow> string \<Rightarrow> string" where
  "value_of context plugs n = fst (snd (tpl_put context n True plugs))"

fun render_item :: "'p ctx \<Rightarrow> plug list \<Rightarrow> item \<Rightarrow> string" where
  "render_item context plugs (Text t) = t"
| "render_item context plugs (Var n) = value_of context plugs n"

definition render_items :: "'p ctx \<Rightarrow> plug list \<Rightarrow> item list \<Rightarrow> string" where
  "render_items context plugs is = concat (map (render_item context plugs) is)"

fun render_each :: "'p ctx \<Rightarrow> plug list \<Rightarrow> item list \<Rightarrow> string" where
  "render_each context [] is = []"
| "render_each context (p # ps) is = render_items context (p # ps) is @ render_each context ps is"

definition shown_once :: "'p ctx \<Rightarrow> string \<Rightarrow> bool" where
  "shown_once context n \<longleftrightarrow>
     (if rd n 0 = CHR ''p'' \<and> rd n 1 = CHR ''='' then context_has_permission context (drop 2 n)
      else n = ''has-plugs'' \<and> plugset context \<noteq> [])"

fun render_node :: "'p ctx \<Rightarrow> node \<Rightarrow> string" where
  "render_node context (Item i) = render_item context [] i"
| "render_node context (Section n is) =
     (if n = ''plugs'' then render_each context (plugset context) is
      else if shown_once context n then render_items context [] is else [])"

definition render :: "'p ctx \<Rightarrow> node list \<Rightarrow> string" where
  "render context ns = concat (map (render_node context) ns)"

section \<open>The turns of the processor\<close>

definition res :: "nat \<Rightarrow> 'p ctx \<Rightarrow> plug list mstate \<Rightarrow> (int \<times> string \<times> plug list) option" where
  "res n context st =
     map_option (\<lambda>(rc, s). (rc, out s, clo s)) (process n (tpl_wrap context) st)"

definition leads :: "'p ctx \<Rightarrow> plug list mstate \<Rightarrow> plug list mstate \<Rightarrow> bool" where
  "leads context st st' \<longleftrightarrow> (\<exists>k. \<forall>n. res (n + k) context st = res n context st')"

lemma leads_refl: "leads context st st"
  unfolding leads_def by (rule exI[of _ 0]) simp

lemma leads_trans: "leads context a b \<Longrightarrow> leads context b c \<Longrightarrow> leads context a c"
proof -
  assume "leads context a b" "leads context b c"
  then obtain k l where "\<forall>n. res (n + k) context a = res n context b"
    "\<forall>n. res (n + l) context b = res n context c" by (auto simp: leads_def)
  then have "res (n + (l + k)) context a = res n context c" for n by (metis add.assoc)
  then show ?thesis unfolding leads_def by blast
qed

lemma leads_turn: "process_turn (tpl_wrap context) a = Go b \<Longrightarrow> leads context a b"
  unfolding leads_def by (rule exI[of _ 1]) (simp add: res_def)

text \<open>A state of the loop with the default delimiters.\<close>

definition mst :: "string \<Rightarrow> frame list \<Rightarrow> bool \<Rightarrow> string \<Rightarrow> plug list \<Rightarrow> plug list mstate" where
  "mst tpl stk en o' c = \<lparr>template = tpl, opstr = ''{{'', clstr = ''}}'', stack = stk, enabled = en,
     out = o', clo = c\<rparr>"

lemma strstr_open_skip:
  "CHR ''{'' \<notin> set t \<Longrightarrow> strstr (t @ s) ''{{'' = map_option (\<lambda>(a, b). (t @ a, b)) (strstr s ''{{'')"
proof (induction t)
  case Nil
  then show ?case by (cases "strstr s ''{{''") auto
next
  case (Cons c t)
  then show ?case by (cases "strstr s ''{{''") auto
qed

lemma strstr_here: "strstr (CHR ''{'' # CHR ''{'' # s) ''{{'' = Some ([], CHR ''{'' # CHR ''{'' # s)"
  by simp

lemma strstr_close: "CHR ''}'' \<notin> set n \<Longrightarrow>
   strstr (n @ CHR ''}'' # CHR ''}'' # s) ''}}'' = Some (n, CHR ''}'' # CHR ''}'' # s)"
  by (induction n) auto

lemma emit_wrap [simp]: "emit (tpl_wrap context) t e c = (0, if e then html_escape t else t, c)"
  by (simp add: tpl_wrap_def iwrap_emit_def)

lemma leads_text:
  assumes "CHR ''{'' \<notin> set t"
  shows "leads context (mst (t @ s) stk en o' c) (mst s stk en (if en then o' @ t else o') c)"
proof -
  have "res n context (mst (t @ s) stk en o' c) = res n context (mst s stk en (if en then o' @ t else o') c)" for n
  proof (cases n)
    case (Suc m)
    show ?thesis
    proof (cases "strstr s ''{{''")
      case None
      then have "strstr (t @ s) ''{{'' = None" using strstr_open_skip[OF assms] by simp
      with None show ?thesis
        by (auto simp: Suc res_def process_turn_def mst_def emit_text_def)
    next
      case (Some ab)
      obtain a b where ab: "ab = (a, b)" by fastforce
      have "strstr (t @ s) ''{{'' = Some (t @ a, b)"
        using strstr_open_skip[OF assms] Some ab by simp
      with Some ab show ?thesis
        by (simp add: Suc res_def process_turn_def mst_def emit_text_def
              split: option.splits prod.splits lexed.splits)
    qed
  qed (simp add: res_def)
  then show ?thesis unfolding leads_def by (intro exI[of _ 0]) simp
qed

lemma process_turn_at_tag:
  assumes "CHR ''}'' \<notin> set n" "lex_tag n (CHR ''}'' # CHR ''}'' # s) ''}}'' = Lexed k nm rest"
  shows "process_turn (tpl_wrap context) (mst (''{{'' @ n @ ''}}'' @ s) stk en o' c) =
    do_tag (tpl_wrap context) k nm (mst rest stk en o' c)"
  using assms strstr_close[OF assms(1), of s]
  by (simp add: process_turn_def mst_def emit_text_def)

lemma trim_id: "list_all (\<lambda>c. \<not> is_space c) n \<Longrightarrow> trim n = n"
proof -
  assume a: "list_all (\<lambda>c. \<not> is_space c) n"
  then have "dropWhile is_space n = n" by (cases n) auto
  moreover have "dropWhile is_space (rev n) = rev n"
    using a by (cases n rule: rev_cases) auto
  ultimately show ?thesis by (simp add: trim_def)
qed

lemma lex_var:
  assumes "ok_item (Var n)"
  shows "lex_tag n (CHR ''}'' # CHR ''}'' # s) ''}}'' = Lexed (hd n) n s"
  using assms trim_id[of n] by (simp add: lex_tag_def Let_def)

lemma lex_marked:
  assumes "ok_name n" "k = CHR ''#'' \<or> k = CHR ''/''"
  shows "lex_tag (k # n) (CHR ''}'' # CHR ''}'' # s) ''}}'' = Lexed k n s"
  using assms trim_id[of n] by (auto simp: lex_tag_def Let_def ok_name_def)

lemma put_wrap: "put (tpl_wrap context) n e c = (0, value_of context c n, c)"
  by (simp add: tpl_wrap_def value_of_def tpl_put_def Let_def split: prod.splits)

lemma leads_item:
  assumes "ok_item i"
  shows "leads context (mst (show_item i @ s) stk en o' c)
     (mst s stk en (if en then o' @ render_item context c i else o') c)"
proof (cases i)
  case (Text t)
  then show ?thesis using assms leads_text[of t "context" s stk en o' c] by (cases en) simp_all
next
  case (Var n)
  have k: "hd n \<noteq> CHR ''!''" "hd n \<noteq> CHR ''=''" "hd n \<noteq> CHR ''^''" "hd n \<noteq> CHR ''#''"
    "hd n \<noteq> CHR ''/''" "hd n \<noteq> CHR ''>''" using assms Var by auto
  have "process_turn (tpl_wrap context) (mst (''{{'' @ n @ ''}}'' @ s) stk en o' c) =
      do_tag (tpl_wrap context) (hd n) n (mst s stk en o' c)"
    using assms Var by (intro process_turn_at_tag) (auto simp: lex_var)
  also have "\<dots> = Go (mst s stk en (if en then o' @ value_of context c n else o') c)"
    using k by (simp add: do_tag_def put_wrap mst_def)
  finally have "process_turn (tpl_wrap context) (mst (''{{'' @ n @ ''}}'' @ s) stk en o' c) =
      Go (mst s stk en (if en then o' @ value_of context c n else o') c)" .
  from leads_turn[OF this] show ?thesis by (simp only: Var show_item.simps render_item.simps append_assoc)
qed

lemma leads_items:
  assumes "list_all ok_item is"
  shows "leads context (mst (show_items is @ s) stk en o' c)
     (mst s stk en (if en then o' @ render_items context c is else o') c)"
  using assms
proof (induction "is" arbitrary: o')
  case Nil
  then show ?case by (cases en) (simp_all add: show_items_def render_items_def leads_refl)
next
  case (Cons i js)
  let ?o = "if en then o' @ render_item context c i else o'"
  have "leads context (mst (show_item i @ show_items js @ s) stk en o' c) (mst (show_items js @ s) stk en ?o c)"
    using Cons.prems by (intro leads_item) simp
  moreover have "leads context (mst (show_items js @ s) stk en ?o c)
      (mst s stk en (if en then ?o @ render_items context c js else ?o) c)"
    using Cons by simp
  ultimately have "leads context (mst (show_item i @ show_items js @ s) stk en o' c)
      (mst s stk en (if en then ?o @ render_items context c js else ?o) c)" by (rule leads_trans)
  then show ?case by (cases en) (simp_all add: show_items_def render_items_def)
qed

section \<open>Sections\<close>

lemma leads_open:
  assumes "ok_name n" "tpl_enter context n c = (rc, c')" "0 \<le> rc" "length stk < MUSTACH_MAX_DEPTH"
  shows "leads context (mst (''{{#'' @ n @ ''}}'' @ s) stk True o' c)
    (mst s (\<lparr>fr_name = n, fr_again = s, fr_enabled = True, fr_entered = rc \<noteq> 0\<rparr> # stk) (rc \<noteq> 0) o' c')"
proof -
  have "process_turn (tpl_wrap context) (mst (''{{'' @ (CHR ''#'' # n) @ ''}}'' @ s) stk True o' c) =
      do_tag (tpl_wrap context) (CHR ''#'') n (mst s stk True o' c)"
    using assms by (intro process_turn_at_tag) (auto simp: lex_marked ok_name_def)
  also have "\<dots> = Go (mst s (\<lparr>fr_name = n, fr_again = s, fr_enabled = True, fr_entered = rc \<noteq> 0\<rparr> # stk) (rc \<noteq> 0) o' c')"
    using assms by (auto simp: do_tag_def begin_section_def mst_def tpl_wrap_def)
  finally show ?thesis using leads_turn by simp
qed

lemma leads_close:
  assumes "ok_name n" and f_def: "f = \<lparr>fr_name = n, fr_again = ag, fr_enabled = True, fr_entered = e\<rparr>"
  shows "leads context (mst (''{{/'' @ n @ ''}}'' @ s) (f # stk) e o' c)
    (if e \<and> tl c \<noteq> [] then mst ag (f # stk) e o' (tl c)
     else mst s stk True o' (if e then [] else c))"
proof -
  have "process_turn (tpl_wrap context) (mst (''{{'' @ (CHR ''/'' # n) @ ''}}'' @ s) (f # stk) e o' c) =
      do_tag (tpl_wrap context) (CHR ''/'') n (mst s (f # stk) e o' c)"
    using assms(1) by (intro process_turn_at_tag) (auto simp: lex_marked ok_name_def)
  also have "\<dots> = Go (if e \<and> tl c \<noteq> [] then mst ag (f # stk) e o' (tl c)
     else mst s stk True o' (if e then [] else c))"
    by (auto simp: do_tag_def end_section_def mst_def tpl_wrap_def tpl_next_def tpl_leave_def f_def Let_def)
  finally show ?thesis using leads_turn by (simp only: append_Cons append_Nil)
qed

text \<open>The body of a plugs section, from one plug to the last.\<close>

lemma leads_each:
  assumes "ok_name n" "list_all ok_item is" "c \<noteq> []"
    and ag_def: "ag = show_items is @ ''{{/'' @ n @ ''}}'' @ s"
    and f_def: "f = \<lparr>fr_name = n, fr_again = ag, fr_enabled = True, fr_entered = True\<rparr>"
  shows "leads context (mst ag (f # stk) True o' c) (mst s stk True (o' @ render_each context c is) [])"
  using assms(3)
proof (induction c arbitrary: o')
  case (Cons p c)
  have body: "leads context (mst ag (f # stk) True o' (p # c))
      (mst (''{{/'' @ n @ ''}}'' @ s) (f # stk) True (o' @ render_items context (p # c) is) (p # c))"
    using leads_items[OF assms(2), where en = True] unfolding ag_def by (simp only: if_True)
  have close: "leads context (mst (''{{/'' @ n @ ''}}'' @ s) (f # stk) True (o' @ render_items context (p # c) is) (p # c))
     (if c \<noteq> [] then mst ag (f # stk) True (o' @ render_items context (p # c) is) c
      else mst s stk True (o' @ render_items context (p # c) is) [])"
    using leads_close[OF assms(1) f_def, of "context" s stk "o' @ render_items context (p # c) is" "p # c"]
    by (simp only: list.sel simp_thms if_True)
  show ?case
  proof (cases "c = []")
    case True
    then show ?thesis using leads_trans[OF body close] by simp
  next
    case False
    then have "leads context (mst ag (f # stk) True (o' @ render_items context (p # c) is) c)
        (mst s stk True ((o' @ render_items context (p # c) is) @ render_each context c is) [])"
      by (rule Cons.IH)
    moreover have "leads context (mst (''{{/'' @ n @ ''}}'' @ s) (f # stk) True (o' @ render_items context (p # c) is) (p # c))
        (mst ag (f # stk) True (o' @ render_items context (p # c) is) c)"
      using close False by (simp only: if_True simp_thms)
    ultimately have "leads context (mst ag (f # stk) True o' (p # c))
        (mst s stk True ((o' @ render_items context (p # c) is) @ render_each context c is) [])"
      using leads_trans[OF body] leads_trans by blast
    then show ?thesis by simp
  qed
qed simp

lemma leads_once:
  assumes "ok_name n" "list_all ok_item is"
  shows "leads context
     (mst (show_items is @ ''{{/'' @ n @ ''}}'' @ s)
        [\<lparr>fr_name = n, fr_again = ag, fr_enabled = True, fr_entered = e\<rparr>] e o' [])
     (mst s [] True (if e then o' @ render_items context [] is else o') [])"
proof -
  let ?f = "\<lparr>fr_name = n, fr_again = ag, fr_enabled = True, fr_entered = e\<rparr>"
  have a: "leads context (mst (show_items is @ ''{{/'' @ n @ ''}}'' @ s) [?f] e o' [])
     (mst (''{{/'' @ n @ ''}}'' @ s) [?f] e (if e then o' @ render_items context [] is else o') [])"
    by (rule leads_items[OF assms(2)])
  have b: "leads context
      (mst (''{{/'' @ n @ ''}}'' @ s) [?f] e (if e then o' @ render_items context [] is else o') [])
      (mst s [] True (if e then o' @ render_items context [] is else o') [])"
    using leads_close[OF assms(1) refl, of "context" s ag e "[]"
        "if e then o' @ render_items context [] is else o'" "[]"]
    by (simp only: list.sel simp_thms if_False if_cancel)
  show ?thesis by (rule leads_trans[OF a b])
qed

lemma leads_node:
  assumes "ok_node nd"
  shows "leads context (mst (show_node nd @ s) [] True o' []) (mst s [] True (o' @ render_node context nd) [])"
proof (cases nd)
  case (Item i)
  then show ?thesis using leads_item[where en = True] assms by simp
next
  case (Section n js)
  then have ok: "ok_name n" "list_all ok_item js" using assms by auto
  let ?s = "show_items js @ ''{{/'' @ n @ ''}}'' @ s"
  have sn: "show_node nd @ s = ''{{#'' @ n @ ''}}'' @ ?s" by (simp add: Section)
  obtain rc c where e: "tpl_enter context n [] = (rc, c)" by fastforce
  have rc: "0 \<le> rc" using e by (auto simp: tpl_enter_def split: if_splits)
  have op: "leads context (mst (show_node nd @ s) [] True o' [])
     (mst ?s [\<lparr>fr_name = n, fr_again = ?s, fr_enabled = True, fr_entered = rc \<noteq> 0\<rparr>] (rc \<noteq> 0) o' c)"
    unfolding sn by (rule leads_open[OF ok(1) e rc]) simp
  show ?thesis
  proof (cases "n = ''plugs'' \<and> plugset context \<noteq> []")
    case True
    then have "c = plugset context" "rc = 1" using e by (auto simp: tpl_enter_def rd_def)
    then show ?thesis
      using leads_trans[OF op] leads_each[OF ok _ refl refl, of c "context" s "[]" o'] True by (simp add: Section)
  next
    case False
    then have c: "c = []" "rc \<noteq> 0 \<longleftrightarrow> n \<noteq> ''plugs'' \<and> shown_once context n"
      using e by (auto simp: tpl_enter_def shown_once_def rd_def split: if_splits)
    have "leads context (mst (show_node nd @ s) [] True o' [])
       (mst s [] True (if rc \<noteq> 0 then o' @ render_items context [] js else o') [])"
      using leads_trans[OF op[unfolded c(1)] leads_once[OF ok]] .
    then show ?thesis using c(2) False by (auto simp: Section)
  qed
qed

lemma leads_nodes:
  "list_all ok_node ns \<Longrightarrow>
   leads context (mst (show_template ns) [] True o' []) (mst [] [] True (o' @ render context ns) [])"
proof (induction ns arbitrary: o')
  case Nil
  then show ?case using leads_refl by (simp add: show_template_def render_def)
next
  case (Cons nd ns)
  have "leads context (mst (show_node nd @ show_template ns) [] True o' [])
      (mst (show_template ns) [] True (o' @ render_node context nd) [])"
    using Cons.prems by (intro leads_node) simp
  from leads_trans[OF this Cons.IH] Cons.prems show ?case
    by (simp add: show_template_def render_def)
qed

lemma fmustach_render:
  assumes "list_all ok_node ns" "plain_template (show_template ns)"
  shows "fmustach (template_fuel context (show_template ns)) (show_template ns) (template_itf context) [] =
    Some (0, render context ns, [])"
proof -
  let ?t = "show_template ns"
  obtain k where k: "\<forall>n. res (n + k) context (mst ?t [] True [] []) = res n context (mst [] [] True (render context ns) [])"
    using leads_nodes[OF assms(1), of "context" "[]"] by (auto simp: leads_def)
  have "res 1 context (mst [] [] True (render context ns) []) = Some (0, render context ns, [])"
    by (simp add: res_def process_turn_def mst_def emit_text_def)
  then have "res (Suc k) context (mst ?t [] True [] []) = Some (0, render context ns, [])"
    using k[rule_format, of 1] by simp
  then obtain st where st: "process (Suc k) (tpl_wrap context) (mst ?t [] True [] []) = Some (0, st)"
    "out st = render context ns" "clo st = []" by (auto simp: res_def)
  have start: "tpl_start ?t = mst ?t [] True [] []" by (simp add: tpl_start_def mst_def)
  obtain r where r: "process (template_fuel context ?t) (tpl_wrap context) (tpl_start ?t) = Some r"
    using template_fuel_enough[OF plain_tame[OF assms(2), of "context"]] by (auto simp: fmustach_template)
  have "r = (0, st)"
    using process_more[OF r, of "max (Suc k) (template_fuel context ?t)"]
      process_more[OF st(1), of "max (Suc k) (template_fuel context ?t)"] start by simp
  then show ?thesis using r st by (simp add: fmustach_template)
qed

section \<open>Properties\<close>

definition plug_demo :: "nat ctx" where
  "plug_demo = \<lparr>id_array = ''demo-app'' @ replicate 193 NUL,
     permission_set = \<lparr>permissions = [''ab''], slots = 8\<rparr>, path_set = [],
     plugset = [\<lparr>expdir = ''/e1'', impid = ''imp1'', impdir = ''/i1''\<rparr>,
                \<lparr>expdir = ''/e2'', impid = ''imp2'', impdir = ''/i2''\<rparr>],
     need_id = True, error_flag = False, permgr = None\<rparr>"

definition smack_like :: "node list" where
  "smack_like = [Item (Text ''System App:''), Item (Var ''id''), Item (Text '' rwxa''),
     Section ''has-plugs'' [Text ''P''],
     Section ''plugs'' [Text ''App:'', Var ''impid'', Text '' App:'', Var ''_id_'', Text '':Plug rx;'']]"

lemma smack_like_ok: "list_all ok_node smack_like"
  by (simp add: smack_like_def ok_name_def is_space_def)

lemma no_occurrence: "strstr tpl pat = None \<Longrightarrow> \<nexists>a b. tpl = a @ pat @ b"
proof -
  have "strstr tpl pat \<noteq> None" if "tpl = a @ pat @ b" for a b
    using that
  proof (induction a arbitrary: tpl)
    case Nil
    then have "prefix pat tpl" by simp
    then show ?case by (cases tpl) (simp_all del: Nil)
  next
    case (Cons c a)
    then show ?case by (auto split: option.splits)
  qed
  then show "strstr tpl pat = None \<Longrightarrow> \<nexists>a b. tpl = a @ pat @ b" by blast
qed

lemma plain_no_brace:
  "strstr tpl ''{{='' = None \<Longrightarrow> strstr tpl ''{{>'' = None \<Longrightarrow> plain_template tpl"
  using no_occurrence[of tpl "''{{=''"] no_occurrence[of tpl "''{{>''"] by (simp add: plain_template_def)

lemma smack_like_plain: "plain_template (show_template smack_like)"
  by (rule plain_no_brace) code_simp+

text \<open>The identifiers of a session open no tag.\<close>

lemma cstr_flat: "id_array_inv a \<Longrightarrow> strstr (cstr a) ''{{'' = None"
proof (rule ccontr)
  assume inv: "id_array_inv a" and "strstr (cstr a) ''{{'' \<noteq> None"
  then obtain u v where "strstr (cstr a) ''{{'' = Some (u, v)" by (cases "strstr (cstr a) ''{{''") auto
  then have "cstr a = u @ v" "prefix ''{{'' v" by (auto dest: strstr_append)
  then obtain t where "cstr a = u @ ''{{'' @ t" by (auto simp: prefix_def)
  then obtain r where a: "a = u @ ''{{'' @ t @ r" by (metis append.assoc cstr_def takeWhile_dropWhile_id)
  then have "length u < 200" using inv by (simp add: id_array_inv_def)
  moreover have "a ! length u = CHR ''{''" using a by simp
  ultimately show False using inv by (force simp: id_array_inv_def id_char_def is_alnum_def)
qed

lemma valid_id_flat: "valid_id s \<Longrightarrow> strstr s ''{{'' = None"
proof -
  assume "valid_id s"
  then have "list_all id_char s" by (simp add: valid_id_def)
  then show ?thesis by (induction s) (auto simp: id_char_def is_alnum_def)
qed

lemma ctx_inv_flat: "ctx_inv context \<Longrightarrow> flat_texts context"
  by (simp add: flat_texts_def ctx_inv_def ctx_texts_def context_id_def cstr_flat valid_id_flat)

lemma plug_demo_inv: "ctx_inv plug_demo"
proof -
  have "id_array_inv (id_array plug_demo)" "\<forall>p \<in> set (plugset plug_demo). valid_id (impid p)" by code_simp+
  then show ?thesis
    by (simp add: ctx_inv_def ctx_sets_inv_def ctx_unique_def ctx_texts_def wants_id_def plug_demo_def
        permission_set_inv_def path_set_inv_def plugset_inv_def abs_path_def no_nul_def rd_def
        perm_set.unique_keys_def path_keys.unique_keys_def plug_keys.unique_keys_def)
qed

text \<open>
  C20: processing a template returns for every session, however the sections of the template are nested,
  whether its tags are right or end in an error, and with partials, as long as no tag changes the
  delimiters: a section is repeated only by moving to the next plug, the plugs are only presented
  again by a section that stands further in the template, and a partial is the text of an
  identifier, which holds no tag.
\<close>

theorem template_processing_returns:
  assumes "ctx_inv context" "\<nexists>a b. tpl = a @ ''{{='' @ b"
  shows "fmustach (template_fuel context tpl) tpl (template_itf context) [] \<noteq> None"
  using assms by (intro template_fuel_enough) (simp add: tame_def ctx_inv_flat)

theorem template_processing_returns_witness:
  "fmustach (template_fuel plug_demo ''{{#plugs}}{{>impid}},{{/plugs}}'') ''{{#plugs}}{{>impid}},{{/plugs}}''
     (template_itf plug_demo) [] \<noteq> None"
proof (rule template_processing_returns[OF plug_demo_inv])
  show "\<nexists>a b. ''{{#plugs}}{{>impid}},{{/plugs}}'' = a @ ''{{='' @ b"
    by (rule no_occurrence) code_simp
qed

text \<open>
  C19: for a template made of text, replacements and sections that are not nested, the
  text produced is the rendering of its structure: the identifier (with underscores for
  dashes in the underscored names) at its places, a section on a permission or on plugs
  shown exactly when the context has them, and a plugs section once for each plug, in the
  order of the set.
\<close>

theorem template_renders:
  assumes "list_all ok_node ns" "plain_template (show_template ns)"
  shows "fmustach (template_fuel context (show_template ns)) (show_template ns) (template_itf context) [] =
    Some (0, render context ns, [])"
  using assms by (rule fmustach_render)

theorem template_renders_witness:
  "fmustach (template_fuel plug_demo (show_template smack_like)) (show_template smack_like)
     (template_itf plug_demo) [] =
   Some (0, ''System App:demo-app rwxaPApp:imp1 App:demo_app:Plug rx;App:imp2 App:demo_app:Plug rx;'', [])"
proof -
  have "render plug_demo smack_like =
      ''System App:demo-app rwxaPApp:imp1 App:demo_app:Plug rx;App:imp2 App:demo_app:Plug rx;''"
    by code_simp
  then show ?thesis using template_renders[OF smack_like_ok smack_like_plain, of plug_demo] by simp
qed

text \<open>
  A section on a permission inside a plugs section breaks the iteration: its closing
  tag moves to the next plug and repeats the inner section, then forgets the plug, so that
  with two plugs the importers are never named and the plugs section is shown once.
\<close>

theorem nested_section_breaks_iteration:
  "fmustach 30 ''{{#plugs}}{{#p=ab}}x{{/p=ab}}{{impid}},{{/plugs}}'' (template_itf plug_demo) [] =
     Some (0, ''xx,'', [])"
  by code_simp

end
