(* ===== verification/Mustach_Mem.thy ===== *)
theory Mustach_Mem
  imports Template_Render
begin

text \<open>
  The entries of \<open>mustach.c\<close> that render to a memory stream and to a descriptor: \<open>mustach\<close> and
  \<open>fdmustach\<close>. The streams fail by the schedule of the world.
\<close>

abbreviation (input) MUSTACH_ERROR_SYSTEM :: int where "MUSTACH_ERROR_SYSTEM \<equiv> -1"

section \<open>Memory streams\<close>

text \<open>The buffer the caller gets, \<open>None\<close> for \<open>NULL\<close>, and its size.\<close>

type_synonym membuf = "string option \<times> nat"

definition memfile_open :: "'z wstate \<Rightarrow> bool \<times> 'z wstate" where
  "memfile_open w = sys_malloc w"

definition memfile_abort :: membuf where
  "memfile_abort = (None, 0)"

text \<open>A final NUL is added, then taken off the size; \<open>txt\<close> is what was written.\<close>

definition memfile_close :: "string \<Rightarrow> 'z wstate \<Rightarrow> (int \<times> membuf) \<times> 'z wstate" where
  "memfile_close txt w =
     (case pop_fault w of (e, w) \<Rightarrow>
        let rc = (if e > 0 then MUSTACH_ERROR_SYSTEM else 0)
        in ((rc, if rc = 0 then (Some (txt @ [NUL]), length (txt @ [NUL]) - 1) else (None, 0)), w))"

text \<open>
  The other branch of the compilation, for systems without memory streams: a temporary file, whose text is
  read back at the end. An empty text is read as zero item, which is taken for a failure.
\<close>

definition tmpfile_open :: "'z wstate \<Rightarrow> (bool \<times> membuf) \<times> 'z wstate" where
  "tmpfile_open w = (case sys_malloc w of (ok, w) \<Rightarrow> ((ok, (None, 0)), w))"

definition tmpfile_abort :: membuf where
  "tmpfile_abort = (None, 0)"

definition tmpfile_close :: "string \<Rightarrow> 'z wstate \<Rightarrow> (int \<times> membuf) \<times> 'z wstate" where
  "tmpfile_close txt w =
     (let s = length txt
      in case sys_malloc w of (ok, w) \<Rightarrow>
        if \<not> ok then ((MUSTACH_ERROR_SYSTEM, (None, 0)), w)
        else case pop_fault w of (e, w) \<Rightarrow>
          let items = (if e > 0 \<or> s = 0 then 0 else 1 :: nat)
          in if items = 1 then ((0, (Some (txt @ [NUL]), s)), w)
             else ((MUSTACH_ERROR_SYSTEM, (None, 0)), w))"

text \<open>
  \<open>sz\<close> is what the variable of the caller holds before the call, \<open>memstream\<close> the choice of the
  compilation.
\<close>

definition mustach ::
  "bool \<Rightarrow> nat \<Rightarrow> string \<Rightarrow> 'c mustach_itf \<Rightarrow> 'c \<Rightarrow> nat \<Rightarrow> 'z wstate \<Rightarrow> ((int \<times> membuf) \<times> 'z wstate) option" where
  "mustach memstream n tpl itf c sz w =
     (case (if memstream then (case memfile_open w of (ok, w) \<Rightarrow> ((ok, (None, sz)), w)) else tmpfile_open w) of
        ((ok, buf), w) \<Rightarrow>
          if \<not> ok then Some ((MUSTACH_ERROR_SYSTEM, buf), w)
          else case fmustach n tpl itf c of
            None \<Rightarrow> None
          | Some (rc, txt, _) \<Rightarrow>
              Some (if rc < 0 then ((rc, if memstream then memfile_abort else tmpfile_abort), w)
                    else (if memstream then memfile_close else tmpfile_close) txt w))"

text \<open>
  What is written to the descriptor when the stream is closed, and whether the descriptor is
  closed; the status of \<open>fclose\<close> is ignored.
\<close>

definition fdmustach ::
  "nat \<Rightarrow> string \<Rightarrow> 'c mustach_itf \<Rightarrow> 'c \<Rightarrow> 'z wstate \<Rightarrow> ((int \<times> string \<times> bool) \<times> 'z wstate) option" where
  "fdmustach n tpl itf c w =
     (case sys_malloc w of (ok, w) \<Rightarrow>
        if \<not> ok then Some ((MUSTACH_ERROR_SYSTEM, [], False), w)
        else case fmustach n tpl itf c of
          None \<Rightarrow> None
        | Some (rc, txt, _) \<Rightarrow>
            (case pop_fault w of (e, w) \<Rightarrow> Some ((rc, if e > 0 then [] else txt, True), w)))"

section \<open>What the caller gets\<close>

text \<open>A buffer is returned exactly with a status of zero; it holds a terminated text of the size given.\<close>

lemma mustach_buffer:
  assumes "mustach memstream n tpl itf c sz w = Some ((rc, buf, len), w')"
  shows "buf \<noteq> None \<longleftrightarrow> 0 \<le> rc"
    and "0 \<le> rc \<Longrightarrow> rc = 0 \<and> (\<exists>k txt d. fmustach n tpl itf c = Some (k, txt, d) \<and> 0 \<le> k
           \<and> buf = Some (txt @ [NUL]) \<and> len = length txt)"
  using assms
  by (auto simp: mustach_def memfile_close_def memfile_abort_def tmpfile_open_def tmpfile_close_def tmpfile_abort_def Let_def
        split: prod.splits option.splits if_splits)

text \<open>A plain template, without a failure, is rendered as in a file.\<close>

lemma mustach_renders:
  assumes "list_all ok_node ns" "plain_template (show_template ns)" "faults w = []"
  shows "mustach True (template_fuel context (show_template ns)) (show_template ns) (template_itf context) [] sz w =
    Some ((0, Some (render context ns @ [NUL]), length (render context ns)), w)"
  using assms(3) fmustach_render[OF assms(1,2), of "context"]
  by (simp add: mustach_def memfile_open_def memfile_close_def sys_malloc_nil pop_fault_nil)

text \<open>Without memory streams the result is the same, but for a text that is empty.\<close>

lemma mustach_branches:
  assumes "fmustach n tpl itf c = Some (rc, txt, d)" "0 \<le> rc" "faults w = []"
  shows "txt \<noteq> [] \<Longrightarrow> mustach False n tpl itf c sz w = mustach True n tpl itf c sz w"
    and "txt = [] \<Longrightarrow> mustach True n tpl itf c sz w = Some ((0, Some [NUL], 0), w)
      \<and> mustach False n tpl itf c sz w = Some ((MUSTACH_ERROR_SYSTEM, None, 0), w)"
  using assms
  by (simp_all add: mustach_def memfile_open_def memfile_close_def tmpfile_open_def tmpfile_close_def Let_def
      sys_malloc_nil pop_fault_nil)

lemma fdmustach_renders:
  assumes "list_all ok_node ns" "plain_template (show_template ns)" "faults w = []"
  shows "fdmustach (template_fuel context (show_template ns)) (show_template ns) (template_itf context) [] w =
    Some ((0, render context ns, True), w)"
  using assms(3) fmustach_render[OF assms(1,2), of "context"]
  by (simp add: fdmustach_def sys_malloc_nil pop_fault_nil)

end
