(* ===== verification/Perm_Mgr.thy ===== *)
theory Perm_Mgr
  imports Permissions
begin

text \<open>
  The permission managers: the interface \<open>perm_mgr_itf_t\<close> of \<open>src/context/perm-mgr.h\<close>, the
  provider over the cynagora client library (\<open>src/perm-cynagora/cynagora-interface.c\<close>), the
  one of the offline mode (\<open>src/offline.c\<close>) and the library's simulation of
  \<open>src/simulation/cynagora/cynagora.c\<close>. The library is a parameter: its calls over a state
  of any type. What its documentation says of a transaction is the predicate
  \<open>cynagora_contract\<close>.
\<close>

section \<open>The interface\<close>

text \<open>A permission set may be NULL (\<open>None\<close>).\<close>

record 'w perm_mgr_itf =
  add_permissions :: "string \<Rightarrow> permission_set option \<Rightarrow> bool \<Rightarrow> 'w \<Rightarrow> int \<times> 'w"
  drop_permissions :: "string \<Rightarrow> 'w \<Rightarrow> int \<times> 'w"
  check_permission :: "string \<Rightarrow> string \<Rightarrow> 'w \<Rightarrow> int \<times> 'w"

section \<open>The cynagora library\<close>

record cynagora_key =
  client :: string
  session :: string
  user :: string
  permission :: string

record cynagora_value =
  cvalue :: string
  expire :: int

record 'c cynagora_lib =
  cynagora_create :: "'c \<Rightarrow> int \<times> 'c"
  cynagora_enter :: "'c \<Rightarrow> int \<times> 'c"
  cynagora_leave :: "bool \<Rightarrow> 'c \<Rightarrow> int \<times> 'c"
  cynagora_set :: "cynagora_key \<Rightarrow> cynagora_value \<Rightarrow> 'c \<Rightarrow> int \<times> 'c"
  cynagora_drop :: "cynagora_key \<Rightarrow> 'c \<Rightarrow> int \<times> 'c"
  cynagora_check :: "cynagora_key \<Rightarrow> bool \<Rightarrow> 'c \<Rightarrow> int \<times> 'c"
  cynagora_get :: "cynagora_key \<Rightarrow> 'c \<Rightarrow> int \<times> (cynagora_key \<times> cynagora_value) list \<times> 'c"

text \<open>The state of the provider: is there a handler, and the library's state.\<close>

record 'c cyn =
  handler :: bool
  lib :: 'c

definition with_lib :: "('c \<Rightarrow> int \<times> 'c) \<Rightarrow> 'c cyn \<Rightarrow> int \<times> 'c cyn" where
  "with_lib f s = (case f (lib s) of (rc, l) \<Rightarrow> (rc, s\<lparr>lib := l\<rparr>))"

section \<open>\<open>cynagora-interface.c\<close>\<close>

abbreviation (input) SELECT_ALL :: string where "SELECT_ALL \<equiv> ''#''"
abbreviation (input) INSERT_ALL :: string where "INSERT_ALL \<equiv> ''*''"
abbreviation (input) AUTHORIZED :: string where "AUTHORIZED \<equiv> ''yes''"

definition get_handler :: "'c cynagora_lib \<Rightarrow> 'c cyn \<Rightarrow> int \<times> 'c cyn" where
  "get_handler L s =
     (if handler s then (0, s)
      else case with_lib (cynagora_create L) s of (rc, s) \<Rightarrow>
        if rc < 0 then (rc, s\<lparr>handler := False\<rparr>) else (0, s\<lparr>handler := True\<rparr>))"

text \<open>\<open>for (i = 0 ; rc >= 0 && i < size ; i++) rc = cynagora_set (...)\<close>\<close>

fun set_all ::
  "'c cynagora_lib \<Rightarrow> string \<Rightarrow> string list \<Rightarrow> int \<Rightarrow> 'c cyn \<Rightarrow> int \<times> 'c cyn" where
  "set_all L label [] rc s = (rc, s)"
| "set_all L label (p # ps) rc s =
     (if rc < 0 then (rc, s)
      else case with_lib (cynagora_set L
             \<lparr>client = label, session = INSERT_ALL, user = INSERT_ALL, permission = p\<rparr>
             \<lparr>cvalue = AUTHORIZED, expire = 0\<rparr>) s of
           (rc, s) \<Rightarrow> set_all L label ps rc s)"

definition cynagora_set_policies ::
  "'c cynagora_lib \<Rightarrow> string \<Rightarrow> permission_set option \<Rightarrow> bool \<Rightarrow> 'c cyn \<Rightarrow> int \<times> 'c cyn" where
  "cynagora_set_policies L label pset drop_before s =
     (case get_handler L s of (rc, s) \<Rightarrow>
        if rc < 0 then (rc, s)
        else case with_lib (cynagora_enter L) s of (rc, s) \<Rightarrow>
          if rc < 0 then (rc, s)
          else case (if drop_before then with_lib (cynagora_drop L
                        \<lparr>client = label, session = SELECT_ALL, user = SELECT_ALL,
                         permission = SELECT_ALL\<rparr>) s
                     else (rc, s)) of (rc, s) \<Rightarrow>
            case (case pset of None \<Rightarrow> (rc, s) | Some ps \<Rightarrow> set_all L label (permissions ps) rc s) of
              (rc, s) \<Rightarrow>
                case with_lib (cynagora_leave L (rc = 0)) s of (rc2, s) \<Rightarrow>
                  (if rc2 < 0 \<and> rc = 0 then rc2 else rc, s))"

definition cynagora_drop_policies :: "'c cynagora_lib \<Rightarrow> string \<Rightarrow> 'c cyn \<Rightarrow> int \<times> 'c cyn" where
  "cynagora_drop_policies L label s = cynagora_set_policies L label None True s"

definition cynagora_check_permission ::
  "'c cynagora_lib \<Rightarrow> string \<Rightarrow> string \<Rightarrow> 'c cyn \<Rightarrow> int \<times> 'c cyn" where
  "cynagora_check_permission L label perm s =
     (case get_handler L s of (rc, s) \<Rightarrow>
        if rc < 0 then (rc, s)
        else with_lib (cynagora_check L
               \<lparr>client = label, session = ''-'', user = ''-'', permission = perm\<rparr> False) s)"

text \<open>The callback of \<open>cynagora_get\<close> adds the permission of each key; a failure is ignored.\<close>

fun list_keys :: "(cynagora_key \<times> cynagora_value) list \<Rightarrow> permission_set \<Rightarrow> 'z wstate \<Rightarrow>
    permission_set \<times> 'z wstate" where
  "list_keys [] ps w = (ps, w)"
| "list_keys ((k, v) # ks) ps w =
     (case permission_set_add ps (permission k) w of (rc, ps, w) \<Rightarrow> list_keys ks ps w)"

definition cynagora_get_policies ::
  "'c cynagora_lib \<Rightarrow> string \<Rightarrow> 'c cyn \<Rightarrow> 'z wstate \<Rightarrow> int \<times> permission_set \<times> 'c cyn \<times> 'z wstate" where
  "cynagora_get_policies L label s w =
     (let ps = permission_set_init
      in case get_handler L s of (rc, s) \<Rightarrow>
           if rc < 0 then (rc, ps, s, w)
           else case cynagora_get L \<lparr>client = label, session = SELECT_ALL, user = SELECT_ALL,
                      permission = SELECT_ALL\<rparr> (lib s) of (rc, ks, l) \<Rightarrow>
             case list_keys ks ps w of (ps, w) \<Rightarrow>
               (if rc < 0 then rc else 0, ps, s\<lparr>lib := l\<rparr>, w))"

definition cynagora_itf :: "'c cynagora_lib \<Rightarrow> 'c cyn perm_mgr_itf" where
  "cynagora_itf L = \<lparr>add_permissions = cynagora_set_policies L,
     drop_permissions = cynagora_drop_policies L, check_permission = cynagora_check_permission L\<rparr>"

section \<open>\<open>offline.c\<close>\<close>

text \<open>What the offline mode prints: the policies, one per line.\<close>

definition offline_line :: "string \<Rightarrow> string \<Rightarrow> string" where
  "offline_line label p = label @ '' * * '' @ p @ '' yes forever'' @ [LF]"

definition offline_add ::
  "string \<Rightarrow> permission_set option \<Rightarrow> bool \<Rightarrow> string \<Rightarrow> int \<times> string" where
  "offline_add label pset drop_before stdout =
     (0, case pset of None \<Rightarrow> stdout
         | Some ps \<Rightarrow> foldl (\<lambda>s p. s @ offline_line label p) stdout (permissions ps))"

definition offline_drop :: "string \<Rightarrow> string \<Rightarrow> int \<times> string" where
  "offline_drop label stdout = (0, stdout)"

definition offline_check :: "string \<Rightarrow> string \<Rightarrow> string \<Rightarrow> int \<times> string" where
  "offline_check label perm stdout = (1, stdout)"

definition offline_itf :: "string perm_mgr_itf" where
  "offline_itf = \<lparr>add_permissions = offline_add, drop_permissions = offline_drop,
     check_permission = offline_check\<rparr>"

section \<open>The simulation of the library\<close>

definition sim_check :: "cynagora_key \<Rightarrow> int" where
  "sim_check key = (if rd (client key) 0 \<noteq> CHR ''-'' then 1 else 0)"

definition sim_get :: "cynagora_key \<Rightarrow> unit \<Rightarrow> int \<times> (cynagora_key \<times> cynagora_value) list \<times> unit" where
  "sim_get key u =
     (let k = (\<lambda>p. (\<lparr>client = client key, session = ''*'', user = user key, permission = p\<rparr>,
                    \<lparr>cvalue = ''yes'', expire = 0\<rparr>))
      in (0, [k ''privilege'', k ''privilege2'', k ''privilege3''], u))"

definition sim_cynagora :: "unit cynagora_lib" where
  "sim_cynagora = \<lparr>cynagora_create = (\<lambda>u. (0, u)), cynagora_enter = (\<lambda>u. (0, u)),
     cynagora_leave = (\<lambda>c u. (0, u)), cynagora_set = (\<lambda>k v u. (0, u)),
     cynagora_drop = (\<lambda>k u. (0, u)), cynagora_check = (\<lambda>k f u. (sim_check k, u)),
     cynagora_get = sim_get\<rparr>"

section \<open>The contract of a permission manager\<close>

text \<open>
  What the callers of \<open>perm_mgr_itf_t\<close> rely on: the documented ranges of the results.
\<close>

locale perm_mgr =
  fixes itf :: "'w perm_mgr_itf"
  assumes add_range: "add_permissions itf l ps d w = (rc, w') \<Longrightarrow> rc \<le> 0"
    and drop_range: "drop_permissions itf l w = (rc, w') \<Longrightarrow> rc \<le> 0"
    and check_range: "check_permission itf l p w = (rc, w') \<Longrightarrow> rc \<le> 1"
begin

lemma add_zero_or_error: "add_permissions itf l ps d w = (rc, w') \<Longrightarrow> \<not> rc < 0 \<Longrightarrow> rc = 0"
  using add_range by fastforce

lemma drop_zero_or_error: "drop_permissions itf l w = (rc, w') \<Longrightarrow> \<not> rc < 0 \<Longrightarrow> rc = 0"
  using drop_range by fastforce

lemma check_trichotomy:
  "check_permission itf l p w = (rc, w') \<Longrightarrow> rc < 0 \<or> rc = 0 \<or> rc = 1"
  using check_range by fastforce

end

interpretation offline: perm_mgr offline_itf
  by unfold_locales (auto simp: offline_itf_def offline_add_def offline_drop_def offline_check_def)

text \<open>
  The ranges of the results of the library give those of the provider built on it.
\<close>

locale cynagora_ranges =
  fixes L :: "'c cynagora_lib"
  assumes create_range: "cynagora_create L c = (rc, c') \<Longrightarrow> rc \<le> 0"
    and enter_range: "cynagora_enter L c = (rc, c') \<Longrightarrow> rc \<le> 0"
    and leave_range: "cynagora_leave L commit c = (rc, c') \<Longrightarrow> rc \<le> 0"
    and set_range: "cynagora_set L k v c = (rc, c') \<Longrightarrow> rc \<le> 0"
    and cdrop_range: "cynagora_drop L k c = (rc, c') \<Longrightarrow> rc \<le> 0"
    and ccheck_range: "cynagora_check L k f c = (rc, c') \<Longrightarrow> rc \<le> 1"
begin

lemma with_lib_range:
  "with_lib f s = (rc, s') \<Longrightarrow> (\<And>c rc c'. f c = (rc, c') \<Longrightarrow> rc \<le> 0) \<Longrightarrow> rc \<le> 0"
  by (auto simp: with_lib_def split: prod.splits)

lemma handler_range: "get_handler L s = (rc, s') \<Longrightarrow> rc \<le> 0"
  by (auto simp: get_handler_def split: if_splits prod.splits)

lemma set_all_range: "set_all L label ps rc s = (rc', s') \<Longrightarrow> rc \<le> 0 \<Longrightarrow> rc' \<le> 0"
proof (induction ps arbitrary: rc s)
  case (Cons p ps)
  show ?case
  proof (cases "rc < 0")
    case False
    obtain r t where r: "with_lib (cynagora_set L
        \<lparr>client = label, session = INSERT_ALL, user = INSERT_ALL, permission = p\<rparr>
        \<lparr>cvalue = AUTHORIZED, expire = 0\<rparr>) s = (r, t)" by fastforce
    then have "r \<le> 0" using with_lib_range set_range by blast
    then show ?thesis using Cons.IH[of r t] Cons.prems(1) False r by simp
  qed (use Cons.prems in simp)
qed simp

lemma set_policies_range: "cynagora_set_policies L label ps d s = (rc, s') \<Longrightarrow> rc \<le> 0"
  unfolding cynagora_set_policies_def
  by (auto split: prod.splits if_splits option.splits
        dest: handler_range set_all_range with_lib_range[OF _ enter_range]
          with_lib_range[OF _ cdrop_range] with_lib_range[OF _ leave_range])

lemma check_permission_range: "cynagora_check_permission L label p s = (rc, s') \<Longrightarrow> rc \<le> 1"
  by (auto simp: cynagora_check_permission_def with_lib_def split: prod.splits if_splits
        dest: ccheck_range)

end

sublocale cynagora_ranges \<subseteq> perm_mgr "cynagora_itf L"
proof unfold_locales
  show "add_permissions (cynagora_itf L) l ps d w = (rc, w') \<Longrightarrow> rc \<le> 0" for l ps d w rc w'
    using set_policies_range by (simp add: cynagora_itf_def)
  show "drop_permissions (cynagora_itf L) l w = (rc, w') \<Longrightarrow> rc \<le> 0" for l w rc w'
    using set_policies_range by (simp add: cynagora_itf_def cynagora_drop_policies_def)
  show "check_permission (cynagora_itf L) l p w = (rc, w') \<Longrightarrow> rc \<le> 1" for l p w rc w'
    using check_permission_range by (simp add: cynagora_itf_def)
qed

interpretation sim_cyn: cynagora_ranges sim_cynagora
  by unfold_locales (auto simp: sim_cynagora_def sim_check_def)

text \<open>
  The documented behaviour of the library (\<open>cynagora.h\<close>): a transaction works on a draft of
  the rules (\<open>draft\<close>, \<open>None\<close> outside of a transaction) that leaving with a commit makes the
  rules; a call that fails has no effect. \<open>rules\<close> are the pairs of a client and a permission.
\<close>

definition cynagora_contract ::
  "'c cynagora_lib \<Rightarrow> ('c \<Rightarrow> (string \<times> string) set) \<Rightarrow> ('c \<Rightarrow> (string \<times> string) set) \<Rightarrow> bool" where
  "cynagora_contract L rules draft \<longleftrightarrow>
     (\<forall>c rc c'. cynagora_create L c = (rc, c') \<longrightarrow> rc \<le> 0 \<and> rules c' = rules c)
     \<and> (\<forall>c rc c'. cynagora_enter L c = (rc, c') \<longrightarrow>
          rc \<le> 0 \<and> rules c' = rules c \<and> (rc = 0 \<longrightarrow> draft c' = rules c))
     \<and> (\<forall>c rc c' k v. cynagora_set L k v c = (rc, c') \<longrightarrow>
          rc \<le> 0 \<and> rules c' = rules c
          \<and> (rc = 0 \<longrightarrow> draft c' = insert (client k, permission k) (draft c)))
     \<and> (\<forall>c rc c' k. cynagora_drop L k c = (rc, c') \<longrightarrow>
          rc \<le> 0 \<and> rules c' = rules c
          \<and> (rc = 0 \<and> session k = SELECT_ALL \<and> user k = SELECT_ALL \<and> permission k = SELECT_ALL \<longrightarrow>
               draft c' = {r \<in> draft c. fst r \<noteq> client k}))
     \<and> (\<forall>c rc c' commit. cynagora_leave L commit c = (rc, c') \<longrightarrow>
          rc \<le> 0 \<and> rules c' = (if rc = 0 \<and> commit then draft c else rules c))"

lemma contract_calls:
  assumes "cynagora_contract L rules draft"
  shows "cynagora_create L c = (rc, c') \<Longrightarrow> rc \<le> 0 \<and> rules c' = rules c"
    and "cynagora_enter L c = (rc, c') \<Longrightarrow>
          rc \<le> 0 \<and> rules c' = rules c \<and> (rc = 0 \<longrightarrow> draft c' = rules c)"
    and "cynagora_set L k v c = (rc, c') \<Longrightarrow> rc \<le> 0 \<and> rules c' = rules c
          \<and> (rc = 0 \<longrightarrow> draft c' = insert (client k, permission k) (draft c))"
    and "cynagora_drop L \<lparr>client = l, session = SELECT_ALL, user = SELECT_ALL,
           permission = SELECT_ALL\<rparr> c = (rc, c') \<Longrightarrow>
         rc \<le> 0 \<and> rules c' = rules c \<and> (rc = 0 \<longrightarrow> draft c' = {r \<in> draft c. fst r \<noteq> l})"
    and "cynagora_leave L commit c = (rc, c') \<Longrightarrow>
          rc \<le> 0 \<and> rules c' = (if rc = 0 \<and> commit then draft c else rules c)"
proof -
  note con = assms[unfolded cynagora_contract_def]
  note c1 = con[THEN conjunct1, rule_format]
  note c2 = con[THEN conjunct2, THEN conjunct1, rule_format]
  note c3 = con[THEN conjunct2, THEN conjunct2, THEN conjunct1, rule_format]
  note c4 = con[THEN conjunct2, THEN conjunct2, THEN conjunct2, THEN conjunct1, rule_format]
  note c5 = con[THEN conjunct2, THEN conjunct2, THEN conjunct2, THEN conjunct2, rule_format]
  show "cynagora_create L c = (rc, c') \<Longrightarrow> rc \<le> 0 \<and> rules c' = rules c" by (rule c1)
  show "cynagora_enter L c = (rc, c') \<Longrightarrow>
      rc \<le> 0 \<and> rules c' = rules c \<and> (rc = 0 \<longrightarrow> draft c' = rules c)" by (rule c2)
  show "cynagora_set L k v c = (rc, c') \<Longrightarrow> rc \<le> 0 \<and> rules c' = rules c
      \<and> (rc = 0 \<longrightarrow> draft c' = insert (client k, permission k) (draft c))" by (rule c3)
  show "rc \<le> 0 \<and> rules c' = rules c \<and> (rc = 0 \<longrightarrow> draft c' = {r \<in> draft c. fst r \<noteq> l})"
    if "cynagora_drop L \<lparr>client = l, session = SELECT_ALL, user = SELECT_ALL,
           permission = SELECT_ALL\<rparr> c = (rc, c')"
    using c4[OF that] by simp
  show "cynagora_leave L commit c = (rc, c') \<Longrightarrow>
      rc \<le> 0 \<and> rules c' = (if rc = 0 \<and> commit then draft c else rules c)" by (rule c5)
qed

lemma set_all_contract:
  assumes "cynagora_contract L rules draft" "set_all L label ps rc s = (rc', s')" "rc \<le> 0"
  shows "rc' \<le> 0 \<and> rules (lib s') = rules (lib s)
    \<and> (rc' = 0 \<longrightarrow> rc = 0 \<and> draft (lib s') = draft (lib s) \<union> (Pair label) ` set ps)"
  using assms(2,3)
proof (induction ps arbitrary: rc s)
  case (Cons p ps)
  show ?case
  proof (cases "rc < 0")
    case True
    then show ?thesis using Cons.prems by simp
  next
    case False
    obtain r1 l1 where c: "cynagora_set L
        \<lparr>client = label, session = INSERT_ALL, user = INSERT_ALL, permission = p\<rparr>
        \<lparr>cvalue = AUTHORIZED, expire = 0\<rparr> (lib s) = (r1, l1)" by fastforce
    have k: "r1 \<le> 0 \<and> rules l1 = rules (lib s) \<and> (r1 = 0 \<longrightarrow> draft l1 = insert (label, p) (draft (lib s)))"
      using contract_calls(3)[OF assms(1) c] by simp
    have "set_all L label ps r1 (s\<lparr>lib := l1\<rparr>) = (rc', s')"
      using Cons.prems(1) False c by (simp add: with_lib_def)
    from Cons.IH[OF this] k show ?thesis using False Cons.prems(2) by auto
  qed
qed simp

text \<open>What a change of policies does to the rules, all or nothing.\<close>

definition new_rules :: "string \<Rightarrow> permission_set option \<Rightarrow> bool \<Rightarrow> (string \<times> string) set \<Rightarrow>
    (string \<times> string) set" where
  "new_rules label pset drop_before rs =
     (if drop_before then {r \<in> rs. fst r \<noteq> label} else rs)
     \<union> (case pset of None \<Rightarrow> {} | Some ps \<Rightarrow> (Pair label) ` set (permissions ps))"

lemma set_policies_contract:
  assumes con: "cynagora_contract L rules draft"
    and run: "cynagora_set_policies L label pset drop_before s = (rc, s')"
  shows "rc \<le> 0 \<and> rules (lib s') =
    (if rc = 0 then new_rules label pset drop_before (rules (lib s)) else rules (lib s))"
proof -
  obtain r0 s0 where h: "get_handler L s = (r0, s0)" by fastforce
  have 0: "r0 \<le> 0 \<and> rules (lib s0) = rules (lib s)"
    using h contract_calls(1)[OF con]
    by (auto simp: get_handler_def with_lib_def split: prod.splits if_splits)
  show ?thesis
  proof (cases "r0 < 0")
    case True
    then show ?thesis using run h 0 by (auto simp: cynagora_set_policies_def)
  next
    case r0: False
    obtain r1 l1 where e: "cynagora_enter L (lib s0) = (r1, l1)" by fastforce
    have 1: "r1 \<le> 0 \<and> rules l1 = rules (lib s) \<and> (r1 = 0 \<longrightarrow> draft l1 = rules (lib s))"
      using contract_calls(2)[OF con e] 0 by simp
    let ?s1 = "s0\<lparr>lib := l1\<rparr>"
    have e': "with_lib (cynagora_enter L) s0 = (r1, ?s1)" by (simp add: with_lib_def e)
    show ?thesis
    proof (cases "r1 < 0")
      case True
      then have "rc = r1" "s' = ?s1"
        using run h r0 e' by (simp_all add: cynagora_set_policies_def)
      then show ?thesis using 1 True by simp
    next
      case r1: False
      let ?k = "\<lparr>client = label, session = SELECT_ALL, user = SELECT_ALL, permission = SELECT_ALL\<rparr>"
      obtain r2 s2 where d: "(if drop_before then with_lib (cynagora_drop L ?k) ?s1 else (r1, ?s1)) = (r2, s2)"
        by fastforce
      have 2: "r2 \<le> 0 \<and> rules (lib s2) = rules (lib s) \<and> (r2 = 0 \<longrightarrow> draft (lib s2) =
          (if drop_before then {r \<in> rules (lib s). fst r \<noteq> label} else rules (lib s)))"
      proof (cases drop_before)
        case True
        obtain r l where k: "cynagora_drop L ?k (lib ?s1) = (r, l)" by fastforce
        have "r2 = r" "lib s2 = l" using d True k by (simp_all add: with_lib_def) auto
        moreover have "draft l1 = rules (lib s)" using 1 r1 by simp
        ultimately show ?thesis using contract_calls(4)[OF con k] 1 True by simp
      next
        case False
        then show ?thesis using d 1 r1 by auto
      qed
      obtain r3 s3 where a: "(case pset of None \<Rightarrow> (r2, s2)
          | Some ps \<Rightarrow> set_all L label (permissions ps) r2 s2) = (r3, s3)" by fastforce
      have 3: "r3 \<le> 0 \<and> rules (lib s3) = rules (lib s) \<and> (r3 = 0 \<longrightarrow>
          draft (lib s3) = new_rules label pset drop_before (rules (lib s)))"
      proof (cases pset)
        case None
        then show ?thesis using a 2 by (auto simp: new_rules_def)
      next
        case (Some ps)
        then have "set_all L label (permissions ps) r2 s2 = (r3, s3)" using a by simp
        from set_all_contract[OF con this] 2 Some show ?thesis by (auto simp: new_rules_def)
      qed
      obtain r4 l4 where le: "cynagora_leave L (r3 = 0) (lib s3) = (r4, l4)" by fastforce
      have 4: "r4 \<le> 0 \<and> rules l4 = (if r4 = 0 \<and> r3 = 0 then draft (lib s3) else rules (lib s3))"
        using contract_calls(5)[OF con le] by simp
      have le': "with_lib (cynagora_leave L (r3 = 0)) s3 = (r4, s3\<lparr>lib := l4\<rparr>)"
        by (simp add: with_lib_def le)
      have "rc = (if r4 < 0 \<and> r3 = 0 then r4 else r3)" "s' = s3\<lparr>lib := l4\<rparr>"
        using run h r0 e' r1 d a le' by (simp_all add: cynagora_set_policies_def)
      then show ?thesis using 3 4 by auto
    qed
  qed
qed

text \<open>
  A library with the contract: the rules, and the draft of the transaction. It stands in the
  witnesses for the library the daemon is linked with.
\<close>

record cyn_db =
  db_rules :: "(string \<times> string) list"
  db_draft :: "(string \<times> string) list"
  db_faults :: "int list"

definition db_call :: "(cyn_db \<Rightarrow> cyn_db) \<Rightarrow> cyn_db \<Rightarrow> int \<times> cyn_db" where
  "db_call f c = (case db_faults c of [] \<Rightarrow> (0, f c)
     | e # es \<Rightarrow> if e > 0 then (- e, c\<lparr>db_faults := es\<rparr>) else (0, f (c\<lparr>db_faults := es\<rparr>)))"

definition db_has :: "cynagora_key \<Rightarrow> cyn_db \<Rightarrow> bool" where
  "db_has k c \<longleftrightarrow> (client k, permission k) \<in> set (db_rules c)"

definition db_cynagora :: "cyn_db cynagora_lib" where
  "db_cynagora = \<lparr>cynagora_create = db_call id,
     cynagora_enter = db_call (\<lambda>c. c\<lparr>db_draft := db_rules c\<rparr>),
     cynagora_leave = (\<lambda>commit. db_call (\<lambda>c. if commit then c\<lparr>db_rules := db_draft c\<rparr> else c)),
     cynagora_set = (\<lambda>k v. db_call (\<lambda>c. c\<lparr>db_draft := (client k, permission k) # db_draft c\<rparr>)),
     cynagora_drop = (\<lambda>k. db_call (\<lambda>c. c\<lparr>db_draft := filter (\<lambda>r. fst r \<noteq> client k) (db_draft c)\<rparr>)),
     cynagora_check = (\<lambda>k f c. (if db_has k c then 1 else 0, c)),
     cynagora_get = (\<lambda>k c. (0, map (\<lambda>r. (\<lparr>client = fst r, session = INSERT_ALL, user = INSERT_ALL,
         permission = snd r\<rparr>, \<lparr>cvalue = AUTHORIZED, expire = 0\<rparr>)) (db_rules c), c))\<rparr>"

lemma db_contract: "cynagora_contract db_cynagora (\<lambda>c. set (db_rules c)) (\<lambda>c. set (db_draft c))"
  by (auto simp: cynagora_contract_def db_cynagora_def db_call_def split: list.splits if_splits)

text \<open>
  C7: over a library that keeps its documented contract, changing the policies of a label
  is atomic: when zero is returned the rules are the previous ones, without those of the
  label when a drop was asked, and with the permissions of the set for the label; when
  anything fails, at any call, an error is returned and the rules are unchanged.
\<close>

theorem set_policies_atomic:
  assumes "cynagora_contract L rules draft"
    and "cynagora_set_policies L label pset drop_before s = (rc, s')"
  shows "rc \<le> 0 \<and> rules (lib s') =
    (if rc = 0 then new_rules label pset drop_before (rules (lib s)) else rules (lib s))"
  using assms by (rule set_policies_contract)

text \<open>The second run fails in its second \<open>cynagora_set\<close>.\<close>

theorem set_policies_atomic_witness:
  "(let s = \<lparr>handler = True, lib = \<lparr>db_rules = [(''App:a'', ''old''), (''App:b'', ''x'')], db_draft = [],
              db_faults = []\<rparr>\<rparr>;
        ps = \<lparr>permissions = [''p'', ''q''], slots = 8\<rparr>
    in set (db_rules (lib (snd (cynagora_set_policies db_cynagora ''App:a'' (Some ps) True s)))) =
         {(''App:b'', ''x''), (''App:a'', ''p''), (''App:a'', ''q'')}
       \<and> set (db_rules (lib (snd (cynagora_set_policies db_cynagora ''App:a'' (Some ps) True
             (s\<lparr>lib := (lib s)\<lparr>db_faults := [0, 0, 0, 12]\<rparr>\<rparr>))))) =
         {(''App:a'', ''old''), (''App:b'', ''x'')})"
proof -
  define s where "s = \<lparr>handler = True, lib = \<lparr>db_rules = [(''App:a'', ''old''), (''App:b'', ''x'')],
      db_draft = [], db_faults = []\<rparr>\<rparr>"
  define t where "t = s\<lparr>lib := (lib s)\<lparr>db_faults := [0, 0, 0, 12]\<rparr>\<rparr>"
  define ps where "ps = \<lparr>permissions = [''p'', ''q''], slots = 8\<rparr>"
  have rc: "fst (cynagora_set_policies db_cynagora ''App:a'' (Some ps) True s) = 0"
    "fst (cynagora_set_policies db_cynagora ''App:a'' (Some ps) True t) = - 12"
    unfolding s_def t_def ps_def by code_simp+
  have 1: "set (db_rules (lib (snd (cynagora_set_policies db_cynagora ''App:a'' (Some ps) True s)))) =
      new_rules ''App:a'' (Some ps) True (set (db_rules (lib s)))"
    using set_policies_atomic[OF db_contract, of "''App:a''" "Some ps" True s] rc(1)
    by (metis prod.collapse)
  have 2: "set (db_rules (lib (snd (cynagora_set_policies db_cynagora ''App:a'' (Some ps) True t)))) =
      set (db_rules (lib t))"
    using set_policies_atomic[OF db_contract, of "''App:a''" "Some ps" True t] rc(2)
    by (metis prod.collapse neg_equal_0_iff_equal zero_neq_numeral)
  have 3: "set (db_rules (lib s)) = {(''App:a'', ''old''), (''App:b'', ''x'')}" by (simp add: s_def)
  have 4: "new_rules ''App:a'' (Some ps) True {(''App:a'', ''old''), (''App:b'', ''x'')} =
      {(''App:b'', ''x''), (''App:a'', ''p''), (''App:a'', ''q'')}"
    by (auto simp: new_rules_def ps_def)
  have 5: "set (db_rules (lib t)) = {(''App:a'', ''old''), (''App:b'', ''x'')}" by (simp add: t_def s_def)
  show ?thesis
    unfolding Let_def s_def[symmetric] ps_def[symmetric] t_def[symmetric] using 1 2 3 4 5 by simp
qed

end
