(* ===== verification/Action.thy ===== *)
theory Action
  imports Context_Inv Perm_Mgr
begin

text \<open>
  \<open>src/action/action.c\<close>: what install and uninstall do with a session. The state \<open>'w\<close> is
  what the permission manager and the mandatory access control act on. \<open>host\<close> gathers what
  the daemon is linked with: the default permission manager (\<open>cynagora_itf\<close>) and the
  functions of \<open>src/action/mac-interface.h\<close>. A label is read in a state, since the one of
  SELinux holds what the memory holds.
\<close>

record 'w mac_itf =
  mac_install :: "'w perm_mgr_itf ctx \<Rightarrow> 'w \<Rightarrow> int \<times> 'w"
  mac_uninstall :: "'w perm_mgr_itf ctx \<Rightarrow> 'w \<Rightarrow> int \<times> 'w"
  mac_get_label :: "string \<Rightarrow> 'w \<Rightarrow> string"

record 'w host =
  default_permgr :: "'w perm_mgr_itf"
  mac :: "'w mac_itf"

definition the_permgr :: "'w host \<Rightarrow> 'w perm_mgr_itf ctx \<Rightarrow> 'w perm_mgr_itf" where
  "the_permgr H c = (case permgr c of None \<Rightarrow> default_permgr H | Some p \<Rightarrow> p)"

section \<open>Checks\<close>

abbreviation (input) perm_public_plug :: string where
  "perm_public_plug \<equiv> ''urn:redpesk:permission::public:plugs''"

text \<open>\<open>snprintf (permission, sizeof permission, perm_export_template, impid, scope)\<close>\<close>

definition export_permission :: "string \<Rightarrow> int \<Rightarrow> string" where
  "export_permission iid sts =
     snd (snprintf 249 (''urn:redpesk:permission:'' @ iid @ '':''
       @ (if sts \<noteq> 0 then ''public'' else ''partner'') @ '':export:plug''))"

fun check_plugs ::
  "'w host \<Rightarrow> 'w perm_mgr_itf ctx \<Rightarrow> plug list \<Rightarrow> int \<Rightarrow> 'w \<Rightarrow> int \<times> 'w" where
  "check_plugs H c [] rc w = (rc, w)"
| "check_plugs H c (p # ps) rc w =
     (let label = mac_get_label (mac H) (impid p) w
      in case check_permission (the_permgr H c) label perm_public_plug w of (sts, w) \<Rightarrow>
           let sts = (if sts < 0 then sts
                      else if context_has_permission c (export_permission (impid p) sts) then 1
                      else - EPERM)
           in check_plugs H c ps (if sts < 0 \<and> rc = 0 then sts else rc) w)"

definition check_plug_installable :: "'w host \<Rightarrow> 'w perm_mgr_itf ctx \<Rightarrow> 'w \<Rightarrow> int \<times> 'w" where
  "check_plug_installable H c w = check_plugs H c (plugset c) 0 w"

text \<open>The result is the label when the context is valid.\<close>

definition check_context :: "'w host \<Rightarrow> 'w perm_mgr_itf ctx \<Rightarrow> 'w \<Rightarrow> int + string" where
  "check_context H c w =
     (if error_flag c then Inl (- ENOTRECOVERABLE)
      else if \<not> has_id c \<and> need_id c then Inl (- EINVAL)
      else Inr (mac_get_label (mac H) (context_id c) w))"

section \<open>Install and uninstall\<close>

definition action_install :: "'w host \<Rightarrow> 'w perm_mgr_itf ctx \<Rightarrow> 'w \<Rightarrow> int \<times> 'w" where
  "action_install H c w =
     (case check_context H c w of
        Inl rc \<Rightarrow> (rc, w)
      | Inr label \<Rightarrow>
          (case check_plug_installable H c w of (rc, w) \<Rightarrow>
             if rc < 0 then (rc, w)
             else case (if has_id c
                        then add_permissions (the_permgr H c) label (Some (permission_set c)) True w
                        else (rc, w)) of (rc, w) \<Rightarrow>
               if has_id c \<and> rc < 0 then (rc, w)
               else case mac_install (mac H) c w of (rc, w) \<Rightarrow>
                 if rc < 0 then
                   (if has_id c
                    then (case drop_permissions (the_permgr H c) label w of (rc2, w) \<Rightarrow> (rc, w))
                    else (rc, w))
                 else (0, w)))"

definition action_uninstall :: "'w host \<Rightarrow> 'w perm_mgr_itf ctx \<Rightarrow> 'w \<Rightarrow> int \<times> 'w" where
  "action_uninstall H c w =
     (case check_context H c w of
        Inl rc \<Rightarrow> (rc, w)
      | Inr label \<Rightarrow>
          (case (if has_id c then drop_permissions (the_permgr H c) label w else (0, w)) of (rc, w) \<Rightarrow>
             if rc < 0 then (rc, w)
             else case mac_uninstall (mac H) c w of (rc, w) \<Rightarrow>
               if rc < 0 then (rc, w) else (0, w)))"

section \<open>The name of the permission\<close>

lemma export_permission_full:
  "length iid \<le> MAX_SIZE_ID \<Longrightarrow>
   export_permission iid sts = ''urn:redpesk:permission:'' @ iid @ '':''
     @ (if sts \<noteq> 0 then ''public'' else ''partner'') @ '':export:plug''"
proof -
  let ?t = "''urn:redpesk:permission:'' @ iid @ '':'' @ (if sts \<noteq> 0 then ''public'' else ''partner'')
     @ '':export:plug''"
  assume "length iid \<le> MAX_SIZE_ID"
  then have "length ?t \<le> 248" by simp
  then have "take 248 ?t = ?t" by (rule take_all)
  then show ?thesis by (simp only: export_permission_def snprintf_def snd_conv) simp
qed

section \<open>The gate on plugs\<close>

lemma check_plugs_keeps_error: "rc < 0 \<Longrightarrow> fst (check_plugs H c ps rc w) = rc"
  by (induction ps arbitrary: w) (auto simp: Let_def split: prod.splits)

lemma check_plugs_rc: "rc \<le> 0 \<Longrightarrow> fst (check_plugs H c ps rc w) \<le> 0"
  by (induction ps arbitrary: rc w) (auto simp: Let_def split: prod.splits)

text \<open>What one plug must show: its check has not failed, and the context has the permission.\<close>

definition plug_allowed :: "'w host \<Rightarrow> 'w perm_mgr_itf ctx \<Rightarrow> plug \<Rightarrow> bool" where
  "plug_allowed H c p \<longleftrightarrow> (\<exists>w1 sts w2.
     check_permission (the_permgr H c) (mac_get_label (mac H) (impid p) w1) perm_public_plug w1 = (sts, w2)
     \<and> 0 \<le> sts \<and> context_has_permission c (export_permission (impid p) sts))"

lemma check_plugs_allowed:
  "check_plugs H c ps 0 w = (0, w') \<Longrightarrow> p \<in> set ps \<Longrightarrow> plug_allowed H c p"
proof (induction ps arbitrary: w)
  case (Cons q ps)
  obtain sts w1 where s: "check_permission (the_permgr H c) (mac_get_label (mac H) (impid q) w)
      perm_public_plug w = (sts, w1)" by fastforce
  let ?s = "if sts < 0 then sts else if context_has_permission c (export_permission (impid q) sts)
      then 1 else - EPERM"
  have run: "check_plugs H c ps (if ?s < 0 then ?s else 0) w1 = (0, w')"
    using Cons.prems(1) s by (simp add: Let_def)
  have ok: "\<not> ?s < 0"
  proof
    assume neg: "?s < 0"
    then have "fst (check_plugs H c ps ?s w1) = ?s" by (rule check_plugs_keeps_error)
    then show False using run neg by simp
  qed
  then have "check_plugs H c ps 0 w1 = (0, w')" using run by simp
  moreover have "plug_allowed H c q"
    unfolding plug_allowed_def
    by (intro exI[of _ w] exI[of _ sts] exI[of _ w1]) (use ok s in \<open>auto split: if_splits\<close>)
  ultimately show ?case using Cons.IH Cons.prems(2) by auto
qed simp

lemma install_allowed:
  assumes "action_install H c w = (0, w')" "p \<in> set (plugset c)"
  shows "plug_allowed H c p"
proof -
  obtain rc w1 where r: "check_plug_installable H c w = (rc, w1)" by fastforce
  have "rc = 0"
    using assms(1) r check_plugs_rc[of 0 H c "plugset c" w]
    by (auto simp: action_install_def check_plug_installable_def check_context_def
        split: sum.splits if_splits)
  then show ?thesis using r check_plugs_allowed assms(2) by (auto simp: check_plug_installable_def)
qed

text \<open>
  C4: nothing is installed without the right to export: when an installation succeeds,
  for every plug of the session the permission manager could say whether the importer
  accepts public plugs, and the session holds the permission
  \<open>urn:redpesk:permission:<importer>:<scope>:export:plug\<close> for the scope that follows from it.
\<close>

theorem install_requires_export_permission:
  assumes "action_install H c w = (0, w')" "p \<in> set (plugset c)"
  shows "\<exists>w1 sts w2.
     check_permission (the_permgr H c) (mac_get_label (mac H) (impid p) w1) perm_public_plug w1 = (sts, w2)
     \<and> 0 \<le> sts \<and> context_has_permission c (export_permission (impid p) sts)"
  using install_allowed[OF assms] unfolding plug_allowed_def .

section \<open>Failures and rollback\<close>

text \<open>A host for the concrete instances: the offline manager and a MAC that can fail.\<close>

definition demo_host :: "bool \<Rightarrow> string host" where
  "demo_host ok = \<lparr>default_permgr = offline_itf,
     mac = \<lparr>mac_install = (\<lambda>c w. (if ok then 0 else - EACCES, w @ ''I'')),
            mac_uninstall = (\<lambda>c w. (if ok then 0 else - EACCES, w @ ''U'')),
            mac_get_label = (\<lambda>i w. ''App:'' @ i)\<rparr>\<rparr>"

definition demo_ctx :: "string perm_mgr_itf ctx" where
  "demo_ctx = \<lparr>id_array = ''demo'' @ replicate 197 NUL,
     permission_set = \<lparr>permissions = [''urn:redpesk:permission:imp:public:export:plug''], slots = 8\<rparr>,
     path_set = [], plugset = [\<lparr>expdir = ''/e'', impid = ''imp'', impdir = ''/i''\<rparr>],
     need_id = True, error_flag = False, permgr = None\<rparr>"

theorem install_requires_export_permission_witness:
  "\<exists>w1 sts w2. check_permission offline_itf ''App:imp'' perm_public_plug w1 = (sts, w2) \<and> 0 \<le> sts
     \<and> context_has_permission demo_ctx (export_permission ''imp'' sts)"
proof -
  have "fst (action_install (demo_host True) demo_ctx []) = 0" by code_simp
  then obtain w' where r: "action_install (demo_host True) demo_ctx [] = (0, w')"
    by (metis prod.collapse)
  have "\<lparr>expdir = ''/e'', impid = ''imp'', impdir = ''/i''\<rparr> \<in> set (plugset demo_ctx)"
    by (simp add: demo_ctx_def)
  from install_requires_export_permission[OF r this]
  show ?thesis by (simp add: the_permgr_def demo_host_def demo_ctx_def)
qed

lemma check_plugs_frame:
  assumes "\<And>l q w s w1. check_permission (the_permgr H c) l q w = (s, w1) \<Longrightarrow> P w1 = P w"
  shows "P (snd (check_plugs H c ps rc w)) = P w"
proof (induction ps arbitrary: rc w)
  case (Cons p ps)
  obtain s w1 where "check_permission (the_permgr H c) (mac_get_label (mac H) (impid p) w)
      perm_public_plug w = (s, w1)" by fastforce
  then show ?case using Cons.IH assms[of _ _ w s w1] by (simp add: Let_def)
qed simp

text \<open>
  C6: an installation that is refused before it starts changes nothing that checking
  permissions does not change: with the error flag raised it is \<open>ENOTRECOVERABLE\<close>, with a
  missing identifier it is \<open>EINVAL\<close>, with a plug that is not allowed it is the error of the
  first such plug, and neither the permissions nor the MAC are touched.
\<close>

theorem refused_install_changes_nothing:
  assumes "\<And>l q w s w1. check_permission (the_permgr H c) l q w = (s, w1) \<Longrightarrow> P w1 = P w"
    and "error_flag c \<or> \<not> has_id c \<and> need_id c \<or> fst (check_plug_installable H c w) < 0"
  shows "P (snd (action_install H c w)) = P w
    \<and> fst (action_install H c w) =
        (if error_flag c then - ENOTRECOVERABLE else if \<not> has_id c \<and> need_id c then - EINVAL
         else fst (check_plug_installable H c w))"
proof (cases "error_flag c \<or> \<not> has_id c \<and> need_id c")
  case True
  then show ?thesis by (auto simp: action_install_def check_context_def)
next
  case False
  then have neg: "fst (check_plug_installable H c w) < 0" using assms(2) by blast
  obtain rc w1 where r: "check_plug_installable H c w = (rc, w1)" by fastforce
  have "P (snd (check_plugs H c (plugset c) 0 w)) = P w"
    by (rule check_plugs_frame) (rule assms(1))
  then have "P w1 = P w" using r by (simp add: check_plug_installable_def)
  then show ?thesis using False neg r by (auto simp: action_install_def check_context_def)
qed

theorem refused_install_changes_nothing_witness:
  "action_install (demo_host True) (demo_ctx\<lparr>permission_set := \<lparr>permissions = [], slots = 0\<rparr>\<rparr>) ''out'' =
     (- EPERM, ''out'')"
proof -
  let ?c = "demo_ctx\<lparr>permission_set := \<lparr>permissions = [], slots = 0\<rparr>\<rparr>"
  have neg: "fst (check_plug_installable (demo_host True) ?c ''out'') = - EPERM" by code_simp
  have fr: "w1 = w" if "check_permission (the_permgr (demo_host True) ?c) l q w = (s, w1)" for l q w s w1
    using that by (simp add: the_permgr_def demo_host_def demo_ctx_def offline_itf_def offline_check_def)
  have "\<not> error_flag ?c" "has_id ?c" by (simp_all add: demo_ctx_def has_id_def rd_def)
  then have "fst (action_install (demo_host True) ?c ''out'') = - EPERM"
    "snd (action_install (demo_host True) ?c ''out'') = ''out''"
    using refused_install_changes_nothing[where P = id and H = "demo_host True" and c = ?c and w = "''out''"]
      fr neg by auto
  then show ?thesis by (metis prod.collapse)
qed






end
