(* ===== verification/Machine.thy ===== *)
theory Machine
  imports Action File_Utils
begin

text \<open>
  The whole state a daemon acts on: the operating system, the permission database with the
  handler of its client, what the offline mode prints, and the state of the mandatory access
  control of the kernel. The permission managers and the contract of
  \<open>src/action/mac-interface.h\<close> are taken to this state.
\<close>

record ('c, 'm) machine = os +
  cyn_state :: "'c cyn"
  printed :: string
  mac_state :: 'm

definition on_cyn :: "('c cyn \<Rightarrow> int \<times> 'c cyn) \<Rightarrow> ('c, 'm) machine \<Rightarrow> int \<times> ('c, 'm) machine" where
  "on_cyn f w = (case f (cyn_state w) of (rc, s) \<Rightarrow> (rc, w\<lparr>cyn_state := s\<rparr>))"

definition on_printed :: "(string \<Rightarrow> int \<times> string) \<Rightarrow> ('c, 'm) machine \<Rightarrow> int \<times> ('c, 'm) machine" where
  "on_printed f w = (case f (printed w) of (rc, s) \<Rightarrow> (rc, w\<lparr>printed := s\<rparr>))"

definition on_mac :: "('m \<Rightarrow> int \<times> 'm) \<Rightarrow> ('c, 'm) machine \<Rightarrow> int \<times> ('c, 'm) machine" where
  "on_mac f w = (case f (mac_state w) of (rc, s) \<Rightarrow> (rc, w\<lparr>mac_state := s\<rparr>))"

text \<open>A manager over a part of the state, as one over the whole.\<close>

definition lift_itf ::
  "(('s \<Rightarrow> int \<times> 's) \<Rightarrow> 'w \<Rightarrow> int \<times> 'w) \<Rightarrow> 's perm_mgr_itf \<Rightarrow> 'w perm_mgr_itf" where
  "lift_itf on itf = \<lparr>add_permissions = (\<lambda>l ps d. on (add_permissions itf l ps d)),
     drop_permissions = (\<lambda>l. on (drop_permissions itf l)),
     check_permission = (\<lambda>l p. on (check_permission itf l p))\<rparr>"

definition machine_cynagora :: "'c cynagora_lib \<Rightarrow> ('c, 'm) machine perm_mgr_itf" where
  "machine_cynagora L = lift_itf on_cyn (cynagora_itf L)"

definition machine_offline :: "('c, 'm) machine perm_mgr_itf" where
  "machine_offline = lift_itf on_printed offline_itf"

lemma on_rest:
  "on_cyn f w = (rc, w') \<Longrightarrow> fs w' = fs w \<and> faults w' = faults w \<and> mac_state w' = mac_state w"
  "on_printed g w = (rc, w') \<Longrightarrow> fs w' = fs w \<and> faults w' = faults w \<and> mac_state w' = mac_state w"
  by (auto simp: on_cyn_def on_printed_def split: prod.splits)

context perm_mgr
begin

lemma lift_cyn_ranges:
  assumes "\<And>f w rc w'. on f w = (rc, w') \<Longrightarrow> \<exists>s s'. f s = (rc, s')"
  shows "perm_mgr (lift_itf on itf)"
proof
  show "rc \<le> 0" if "add_permissions (lift_itf on itf) l ps d w = (rc, w')" for l ps d w rc w'
    using that assms[of "add_permissions itf l ps d" w rc w'] add_range by (auto simp: lift_itf_def)
  show "rc \<le> 0" if "drop_permissions (lift_itf on itf) l w = (rc, w')" for l w rc w'
    using that assms[of "drop_permissions itf l" w rc w'] drop_range by (auto simp: lift_itf_def)
  show "rc \<le> 1" if "check_permission (lift_itf on itf) l p w = (rc, w')" for l p w rc w'
    using that assms[of "check_permission itf l p" w rc w'] check_range by (auto simp: lift_itf_def)
qed

end

interpretation moffline: perm_mgr "machine_offline :: ('c, 'm) machine perm_mgr_itf"
  unfolding machine_offline_def
  by (rule offline.lift_cyn_ranges) (auto simp: on_printed_def split: prod.splits)

interpretation msim: perm_mgr "machine_cynagora sim_cynagora :: (unit, 'm) machine perm_mgr_itf"
  unfolding machine_cynagora_def
  by (rule sim_cyn.lift_cyn_ranges) (auto simp: on_cyn_def split: prod.splits)

section \<open>The contract of the MAC\<close>

text \<open>
  What \<open>action.c\<close> relies on: installing and uninstalling return zero or an error, and a
  label fits its array.
\<close>

locale mac_provider =
  fixes M :: "'w mac_itf"
  assumes install_range: "mac_install M c w = (rc, w') \<Longrightarrow> rc \<le> 0"
    and uninstall_range: "mac_uninstall M c w = (rc, w') \<Longrightarrow> rc \<le> 0"
    and label_fits: "length (mac_get_label M i w) \<le> MAX_SIZE_LABEL"
begin

text \<open>Over any permission manager, the actions return zero or an error, as documented.\<close>

lemma action_install_range:
  assumes "mac H = M"
  shows "fst (action_install H c w) \<le> 0"
proof -
  have m: "fst (mac_install M c v) \<le> 0" for v
    using install_range[of c v] by (metis prod.collapse)
  have k: "fst (check_plugs H c (plugset c) 0 w) \<le> 0" by (rule check_plugs_rc) simp
  show ?thesis
    using m by (auto simp: action_install_def check_context_def assms split: prod.splits)
qed

lemma action_uninstall_range:
  assumes "mac H = M"
  shows "fst (action_uninstall H c w) \<le> 0"
proof -
  have m: "fst (mac_uninstall M c v) \<le> 0" for v
    using uninstall_range[of c v] by (metis prod.collapse)
  show ?thesis
    using m by (auto simp: action_uninstall_def check_context_def assms split: prod.splits)
qed

end

end
