(* ===== verification/Smack.thy ===== *)
theory Smack
  imports Machine Template
begin

text \<open>
  \<open>src/lsm-smack\<close>: rules, labels and plug links of an application under Smack. The library
  \<open>libsmack\<close> is a parameter; its simulation of \<open>src/simulation/smack/smack.c\<close> is an
  instance. The environment variables and the configured defaults are gathered in
  \<open>smack_env\<close>.
\<close>

abbreviation (input) XATTR_NAME_SMACK :: string where "XATTR_NAME_SMACK \<equiv> ''security.SMACK64''"
abbreviation (input) XATTR_NAME_SMACKEXEC :: string where
  "XATTR_NAME_SMACKEXEC \<equiv> ''security.SMACK64EXEC''"
abbreviation (input) XATTR_NAME_SMACKTRANSMUTE :: string where
  "XATTR_NAME_SMACKTRANSMUTE \<equiv> ''security.SMACK64TRANSMUTE''"
abbreviation (input) DROP_LABEL :: string where "DROP_LABEL \<equiv> ''User:Home''"
abbreviation (input) PATH_MAX :: nat where "PATH_MAX \<equiv> 4096"

section \<open>Parameters\<close>

text \<open>Calls of \<open>sys/smack.h\<close>: \<open>'a\<close> is an accesses handle, \<open>'m\<close> the state of the kernel.\<close>

record ('a, 'm) smack_lib =
  smack_smackfs_path :: "'m \<Rightarrow> bool" \<comment> \<open>not NULL\<close>
  smack_accesses_new :: "'m \<Rightarrow> (int \<times> 'a) \<times> 'm"
  smack_accesses_add_from_file :: "'a \<Rightarrow> string \<Rightarrow> 'm \<Rightarrow> (int \<times> 'a) \<times> 'm"
  smack_accesses_apply :: "'a \<Rightarrow> 'm \<Rightarrow> int \<times> 'm"
  smack_accesses_clear :: "'a \<Rightarrow> 'm \<Rightarrow> int \<times> 'm"

record smack_env =
  env_template_file :: "string option"
  env_policy_dir :: "string option"

definition sim_smack :: "(int, int) smack_lib" where
  "sim_smack = \<lparr>smack_smackfs_path = (\<lambda>p. True), smack_accesses_new = (\<lambda>p. ((0, p + 1), p + 1)),
     smack_accesses_add_from_file = (\<lambda>h t p. ((0, h), p)), smack_accesses_apply = (\<lambda>h p. (0, p)),
     smack_accesses_clear = (\<lambda>h p. (0, p))\<rparr>"

section \<open>\<open>smack-template.c\<close>\<close>

definition get_smack_template_file :: "smack_env \<Rightarrow> string option \<Rightarrow> string" where
  "get_smack_template_file env value =
     (case value of Some v \<Rightarrow> v
      | None \<Rightarrow> (case env_template_file env of Some v \<Rightarrow> v
                 | None \<Rightarrow> ''/usr/share/sec-lsm-manager/app-template.smack''))"

definition get_smack_policy_dir :: "smack_env \<Rightarrow> string option \<Rightarrow> string" where
  "get_smack_policy_dir env value =
     (case value of Some v \<Rightarrow> v
      | None \<Rightarrow> (case env_policy_dir env of Some v \<Rightarrow> v | None \<Rightarrow> ''/etc/smack/accesses.d''))"

definition get_smack_rule_path :: "smack_env \<Rightarrow> string \<Rightarrow> int \<times> string" where
  "get_smack_rule_path env i =
     (let (len, rule_path) = snprintf (MAX_SIZE_PATH + 1)
            (get_smack_policy_dir env None @ ''/'' @ i @ ''.smack'')
      in (if len > int MAX_SIZE_PATH then - ENAMETOOLONG else len, rule_path))"

definition smack_enabled :: "('a, 'm) smack_lib \<Rightarrow> ('c, 'm) machine \<Rightarrow> bool" where
  "smack_enabled L w = smack_smackfs_path L (mac_state w)"

record path_type_definition =
  label :: string
  is_executable :: bool
  is_transmute :: bool

text \<open>The table \<open>patterns\<close>: the text of the label for an identifier, executable, transmute.\<close>

fun patterns :: "path_type \<Rightarrow> string \<Rightarrow> string \<times> bool \<times> bool" where
  "patterns type_conf i = (''App:'' @ i @ '':Conf'', False, False)"
| "patterns type_data i = (''App:'' @ i @ '':Data'', False, True)"
| "patterns type_exec i = (''App:'' @ i @ '':Exec'', True, False)"
| "patterns type_http i = (''App:'' @ i @ '':Http'', False, True)"
| "patterns type_icon i = (''App:'' @ i @ '':Icon'', False, False)"
| "patterns type_id i = (''App:'' @ i, False, True)"
| "patterns type_lib i = (''App:'' @ i @ '':Lib'', False, True)"
| "patterns type_plug i = (''App:'' @ i @ '':Plug'', False, False)"
| "patterns type_public i = (''System:Shared'', False, True)"
| "patterns _ i = ([], False, False)"

definition init_path_type_definitions :: "string \<Rightarrow> path_type \<Rightarrow> path_type_definition" where
  "init_path_type_definitions i t =
     (case patterns t i of (l, x, tr) \<Rightarrow>
        \<lparr>label = snd (snprintf MAX_SIZE_LABEL l), is_executable = x, is_transmute = tr\<rparr>)"

definition accesses_of_file ::
  "('a, 'm) smack_lib \<Rightarrow> string \<Rightarrow> ('c, 'm) machine \<Rightarrow> (int \<times> 'a option) \<times> ('c, 'm) machine" where
  "accesses_of_file L text w =
     (case smack_accesses_new L (mac_state w) of ((rc, a), m) \<Rightarrow>
        if rc < 0 then ((rc, None), w\<lparr>mac_state := m\<rparr>)
        else case smack_accesses_add_from_file L a text m of ((rc, a), m) \<Rightarrow>
          ((rc, Some a), w\<lparr>mac_state := m\<rparr>))"

definition remove_load_rules ::
  "('a, 'm) smack_lib \<Rightarrow> string \<Rightarrow> ('c, 'm) machine \<Rightarrow> int \<times> ('c, 'm) machine" where
  "remove_load_rules L file w =
     (case sys_open file w of
        (Inl e, w) \<Rightarrow> (- e, w)
      | (Inr f, w) \<Rightarrow>
          (case accesses_of_file L (content f) w of ((rc, a), w) \<Rightarrow>
             if rc < 0 then (rc, w)
             else case a of None \<Rightarrow> (rc, w) | Some a \<Rightarrow> on_mac (smack_accesses_clear L a) w))"

definition create_smack_rules ::
  "('a, 'm) smack_lib \<Rightarrow> smack_env \<Rightarrow> 'p ctx \<Rightarrow> ('c, 'm) machine \<Rightarrow> int \<times> ('c, 'm) machine" where
  "create_smack_rules L env c w =
     (case get_smack_rule_path env (context_id c) of (rc, file) \<Rightarrow>
        if rc < 0 then (rc, w)
        else case template_process (get_smack_template_file env None) file c w of (rc, w) \<Rightarrow>
          if rc < 0 then (rc, w)
          else
            (case (case sys_open file w of
                     (Inl e, w) \<Rightarrow> (- e, w)
                   | (Inr f, w) \<Rightarrow>
                       (case accesses_of_file L (content f) w of ((rc, a), w) \<Rightarrow>
                          if rc < 0 then (rc, w)
                          else if smack_enabled L w then
                            (case a of None \<Rightarrow> (rc, w) | Some a \<Rightarrow> on_mac (smack_accesses_apply L a) w)
                          else (rc, w))) of (rc, w) \<Rightarrow>
               if rc < 0 then (rc, snd (sys_remove file w)) else (rc, w)))"

definition remove_smack_rules ::
  "('a, 'm) smack_lib \<Rightarrow> smack_env \<Rightarrow> 'p ctx \<Rightarrow> ('c, 'm) machine \<Rightarrow> int \<times> ('c, 'm) machine" where
  "remove_smack_rules L env c w =
     (case get_smack_rule_path env (context_id c) of (rc, file) \<Rightarrow>
        if rc < 0 then (rc, w)
        else
          let w = (if smack_enabled L w then snd (remove_load_rules L file w) else w)
          in remove_file file w)"

section \<open>\<open>smack.c\<close>: labels\<close>

definition unset_path_labels :: "string \<Rightarrow> 'z wstate \<Rightarrow> int \<times> 'z wstate" where
  "unset_path_labels p w =
     (case get_path_property p False w of (pp, w) \<Rightarrow>
        if pp < 0 then (pp, w)
        else case unset_xattr p XATTR_NAME_SMACK w of (rc, w) \<Rightarrow>
          case unset_xattr p XATTR_NAME_SMACKEXEC w of (rc2, w) \<Rightarrow>
            let rc = (if rc2 < 0 then (if rc < 0 then rc else rc2) else rc)
            in case unset_xattr p XATTR_NAME_SMACKTRANSMUTE w of (rc2, w) \<Rightarrow>
              (if rc2 < 0 then (if rc < 0 \<or> pp \<noteq> PATH_DIRECTORY then rc else rc2) else rc, w))"

definition put_xattr :: "string \<Rightarrow> string \<Rightarrow> string option \<Rightarrow> 'z wstate \<Rightarrow> int \<times> 'z wstate" where
  "put_xattr p xattr value w =
     (case value of
        None \<Rightarrow> unset_xattr p xattr w
      | Some v \<Rightarrow> if v \<noteq> [] then set_xattr p xattr v w else unset_xattr p xattr w)"

text \<open>As the code has it, the status of the execution label is tested under the first one's.\<close>

definition smack_set_path_labels ::
  "string \<Rightarrow> string \<Rightarrow> string option \<Rightarrow> bool \<Rightarrow> 'z wstate \<Rightarrow> int \<times> 'z wstate" where
  "smack_set_path_labels p lab execlabel transmute w =
     (case put_xattr p XATTR_NAME_SMACK (Some lab) w of (rc, w) \<Rightarrow>
        case put_xattr p XATTR_NAME_SMACKEXEC execlabel w of (rc2, w) \<Rightarrow>
          let rc = (if rc < 0 then (if rc < 0 then rc else rc2) else rc)
          in case put_xattr p XATTR_NAME_SMACKTRANSMUTE (if transmute then Some ''TRUE'' else None) w of
            (rc2, w) \<Rightarrow>
              (if rc2 < 0 then (if rc < 0 \<or> \<not> transmute then rc else rc2) else rc, w))"

text \<open>The loop of \<open>label_all_paths\<close>.\<close>

fun label_paths ::
  "(path_type \<Rightarrow> path_type_definition) \<Rightarrow> bool \<Rightarrow> path_t list \<Rightarrow> 'z wstate \<Rightarrow> int \<times> 'z wstate" where
  "label_paths defs set_it [] w = (0, w)"
| "label_paths defs set_it (i # is) w =
     (let def = defs (path_type i); exec_label = label (defs type_id)
      in case get_path_property (path i) False w of (pp, w) \<Rightarrow>
           case (if pp < 0 then (pp, w)
                 else if \<not> set_it then unset_path_labels (path i) w
                 else smack_set_path_labels (path i) (label def)
                        (if pp = PATH_FILE_EXEC \<and> is_executable def then Some exec_label else None)
                        (pp = PATH_DIRECTORY \<and> is_transmute def) w) of
             (rc, w) \<Rightarrow> if rc < 0 then (rc, w) else label_paths defs set_it is w)"

definition label_all_paths :: "'p ctx \<Rightarrow> bool \<Rightarrow> 'z wstate \<Rightarrow> int \<times> 'z wstate" where
  "label_all_paths c set_it w =
     label_paths (init_path_type_definitions (context_id c)) set_it (path_set c) w"

fun drop_labels :: "path_t list \<Rightarrow> 'z wstate \<Rightarrow> int \<times> 'z wstate" where
  "drop_labels [] w = (0, w)"
| "drop_labels (i # is) w =
     (case smack_set_path_labels (path i) DROP_LABEL None False w of (rc, w) \<Rightarrow>
        if rc < 0 then (rc, w) else drop_labels is w)"

definition smack_drop_path_labels :: "'p ctx \<Rightarrow> 'z wstate \<Rightarrow> int \<times> 'z wstate" where
  "smack_drop_path_labels c w = drop_labels (path_set c) w"

definition smack_get_label :: "string \<Rightarrow> string" where
  "smack_get_label appid = take MAX_SIZE_ID (snd (snprintf MAX_SIZE_LABEL (''App:'' @ appid)))"

section \<open>\<open>smack.c\<close>: plugs\<close>

text \<open>\<open>snprintf (buffer, sizeof buffer, "%s/%s", impdir, id)\<close> and its test.\<close>

definition plug_link :: "plug \<Rightarrow> string \<Rightarrow> int \<times> string" where
  "plug_link p i =
     (let (rc, buffer) = snprintf (PATH_MAX + 1) (impdir p @ ''/'' @ i)
      in (if rc > int PATH_MAX then - ENAMETOOLONG else rc, buffer))"

fun install_plugs :: "string \<Rightarrow> plug list \<Rightarrow> int \<Rightarrow> 'z wstate \<Rightarrow> int \<times> 'z wstate" where
  "install_plugs i [] rc w = (rc, w)"
| "install_plugs i (p # ps) rc w =
     (case plug_link p i of (rc2, buffer) \<Rightarrow>
        case (if rc2 < 0 then (rc2, w)
              else case sys_symlink (expdir p) buffer w of (rc2, w) \<Rightarrow>
                if rc2 < 0 then (rc2, w)
                else set_xattr buffer XATTR_NAME_SMACK (smack_get_label i) w) of
          (rc2, w) \<Rightarrow> install_plugs i ps (if rc2 < 0 \<and> rc = 0 then rc2 else rc) w)"

definition install_smack_plugs :: "'p ctx \<Rightarrow> 'z wstate \<Rightarrow> int \<times> 'z wstate" where
  "install_smack_plugs c w = install_plugs (context_id c) (plugset c) 0 w"

fun uninstall_plugs :: "string \<Rightarrow> plug list \<Rightarrow> int \<Rightarrow> 'z wstate \<Rightarrow> int \<times> 'z wstate" where
  "uninstall_plugs i [] rc w = (rc, w)"
| "uninstall_plugs i (p # ps) rc w =
     (case plug_link p i of (rc2, buffer) \<Rightarrow>
        case (if rc2 < 0 then (rc2, w)
              else case sys_unlink buffer w of (rc2, w) \<Rightarrow>
                (if rc2 = - ENOENT then 0 else rc2, w)) of
          (rc2, w) \<Rightarrow> uninstall_plugs i ps (if rc2 < 0 \<and> rc = 0 then rc2 else rc) w)"

definition uninstall_smack_plugs :: "'p ctx \<Rightarrow> 'z wstate \<Rightarrow> int \<times> 'z wstate" where
  "uninstall_smack_plugs c w = uninstall_plugs (context_id c) (plugset c) 0 w"

section \<open>\<open>smack.c\<close>: install and uninstall\<close>

definition force_uninstall_smack ::
  "('a, 'm) smack_lib \<Rightarrow> smack_env \<Rightarrow> 'p ctx \<Rightarrow> ('c, 'm) machine \<Rightarrow> int \<times> ('c, 'm) machine" where
  "force_uninstall_smack L env c w =
     (case smack_drop_path_labels c w of (rc, w) \<Rightarrow>
        if has_id c then
          (case uninstall_smack_plugs c w of (rc2, w) \<Rightarrow>
             let rc = (if rc2 < 0 then rc2 else rc)
             in case remove_smack_rules L env c w of (rc2, w) \<Rightarrow>
                  (if rc2 < 0 then rc2 else rc, w))
        else (rc, w))"

definition install_status ::
  "('a, 'm) smack_lib \<Rightarrow> smack_env \<Rightarrow> 'p ctx \<Rightarrow> int \<Rightarrow> ('c, 'm) machine \<Rightarrow> int \<times> ('c, 'm) machine" where
  "install_status L env c rc w =
     (if rc \<ge> 0 then (rc, w) else (rc, snd (force_uninstall_smack L env c w)))"

definition install_smack_with_id ::
  "('a, 'm) smack_lib \<Rightarrow> smack_env \<Rightarrow> 'p ctx \<Rightarrow> ('c, 'm) machine \<Rightarrow> int \<times> ('c, 'm) machine" where
  "install_smack_with_id L env c w =
     (let (rc, w) = create_smack_rules L env c w;
          (rc, w) = (if rc \<ge> 0 then install_smack_plugs c w else (rc, w));
          (rc, w) = (if rc \<ge> 0 then label_all_paths c True w else (rc, w))
      in install_status L env c rc w)"

definition install_smack_no_id ::
  "('a, 'm) smack_lib \<Rightarrow> smack_env \<Rightarrow> 'p ctx \<Rightarrow> ('c, 'm) machine \<Rightarrow> int \<times> ('c, 'm) machine" where
  "install_smack_no_id L env c w =
     (let (rc, w) = (if need_id c then (- EINVAL, w) else label_all_paths c False w)
      in install_status L env c rc w)"

definition smack_install ::
  "('a, 'm) smack_lib \<Rightarrow> smack_env \<Rightarrow> 'p ctx \<Rightarrow> ('c, 'm) machine \<Rightarrow> int \<times> ('c, 'm) machine" where
  "smack_install L env c w =
     (if has_id c then install_smack_with_id L env c w else install_smack_no_id L env c w)"

definition smack_uninstall ::
  "('a, 'm) smack_lib \<Rightarrow> smack_env \<Rightarrow> 'p ctx \<Rightarrow> ('c, 'm) machine \<Rightarrow> int \<times> ('c, 'm) machine" where
  "smack_uninstall L env c w =
     (if \<not> has_id c \<and> need_id c then (- EINVAL, w) else force_uninstall_smack L env c w)"

text \<open>The aliases that make Smack the MAC of the daemon.\<close>

definition smack_mac :: "('a, 'm) smack_lib \<Rightarrow> smack_env \<Rightarrow> ('c, 'm) machine mac_itf" where
  "smack_mac L env = \<lparr>mac_install = smack_install L env, mac_uninstall = smack_uninstall L env,
     mac_get_label = \<lambda>i w. smack_get_label i\<rparr>"

end
