(* ===== verification/Smack_Props.thy ===== *)
theory Smack_Props
  imports Smack
begin

text \<open>
  What an installation and an uninstallation under Smack leave in the file system, the
  ranges of their results (the contract \<open>mac_provider\<close>), and the labels of identifiers.
\<close>

section \<open>Attributes of a path\<close>

definition put_value :: "string option \<Rightarrow> string option" where
  "put_value v = (case v of None \<Rightarrow> None | Some t \<Rightarrow> if t = [] then None else Some t)"

lemma set_xattr_fail: "set_xattr p a v w = (rc, w1) \<Longrightarrow> rc < 0 \<Longrightarrow> fs w1 = fs w"
  by (auto simp: set_xattr_def Let_def split: prod.splits if_splits dest: sys_fail_same)

lemma unset_xattr_fail: "unset_xattr p a w = (rc, w1) \<Longrightarrow> rc < 0 \<Longrightarrow> fs w1 = fs w"
  by (auto simp: unset_xattr_def Let_def split: prod.splits if_splits dest: sys_fail_same)

definition kinds :: "'z wstate \<Rightarrow> string \<Rightarrow> fkind option" where
  "kinds w q = map_option kind (fs w q)"

lemma set_xattr_kinds: "set_xattr p a v w = (rc, w1) \<Longrightarrow> kinds w1 = kinds w"
  by (auto simp: set_xattr_def sys_lsetxattr_def kinds_def fun_eq_iff Let_def
        elim!: sys_cases split: prod.splits if_splits option.splits)

lemma unset_xattr_kinds: "unset_xattr p a w = (rc, w1) \<Longrightarrow> kinds w1 = kinds w"
  by (auto simp: unset_xattr_def sys_lremovexattr_def kinds_def fun_eq_iff Let_def
        elim!: sys_cases split: prod.splits if_splits option.splits)

lemma put_xattr_effect:
  assumes "put_xattr p a v w = (rc, w')"
  shows "rc \<le> 0 \<and> kinds w' = kinds w \<and> (\<forall>q. q \<noteq> p \<longrightarrow> fs w' q = fs w q)
    \<and> (rc = 0 \<longrightarrow> attr_of w' p = (attr_of w p)(a := put_value v))
    \<and> (rc < 0 \<longrightarrow> attr_of w' p = attr_of w p)"
proof (cases "\<exists>t. v = Some t \<and> t \<noteq> []")
  case True
  then obtain t where s: "v = Some t" "t \<noteq> []" "set_xattr p a t w = (rc, w')"
    using assms by (auto simp: put_xattr_def)
  then show ?thesis
    using set_xattr_rc[OF s(3)] set_xattr_kinds[OF s(3)] set_xattr_frame[OF s(3)]
      set_xattr_ok[OF s(3)] set_xattr_fail[OF s(3)]
    by (auto simp: put_value_def attr_of_def)
next
  case False
  then have s: "unset_xattr p a w = (rc, w')" "put_value v = None"
    using assms by (auto simp: put_xattr_def put_value_def split: option.splits if_splits)
  then show ?thesis
    using unset_xattr_rc[OF s(1)] unset_xattr_kinds[OF s(1)] unset_xattr_frame[OF s(1)]
      unset_xattr_ok[OF s(1)] unset_xattr_fail[OF s(1)]
    by (auto simp: attr_of_def)
qed

lemma put_xattr_nil:
  assumes "faults w = []" "fs w p \<noteq> None"
  shows "\<exists>w'. put_xattr p a v w = (0, w') \<and> faults w' = [] \<and> (\<forall>q. fs w' q = None \<longleftrightarrow> fs w q = None)"
  using assms
  by (auto simp: put_xattr_def set_xattr_def unset_xattr_def sys_lsetxattr_def sys_lremovexattr_def
        sys_nil split: option.splits)

definition mac_attrs :: "string list" where
  "mac_attrs = [XATTR_NAME_SMACK, XATTR_NAME_SMACKEXEC, XATTR_NAME_SMACKTRANSMUTE]"

lemma set_path_labels_effect:
  assumes "smack_set_path_labels p lab ex tr w = (rc, w')"
  shows "rc \<le> 0 \<and> kinds w' = kinds w \<and> (\<forall>q. q \<noteq> p \<longrightarrow> fs w' q = fs w q)
    \<and> (rc = 0 \<longrightarrow> attr_of w' p XATTR_NAME_SMACK = put_value (Some lab)
         \<and> (tr \<longrightarrow> attr_of w' p XATTR_NAME_SMACKTRANSMUTE = Some ''TRUE''))"
proof -
  obtain r1 w1 where 1: "put_xattr p XATTR_NAME_SMACK (Some lab) w = (r1, w1)" by fastforce
  obtain r2 w2 where 2: "put_xattr p XATTR_NAME_SMACKEXEC ex w1 = (r2, w2)" by fastforce
  obtain r3 w3 where 3: "put_xattr p XATTR_NAME_SMACKTRANSMUTE
      (if tr then Some ''TRUE'' else None) w2 = (r3, w3)" by fastforce
  note e1 = put_xattr_effect[OF 1] and e2 = put_xattr_effect[OF 2] and e3 = put_xattr_effect[OF 3]
  have r: "rc = (if r3 < 0 then (if r1 < 0 \<or> \<not> tr then r1 else r3) else r1)" "w' = w3"
    using assms 1 2 3 by (auto simp: smack_set_path_labels_def Let_def split: if_splits)
  have "attr_of w3 p XATTR_NAME_SMACK = put_value (Some lab)" if "r1 = 0"
  proof -
    have "attr_of w1 p XATTR_NAME_SMACK = put_value (Some lab)" using e1 that by simp
    moreover have "attr_of w2 p XATTR_NAME_SMACK = attr_of w1 p XATTR_NAME_SMACK"
      using e2 by (cases "r2 = 0") auto
    moreover have "attr_of w3 p XATTR_NAME_SMACK = attr_of w2 p XATTR_NAME_SMACK"
      using e3 by (cases "r3 = 0") auto
    ultimately show ?thesis by simp
  qed
  moreover have "attr_of w3 p XATTR_NAME_SMACKTRANSMUTE = Some ''TRUE''" if "r3 = 0" "tr"
    using e3 that by (simp add: put_value_def)
  ultimately show ?thesis using r e1 e2 e3 by (auto split: if_splits)
qed

lemma unset_path_labels_effect:
  assumes "unset_path_labels p w = (rc, w')"
  shows "rc \<le> 0 \<and> kinds w' = kinds w \<and> (\<forall>q. q \<noteq> p \<longrightarrow> fs w' q = fs w q)"
proof -
  obtain pp w0 where g: "get_path_property p False w = (pp, w0)" by fastforce
  note w0 = get_path_property_rest[OF g]
  obtain r1 w1 where 1: "unset_xattr p XATTR_NAME_SMACK w0 = (r1, w1)" by fastforce
  obtain r2 w2 where 2: "unset_xattr p XATTR_NAME_SMACKEXEC w1 = (r2, w2)" by fastforce
  obtain r3 w3 where 3: "unset_xattr p XATTR_NAME_SMACKTRANSMUTE w2 = (r3, w3)" by fastforce
  have k: "kinds w0 = kinds w" by (simp add: w0 kinds_def fun_eq_iff)
  have r: "rc \<le> 0" "w' = (if pp < 0 then w0 else w3)"
    using assms g 1 2 3 unset_xattr_rc[OF 1] unset_xattr_rc[OF 2] unset_xattr_rc[OF 3]
    by (auto simp: unset_path_labels_def Let_def split: if_splits)
  then show ?thesis
    using k unset_xattr_kinds[OF 1] unset_xattr_kinds[OF 2] unset_xattr_kinds[OF 3]
      unset_xattr_frame[OF 1] unset_xattr_frame[OF 2] unset_xattr_frame[OF 3]
    by (auto simp: w0)
qed

section \<open>Labelling all the paths\<close>

text \<open>What a labelled path carries: the label of its type, and the transmute mark of a directory.\<close>

definition labelled :: "(path_type \<Rightarrow> path_type_definition) \<Rightarrow> path_t \<Rightarrow> 'z wstate \<Rightarrow> bool" where
  "labelled defs i w \<longleftrightarrow>
     attr_of w (path i) XATTR_NAME_SMACK = put_value (Some (label (defs (path_type i))))
     \<and> (kinds w (path i) = Some FDir \<and> is_transmute (defs (path_type i)) \<longrightarrow>
          attr_of w (path i) XATTR_NAME_SMACKTRANSMUTE = Some ''TRUE'')"

lemma label_paths_effect:
  assumes "label_paths defs b is w = (rc, w')"
  shows "rc \<le> 0 \<and> kinds w' = kinds w \<and> (\<forall>q. q \<notin> path ` set is \<longrightarrow> fs w' q = fs w q)
    \<and> (rc = 0 \<and> b \<and> distinct (map path is) \<longrightarrow> (\<forall>i \<in> set is. labelled defs i w'))"
  using assms
proof (induction "is" arbitrary: w)
  case (Cons i js)
  obtain pp w0 where g: "get_path_property (path i) False w = (pp, w0)" by fastforce
  note w0 = get_path_property_rest[OF g]
  have k0: "kinds w0 = kinds w" "fs w0 = fs w" by (simp_all add: w0 kinds_def fun_eq_iff)
  obtain r1 w1 where s: "(if pp < 0 then (pp, w0)
                 else if \<not> b then unset_path_labels (path i) w0
                 else smack_set_path_labels (path i) (label (defs (path_type i)))
                        (if pp = PATH_FILE_EXEC \<and> is_executable (defs (path_type i))
                         then Some (label (defs type_id)) else None)
                        (pp = PATH_DIRECTORY \<and> is_transmute (defs (path_type i))) w0) = (r1, w1)"
    by fastforce
  have e1: "r1 \<le> 0 \<and> kinds w1 = kinds w \<and> (\<forall>q. q \<noteq> path i \<longrightarrow> fs w1 q = fs w q)"
  proof (cases "pp < 0")
    case True
    then show ?thesis using s k0 by auto
  next
    case False
    show ?thesis
    proof (cases b)
      case True
      with s False have "smack_set_path_labels (path i) (label (defs (path_type i)))
          (if pp = PATH_FILE_EXEC \<and> is_executable (defs (path_type i)) then Some (label (defs type_id)) else None)
          (pp = PATH_DIRECTORY \<and> is_transmute (defs (path_type i))) w0 = (r1, w1)" by simp
      from set_path_labels_effect[OF this] show ?thesis by (simp add: k0)
    next
      case b: False
      with s False have "unset_path_labels (path i) w0 = (r1, w1)" by simp
      from unset_path_labels_effect[OF this] show ?thesis by (simp add: k0)
    qed
  qed
  have run: "(if r1 < 0 then (r1, w1) else label_paths defs b js w1) = (rc, w')"
    using Cons.prems g s by (simp add: Let_def)
  show ?case
  proof (cases "r1 < 0")
    case True
    then show ?thesis using run e1 by auto
  next
    case False
    then have r1: "r1 = 0" "label_paths defs b js w1 = (rc, w')" using run e1 by auto
    note IH = Cons.IH[OF r1(2)]
    have fr: "\<forall>q. q \<notin> path ` set (i # js) \<longrightarrow> fs w' q = fs w q" using IH e1 by auto
    have "labelled defs i w'" if "rc = 0" b "distinct (map path (i # js))"
    proof -
      have pp: "\<not> pp < 0" using s r1(1) False by (auto split: if_splits)
      have nm: "fs w' (path i) = fs w1 (path i)" using IH that(3) by auto
      have sp: "smack_set_path_labels (path i) (label (defs (path_type i)))
          (if pp = PATH_FILE_EXEC \<and> is_executable (defs (path_type i)) then Some (label (defs type_id)) else None)
          (pp = PATH_DIRECTORY \<and> is_transmute (defs (path_type i))) w0 = (0, w1)"
        using s pp that(2) r1(1) by simp
      have dir: "pp = PATH_DIRECTORY" if "kinds w' (path i) = Some FDir"
      proof -
        have "kinds w (path i) = Some FDir" using that IH e1 by simp
        then obtain n where n: "fs w (path i) = Some n" "kind n = FDir" by (auto simp: kinds_def)
        then show ?thesis
          using g pp by (auto simp: get_path_property_def sys_stat_def find_inode_def
              split: prod.splits if_splits sum.splits fkind.splits dest!: pop_fault_frame)
      qed
      have "attr_of w' (path i) = attr_of w1 (path i)" by (simp add: attr_of_def nm fun_eq_iff)
      then show ?thesis using set_path_labels_effect[OF sp] dir by (auto simp: labelled_def)
    qed
    then show ?thesis using IH e1 fr by auto
  qed
qed simp

section \<open>Plug links\<close>

definition link_of :: "plug \<Rightarrow> string \<Rightarrow> string" where
  "link_of p i = impdir p @ ''/'' @ i"

lemma plug_link_full:
  "length (impdir p) \<le> MAX_SIZE_PATH \<Longrightarrow> length i \<le> 201 \<Longrightarrow>
   plug_link p i = (int (length (link_of p i)), link_of p i)"
  by (simp add: plug_link_def snprintf_def link_of_def)

lemma symlink_ok: "sys_symlink t p w = (rc, w') \<Longrightarrow> 0 \<le> rc \<Longrightarrow> kinds w' = (kinds w)(p \<mapsto> FLink t)"
  by (auto simp: sys_symlink_def kinds_def fun_eq_iff elim!: sys_cases split: if_splits)

lemma symlink_fresh: "sys_symlink t p w = (rc, w') \<Longrightarrow> 0 \<le> rc \<Longrightarrow> kinds w p = None"
  by (auto simp: sys_symlink_def kinds_def elim!: sys_cases split: if_splits)

lemma symlink_fail: "sys_symlink t p w = (rc, w') \<Longrightarrow> rc < 0 \<Longrightarrow> kinds w' = kinds w"
  by (auto simp: kinds_def fun_eq_iff dest: sys_fail_same)

lemma install_plugs_rc: "install_plugs i ps rc w = (rc', w') \<Longrightarrow> rc \<le> 0 \<Longrightarrow>
   rc' \<le> 0 \<and> (rc' = 0 \<longrightarrow> rc = 0)"
proof (induction ps arbitrary: rc w)
  case (Cons p ps)
  obtain r b where pl: "plug_link p i = (r, b)" by fastforce
  obtain r2 w2 where s: "(if r < 0 then (r, w) else case sys_symlink (expdir p) b w of (rc2, w) \<Rightarrow>
      if rc2 < 0 then (rc2, w) else set_xattr b XATTR_NAME_SMACK (smack_get_label i) w) = (r2, w2)"
    by fastforce
  have "install_plugs i ps (if r2 < 0 \<and> rc = 0 then r2 else rc) w2 = (rc', w')"
    using Cons.prems(1) pl s by simp
  from Cons.IH[OF this] Cons.prems(2) show ?case by (cases "r2 < 0 \<and> rc = 0") auto
qed simp

lemma install_plugs_links:
  assumes "install_plugs i ps 0 w = (0, w')" "\<forall>p \<in> set ps. length (impdir p) \<le> MAX_SIZE_PATH"
    "length i \<le> 201"
  shows "(\<forall>q. kinds w q \<noteq> None \<longrightarrow> kinds w' q = kinds w q)
    \<and> (\<forall>p \<in> set ps. kinds w' (link_of p i) = Some (FLink (expdir p)))"
  using assms(1,2)
proof (induction ps arbitrary: w)
  case (Cons p ps)
  have pl: "plug_link p i = (int (length (link_of p i)), link_of p i)"
    using Cons.prems(2) assms(3) by (intro plug_link_full) auto
  obtain r1 w1 where sl: "sys_symlink (expdir p) (link_of p i) w = (r1, w1)" by fastforce
  obtain r2 w2 where s: "(if r1 < 0 then (r1, w1)
      else set_xattr (link_of p i) XATTR_NAME_SMACK (smack_get_label i) w1) = (r2, w2)" by fastforce
  have run: "install_plugs i ps (if r2 < 0 then r2 else 0) w2 = (0, w')"
    using Cons.prems(1) pl sl s by (simp split: if_splits)
  have r2: "\<not> r2 < 0" using install_plugs_rc[OF run] by (auto split: if_splits)
  then have r1: "\<not> r1 < 0" and sx: "set_xattr (link_of p i) XATTR_NAME_SMACK (smack_get_label i) w1 = (r2, w2)"
    using s by (auto split: if_splits)
  have k: "kinds w2 = (kinds w)(link_of p i \<mapsto> FLink (expdir p))" "kinds w (link_of p i) = None"
    using set_xattr_kinds[OF sx] symlink_ok[OF sl] symlink_fresh[OF sl] r1 by auto
  have "install_plugs i ps 0 w2 = (0, w')" using run r2 by simp
  from Cons.IH[OF this] Cons.prems(2) k show ?case by fastforce
qed simp

lemma uninstall_plugs_rc: "uninstall_plugs i ps rc w = (rc', w') \<Longrightarrow> rc \<le> 0 \<Longrightarrow> rc' \<le> 0"
proof (induction ps arbitrary: rc w)
  case (Cons p ps)
  obtain r b where pl: "plug_link p i = (r, b)" by fastforce
  obtain r2 w2 where s: "(if r < 0 then (r, w) else case sys_unlink b w of (rc2, w) \<Rightarrow>
      (if rc2 = - ENOENT then 0 else rc2, w)) = (r2, w2)" by fastforce
  have "uninstall_plugs i ps (if r2 < 0 \<and> rc = 0 then r2 else rc) w2 = (rc', w')"
    using Cons.prems(1) pl s by simp
  from Cons.IH[OF this] Cons.prems(2) show ?case by (cases "r2 < 0 \<and> rc = 0") auto
qed simp

section \<open>Ranges\<close>

lemma drop_labels_effect:
  "drop_labels is w = (rc, w') \<Longrightarrow> rc \<le> 0 \<and> kinds w' = kinds w
     \<and> (\<forall>q. q \<notin> path ` set is \<longrightarrow> fs w' q = fs w q)"
proof (induction "is" arbitrary: w)
  case (Cons i js)
  obtain r1 w1 where s: "smack_set_path_labels (path i) DROP_LABEL None False w = (r1, w1)" by fastforce
  have run: "(if r1 < 0 then (r1, w1) else drop_labels js w1) = (rc, w')" using Cons.prems s by simp
  show ?case
    using set_path_labels_effect[OF s] run Cons.IH[of w1] by (cases "r1 < 0") auto
qed simp

lemma remove_file_rc: "remove_file p w = (rc, w') \<Longrightarrow> rc \<le> 0"
  by (auto simp: remove_file_def Let_def split: prod.splits if_splits)

lemma force_uninstall_range: "fst (force_uninstall_smack L env c w) \<le> 0"
proof -
  obtain r1 w1 where 1: "smack_drop_path_labels c w = (r1, w1)" by fastforce
  obtain r2 w2 where 2: "uninstall_smack_plugs c w1 = (r2, w2)" by fastforce
  obtain r3 w3 where 3: "remove_smack_rules L env c w2 = (r3, w3)" by fastforce
  have "r1 \<le> 0" using drop_labels_effect[OF 1[unfolded smack_drop_path_labels_def]] by simp
  moreover have "r2 \<le> 0" using uninstall_plugs_rc[OF 2[unfolded uninstall_smack_plugs_def]] by simp
  moreover have "r3 \<le> 0"
    using 3 remove_file_rc
    by (auto simp: remove_smack_rules_def Let_def split: prod.splits if_splits)
  ultimately show ?thesis
    using 1 2 3 by (auto simp: force_uninstall_smack_def Let_def)
qed

lemma install_with_id_steps:
  assumes "install_smack_with_id L env c w = (rc, w')"
  obtains (fail) "rc < 0"
  | (ok) r1 w1 w2 where "rc = 0" "create_smack_rules L env c w = (r1, w1)" "0 \<le> r1"
      "install_smack_plugs c w1 = (0, w2)" "label_all_paths c True w2 = (0, w')"
proof -
  obtain r1 w1 where 1: "create_smack_rules L env c w = (r1, w1)" by fastforce
  show ?thesis
  proof (cases "r1 < 0")
    case True
    then show ?thesis using assms 1 by (intro fail) (simp add: install_smack_with_id_def install_status_def)
  next
    case r1: False
    obtain r2 w2 where 2: "install_smack_plugs c w1 = (r2, w2)" by fastforce
    have r2: "r2 \<le> 0" using install_plugs_rc[OF 2[unfolded install_smack_plugs_def]] by simp
    show ?thesis
    proof (cases "r2 < 0")
      case True
      then show ?thesis using assms 1 2 r1
        by (intro fail) (simp add: install_smack_with_id_def install_status_def)
    next
      case False
      obtain r3 w3 where 3: "label_all_paths c True w2 = (r3, w3)" by fastforce
      have r3: "r3 \<le> 0" using label_paths_effect[OF 3[unfolded label_all_paths_def]] by simp
      show ?thesis
      proof (cases "r3 < 0")
        case True
        then show ?thesis using assms 1 2 3 r1 r2 False
          by (intro fail) (simp add: install_smack_with_id_def install_status_def)
      next
        case r3': False
        then show ?thesis using assms 1 2 3 r1 r2 r3 False
          by (intro ok[of r1 w1 w2]) (simp_all add: install_smack_with_id_def install_status_def)
      qed
    qed
  qed
qed

interpretation smack: mac_provider "smack_mac L env :: ('c, 'm) machine mac_itf"
proof
  show "rc \<le> 0" if run: "mac_install (smack_mac L env) c w = (rc, w')"
    for c rc and w w' :: "('c, 'm) machine"
  proof (cases "has_id c")
    case True
    then have "install_smack_with_id L env c w = (rc, w')"
      using run by (simp add: smack_mac_def smack_install_def)
    then show ?thesis by (cases rule: install_with_id_steps) auto
  next
    case False
    obtain r1 w1 where 1: "label_all_paths c False w = (r1, w1)" by fastforce
    have "r1 \<le> 0" using label_paths_effect[OF 1[unfolded label_all_paths_def]] by simp
    then show ?thesis
      using run False 1
      by (auto simp: smack_mac_def smack_install_def install_smack_no_id_def install_status_def
            split: if_splits)
  qed
  show "rc \<le> 0" if "mac_uninstall (smack_mac L env) c w = (rc, w')"
    for c rc and w w' :: "('c, 'm) machine"
    using that force_uninstall_range[of L env c w]
    by (auto simp: smack_mac_def smack_uninstall_def split: if_splits)
  show "length (mac_get_label (smack_mac L env :: ('c, 'm) machine mac_itf) i w) \<le> MAX_SIZE_LABEL" for i and w :: "('c, 'm) machine"
    by (simp add: smack_mac_def smack_get_label_def)
qed

section \<open>After an installation\<close>

lemma context_id_len: "ctx_inv c \<Longrightarrow> length (context_id c) \<le> 201"
proof -
  assume "ctx_inv c"
  then have "length (id_array c) = 201" by (simp add: ctx_inv_def id_array_inv_def)
  then show ?thesis using length_takeWhile_le[of "\<lambda>c. c \<noteq> NUL" "id_array c"]
    by (simp add: context_id_def cstr_def)
qed

lemma ctx_inv_impdir: "ctx_inv c \<Longrightarrow> p \<in> set (plugset c) \<Longrightarrow> length (impdir p) \<le> MAX_SIZE_PATH"
  by (simp add: ctx_inv_def ctx_sets_inv_def plugset_inv_def)

lemma ctx_inv_paths: "ctx_inv c \<Longrightarrow> distinct (map path (path_set c))"
  by (simp add: ctx_inv_def ctx_unique_def path_keys.unique_keys_distinct)

lemma smack_install_effect:
  assumes "ctx_inv c" "has_id c" "smack_install L env c w = (0, w')"
  shows "(\<forall>i \<in> set (path_set c). labelled (init_path_type_definitions (context_id c)) i w')
    \<and> (\<forall>p \<in> set (plugset c). kinds w' (link_of p (context_id c)) = Some (FLink (expdir p)))"
proof -
  have run: "install_smack_with_id L env c w = (0, w')" using assms(2,3) by (simp add: smack_install_def)
  show ?thesis
    using run
  proof (cases rule: install_with_id_steps)
    case (ok r1 w1 w2)
    have lp: "label_paths (init_path_type_definitions (context_id c)) True (path_set c) w2 = (0, w')"
      using ok(5) by (simp add: label_all_paths_def)
    have ip: "install_plugs (context_id c) (plugset c) 0 w1 = (0, w2)"
      using ok(4) by (simp add: install_smack_plugs_def)
    have "\<forall>p \<in> set (plugset c). kinds w2 (link_of p (context_id c)) = Some (FLink (expdir p))"
      using install_plugs_links[OF ip] ctx_inv_impdir[OF assms(1)] context_id_len[OF assms(1)] by blast
    then show ?thesis using label_paths_effect[OF lp] ctx_inv_paths[OF assms(1)] by simp
  qed simp
qed

text \<open>
  C14: what a successful installation of an application under Smack leaves, whatever calls
  failed on the way: every path of the session carries the label of its type (no label for
  the type \<open>default\<close>), every directory whose type is transmuting carries the transmute mark,
  and every plug is a symbolic link of its import directory to its export directory.
\<close>

theorem smack_install_labels_and_links:
  assumes "ctx_inv c" "has_id c" "smack_install L env c w = (0, w')"
  shows "(\<forall>i \<in> set (path_set c).
       attr_of w' (path i) ''security.SMACK64'' =
         put_value (Some (label (init_path_type_definitions (context_id c) (path_type i))))
       \<and> (kinds w' (path i) = Some FDir \<and> is_transmute (init_path_type_definitions (context_id c) (path_type i))
            \<longrightarrow> attr_of w' (path i) ''security.SMACK64TRANSMUTE'' = Some ''TRUE''))
    \<and> (\<forall>p \<in> set (plugset c). kinds w' (impdir p @ ''/'' @ context_id c) = Some (FLink (expdir p)))"
  using smack_install_effect[OF assms] unfolding labelled_def link_of_def by blast

text \<open>An application with a data directory and a plug, over an empty template.\<close>

definition demo_env :: smack_env where
  "demo_env = \<lparr>env_template_file = Some ''/t'', env_policy_dir = Some ''/r''\<rparr>"

definition demo_app :: "unit ctx" where
  "demo_app = \<lparr>id_array = ''demo'' @ replicate 197 NUL, permission_set = permission_set_init,
     path_set = [\<lparr>path_type = type_data, path = ''/d''\<rparr>],
     plugset = [\<lparr>expdir = ''/e'', impid = ''imp'', impdir = ''/i''\<rparr>],
     need_id = True, error_flag = False, permgr = None\<rparr>"

definition demo_machine :: "(unit, int) machine" where
  "demo_machine = \<lparr>fs = [''/t'' \<mapsto> \<lparr>kind = FReg, xbit = False, content = ''rules'', xattrs = Map.empty\<rparr>,
       ''/d'' \<mapsto> \<lparr>kind = FDir, xbit = True, content = [], xattrs = Map.empty\<rparr>],
     faults = [], cyn_state = \<lparr>handler = False, lib = ()\<rparr>, printed = [], mac_state = 0\<rparr>"

lemma demo_app_inv: "ctx_inv demo_app"
proof -
  have "id_array_inv (''demo'' @ replicate 197 NUL)" by code_simp
  then show ?thesis
    by (simp add: ctx_inv_def ctx_sets_inv_def ctx_unique_def ctx_texts_def wants_id_def demo_app_def
        permission_set_inv_def permission_set_init_def path_set_inv_def plugset_inv_def
        perm_set.unique_keys_def path_keys.unique_keys_def plug_keys.unique_keys_def
        abs_path_def valid_id_def id_char_def is_alnum_def path_type_valid_iff)
qed

lemma demo_app_id: "has_id demo_app" "context_id demo_app = ''demo''"
  by (code_simp, code_simp)

lemma demo_install_ok: "fst (smack_install sim_smack demo_env demo_app demo_machine) = 0"
  by code_simp

theorem smack_install_labels_and_links_witness:
  "attr_of (snd (smack_install sim_smack demo_env demo_app demo_machine)) ''/d'' ''security.SMACK64''
     = Some ''App:demo:Data''
   \<and> kinds (snd (smack_install sim_smack demo_env demo_app demo_machine)) ''/i/demo'' = Some (FLink ''/e'')"
proof -
  obtain w' where r: "smack_install sim_smack demo_env demo_app demo_machine = (0, w')"
    using demo_install_ok by (metis prod.collapse)
  have l: "label (init_path_type_definitions ''demo'' type_data) = ''App:demo:Data''" by code_simp
  from smack_install_labels_and_links[OF demo_app_inv demo_app_id(1) r] r l show ?thesis
    by (simp add: demo_app_id(2)) (simp add: demo_app_def put_value_def)
qed

section \<open>Failures that are not seen\<close>

text \<open>
  The failure to write the execution label of a file is not reported: the status of
  that step is tested under the one of the first step, so when only it fails the labelling
  is a success and the execution label of the path is the one it had before.
\<close>

theorem smack_exec_failure_unseen:
  assumes "put_xattr p ''security.SMACK64'' (Some lab) w = (0, w1)"
    and "put_xattr p ''security.SMACK64EXEC'' ex w1 = (e, w2)" "e < 0"
    and "put_xattr p ''security.SMACK64TRANSMUTE'' (if tr then Some ''TRUE'' else None) w2 = (0, w3)"
  shows "smack_set_path_labels p lab ex tr w = (0, w3)
    \<and> attr_of w3 p ''security.SMACK64EXEC'' = attr_of w p ''security.SMACK64EXEC''"
  using assms put_xattr_effect[OF assms(1)] put_xattr_effect[OF assms(2)] put_xattr_effect[OF assms(4)]
  by (auto simp: smack_set_path_labels_def)

theorem smack_exec_failure_unseen_witness:
  "\<exists>w :: unit wstate. fst (smack_set_path_labels ''/x'' ''L'' (Some ''E'') False w) = 0
     \<and> attr_of (snd (smack_set_path_labels ''/x'' ''L'' (Some ''E'') False w)) ''/x'' ''security.SMACK64EXEC'' = None"
proof -
  define w :: os where "w = \<lparr>fs = [''/x'' \<mapsto> \<lparr>kind = FReg, xbit = True, content = [], xattrs = Map.empty\<rparr>],
      faults = [0, 28]\<rparr>"
  obtain r1 w1 where 1: "put_xattr ''/x'' ''security.SMACK64'' (Some ''L'') w = (r1, w1)" by fastforce
  obtain e w2 where 2: "put_xattr ''/x'' ''security.SMACK64EXEC'' (Some ''E'') w1 = (e, w2)" by fastforce
  obtain r3 w3 where 3: "put_xattr ''/x'' ''security.SMACK64TRANSMUTE'' None w2 = (r3, w3)" by fastforce
  have "r1 = 0 \<and> e = - 28 \<and> r3 = 0"
    using 1 2 3 by (auto simp: w_def put_xattr_def set_xattr_def unset_xattr_def sys_lsetxattr_def
        sys_lremovexattr_def sys_def pop_fault_def split: if_splits)
  then have "smack_set_path_labels ''/x'' ''L'' (Some ''E'') False w = (0, w3)
      \<and> attr_of w3 ''/x'' ''security.SMACK64EXEC'' = attr_of w ''/x'' ''security.SMACK64EXEC''"
    using 1 2 3 by (intro smack_exec_failure_unseen) auto
  then show ?thesis by (intro exI[of _ w]) (simp add: w_def attr_of_def)
qed

section \<open>After an uninstallation\<close>

lemma drop_labels_ok:
  assumes "drop_labels is w = (0, w')" "distinct (map path is)"
  shows "\<forall>i \<in> set is. attr_of w' (path i) XATTR_NAME_SMACK = Some DROP_LABEL"
  using assms
proof (induction "is" arbitrary: w)
  case (Cons i js)
  obtain r1 w1 where s: "smack_set_path_labels (path i) DROP_LABEL None False w = (r1, w1)" by fastforce
  note e = set_path_labels_effect[OF s]
  have run: "(if r1 < 0 then (r1, w1) else drop_labels js w1) = (0, w')" using Cons.prems(1) s by simp
  then have r1: "r1 = 0" "drop_labels js w1 = (0, w')" using e by (auto split: if_splits)
  have "fs w' (path i) = fs w1 (path i)"
    using drop_labels_effect[OF r1(2)] Cons.prems(2) by auto
  then have "attr_of w' (path i) XATTR_NAME_SMACK = Some DROP_LABEL"
    using e r1(1) by (simp add: attr_of_def put_value_def)
  then show ?case using Cons.IH[OF r1(2)] Cons.prems(2) by simp
qed simp

lemma unlink_gone: "sys_unlink p w = (rc, w') \<Longrightarrow> rc = 0 \<or> rc = - ENOENT \<Longrightarrow> fs w' p = None"
  by (auto simp: sys_unlink_def elim!: sys_cases split: option.splits if_splits)

lemma unlink_shrinks: "sys_unlink p w = (rc, w') \<Longrightarrow> fs w' q = None \<or> fs w' q = fs w q"
  by (auto simp: sys_unlink_def elim!: sys_cases split: option.splits if_splits)

lemma uninstall_plugs_keeps_error:
  "uninstall_plugs i ps rc w = (rc', w') \<Longrightarrow> rc < 0 \<Longrightarrow> rc' = rc"
proof (induction ps arbitrary: w)
  case (Cons p ps)
  obtain r b where pl: "plug_link p i = (r, b)" by fastforce
  obtain r2 w2 where s: "(if r < 0 then (r, w) else case sys_unlink b w of (rc2, w) \<Rightarrow>
      (if rc2 = - ENOENT then 0 else rc2, w)) = (r2, w2)" by fastforce
  have "uninstall_plugs i ps (if r2 < 0 \<and> rc = 0 then r2 else rc) w2 = (rc', w')"
    using Cons.prems(1) pl s by simp
  then have "uninstall_plugs i ps rc w2 = (rc', w')" using Cons.prems(2) by simp
  from Cons.IH[OF this Cons.prems(2)] show ?case .
qed simp

lemma uninstall_plugs_gone:
  assumes "uninstall_plugs i ps 0 w = (0, w')" "\<forall>p \<in> set ps. length (impdir p) \<le> MAX_SIZE_PATH"
    "length i \<le> 201"
  shows "(\<forall>q. fs w' q = None \<or> fs w' q = fs w q)
    \<and> (\<forall>q. q \<notin> (\<lambda>p. link_of p i) ` set ps \<longrightarrow> fs w' q = fs w q)
    \<and> (\<forall>p \<in> set ps. fs w' (link_of p i) = None)"
  using assms(1,2)
proof (induction ps arbitrary: w)
  case (Cons p ps)
  have pl: "plug_link p i = (int (length (link_of p i)), link_of p i)"
    using Cons.prems(2) assms(3) by (intro plug_link_full) auto
  obtain r1 w1 where u: "sys_unlink (link_of p i) w = (r1, w1)" by fastforce
  let ?r = "if r1 = - ENOENT then 0 else r1"
  have run: "uninstall_plugs i ps (if ?r < 0 then ?r else 0) w1 = (0, w')"
    using Cons.prems(1) pl u by simp
  have nn: "\<not> ?r < 0"
  proof
    assume "?r < 0"
    with run uninstall_plugs_keeps_error[of i ps ?r w1 0 w'] show False by simp
  qed
  then have run': "uninstall_plugs i ps 0 w1 = (0, w')" using run by simp
  have r1: "r1 = 0 \<or> r1 = - ENOENT" using nn sys_rc_le(4)[OF u] by (auto split: if_splits)
  note gone = unlink_gone[OF u r1] and shr = unlink_shrinks[OF u] and fr = sys_fs_frame(4)[OF u]
  note IH = Cons.IH[OF run'] 
  have IH': "(\<forall>q. fs w' q = None \<or> fs w' q = fs w1 q)"
    "(\<forall>q. q \<notin> (\<lambda>p. link_of p i) ` set ps \<longrightarrow> fs w' q = fs w1 q)"
    "(\<forall>p \<in> set ps. fs w' (link_of p i) = None)" using IH Cons.prems(2) by auto
  have 1: "\<forall>q. fs w' q = None \<or> fs w' q = fs w q" using IH'(1) shr by metis
  moreover have "\<forall>q. q \<notin> (\<lambda>p. link_of p i) ` set (p # ps) \<longrightarrow> fs w' q = fs w q"
    using IH'(2) fr by auto
  moreover have "fs w' (link_of p i) = None" using IH'(1)[rule_format, of "link_of p i"] gone by auto
  ultimately show ?case using IH'(3) by simp
qed simp

lemma accesses_of_file_fs: "accesses_of_file L t w = (r, w') \<Longrightarrow> fs w' = fs w"
  by (auto simp: accesses_of_file_def split: prod.splits if_splits)

lemma on_mac_fs: "on_mac f w = (r, w') \<Longrightarrow> fs w' = fs w"
  by (auto simp: on_mac_def split: prod.splits)

lemma remove_load_rules_fs: "fs (snd (remove_load_rules L file w)) = fs w"
proof -
  obtain r w1 where o: "sys_open file w = (r, w1)" by fastforce
  have f1: "fs w1 = fs w" using sys_stat_rest[OF o[unfolded sys_open_def]] by simp
  show ?thesis
  proof (cases r)
    case (Inl e)
    then show ?thesis using o f1 by (simp add: remove_load_rules_def)
  next
    case (Inr f)
    obtain rc a w2 where a: "accesses_of_file L (content f) w1 = ((rc, a), w2)" by (metis prod.collapse)
    have f2: "fs w2 = fs w" using accesses_of_file_fs[OF a] f1 by simp
    have f3: "fs (snd (on_mac (smack_accesses_clear L h) w2)) = fs w" for h
      using on_mac_fs[of "smack_accesses_clear L h" w2] f2 by (metis prod.collapse)
    show ?thesis using o Inr a f2 f3 by (simp add: remove_load_rules_def split: option.splits)
  qed
qed

lemma remove_smack_rules_ok:
  assumes "remove_smack_rules L env c w = (0, w')" "get_smack_rule_path env (context_id c) = (n, r)"
  shows "fs w' r = None \<and> (\<forall>q. q \<noteq> r \<longrightarrow> fs w' q = fs w q)"
proof -
  define v where "v = (if smack_enabled L w then snd (remove_load_rules L r w) else w)"
  have v: "fs v = fs w" by (simp add: v_def remove_load_rules_fs)
  have "remove_file r v = (0, w')"
    using assms by (auto simp: remove_smack_rules_def v_def Let_def split: if_splits)
  then obtain rc where rc: "sys_remove r v = (rc, w')" "\<not> rc < 0"
    by (auto simp: remove_file_def Let_def split: prod.splits if_splits)
  have "fs w' r = None" using rc by (auto simp: sys_remove_def elim!: sys_cases split: if_splits)
  then show ?thesis using sys_fs_frame(5)[OF rc(1)] v by simp
qed

lemma smack_uninstall_effect:
  assumes "ctx_inv c" "has_id c" "smack_uninstall L env c w = (0, w')"
    "get_smack_rule_path env (context_id c) = (n, r)"
  shows "fs w' r = None \<and> (\<forall>p \<in> set (plugset c). fs w' (link_of p (context_id c)) = None)
    \<and> (\<forall>i \<in> set (path_set c). path i \<noteq> r \<and> (\<forall>p \<in> set (plugset c). path i \<noteq> link_of p (context_id c))
         \<longrightarrow> attr_of w' (path i) XATTR_NAME_SMACK = Some DROP_LABEL)"
proof -
  obtain r1 w1 where 1: "drop_labels (path_set c) w = (r1, w1)" by fastforce
  obtain r2 w2 where 2: "uninstall_plugs (context_id c) (plugset c) 0 w1 = (r2, w2)" by fastforce
  obtain r3 w3 where 3: "remove_smack_rules L env c w2 = (r3, w3)" by fastforce
  have "(if r3 < 0 then r3 else if r2 < 0 then r2 else r1) = 0" and w': "w' = w3"
    using assms(2,3) 1 2 3
    by (simp_all add: smack_uninstall_def force_uninstall_smack_def smack_drop_path_labels_def
        uninstall_smack_plugs_def Let_def split: if_splits)
  moreover have "r3 \<le> 0"
    using 3 remove_file_rc by (auto simp: remove_smack_rules_def Let_def split: prod.splits if_splits)
  moreover have "r2 \<le> 0" using uninstall_plugs_rc[OF 2] by simp
  ultimately have rs: "r1 = 0" "r2 = 0" "r3 = 0" by (simp_all split: if_splits)
  note d = drop_labels_ok[OF 1[unfolded rs] ctx_inv_paths[OF assms(1)]]
  have u: "(\<forall>q. fs w2 q = None \<or> fs w2 q = fs w1 q)
    \<and> (\<forall>q. q \<notin> (\<lambda>p. link_of p (context_id c)) ` set (plugset c) \<longrightarrow> fs w2 q = fs w1 q)
    \<and> (\<forall>p \<in> set (plugset c). fs w2 (link_of p (context_id c)) = None)"
    using uninstall_plugs_gone[OF 2[unfolded rs]] ctx_inv_impdir[OF assms(1)] context_id_len[OF assms(1)]
    by blast
  have r: "fs w3 r = None \<and> (\<forall>q. q \<noteq> r \<longrightarrow> fs w3 q = fs w2 q)"
    by (rule remove_smack_rules_ok[OF 3[unfolded rs] assms(4)])
  have "fs w3 (link_of p (context_id c)) = None" if "p \<in> set (plugset c)" for p
    using r u that by (cases "link_of p (context_id c) = r") auto
  moreover have "attr_of w3 (path i) XATTR_NAME_SMACK = Some DROP_LABEL"
    if "i \<in> set (path_set c)" "path i \<noteq> r" "\<forall>p \<in> set (plugset c). path i \<noteq> link_of p (context_id c)" for i
  proof -
    have "fs w3 (path i) = fs w2 (path i)" using r that(2) by blast
    moreover have "fs w2 (path i) = fs w1 (path i)" using u that(3) by blast
    ultimately show ?thesis using d that(1) by (simp add: attr_of_def)
  qed
  ultimately show ?thesis unfolding w' using r by (intro conjI ballI impI) (blast+)
qed

text \<open>
  C15: what a successful uninstallation of an application under Smack leaves, whatever calls
  failed on the way: the rules file and the links of the plugs are gone, and every other path
  of the session carries the label \<open>User:Home\<close>.
\<close>

theorem smack_uninstall_cleans:
  assumes "ctx_inv c" "has_id c" "smack_uninstall L env c w = (0, w')"
    "get_smack_rule_path env (context_id c) = (n, r)"
  shows "fs w' r = None
    \<and> (\<forall>p \<in> set (plugset c). fs w' (impdir p @ ''/'' @ context_id c) = None)
    \<and> (\<forall>i \<in> set (path_set c). path i \<noteq> r
         \<and> (\<forall>p \<in> set (plugset c). path i \<noteq> impdir p @ ''/'' @ context_id c)
         \<longrightarrow> attr_of w' (path i) ''security.SMACK64'' = Some ''User:Home'')"
  using smack_uninstall_effect[OF assms] unfolding link_of_def .

theorem smack_uninstall_cleans_witness:
  "fs (snd (smack_uninstall sim_smack demo_env demo_app
       (snd (smack_install sim_smack demo_env demo_app demo_machine)))) ''/i/demo'' = None
   \<and> attr_of (snd (smack_uninstall sim_smack demo_env demo_app
       (snd (smack_install sim_smack demo_env demo_app demo_machine)))) ''/d'' ''security.SMACK64''
     = Some ''User:Home''"
proof -
  let ?v = "snd (smack_install sim_smack demo_env demo_app demo_machine)"
  have "fst (smack_uninstall sim_smack demo_env demo_app ?v) = 0" by code_simp
  then obtain w' where r: "smack_uninstall sim_smack demo_env demo_app ?v = (0, w')"
    by (metis prod.collapse)
  have p: "get_smack_rule_path demo_env (context_id demo_app) = (13, ''/r/demo.smack'')" by code_simp
  from smack_uninstall_cleans[OF demo_app_inv demo_app_id(1) r p] r show ?thesis
    by (simp add: demo_app_id(2)) (simp add: demo_app_def)
qed

section \<open>Labels of identifiers\<close>

lemma smack_get_label_take: "smack_get_label i = ''App:'' @ take 196 i"
proof -
  have "smack_get_label i = take 200 (take 254 (''App:'' @ i))"
    by (simp add: smack_get_label_def snprintf_def)
  also have "\<dots> = take 200 (''App:'' @ i)" by (simp only: take_take) simp
  also have "\<dots> = ''App:'' @ take 196 i" by (simp only: take_append) simp
  finally show ?thesis .
qed

text \<open>
  The label of an identifier is \<open>App:\<close> followed by at most 196 characters of it, so two
  identifiers have the same label, hence the same permissions, exactly when their first 196
  characters are the same: identifiers of 197 to 200 characters, which the sessions accept,
  can share one.
\<close>

theorem smack_label_collision:
  "smack_get_label i = smack_get_label j \<longleftrightarrow> take 196 i = take 196 j"
  by (simp add: smack_get_label_take)

end
