(* ===== verification/Selinux.thy ===== *)
theory Selinux
  imports Machine Template
begin

text \<open>
  \<open>src/lsm-selinux\<close>: the policy module and the labels of an application under SELinux. The
  library \<open>libsemanage\<close>, the compilation script and the memory of the stack are parameters:
  the code reads an identifier and labels it has not initialised, whose contents are any function of
  the frame and of the state of each call. Calls of the library return
  their value with the \<open>errno\<close> they leave, since the code takes the error from there.
\<close>

abbreviation (input) XATTR_NAME_SELINUX :: string where "XATTR_NAME_SELINUX \<equiv> ''security.selinux''"
abbreviation (input) SEMOD_MAX_SIZE_PATH :: nat where "SEMOD_MAX_SIZE_PATH \<equiv> 1230"
abbreviation (input) MAX_SIZE_LINE_MODULE :: nat where "MAX_SIZE_LINE_MODULE \<equiv> 1329"

section \<open>Parameters\<close>

text \<open>
  \<open>'h\<close> is a handle, \<open>'i\<close> a module description, \<open>'w\<close> the state. A status is the returned
  value and \<open>errno\<close>.
\<close>

record ('h, 'i, 'w) semanage_lib =
  semanage_handle_create :: "'w \<Rightarrow> ('h option \<times> int) \<times> 'w"
  semanage_set_create_store :: "'h \<Rightarrow> int \<Rightarrow> 'w \<Rightarrow> 'w"
  semanage_connect :: "'h \<Rightarrow> 'w \<Rightarrow> (int \<times> int) \<times> 'w"
  semanage_set_default_priority :: "'h \<Rightarrow> nat \<Rightarrow> 'w \<Rightarrow> (int \<times> int) \<times> 'w"
  semanage_is_connected :: "'h \<Rightarrow> 'w \<Rightarrow> bool \<times> 'w"
  semanage_disconnect :: "'h \<Rightarrow> 'w \<Rightarrow> (int \<times> int) \<times> 'w"
  semanage_handle_destroy :: "'h \<Rightarrow> 'w \<Rightarrow> 'w"
  semanage_module_install_file :: "'h \<Rightarrow> string \<Rightarrow> 'w \<Rightarrow> (int \<times> int) \<times> 'w"
  semanage_commit :: "'h \<Rightarrow> 'w \<Rightarrow> (int \<times> int) \<times> 'w"
  semanage_module_remove :: "'h \<Rightarrow> string \<Rightarrow> 'w \<Rightarrow> (int \<times> int) \<times> 'w"
  semanage_module_list :: "'h \<Rightarrow> 'w \<Rightarrow> ((int \<times> int) \<times> 'i list) \<times> 'w"
  semanage_module_info_get_name :: "'h \<Rightarrow> 'i \<Rightarrow> 'w \<Rightarrow> ((int \<times> int) \<times> string) \<times> 'w"
  semanage_module_info_destroy :: "'h \<Rightarrow> 'i \<Rightarrow> 'w \<Rightarrow> 'w"
  is_selinux_enabled :: "'w \<Rightarrow> int \<times> 'w"

text \<open>What becomes of the process that runs the compilation script.\<close>

datatype child = VforkFails int | WaitFails int | Exited int | Signaled int

text \<open>The functions that have an array for the identifier on their stack, with their argument.\<close>

datatype stack_frame = Frame_install string | Frame_get_label string

record 'w selinux_env =
  env_te_template :: "string option"
  env_if_template :: "string option"
  env_rules_dir :: "string option"
  build_module :: "string \<Rightarrow> 'w \<Rightarrow> child \<times> 'w"
  stack_id :: "stack_frame \<Rightarrow> 'w \<Rightarrow> nat \<Rightarrow> char" \<comment> \<open>the array of the identifier, before it is written\<close>
  stack_label :: "'w \<Rightarrow> path_type \<Rightarrow> char list" \<comment> \<open>the labels that are never written\<close>

section \<open>\<open>selinux-compile.c\<close>\<close>

definition launch_compile :: "'w selinux_env \<Rightarrow> string \<Rightarrow> 'w \<Rightarrow> int \<times> 'w" where
  "launch_compile env i w =
     (case build_module env i w of (c, w) \<Rightarrow>
        (case c of VforkFails e \<Rightarrow> - e | WaitFails e \<Rightarrow> - e | Signaled st \<Rightarrow> st | Exited st \<Rightarrow> 0, w))"

section \<open>\<open>selinux-template.c\<close>: module files\<close>

definition get_opt_env_def :: "string option \<Rightarrow> string option \<Rightarrow> string \<Rightarrow> string" where
  "get_opt_env_def value envvalue defvalue =
     (case value of Some v \<Rightarrow> v | None \<Rightarrow> (case envvalue of Some v \<Rightarrow> v | None \<Rightarrow> defvalue))"

definition get_selinux_te_template_file :: "'w selinux_env \<Rightarrow> string option \<Rightarrow> string" where
  "get_selinux_te_template_file env value =
     get_opt_env_def value (env_te_template env) ''/usr/share/sec-lsm-manager/app-template.te''"

definition get_selinux_if_template_file :: "'w selinux_env \<Rightarrow> string option \<Rightarrow> string" where
  "get_selinux_if_template_file env value =
     get_opt_env_def value (env_if_template env) ''/usr/share/sec-lsm-manager/app-template.if''"

definition get_selinux_rules_dir :: "'w selinux_env \<Rightarrow> string option \<Rightarrow> string" where
  "get_selinux_rules_dir env value =
     get_opt_env_def value (env_rules_dir env) ''/usr/share/sec-lsm-manager/selinux-rules''"

record selinux_module =
  selinux_te_file :: string
  selinux_if_file :: string
  selinux_fc_file :: string
  selinux_pp_file :: string
  selinux_rules_dir :: string
  selinux_te_template_file :: string
  selinux_if_template_file :: string

text \<open>\<open>strncpy\<close> then a final NUL keep one character less than the size.\<close>

definition init_selinux_module :: "'w selinux_env \<Rightarrow> 'p ctx \<Rightarrow> selinux_module" where
  "init_selinux_module env c =
     (let dir = take (MAX_SIZE_DIR - 1) (get_selinux_rules_dir env None);
          file = (\<lambda>ext. snd (snprintf SEMOD_MAX_SIZE_PATH (dir @ ''/'' @ context_id c @ ''.'' @ ext)))
      in \<lparr>selinux_te_file = file ''te'', selinux_if_file = file ''if'', selinux_fc_file = file ''fc'',
          selinux_pp_file = file ''pp'', selinux_rules_dir = dir,
          selinux_te_template_file = take (MAX_SIZE_PATH - 1) (get_selinux_te_template_file env None),
          selinux_if_template_file = take (MAX_SIZE_PATH - 1) (get_selinux_if_template_file env None)\<rparr>)"

text \<open>\<open>fputs\<close>, its failures being scheduled.\<close>

definition sys_fputs :: "string \<Rightarrow> string \<Rightarrow> 'z wstate \<Rightarrow> int \<times> 'z wstate" where
  "sys_fputs t p w = (case pop_fault w of (e, w) \<Rightarrow> if e > 0 then (- e, w) else (0, sys_append p t w))"

definition fc_line :: "(path_type \<Rightarrow> string) \<Rightarrow> path_t \<Rightarrow> string" where
  "fc_line defs i = snd (snprintf MAX_SIZE_LINE_MODULE
     (path i @ ''(/.*)? gen_context('' @ defs (path_type i) @ '',s0)'' @ [LF]))"

fun put_fc_lines :: "string \<Rightarrow> (path_type \<Rightarrow> string) \<Rightarrow> path_t list \<Rightarrow> 'z wstate \<Rightarrow> int \<times> 'z wstate" where
  "put_fc_lines file defs [] w = (0, w)"
| "put_fc_lines file defs (i # is) w =
     (case sys_fputs (fc_line defs i) file w of (rc, w) \<Rightarrow>
        if rc < 0 then (rc, w) else put_fc_lines file defs is w)"

definition generate_app_module_fc ::
  "string \<Rightarrow> 'p ctx \<Rightarrow> (path_type \<Rightarrow> string) \<Rightarrow> 'z wstate \<Rightarrow> int \<times> 'z wstate" where
  "generate_app_module_fc file c defs w =
     (case sys_creat False file w of (rc, w) \<Rightarrow>
        if rc < 0 then (rc, w) else put_fc_lines file defs (path_set c) w)"

definition generate_app_module_files ::
  "selinux_module \<Rightarrow> 'p ctx \<Rightarrow> (path_type \<Rightarrow> string) \<Rightarrow> 'z wstate \<Rightarrow> int \<times> 'z wstate" where
  "generate_app_module_files m c defs w =
     (case template_process (selinux_te_template_file m) (selinux_te_file m) c w of (rc, w) \<Rightarrow>
        if rc < 0 then (rc, w)
        else case template_process (selinux_if_template_file m) (selinux_if_file m) c w of (rc, w) \<Rightarrow>
          if rc < 0 then (rc, snd (remove_file (selinux_te_file m) w))
          else case generate_app_module_fc (selinux_fc_file m) c defs w of (rc, w) \<Rightarrow>
            if rc < 0 then
              (rc, snd (remove_file (selinux_te_file m) (snd (remove_file (selinux_if_file m) w))))
            else (rc, w))"

definition file_exists :: "string \<Rightarrow> 'z wstate \<Rightarrow> bool \<times> 'z wstate" where
  "file_exists p w = (case get_file_informations p True w of ((e, _, _), w) \<Rightarrow> (e, w))"

definition check_app_module_files_exists :: "selinux_module \<Rightarrow> 'z wstate \<Rightarrow> bool \<times> 'z wstate" where
  "check_app_module_files_exists m w =
     (case file_exists (selinux_te_file m) w of (te, w) \<Rightarrow>
      case file_exists (selinux_fc_file m) w of (fc, w) \<Rightarrow>
      case file_exists (selinux_if_file m) w of (ifx, w) \<Rightarrow>
        (of_bool te + of_bool fc + of_bool ifx = (3 :: nat), w))"

definition remove_app_module_files :: "selinux_module \<Rightarrow> 'z wstate \<Rightarrow> int \<times> 'z wstate" where
  "remove_app_module_files m w =
     (case remove_file (selinux_te_file m) w of (rc, w) \<Rightarrow>
        if rc < 0 then (rc, w)
        else case remove_file (selinux_if_file m) w of (rc, w) \<Rightarrow>
          if rc < 0 then (rc, w) else remove_file (selinux_fc_file m) w)"

definition remove_pp_file :: "selinux_module \<Rightarrow> 'z wstate \<Rightarrow> int \<times> 'z wstate" where
  "remove_pp_file m w = remove_file (selinux_pp_file m) w"

section \<open>\<open>selinux-template.c\<close>: the policy\<close>

definition destroy_semanage_handle :: "('h, 'i, 'w) semanage_lib \<Rightarrow> 'h \<Rightarrow> 'w \<Rightarrow> int \<times> 'w" where
  "destroy_semanage_handle L h w =
     (case semanage_is_connected L h w of (conn, w) \<Rightarrow>
      case (if conn then
              (case semanage_disconnect L h w of ((rc, e), w) \<Rightarrow> (if rc < 0 then - e else rc, w))
            else (0, w)) of (rc, w) \<Rightarrow>
        (rc, semanage_handle_destroy L h w))"

text \<open>After an error the handle is destroyed, and an error of zero is replaced by \<open>EINVAL\<close>.\<close>

definition create_failed :: "('h, 'i, 'w) semanage_lib \<Rightarrow> 'h \<Rightarrow> int \<Rightarrow> 'w \<Rightarrow> (int \<times> 'h option) \<times> 'w" where
  "create_failed L h rc w =
     (case destroy_semanage_handle L h w of (_, w) \<Rightarrow> ((if rc \<ge> 0 then - EINVAL else rc, None), w))"

definition create_semanage_handle :: "('h, 'i, 'w) semanage_lib \<Rightarrow> 'w \<Rightarrow> (int \<times> 'h option) \<times> 'w" where
  "create_semanage_handle L w =
     (case semanage_handle_create L w of
        ((None, e), w) \<Rightarrow> ((if - e \<ge> 0 then - EINVAL else - e, None), w)
      | ((Some h, _), w) \<Rightarrow>
          let w = semanage_set_create_store L h 1 w
          in case semanage_connect L h w of ((rc, e), w) \<Rightarrow>
            if rc < 0 then create_failed L h (- e) w
            else case semanage_set_default_priority L h 400 w of ((rc, e), w) \<Rightarrow>
              if rc \<noteq> 0 then create_failed L h (- e) w else ((0, Some h), w))"

definition install_module :: "('h, 'i, 'w) semanage_lib \<Rightarrow> 'h \<Rightarrow> string \<Rightarrow> 'w \<Rightarrow> int \<times> 'w" where
  "install_module L h pp w =
     (case semanage_module_install_file L h pp w of ((rc, e), w) \<Rightarrow>
        if rc < 0 then (- e, w)
        else case semanage_commit L h w of ((rc, e), w) \<Rightarrow> (if rc < 0 then - e else rc, w))"

definition remove_module :: "('h, 'i, 'w) semanage_lib \<Rightarrow> 'h \<Rightarrow> string \<Rightarrow> 'w \<Rightarrow> int \<times> 'w" where
  "remove_module L h name w =
     (case semanage_module_remove L h name w of ((rc, e), w) \<Rightarrow>
        if rc < 0 then (- e, w)
        else case semanage_commit L h w of ((rc, e), w) \<Rightarrow> (if rc < 0 then - e else rc, w))"

fun free_module_info_list :: "('h, 'i, 'w) semanage_lib \<Rightarrow> 'h \<Rightarrow> 'i list \<Rightarrow> 'w \<Rightarrow> 'w" where
  "free_module_info_list L h [] w = w"
| "free_module_info_list L h (i # is) w =
     free_module_info_list L h is (semanage_module_info_destroy L h i w)"

fun find_module :: "('h, 'i, 'w) semanage_lib \<Rightarrow> 'h \<Rightarrow> string \<Rightarrow> 'i list \<Rightarrow> 'w \<Rightarrow> bool \<times> 'w" where
  "find_module L h name [] w = (False, w)"
| "find_module L h name (i # is) w =
     (case semanage_module_info_get_name L h i w of (((rc, _), module_name), w) \<Rightarrow>
        if rc < 0 then (False, w)
        else if module_name = name then (True, w) else find_module L h name is w)"

definition check_module :: "('h, 'i, 'w) semanage_lib \<Rightarrow> 'h \<Rightarrow> string \<Rightarrow> 'w \<Rightarrow> bool \<times> 'w" where
  "check_module L h name w =
     (case semanage_module_list L h w of (((rc, _), infos), w) \<Rightarrow>
        if rc < 0 then (False, w)
        else case find_module L h name infos w of (ret, w) \<Rightarrow>
          (ret, free_module_info_list L h infos w))"

text \<open>
  \<open>init_path_type_definitions\<close>: the labels of the types \<open>unset\<close> and \<open>default\<close> are not written, they
  stay what the array \<open>old\<close> holds.
\<close>

definition object_label :: "string \<Rightarrow> string" where
  "object_label t = snd (snprintf MAX_SIZE_LABEL (''system_u:object_r:'' @ t))"

fun init_selinux_definitions :: "(path_type \<Rightarrow> char list) \<Rightarrow> string \<Rightarrow> path_type \<Rightarrow> string" where
  "init_selinux_definitions old i type_conf = object_label (i @ ''_conf_t'')"
| "init_selinux_definitions old i type_data = object_label (i @ ''_data_t'')"
| "init_selinux_definitions old i type_exec = object_label (i @ ''_exec_t'')"
| "init_selinux_definitions old i type_http = object_label (i @ ''_http_t'')"
| "init_selinux_definitions old i type_icon = object_label (i @ ''_icon_t'')"
| "init_selinux_definitions old i type_id = object_label (i @ ''_t'')"
| "init_selinux_definitions old i type_lib = object_label (i @ ''_lib_t'')"
| "init_selinux_definitions old i type_plug = object_label ''redpesk_public_t''"
| "init_selinux_definitions old i type_public = object_label ''redpesk_public_t''"
| "init_selinux_definitions old i t = cstr (old t)"

definition create_selinux_rules ::
  "('h, 'i, 'z wstate) semanage_lib \<Rightarrow> 'z wstate selinux_env \<Rightarrow> 'p ctx \<Rightarrow> (path_type \<Rightarrow> string) \<Rightarrow>
     'z wstate \<Rightarrow> int \<times> 'z wstate" where
  "create_selinux_rules L env c defs w =
     (let m = init_selinux_module env c
      in case create_semanage_handle L w of
           ((rc, None), w) \<Rightarrow> (rc, w)
         | ((rc, Some h), w) \<Rightarrow>
             if rc < 0 then (rc, w)
             else
               (case (case generate_app_module_files m c defs w of (rc, w) \<Rightarrow>
                   if rc < 0 then (rc, w)
                   else case launch_compile env (context_id c) w of (rc, w) \<Rightarrow>
                     if rc < 0 then (rc, snd (remove_app_module_files m w))
                     else case install_module L h (selinux_pp_file m) w of (rc, w) \<Rightarrow>
                       if rc < 0 then
                         (rc, snd (remove_app_module_files m (snd (remove_pp_file m w))))
                       else (rc, w)) of (rc, w) \<Rightarrow>
                  (rc, snd (destroy_semanage_handle L h w))))"

definition check_module_files_exist :: "'w selinux_env \<Rightarrow> 'p ctx \<Rightarrow> 'z wstate \<Rightarrow> bool \<times> 'z wstate" where
  "check_module_files_exist env c w = check_app_module_files_exists (init_selinux_module env c) w"

definition check_module_in_policy :: "('h, 'i, 'w) semanage_lib \<Rightarrow> 'p ctx \<Rightarrow> 'w \<Rightarrow> bool \<times> 'w" where
  "check_module_in_policy L c w =
     (case create_semanage_handle L w of
        ((rc, None), w) \<Rightarrow> (False, w)
      | ((rc, Some h), w) \<Rightarrow>
          if rc < 0 then (False, w)
          else case check_module L h (context_id c) w of (ret, w) \<Rightarrow>
            (ret, snd (destroy_semanage_handle L h w)))"

definition remove_selinux_rules ::
  "('h, 'i, 'z wstate) semanage_lib \<Rightarrow> 'z wstate selinux_env \<Rightarrow> 'p ctx \<Rightarrow> 'z wstate \<Rightarrow> int \<times> 'z wstate" where
  "remove_selinux_rules L env c w =
     (let m = init_selinux_module env c
      in case remove_app_module_files m w of (rc, w) \<Rightarrow>
        if rc < 0 then (rc, w)
        else case remove_pp_file m w of (rc, w) \<Rightarrow>
          if rc < 0 then (rc, w)
          else case create_semanage_handle L w of
            ((rc, None), w) \<Rightarrow> (rc, w)
          | ((rc, Some h), w) \<Rightarrow>
              if rc < 0 then (rc, w)
              else case remove_module L h (context_id c) w of (rc, w) \<Rightarrow>
                (rc, snd (destroy_semanage_handle L h w)))"

section \<open>\<open>selinux.c\<close>\<close>

text \<open>
  The loop of \<open>trfid\<close> over the array, from an index: it stops after the final NUL, or at
  \<open>sizeof idx\<close>, the size of the counter and not of the array.
\<close>

abbreviation (input) sizeof_idx :: nat where "sizeof_idx \<equiv> 4"

function trfid_loop :: "string \<Rightarrow> nat \<Rightarrow> char list \<Rightarrow> char list" where
  "trfid_loop i idx arr =
     (let c = rd i idx;
          arr = arr[idx := (if c = CHR ''-'' then CHR ''_'' else c)];
          idx = idx + 1
      in if c \<noteq> NUL \<and> idx < sizeof_idx then trfid_loop i idx arr else arr)"
  by pat_completeness auto
termination
  by (relation "measure (\<lambda>(i, idx, arr). sizeof_idx - idx)") (auto simp: Let_def)

declare trfid_loop.simps [simp del]

definition trfid :: "string \<Rightarrow> char list \<Rightarrow> string" where
  "trfid i arr = cstr ((trfid_loop i 0 arr)[MAX_SIZE_ID := NUL])"

text \<open>The array on the stack of a call.\<close>

definition id_memory :: "'w selinux_env \<Rightarrow> stack_frame \<Rightarrow> 'w \<Rightarrow> char list" where
  "id_memory env frame w = map (stack_id env frame w) [0..<MAX_SIZE_ID + 1]"

definition install_definitions :: "'w selinux_env \<Rightarrow> string \<Rightarrow> 'w \<Rightarrow> path_type \<Rightarrow> string" where
  "install_definitions env i w =
     init_selinux_definitions (stack_label env w) (trfid i (id_memory env (Frame_install i) w))"

definition label_file :: "string \<Rightarrow> string \<Rightarrow> 'z wstate \<Rightarrow> int \<times> 'z wstate" where
  "label_file p lab w =
     (case get_file_informations p False w of ((ex, _, _), w) \<Rightarrow>
        if \<not> ex then (- ENOENT, w)
        else case set_xattr p XATTR_NAME_SELINUX lab w of (rc, w) \<Rightarrow>
          if rc < 0 then (rc, w) else (0, w))"

fun process_paths :: "(path_type \<Rightarrow> string) \<Rightarrow> path_t list \<Rightarrow> 'z wstate \<Rightarrow> int \<times> 'z wstate" where
  "process_paths defs [] w = (0, w)"
| "process_paths defs (i # is) w =
     (case label_file (path i) (snd (snprintf (MAX_SIZE_LABEL + 3) (defs (path_type i) @ '':s0''))) w of
        (rc, w) \<Rightarrow> if rc < 0 then (rc, w) else process_paths defs is w)"

definition selinux_process_paths ::
  "'p ctx \<Rightarrow> (path_type \<Rightarrow> string) \<Rightarrow> 'z wstate \<Rightarrow> int \<times> 'z wstate" where
  "selinux_process_paths c defs w = process_paths defs (path_set c) w"

definition selinux_enabled :: "('h, 'i, 'w) semanage_lib \<Rightarrow> 'w \<Rightarrow> bool \<times> 'w" where
  "selinux_enabled L w = (case is_selinux_enabled L w of (r, w) \<Rightarrow> (r = 1, w))"

definition selinux_install ::
  "('h, 'i, 'z wstate) semanage_lib \<Rightarrow> 'z wstate selinux_env \<Rightarrow> 'p ctx \<Rightarrow> 'z wstate \<Rightarrow> int \<times> 'z wstate" where
  "selinux_install L env c w =
     (if \<not> has_id c then (- EINVAL, w)
      else
        let defs = install_definitions env (context_id c) w
        in case create_selinux_rules L env c defs w of (rc, w) \<Rightarrow>
          if rc < 0 then (rc, w)
          else case check_module_files_exist env c w of (ex, w) \<Rightarrow>
            if \<not> ex then (- ENOENT, w)
            else case check_module_in_policy L c w of (inp, w) \<Rightarrow>
              if \<not> inp then (- ENOENT, w)
              else case selinux_process_paths c defs w of (rc, w) \<Rightarrow>
                if rc < 0 then (rc, w) else (0, w))"

definition selinux_uninstall ::
  "('h, 'i, 'z wstate) semanage_lib \<Rightarrow> 'z wstate selinux_env \<Rightarrow> 'p ctx \<Rightarrow> 'z wstate \<Rightarrow> int \<times> 'z wstate" where
  "selinux_uninstall L env c w =
     (if \<not> has_id c then (- EINVAL, w)
      else case check_module_files_exist env c w of (ex, w) \<Rightarrow>
        if \<not> ex then (- ENOENT, w)
        else case check_module_in_policy L c w of (inp, w) \<Rightarrow>
          if \<not> inp then (- ENOENT, w)
          else case remove_selinux_rules L env c w of (rc, w) \<Rightarrow>
            if rc < 0 then (rc, w)
            else case check_module_files_exist env c w of (ex, w) \<Rightarrow>
              if ex then (- 1, w)
              else case check_module_in_policy L c w of (inp, w) \<Rightarrow>
                if inp then (- 1, w) else (0, w))"

definition selinux_get_label :: "'w selinux_env \<Rightarrow> string \<Rightarrow> 'w \<Rightarrow> string" where
  "selinux_get_label env appid w =
     take MAX_SIZE_ID (snd (snprintf MAX_SIZE_LABEL
       (''system_u:system_r:'' @ trfid appid (id_memory env (Frame_get_label appid) w) @ ''_t:s0'')))"

definition selinux_mac :: "('h, 'i, 'z wstate) semanage_lib \<Rightarrow> 'z wstate selinux_env \<Rightarrow> 'z wstate mac_itf" where
  "selinux_mac L env = \<lparr>mac_install = selinux_install L env, mac_uninstall = selinux_uninstall L env,
     mac_get_label = selinux_get_label env\<rparr>"

section \<open>\<open>simulation/selinux/selinux.c\<close>\<close>

text \<open>The simulated compilation creates the module file.\<close>

definition sim_launch_compile :: "string \<Rightarrow> string \<Rightarrow> 'z wstate \<Rightarrow> int \<times> 'z wstate" where
  "sim_launch_compile rules_dir i w =
     create_file (snd (snprintf MAX_SIZE_PATH (rules_dir @ ''/'' @ i @ ''.pp''))) w"

end
