(* ===== verification/Selinux_Props.thy ===== *)
theory Selinux_Props
  imports Selinux Context_Inv
begin

text \<open>
  What an installation and an uninstallation under SELinux leave, the ranges of their results
  (the contract \<open>mac_provider\<close>), and the labels of identifiers.
\<close>

section \<open>A library that leaves the rules files alone\<close>

text \<open>No call of the library touches the entries at the paths \<open>P\<close>.\<close>

definition leaves :: "string set \<Rightarrow> 'z wstate \<Rightarrow> 'z wstate \<Rightarrow> bool" where
  "leaves P w w' \<longleftrightarrow> (\<forall>q \<in> P. fs w' q = fs w q)"

lemma leaves_refl [simp]: "leaves P w w"
  by (simp add: leaves_def)

lemma leaves_trans: "leaves P w v \<Longrightarrow> leaves P v u \<Longrightarrow> leaves P w u"
  by (simp add: leaves_def)

definition semanage_keeps :: "('h, 'i, 'z wstate) semanage_lib \<Rightarrow> string set \<Rightarrow> bool" where
  "semanage_keeps L P \<longleftrightarrow>
     (\<forall>w. leaves P w (snd (semanage_handle_create L w)))
     \<and> (\<forall>h n w. leaves P w (semanage_set_create_store L h n w))
     \<and> (\<forall>h w. leaves P w (snd (semanage_connect L h w)))
     \<and> (\<forall>h n w. leaves P w (snd (semanage_set_default_priority L h n w)))
     \<and> (\<forall>h w. leaves P w (snd (semanage_is_connected L h w)))
     \<and> (\<forall>h w. leaves P w (snd (semanage_disconnect L h w)))
     \<and> (\<forall>h w. leaves P w (semanage_handle_destroy L h w))
     \<and> (\<forall>h w. leaves P w (snd (semanage_commit L h w)))
     \<and> (\<forall>h n w. leaves P w (snd (semanage_module_remove L h n w)))
     \<and> (\<forall>h w. leaves P w (snd (semanage_module_list L h w)))
     \<and> (\<forall>h i w. leaves P w (snd (semanage_module_info_get_name L h i w)))
     \<and> (\<forall>h i w. leaves P w (semanage_module_info_destroy L h i w))"

locale quiet_semanage =
  fixes L :: "('h, 'i, 'z wstate) semanage_lib" and P :: "string set"
  assumes keeps: "semanage_keeps L P"
begin

lemma calls:
  "semanage_handle_create L w = (r1, w') \<Longrightarrow> leaves P w w'"
  "leaves P w (semanage_set_create_store L h n w)"
  "semanage_connect L h w = (r2, w') \<Longrightarrow> leaves P w w'"
  "semanage_set_default_priority L h k w = (r2, w') \<Longrightarrow> leaves P w w'"
  "semanage_is_connected L h w = (r3, w') \<Longrightarrow> leaves P w w'"
  "semanage_disconnect L h w = (r2, w') \<Longrightarrow> leaves P w w'"
  "leaves P w (semanage_handle_destroy L h w)"
  "semanage_commit L h w = (r2, w') \<Longrightarrow> leaves P w w'"
  "semanage_module_remove L h s w = (r2, w') \<Longrightarrow> leaves P w w'"
  "semanage_module_list L h w = (r4, w') \<Longrightarrow> leaves P w w'"
  "semanage_module_info_get_name L h i w = (r5, w') \<Longrightarrow> leaves P w w'"
  "leaves P w (semanage_module_info_destroy L h i w)"
  using keeps unfolding semanage_keeps_def by (metis snd_conv)+

lemma destroy_leaves: "leaves P w (snd (destroy_semanage_handle L h w))"
proof -
  obtain conn w1 where 1: "semanage_is_connected L h w = (conn, w1)" by fastforce
  obtain rc e w2 where 2: "semanage_disconnect L h w1 = ((rc, e), w2)" by (metis prod.collapse)
  have "leaves P w w1" "leaves P w1 w2" by (rule calls(5)[OF 1], rule calls(6)[OF 2])
  then show ?thesis
    using 1 2 calls(7)[of w1 h] calls(7)[of w2 h]
    by (cases conn) (auto simp: destroy_semanage_handle_def intro: leaves_trans)
qed

lemma failed_leaves: "leaves P w (snd (create_failed L h rc w))"
  using destroy_leaves[of w h] by (auto simp: create_failed_def split: prod.splits)

lemma create_leaves: "create_semanage_handle L w = (r, w') \<Longrightarrow> leaves P w w'"
proof -
  assume run: "create_semanage_handle L w = (r, w')"
  obtain oh e0 w1 where 1: "semanage_handle_create L w = ((oh, e0), w1)" by (metis prod.collapse)
  show ?thesis
  proof (cases oh)
    case None
    then show ?thesis using run 1 calls(1)[OF 1] by (auto simp: create_semanage_handle_def)
  next
    case (Some h)
    define w2 where "w2 = semanage_set_create_store L h 1 w1"
    obtain rc e w3 where 3: "semanage_connect L h w2 = ((rc, e), w3)" by (metis prod.collapse)
    obtain rc4 e4 w4 where 4: "semanage_set_default_priority L h 400 w3 = ((rc4, e4), w4)"
      by (metis prod.collapse)
    have l3: "leaves P w w3"
      using calls(1)[OF 1] calls(2)[of w1 h 1] calls(3)[OF 3] unfolding w2_def by (meson leaves_trans)
    have l4: "leaves P w w4" using l3 calls(4)[OF 4] leaves_trans by blast
    have "create_semanage_handle L w = (if rc < 0 then create_failed L h (- e) w3
        else if rc4 \<noteq> 0 then create_failed L h (- e4) w4 else ((0, Some h), w4))"
      by (simp add: create_semanage_handle_def 1 Some 3 4 Let_def flip: w2_def)
    then have "leaves P w (snd (create_semanage_handle L w))"
      using l3 l4 failed_leaves[of w3 h "- e"] failed_leaves[of w4 h "- e4"] by (auto intro: leaves_trans)
    then show ?thesis using run by simp
  qed
qed

lemma find_leaves: "leaves P w (snd (find_module L h name infos w))"
proof (induction infos arbitrary: w)
  case (Cons i js)
  obtain rc e n w1 where 1: "semanage_module_info_get_name L h i w = (((rc, e), n), w1)"
    by (metis prod.collapse)
  show ?case using 1 calls(11)[OF 1] Cons[of w1] by (auto intro: leaves_trans)
qed simp

lemma free_leaves: "leaves P w (free_module_info_list L h infos w)"
  by (induction infos arbitrary: w) (auto intro: calls(12) leaves_trans)

lemma check_leaves: "leaves P w (snd (check_module L h name w))"
proof -
  obtain rc e infos w1 where 1: "semanage_module_list L h w = (((rc, e), infos), w1)" by (metis prod.collapse)
  obtain ret w2 where 2: "find_module L h name infos w1 = (ret, w2)" by fastforce
  have "leaves P w1 w2" using find_leaves[of w1 h name infos] 2 by simp
  then show ?thesis
    using 1 2 calls(10)[OF 1] free_leaves[of w2 h infos]
    by (auto simp: check_module_def intro: leaves_trans)
qed

lemma in_policy_leaves: "leaves P w (snd (check_module_in_policy L c w))"
proof -
  obtain rc oh w1 where 1: "create_semanage_handle L w = ((rc, oh), w1)" by (metis prod.collapse)
  note l1 = create_leaves[OF 1]
  show ?thesis
  proof (cases oh)
    case None
    then show ?thesis using 1 l1 by (simp add: check_module_in_policy_def)
  next
    case (Some h)
    obtain ret w2 where 2: "check_module L h (context_id c) w1 = (ret, w2)" by fastforce
    have "leaves P w1 w2" using check_leaves[of w1 h "context_id c"] 2 by simp
    then show ?thesis
      using 1 2 Some l1 destroy_leaves[of w2 h]
      by (auto simp: check_module_in_policy_def intro: leaves_trans)
  qed
qed

lemma remove_module_leaves: "leaves P w (snd (remove_module L h name w))"
proof -
  obtain rc e w1 where 1: "semanage_module_remove L h name w = ((rc, e), w1)" by (metis prod.collapse)
  obtain rc2 e2 w2 where 2: "semanage_commit L h w1 = ((rc2, e2), w2)" by (metis prod.collapse)
  show ?thesis
    using 1 2 calls(9)[OF 1] calls(8)[OF 2] by (auto simp: remove_module_def intro: leaves_trans)
qed

end

text \<open>A concrete library: the state of the kernel is the list of the installed modules.\<close>

definition db_semanage :: "(unit, string, ('c, string list) machine) semanage_lib" where
  "db_semanage = \<lparr>semanage_handle_create = \<lambda>w. ((Some (), 0), w),
     semanage_set_create_store = \<lambda>h n w. w, semanage_connect = \<lambda>h w. ((0, 0), w),
     semanage_set_default_priority = \<lambda>h n w. ((0, 0), w), semanage_is_connected = \<lambda>h w. (True, w),
     semanage_disconnect = \<lambda>h w. ((0, 0), w), semanage_handle_destroy = \<lambda>h w. w,
     semanage_module_install_file = \<lambda>h p w.
       (if fs w p = None then ((- 1, ENOENT), w)
        else ((0, 0), w\<lparr>mac_state := take (length p - 3) (rev (takeWhile (\<lambda>c. c \<noteq> SLASH) (rev (take (length p - 3) p)))) # mac_state w\<rparr>)),
     semanage_commit = \<lambda>h w. ((0, 0), w),
     semanage_module_remove = \<lambda>h n w. ((0, 0), w\<lparr>mac_state := removeAll n (mac_state w)\<rparr>),
     semanage_module_list = \<lambda>h w. (((0, 0), mac_state w), w),
     semanage_module_info_get_name = \<lambda>h i w. (((0, 0), i), w),
     semanage_module_info_destroy = \<lambda>h i w. w, is_selinux_enabled = \<lambda>w. (1, w)\<rparr>"

interpretation db_semanage: quiet_semanage "db_semanage :: (unit, string, ('c, string list) machine) semanage_lib" P
  by unfold_locales (simp add: semanage_keeps_def db_semanage_def leaves_def)

section \<open>Labels of the paths\<close>

definition selinux_path_label :: "(path_type \<Rightarrow> string) \<Rightarrow> path_t \<Rightarrow> string" where
  "selinux_path_label defs i = take (MAX_SIZE_LABEL + 2) (defs (path_type i) @ '':s0'')"

lemma get_file_informations_fs: "get_file_informations p fo w = (r, w') \<Longrightarrow> fs w' = fs w"
  by (auto simp: get_file_informations_def Let_def split: prod.splits dest: get_path_property_rest)

lemma label_file_effect:
  assumes "label_file p lab w = (rc, w')"
  shows "rc \<le> 0 \<and> (\<forall>q. q \<noteq> p \<longrightarrow> fs w' q = fs w q) \<and> (rc = 0 \<longrightarrow> attr_of w' p XATTR_NAME_SELINUX = Some lab)"
proof -
  obtain ex x d w1 where 1: "get_file_informations p False w = ((ex, x, d), w1)" by (metis prod_cases3 prod.collapse)
  obtain rc2 w2 where 2: "set_xattr p XATTR_NAME_SELINUX lab w1 = (rc2, w2)" by fastforce
  show ?thesis
    using assms 1 2 get_file_informations_fs[OF 1] set_xattr_rc[OF 2] set_xattr_frame[OF 2] set_xattr_ok[OF 2]
    by (auto simp: label_file_def split: if_splits)
qed

lemma process_paths_effect:
  "process_paths defs is w = (rc, w') \<Longrightarrow> rc \<le> 0 \<and> (\<forall>q. q \<notin> path ` set is \<longrightarrow> fs w' q = fs w q)
     \<and> (rc = 0 \<and> distinct (map path is) \<longrightarrow>
          (\<forall>i \<in> set is. attr_of w' (path i) XATTR_NAME_SELINUX = Some (selinux_path_label defs i)))"
proof (induction "is" arbitrary: w)
  case (Cons i js)
  obtain r1 w1 where 1: "label_file (path i) (selinux_path_label defs i) w = (r1, w1)" by fastforce
  note e = label_file_effect[OF 1]
  have run: "(if r1 < 0 then (r1, w1) else process_paths defs js w1) = (rc, w')"
    using Cons.prems 1 by (simp add: selinux_path_label_def snprintf_def)
  show ?case
  proof (cases "r1 < 0")
    case True
    then show ?thesis using run e by auto
  next
    case False
    then have r1: "r1 = 0" "process_paths defs js w1 = (rc, w')" using run e by auto
    note IH = Cons.IH[OF r1(2)]
    have "attr_of w' (path i) XATTR_NAME_SELINUX = Some (selinux_path_label defs i)"
      if "distinct (map path (i # js))"
    proof -
      have "fs w' (path i) = fs w1 (path i)" using IH that by auto
      then show ?thesis using e r1(1) by (simp add: attr_of_def)
    qed
    then show ?thesis using IH e by auto
  qed
qed simp

lemma process_paths_kept: "process_paths defs is w = (rc, w') \<Longrightarrow> fs w q \<noteq> None \<Longrightarrow> fs w' q \<noteq> None"
proof (induction "is" arbitrary: w)
  case (Cons i js)
  obtain r1 w1 where 1: "label_file (path i) (selinux_path_label defs i) w = (r1, w1)" by fastforce
  have run: "(if r1 < 0 then (r1, w1) else process_paths defs js w1) = (rc, w')"
    using Cons.prems 1 by (simp add: selinux_path_label_def snprintf_def)
  obtain ex x d v where 2: "get_file_informations (path i) False w = ((ex, x, d), v)" by (metis prod_cases3 prod.collapse)
  have v: "fs v = fs w" by (rule get_file_informations_fs[OF 2])
  have "fs w1 q \<noteq> None"
    using 1 2 Cons.prems(2) v
    by (auto simp: label_file_def set_xattr_def sys_lsetxattr_def Let_def elim!: sys_cases split: if_splits prod.splits option.splits)
  then show ?case using run Cons.IH[of w1] by (auto split: if_splits)
qed simp

lemma file_exists_fs: "file_exists p w = (e, w') \<Longrightarrow> fs w' = fs w"
  by (auto simp: file_exists_def split: prod.splits dest: get_file_informations_fs)

lemma file_exists_found: "file_exists p w = (True, w') \<Longrightarrow> fs w p \<noteq> None"
proof -
  assume "file_exists p w = (True, w')"
  then obtain rc where "get_path_property p True w = (rc, w')" "0 \<le> rc"
    by (auto simp: file_exists_def get_file_informations_def Let_def split: prod.splits)
  then obtain i where "sys_stat True p w = (Inr i, w')"
    by (auto simp: get_path_property_def split: prod.splits sum.splits if_splits)
  then have "resolve MAXSYMLINKS (fs w) p = Inr i" by (auto simp: find_inode_def dest: sys_stat_found)
  then show ?thesis by (cases MAXSYMLINKS) (auto split: option.splits)
qed

text \<open>The files written before the compilation.\<close>

definition rules_files :: "selinux_module \<Rightarrow> string set" where
  "rules_files m = {selinux_te_file m, selinux_if_file m, selinux_fc_file m}"

lemma check_files_found:
  assumes "check_module_files_exist env c w = (True, w')" "f \<in> rules_files (init_selinux_module env c)"
  shows "fs w' = fs w \<and> fs w f \<noteq> None"
proof -
  let ?m = "init_selinux_module env c"
  obtain a w1 where 1: "file_exists (selinux_te_file ?m) w = (a, w1)" by fastforce
  obtain b w2 where 2: "file_exists (selinux_fc_file ?m) w1 = (b, w2)" by fastforce
  obtain d w3 where 3: "file_exists (selinux_if_file ?m) w2 = (d, w3)" by fastforce
  have "a \<and> b \<and> d" "w' = w3"
    using assms(1) 1 2 3
    by (cases a; cases b; cases d; simp add: check_module_files_exist_def check_app_module_files_exists_def)+
  then show ?thesis
    using file_exists_fs[OF 1] file_exists_fs[OF 2] file_exists_fs[OF 3] 1 2 3 assms(2)
      file_exists_found[of "selinux_te_file ?m" w w1] file_exists_found[of "selinux_fc_file ?m" w1 w2]
      file_exists_found[of "selinux_if_file ?m" w2 w3]
    by (auto simp: rules_files_def)
qed

lemma selinux_install_steps:
  assumes "selinux_install L env c w = (rc, w')"
  obtains (fail) "rc < 0"
  | (ok) w1 v1 v2 where "rc = 0" "has_id c" "check_module_files_exist env c w1 = (True, v1)"
      "check_module_in_policy L c v1 = (True, v2)"
      "process_paths (install_definitions env (context_id c) w) (path_set c) v2 = (0, w')"
proof -
  let ?defs = "install_definitions env (context_id c) w"
  obtain r1 w1 where 1: "create_selinux_rules L env c ?defs w = (r1, w1)" by fastforce
  obtain ex v1 where 2: "check_module_files_exist env c w1 = (ex, v1)" by fastforce
  obtain inp v2 where 3: "check_module_in_policy L c v1 = (inp, v2)" by fastforce
  obtain r4 w4 where 4: "process_paths ?defs (path_set c) v2 = (r4, w4)" by fastforce
  have r4: "r4 \<le> 0" using process_paths_effect[OF 4] by simp
  show ?thesis
  proof (cases "has_id c \<and> \<not> r1 < 0 \<and> ex \<and> inp \<and> \<not> r4 < 0")
    case True
    then show ?thesis
      using assms 1 2 3 4 r4 by (intro ok[of w1 v1 v2]) (auto simp: selinux_install_def selinux_process_paths_def Let_def)
  next
    case False
    then show ?thesis
      using assms 1 2 3 4 r4
      by (intro fail) (auto simp: selinux_install_def selinux_process_paths_def Let_def split: if_splits)
  qed
qed

lemma remove_file_range: "remove_file p w = (rc, w') \<Longrightarrow> rc \<le> 0"
  by (auto simp: remove_file_def Let_def split: prod.splits if_splits)

interpretation selinux: mac_provider "selinux_mac L env :: 'z wstate mac_itf"
proof
  show "rc \<le> 0" if "mac_install (selinux_mac L env) c w = (rc, w')" for c rc and w w' :: "'z wstate"
  proof -
    have "selinux_install L env c w = (rc, w')" using that by (simp add: selinux_mac_def)
    then show ?thesis by (cases rule: selinux_install_steps) auto
  qed
  show "rc \<le> 0" if "mac_uninstall (selinux_mac L env) c w = (rc, w')" for c rc and w w' :: "'z wstate"
    using that by (auto simp: selinux_mac_def selinux_uninstall_def split: prod.splits if_splits)
  show "length (mac_get_label (selinux_mac L env :: 'z wstate mac_itf) i w) \<le> MAX_SIZE_LABEL" for i and w :: "'z wstate"
    by (simp add: selinux_mac_def selinux_get_label_def)
qed

section \<open>Properties of the installation\<close>

lemma ctx_inv_distinct: "ctx_inv c \<Longrightarrow> distinct (map path (path_set c))"
  by (simp add: ctx_inv_def ctx_unique_def path_keys.unique_keys_distinct)

text \<open>What is left of an identifier: all of it up to three characters, and else its first four.\<close>

lemma context_id_no_nul: "NUL \<notin> set (context_id c)"
  by (auto simp: context_id_def cstr_def dest: set_takeWhileD)

lemma cstr_append: "NUL \<notin> set p \<Longrightarrow> cstr (p @ r) = p @ cstr r"
  unfolding cstr_def by (induction p) auto

lemma cstr_here: "NUL \<notin> set p \<Longrightarrow> cstr (p @ NUL # r) = p"
  unfolding cstr_def by (induction p) auto

lemma underscored_no_nul: "NUL \<notin> set i \<Longrightarrow> NUL \<notin> set (underscored i)"
  by (auto simp: underscored_def)

lemma array_four: "4 \<le> length arr \<Longrightarrow> \<exists>a b c d r. arr = a # b # c # d # r"
  by (auto simp: numeral_eq_Suc Suc_le_length_iff)

lemma trfid_whole:
  assumes "length i \<le> 3" "NUL \<notin> set i" "4 \<le> length arr"
  shows "trfid i arr = underscored i"
proof -
  have e: "\<exists>r. trfid_loop i 0 arr = underscored i @ NUL # r"
  proof -
    obtain a b c d r where arr: "arr = a # b # c # d # r" using array_four[OF assms(3)] by blast
    consider "i = []" | x where "i = [x]" | x y where "i = [x, y]" | x y z where "i = [x, y, z]"
      using assms(1) by (auto simp: numeral_eq_Suc le_Suc_eq length_Suc_conv)
    then show ?thesis
      using assms(2) by cases (auto simp: arr trfid_loop.simps rd_def underscored_def Let_def)
  qed
  then obtain r where r: "trfid_loop i 0 arr = underscored i @ NUL # r" by blast
  have "length (underscored i) < 200" using assms(1) by (simp add: underscored_def)
  then obtain k where k: "MAX_SIZE_ID - length (underscored i) = Suc k" by (metis Suc_diff_Suc)
  have "(underscored i @ NUL # r)[MAX_SIZE_ID := NUL] = underscored i @ NUL # r[k := NUL]"
    using k \<open>length (underscored i) < 200\<close> by (simp add: list_update_append)
  then show ?thesis using cstr_here[OF underscored_no_nul[OF assms(2)]] unfolding trfid_def r by metis
qed

lemma trfid_cut:
  assumes "4 \<le> length i" "NUL \<notin> set i" "4 \<le> length arr"
  shows "prefix (underscored (take 4 i)) (trfid i arr)"
proof -
  obtain a b c d r where arr: "arr = a # b # c # d # r" using array_four[OF assms(3)] by blast
  obtain x y z u t where i: "i = x # y # z # u # t" using array_four[OF assms(1)] by blast
  have l: "trfid_loop i 0 arr = underscored (take 4 i) @ r"
    using assms(2) by (auto simp: arr i trfid_loop.simps rd_def underscored_def Let_def numeral_eq_Suc)
  have n: "NUL \<notin> set (underscored (take 4 i))"
    using assms(2) by (intro underscored_no_nul) (auto dest: in_set_takeD)
  have "length (underscored (take 4 i)) \<le> 200" by (simp add: underscored_def)
  then have "(underscored (take 4 i) @ r)[MAX_SIZE_ID := NUL] = underscored (take 4 i) @ r[MAX_SIZE_ID - length (underscored (take 4 i)) := NUL]"
    by (simp add: list_update_append)
  then have "trfid i arr = underscored (take 4 i) @ cstr (r[MAX_SIZE_ID - length (underscored (take 4 i)) := NUL])"
    using n by (simp only: trfid_def l) (rule cstr_append)
  then show ?thesis by simp
qed

text \<open>The label that a path has to carry, from the identifier and the name of its type.\<close>

definition selinux_label_of :: "string \<Rightarrow> path_type \<Rightarrow> string" where
  "selinux_label_of i t = ''system_u:object_r:''
     @ (if t = type_plug \<or> t = type_public then ''redpesk_public''
        else if t = type_id then underscored i else underscored i @ ''_'' @ path_type_name t) @ ''_t:s0''"

text \<open>
  The labels found: for an identifier of up to three characters, and for the public paths of
  every application, those that the paths have to carry; otherwise a label that starts with the
  first four characters of the identifier.
\<close>

definition selinux_labelled :: "string \<Rightarrow> path_t \<Rightarrow> 'z wstate \<Rightarrow> bool" where
  "selinux_labelled i p w \<longleftrightarrow>
     (if path_type p \<in> {type_plug, type_public} \<or> length i \<le> 3
      then attr_of w (path p) ''security.selinux'' = Some (selinux_label_of i (path_type p))
      else \<exists>rest. attr_of w (path p) ''security.selinux'' = Some (''system_u:object_r:'' @ underscored (take 4 i) @ rest))"

lemma path_label_object:
  assumes "path_type p \<notin> {type_unset, type_default, number_path_type}"
  shows "selinux_path_label (init_selinux_definitions old j) p =
    take 254 (''system_u:object_r:''
      @ (if path_type p = type_plug \<or> path_type p = type_public then ''redpesk_public''
         else if path_type p = type_id then j else j @ ''_'' @ path_type_name (path_type p)) @ ''_t'') @ '':s0''"
  using assms by (cases "path_type p") (simp_all add: selinux_path_label_def object_label_def snprintf_def)

lemma path_label_found:
  assumes "path_type p \<notin> {type_unset, type_default, number_path_type}"
    and "attr_of w' (path p) ''security.selinux'' = Some (selinux_path_label (install_definitions env i w) p)"
    and "NUL \<notin> set i"
  shows "selinux_labelled i p w'"
proof -
  let ?a = "id_memory env (Frame_install i) w"
  have a: "4 \<le> length ?a" by (simp add: id_memory_def)
  let ?j = "trfid i ?a" and ?q = "''system_u:object_r:'' @ underscored (take 4 i)"
  note lab = path_label_object[OF assms(1), of "stack_label env w" ?j, folded install_definitions_def]
  consider (pub) "path_type p \<in> {type_plug, type_public}" | (whole) "path_type p \<notin> {type_plug, type_public}" "length i \<le> 3"
    | (cut) "path_type p \<notin> {type_plug, type_public}" "4 \<le> length i" by force
  then show ?thesis
  proof cases
    case pub
    then show ?thesis using assms(2) lab by (auto simp: selinux_labelled_def selinux_label_of_def)
  next
    case whole
    have j: "?j = underscored i" by (rule trfid_whole[OF whole(2) assms(3) a])
    have "length (underscored i @ ''_'' @ path_type_name (path_type p) @ ''_t'') \<le> 236"
      using whole(2) by (cases "path_type p") (simp_all add: underscored_def)
    then show ?thesis
      using assms(2) lab whole unfolding j by (auto simp: selinux_labelled_def selinux_label_of_def)
  next
    case cut
    obtain r where j: "?j = underscored (take 4 i) @ r" using trfid_cut[OF cut(2) assms(3) a] by (auto simp: prefix_def)
    have q: "length ?q \<le> 254" by (simp add: underscored_def)
    have "take 254 (?q @ x) = ?q @ take (254 - length ?q) x" for x using q by (subst take_append) simp
    then have "\<exists>rest. selinux_path_label (install_definitions env i w) p = ?q @ rest"
      using cut(1) unfolding lab j by (cases "path_type p = type_id") auto
    then show ?thesis using assms(2) cut by (auto simp: selinux_labelled_def)
  qed
qed

lemma selinux_install_effect:
  assumes "ctx_inv c" "selinux_install L env c w = (0, w')"
  shows "has_id c \<and> (\<forall>i \<in> set (path_set c). path_type i \<noteq> type_default \<longrightarrow> selinux_labelled (context_id c) i w')"
  using assms(2)
proof (cases rule: selinux_install_steps)
  case (ok w1 v1 v2)
  have v: "path_type i \<noteq> type_unset \<and> path_type i \<noteq> number_path_type" if "i \<in> set (path_set c)" for i
    using assms(1) that by (simp add: ctx_inv_def ctx_sets_inv_def path_set_inv_def path_type_valid_iff)
  have "\<forall>i \<in> set (path_set c). attr_of w' (path i) XATTR_NAME_SELINUX =
      Some (selinux_path_label (install_definitions env (context_id c) w) i)"
    using process_paths_effect[OF ok(5)] ctx_inv_distinct[OF assms(1)] by blast
  then have "selinux_labelled (context_id c) i w'" if "i \<in> set (path_set c)" "path_type i \<noteq> type_default" for i
    using v[OF that(1)] that by (intro path_label_found[OF _ _ context_id_no_nul]) auto
  then show ?thesis using ok(2) by simp
qed simp

lemma selinux_install_files:
  assumes "semanage_keeps L (rules_files (init_selinux_module env c))" "selinux_install L env c w = (0, w')"
  shows "\<forall>f \<in> rules_files (init_selinux_module env c). fs w' f \<noteq> None"
  using assms(2)
proof (cases rule: selinux_install_steps)
  case (ok w1 v1 v2)
  have "quiet_semanage L (rules_files (init_selinux_module env c))" by (rule quiet_semanage.intro) (rule assms(1))
  from quiet_semanage.in_policy_leaves[OF this, of v1 c]
  have "leaves (rules_files (init_selinux_module env c)) v1 v2" using ok(4) by simp
  then show ?thesis using check_files_found[OF ok(3)] process_paths_kept[OF ok(5)] by (simp add: leaves_def)
qed simp

text \<open>
  C24: what a successful installation of an application under SELinux leaves, whatever calls
  of the system, of the library or of the compilation failed on the way: the session had an
  identifier; the te, if and fc files of its module are there, over a library that leaves them alone;
  every path of the session whose type has a label carries one. The label is the one the path has to
  carry, \<open>system_u:object_r:<identifier>_<type>_t:s0\<close> with underscores for the dashes, for every public
  path and every plug and, for the other types, when the identifier has at most three characters. For a
  longer identifier only the beginning of the label, up to the fourth character of the
  identifier, is certain: see \<open>selinux_label_wrong\<close> for the fault of the code.
\<close>

theorem selinux_install_labels:
  assumes "ctx_inv c" "selinux_install L env c w = (0, w')"
    and "semanage_keeps L {selinux_te_file (init_selinux_module env c), selinux_if_file (init_selinux_module env c),
      selinux_fc_file (init_selinux_module env c)}"
  shows "has_id c
    \<and> (\<forall>f \<in> {selinux_te_file (init_selinux_module env c), selinux_if_file (init_selinux_module env c),
         selinux_fc_file (init_selinux_module env c)}. fs w' f \<noteq> None)
    \<and> (\<forall>p \<in> set (path_set c). path_type p \<noteq> type_default \<longrightarrow>
         (if path_type p \<in> {type_plug, type_public} \<or> length (context_id c) \<le> 3
          then attr_of w' (path p) ''security.selinux'' = Some (selinux_label_of (context_id c) (path_type p))
          else \<exists>rest. attr_of w' (path p) ''security.selinux'' =
                 Some (''system_u:object_r:'' @ underscored (take 4 (context_id c)) @ rest)))"
  using selinux_install_effect[OF assms(1,2)] selinux_install_files[OF _ assms(2)] assms(3)
  unfolding rules_files_def selinux_labelled_def by blast

text \<open>An application over templates without tags, whose compilation creates the module.\<close>

definition demo_selinux_env :: "(unit, string list) machine selinux_env" where
  "demo_selinux_env = \<lparr>env_te_template = Some ''/te'', env_if_template = Some ''/if'', env_rules_dir = Some ''/r'',
     build_module = \<lambda>i w. (Exited 0, snd (create_file (''/r/'' @ i @ ''.pp'') w)),
     stack_id = \<lambda>f w n. CHR ''#'', stack_label = \<lambda>w t. ''garbage''\<rparr>"

definition demo_selinux_app :: "unit ctx" where
  "demo_selinux_app = \<lparr>id_array = ''demo'' @ replicate 197 NUL, permission_set = permission_set_init,
     path_set = [\<lparr>path_type = type_data, path = ''/d''\<rparr>], plugset = [],
     need_id = True, error_flag = False, permgr = None\<rparr>"

definition demo_selinux_machine :: "(unit, string list) machine" where
  "demo_selinux_machine = \<lparr>fs = [''/te'' \<mapsto> \<lparr>kind = FReg, xbit = False, content = ''te'', xattrs = Map.empty\<rparr>,
       ''/if'' \<mapsto> \<lparr>kind = FReg, xbit = False, content = ''if'', xattrs = Map.empty\<rparr>,
       ''/d'' \<mapsto> \<lparr>kind = FDir, xbit = True, content = [], xattrs = Map.empty\<rparr>],
     faults = [], cyn_state = \<lparr>handler = False, lib = ()\<rparr>, printed = [], mac_state = []\<rparr>"

lemma demo_selinux_inv: "ctx_inv demo_selinux_app"
proof -
  have "id_array_inv (''demo'' @ replicate 197 NUL)" by code_simp
  then show ?thesis
    by (simp add: ctx_inv_def ctx_sets_inv_def ctx_unique_def ctx_texts_def wants_id_def demo_selinux_app_def
        permission_set_inv_def permission_set_init_def path_set_inv_def plugset_inv_def
        perm_set.unique_keys_def path_keys.unique_keys_def plug_keys.unique_keys_def
        abs_path_def path_type_valid_iff)
qed

lemma demo_selinux_ok: "fst (selinux_install db_semanage demo_selinux_env demo_selinux_app demo_selinux_machine) = 0"
  by code_simp

text \<open>The same with an identifier of three characters.\<close>

definition demo_selinux_short :: "unit ctx" where
  "demo_selinux_short = demo_selinux_app\<lparr>id_array := ''a-b'' @ replicate 198 NUL\<rparr>"

lemma demo_selinux_short_inv: "ctx_inv demo_selinux_short"
proof -
  have "id_array_inv (''a-b'' @ replicate 198 NUL)" by code_simp
  then show ?thesis
    using demo_selinux_inv by (simp add: ctx_inv_def ctx_sets_inv_def ctx_unique_def ctx_texts_def wants_id_def demo_selinux_short_def)
qed

theorem selinux_install_labels_witness:
  "let w = snd (selinux_install db_semanage demo_selinux_env demo_selinux_short demo_selinux_machine)
   in attr_of w ''/d'' ''security.selinux'' = Some ''system_u:object_r:a_b_data_t:s0'' \<and> fs w ''/r/a-b.te'' \<noteq> None"
proof -
  have "fst (selinux_install db_semanage demo_selinux_env demo_selinux_short demo_selinux_machine) = 0" by code_simp
  then obtain w' where r: "selinux_install db_semanage demo_selinux_env demo_selinux_short demo_selinux_machine = (0, w')"
    by (metis prod.collapse)
  have i: "context_id demo_selinux_short = ''a-b''" by code_simp
  have f: "selinux_te_file (init_selinux_module demo_selinux_env demo_selinux_short) = ''/r/a-b.te''" by code_simp
  have "path_set demo_selinux_short = [\<lparr>path_type = type_data, path = ''/d''\<rparr>]"
    by (simp add: demo_selinux_short_def demo_selinux_app_def)
  moreover have "selinux_label_of ''a-b'' type_data = ''system_u:object_r:a_b_data_t:s0''" by code_simp
  ultimately show ?thesis
    using selinux_install_labels[OF demo_selinux_short_inv r db_semanage.keeps] r i f by simp
qed

text \<open>
  With a longer identifier the label of the data is not the one that it has to carry: the rest of the
  identifier is what the memory held.
\<close>

lemma selinux_label_wrong:
  "attr_of (snd (selinux_install db_semanage demo_selinux_env demo_selinux_app demo_selinux_machine)) ''/d'' ''security.selinux''
     \<noteq> Some (selinux_label_of ''demo'' type_data)"
  by code_simp

section \<open>Properties of the uninstallation\<close>

lemma remove_file_gone: "remove_file p w = (rc, w') \<Longrightarrow> \<not> rc < 0 \<Longrightarrow> fs w' p = None"
  by (auto simp: remove_file_def sys_remove_def Let_def elim!: sys_cases split: prod.splits if_splits)

lemma remove_file_other: "remove_file p w = (rc, w') \<Longrightarrow> fs w' q = None \<or> fs w' q = fs w q"
  by (cases "q = p")
     (auto simp: remove_file_def sys_remove_def Let_def elim!: sys_cases split: prod.splits if_splits)

definition module_files :: "selinux_module \<Rightarrow> string set" where
  "module_files m = {selinux_te_file m, selinux_if_file m, selinux_fc_file m, selinux_pp_file m}"


lemma remove_rules_files:
  assumes "semanage_keeps L (module_files (init_selinux_module env c))"
    "remove_selinux_rules L env c w = (rc, w')" "\<not> rc < 0"
  shows "\<forall>f \<in> module_files (init_selinux_module env c). fs w' f = None"
proof -
  let ?m = "init_selinux_module env c"
  have quiet: "quiet_semanage L (module_files ?m)" by (rule quiet_semanage.intro) (rule assms(1))
  obtain r1 w1 where 1: "remove_file (selinux_te_file ?m) w = (r1, w1)" by fastforce
  obtain r2 w2 where 2: "remove_file (selinux_if_file ?m) w1 = (r2, w2)" by fastforce
  obtain r3 w3 where 3: "remove_file (selinux_fc_file ?m) w2 = (r3, w3)" by fastforce
  obtain r4 w4 where 4: "remove_file (selinux_pp_file ?m) w3 = (r4, w4)" by fastforce
  obtain r5 oh w5 where 5: "create_semanage_handle L w4 = ((r5, oh), w5)" by (metis prod.collapse)
  have gone: "fs w4 f = None" if "f \<in> module_files ?m" "\<not> r1 < 0" "\<not> r2 < 0" "\<not> r3 < 0" "\<not> r4 < 0" for f
    using that remove_file_gone[OF 1] remove_file_gone[OF 2] remove_file_gone[OF 3] remove_file_gone[OF 4]
      remove_file_other[OF 2] remove_file_other[OF 3] remove_file_other[OF 4]
    unfolding module_files_def by (metis empty_iff insert_iff)
  have run: "remove_selinux_rules L env c w =
      (if r1 < 0 then (r1, w1) else if r2 < 0 then (r2, w2) else if r3 < 0 then (r3, w3)
       else if r4 < 0 then (r4, w4)
       else case oh of None \<Rightarrow> (r5, w5)
         | Some h \<Rightarrow> if r5 < 0 then (r5, w5)
            else case remove_module L h (context_id c) w5 of (rc, w) \<Rightarrow>
              (rc, snd (destroy_semanage_handle L h w)))"
    using 1 2 3 4 5
    by (simp add: remove_selinux_rules_def remove_app_module_files_def remove_pp_file_def Let_def split: option.splits)
  have oks: "\<not> r1 < 0" "\<not> r2 < 0" "\<not> r3 < 0" "\<not> r4 < 0"
    using run assms(2,3) by (auto split: if_splits)
  have l5: "leaves (module_files ?m) w4 w5" by (rule quiet_semanage.create_leaves[OF quiet 5])
  have "leaves (module_files ?m) w5 w'"
  proof (cases oh)
    case None
    then show ?thesis using run oks assms(2) by simp
  next
    case (Some h)
    obtain r6 w6 where 6: "remove_module L h (context_id c) w5 = (r6, w6)" by fastforce
    have "leaves (module_files ?m) w5 w6"
      using quiet_semanage.remove_module_leaves[OF quiet, of w5 h "context_id c"] 6 by simp
    moreover have "leaves (module_files ?m) w6 (snd (destroy_semanage_handle L h w6))"
      by (rule quiet_semanage.destroy_leaves[OF quiet])
    ultimately show ?thesis
      using run oks assms(2) Some 6 by (auto split: if_splits intro: leaves_trans)
  qed
  then show ?thesis using l5 gone oks by (simp add: leaves_def)
qed

lemma check_files_fs: "fs (snd (check_module_files_exist env c w)) = fs w"
proof -
  let ?m = "init_selinux_module env c"
  obtain a w1 where 1: "file_exists (selinux_te_file ?m) w = (a, w1)" by fastforce
  obtain b w2 where 2: "file_exists (selinux_fc_file ?m) w1 = (b, w2)" by fastforce
  obtain d w3 where 3: "file_exists (selinux_if_file ?m) w2 = (d, w3)" by fastforce
  show ?thesis
    using file_exists_fs[OF 1] file_exists_fs[OF 2] file_exists_fs[OF 3] 1 2 3
    by (simp add: check_module_files_exist_def check_app_module_files_exists_def)
qed

lemma selinux_uninstall_files:
  assumes "semanage_keeps L (module_files (init_selinux_module env c))" "selinux_uninstall L env c w = (0, w')"
  shows "\<forall>f \<in> module_files (init_selinux_module env c). fs w' f = None"
proof -
  let ?P = "module_files (init_selinux_module env c)"
  have quiet: "quiet_semanage L ?P" by (rule quiet_semanage.intro) (rule assms(1))
  obtain e1 w1 where 1: "check_module_files_exist env c w = (e1, w1)" by fastforce
  obtain e2 w2 where 2: "check_module_in_policy L c w1 = (e2, w2)" by fastforce
  obtain r3 w3 where 3: "remove_selinux_rules L env c w2 = (r3, w3)" by fastforce
  obtain e4 w4 where 4: "check_module_files_exist env c w3 = (e4, w4)" by fastforce
  obtain e5 w5 where 5: "check_module_in_policy L c w4 = (e5, w5)" by fastforce
  have run: "\<not> r3 < 0 \<and> w' = w5"
    using assms(2) 1 2 3 4 5 by (simp add: selinux_uninstall_def split: if_splits)
  have "\<forall>f \<in> ?P. fs w3 f = None" using remove_rules_files[OF assms(1) 3] run by simp
  moreover have "fs w4 = fs w3" using check_files_fs[of env c w3] 4 by simp
  moreover have "leaves ?P w4 w5" using quiet_semanage.in_policy_leaves[OF quiet, of w4 c] 5 by simp
  ultimately show ?thesis using run by (simp add: leaves_def)
qed

text \<open>
  C25: over a library that leaves the rules files alone, a successful uninstallation under
  SELinux has removed the four files of the module, whatever calls failed on the way.
\<close>

theorem selinux_uninstall_removes:
  assumes "semanage_keeps L (module_files (init_selinux_module env c))" "selinux_uninstall L env c w = (0, w')"
  shows "\<forall>f \<in> {selinux_te_file (init_selinux_module env c), selinux_if_file (init_selinux_module env c),
      selinux_fc_file (init_selinux_module env c), selinux_pp_file (init_selinux_module env c)}. fs w' f = None"
  using selinux_uninstall_files[OF assms] unfolding module_files_def .

theorem selinux_uninstall_removes_witness:
  "fs (snd (selinux_uninstall db_semanage demo_selinux_env demo_selinux_app
     (snd (selinux_install db_semanage demo_selinux_env demo_selinux_app demo_selinux_machine)))) ''/r/demo.pp'' = None"
proof -
  let ?v = "snd (selinux_install db_semanage demo_selinux_env demo_selinux_app demo_selinux_machine)"
  have "fst (selinux_uninstall db_semanage demo_selinux_env demo_selinux_app ?v) = 0" by code_simp
  then obtain w' where r: "selinux_uninstall db_semanage demo_selinux_env demo_selinux_app ?v = (0, w')"
    by (metis prod.collapse)
  have k: "semanage_keeps db_semanage (module_files (init_selinux_module demo_selinux_env demo_selinux_app))"
    by (rule db_semanage.keeps)
  have p: "selinux_pp_file (init_selinux_module demo_selinux_env demo_selinux_app) = ''/r/demo.pp''" by code_simp
  from selinux_uninstall_removes[OF k r] show ?thesis using r p by simp
qed

section \<open>Labels of identifiers\<close>

lemma trfid_four:
  assumes "4 \<le> length i" "4 \<le> length j" "take 4 i = take 4 j"
  shows "trfid i arr = trfid j arr"
proof -
  have rdi: "rd i n = rd j n" if "n < 4" for n
    using assms that by (metis nth_take order.strict_trans2 rd_def)
  have "trfid_loop i n a = trfid_loop j n a" if "n < 4" for n a
    using that
  proof (induction "4 - n" arbitrary: n a rule: less_induct)
    case less
    show ?case
    proof (cases "n + 1 < 4")
      case True
      then have "trfid_loop i (n + 1) b = trfid_loop j (n + 1) b" for b by (intro less.hyps) simp_all
      then show ?thesis by (simp add: trfid_loop.simps[of _ n] rdi[OF less.prems] Let_def)
    next
      case False
      then show ?thesis by (simp add: trfid_loop.simps[of _ n] rdi[OF less.prems] Let_def)
    qed
  qed
  then show ?thesis by (simp add: trfid_def)
qed

text \<open>
  Under SELinux only the first four characters of an identifier count: two applications
  whose identifiers start with the same four characters have the same process label, and the
  same labels on their paths, when the memory they are completed with is the same.
\<close>

theorem selinux_label_collision:
  assumes "4 \<le> length i" "4 \<le> length j" "take 4 i = take 4 j"
    and "stack_id env (Frame_get_label i) w = stack_id env (Frame_get_label j) w"
    and "stack_id env (Frame_install i) w = stack_id env (Frame_install j) w"
  shows "selinux_get_label env i w = selinux_get_label env j w \<and> install_definitions env i w = install_definitions env j w"
  using trfid_four[OF assms(1-3)] assms(4,5) by (simp add: selinux_get_label_def install_definitions_def id_memory_def)

theorem selinux_label_collision_witness:
  "selinux_get_label demo_selinux_env ''demo-one'' w = selinux_get_label demo_selinux_env ''demo-two'' w"
  using selinux_label_collision[of "''demo-one''" "''demo-two''" demo_selinux_env w] by (simp add: demo_selinux_env_def)

text \<open>The label of a process is the right one up to three characters, and starts as it should else.\<close>

lemma selinux_get_label_known:
  assumes "NUL \<notin> set i"
  shows "if length i \<le> 3 then selinux_get_label env i w = ''system_u:system_r:'' @ underscored i @ ''_t:s0''
    else prefix (''system_u:system_r:'' @ underscored (take 4 i)) (selinux_get_label env i w)"
proof -
  let ?a = "id_memory env (Frame_get_label i) w"
  have a: "4 \<le> length ?a" by (simp add: id_memory_def)
  have g: "selinux_get_label env i w = take 200 (''system_u:system_r:'' @ trfid i ?a @ ''_t:s0'')"
    by (cases "length (trfid i ?a) \<le> 236") (simp_all add: selinux_get_label_def snprintf_def)
  show ?thesis
  proof (cases "length i \<le> 3")
    case True
    have "length (''system_u:system_r:'' @ underscored i @ ''_t:s0'') \<le> 200" using True by (simp add: underscored_def)
    then show ?thesis using True g trfid_whole[OF True assms a] by simp
  next
    case False
    then obtain r where r: "trfid i ?a = underscored (take 4 i) @ r" using trfid_cut[OF _ assms a] by (auto simp: prefix_def)
    let ?q = "''system_u:system_r:'' @ underscored (take 4 i)"
    have "take 200 (?q @ r @ ''_t:s0'') = ?q @ take (200 - length ?q) (r @ ''_t:s0'')"
      by (subst take_append) (simp add: underscored_def)
    then show ?thesis using False g unfolding r by simp
  qed
qed

end
