(* ===== verification/Selinux_Sim.thy ===== *)
theory Selinux_Sim
  imports Selinux_Props
begin

text \<open>
  \<open>src/simulation/selinux/selinux.c\<close>: the library \<open>libsemanage\<close> that the tests use, whose modules
  are the files of a directory, and its place under the interface of \<open>Selinux\<close>. The state of
  the kernel is the count of handles given. \<open>listing\<close> is what \<open>readdir\<close> gives for that
  directory. The duplication of a path is taken to succeed.
\<close>

section \<open>The simulated library\<close>

abbreviation (input) SELINUX_POLICY_DIR :: string where
  "SELINUX_POLICY_DIR \<equiv> ''/usr/share/sec-lsm-managerselinux-simulation''"

abbreviation (input) SIM_RULES_DIR :: string where
  "SIM_RULES_DIR \<equiv> ''/usr/share/sec-lsm-managerselinux-rules''"

abbreviation (input) SEMIFO_NAMELEN :: nat where "SEMIFO_NAMELEN \<equiv> 256"

type_synonym 'c sim_state = "('c, nat) machine"

definition mkdir_sim :: "string \<Rightarrow> 'z wstate \<Rightarrow> int \<times> 'z wstate" where
  "mkdir_sim p = sys [EEXIST] (\<lambda>w.
     if fs w p \<noteq> None then (- EEXIST, w)
     else (0, w\<lparr>fs := (fs w)(p \<mapsto> \<lparr>kind = FDir, xbit = True, content = [], xattrs = Map.empty\<rparr>)\<rparr>))"

definition basename :: "string \<Rightarrow> string" where
  "basename p = rev (takeWhile (\<lambda>x. x \<noteq> SLASH) (rev p))"

definition policy_file :: "string \<Rightarrow> string" where
  "policy_file n = snd (snprintf MAX_SIZE_PATH (SELINUX_POLICY_DIR @ [SLASH] @ n))"

text \<open>The value returned and the \<open>errno\<close> of the creation that gave it.\<close>

definition sim_install_file :: "string \<Rightarrow> 'z wstate \<Rightarrow> (int \<times> int) \<times> 'z wstate" where
  "sim_install_file file_path w =
     (let w = snd (mkdir_sim SELINUX_POLICY_DIR w); b = basename file_path; b = take (length b - 3) b
      in case create_file (policy_file b) w of (rc, w) \<Rightarrow> ((rc, - rc), w))"

definition sim_remove :: "string \<Rightarrow> 'z wstate \<Rightarrow> (int \<times> int) \<times> 'z wstate" where
  "sim_remove module_name w = ((0, 0), snd (sys_remove (policy_file module_name) w))"

definition sim_list :: "((string \<rightharpoonup> inode) \<Rightarrow> string list) \<Rightarrow> 'z wstate \<Rightarrow> ((int \<times> int) \<times> string list) \<times> 'z wstate" where
  "sim_list listing w = (case sys_malloc w of (ok, w) \<Rightarrow>
     if \<not> ok then (((- 1, ENOMEM), []), w) else (((0, 0), map (take SEMIFO_NAMELEN) (listing (fs w))), w))"

definition sim_semanage :: "((string \<rightharpoonup> inode) \<Rightarrow> string list) \<Rightarrow> (nat, string, 'c sim_state) semanage_lib" where
  "sim_semanage listing = \<lparr>
     semanage_handle_create = \<lambda>w. ((Some (mac_state w + 1), 0), w\<lparr>mac_state := mac_state w + 1\<rparr>),
     semanage_set_create_store = \<lambda>h n w. w,
     semanage_connect = \<lambda>h w. ((0, 0), w),
     semanage_set_default_priority = \<lambda>h n w. ((0, 0), w),
     semanage_is_connected = \<lambda>h w. (False, w),
     semanage_disconnect = \<lambda>h w. ((0, 0), w),
     semanage_handle_destroy = \<lambda>h w. w,
     semanage_module_install_file = \<lambda>h. sim_install_file,
     semanage_commit = \<lambda>h w. ((0, 0), w),
     semanage_module_remove = \<lambda>h. sim_remove,
     semanage_module_list = \<lambda>h. sim_list listing,
     semanage_module_info_get_name = \<lambda>h i w. (((0, 0), i), w),
     semanage_module_info_destroy = \<lambda>h i w. w,
     is_selinux_enabled = \<lambda>w. (1, w)\<rparr>"

text \<open>The simulated compilation creates the file of the module.\<close>

definition sim_compile :: "string \<Rightarrow> 'z wstate \<Rightarrow> int \<times> 'z wstate" where
  "sim_compile i w = create_file (snd (snprintf MAX_SIZE_PATH (SIM_RULES_DIR @ [SLASH] @ i @ ''.pp''))) w"

section \<open>The contract\<close>

lemma policy_file_prefix: "take (length SELINUX_POLICY_DIR) (policy_file n) = SELINUX_POLICY_DIR"
  by (simp add: policy_file_def snprintf_def)

lemma sys_remove_leaves:
  assumes "p \<notin> P"
  shows "leaves P w (snd (sys_remove p w))"
proof (cases "sys_remove p w")
  case (Pair rc v)
  have "fs v q = fs w q" if "q \<in> P" for q using sys_fs_frame(5)[OF Pair, of q] that assms by blast
  then show ?thesis using Pair by (simp add: leaves_def)
qed

lemma sys_malloc_leaves: "sys_malloc w = (ok, w') \<Longrightarrow> leaves P w w'"
  by (auto simp: leaves_def dest: sys_malloc_rest)

text \<open>The library touches nothing out of its directory.\<close>

definition elsewhere :: "string set" where
  "elsewhere = {q. take (length SELINUX_POLICY_DIR) q \<noteq> SELINUX_POLICY_DIR}"

lemma policy_file_elsewhere: "policy_file n \<notin> elsewhere"
  using policy_file_prefix[of n] unfolding elsewhere_def by blast

lemma sim_leaves:
  "leaves elsewhere w (snd (sim_remove n w))" "leaves elsewhere w (snd (sim_list listing w))"
  unfolding sim_remove_def snd_conv
  by (rule sys_remove_leaves[OF policy_file_elsewhere])
    (cases "sys_malloc w", auto simp: sim_list_def intro: sys_malloc_leaves)

interpretation sim: quiet_semanage "sim_semanage listing :: (nat, string, 'c sim_state) semanage_lib" elsewhere
  by unfold_locales (simp add: semanage_keeps_def sim_semanage_def sim_leaves, simp add: leaves_def)

text \<open>
  A module that is installed is found by its name as long as the directory lists the file that
  was created, whose name has to be short enough.
\<close>

lemma sim_module_found:
  assumes "sim_install_file (d @ [SLASH] @ n @ ''.pp'') w = ((0, e), w')" "SLASH \<notin> set n" "length n \<le> SEMIFO_NAMELEN"
    and "faults w' = []" "n \<in> set (listing (fs w'))"
  shows "fs w' (policy_file n) \<noteq> None \<and> fst (check_module (sim_semanage listing :: (nat, string, 'c sim_state) semanage_lib) h n w')"
proof -
  have f: "fst (find_module (sim_semanage listing :: (nat, string, 'c sim_state) semanage_lib) h n infos v)"
    if "n \<in> set infos" for infos v
    using that by (induction infos) (auto simp: sim_semanage_def)
  have "n \<in> set (map (take SEMIFO_NAMELEN) (listing (fs w')))" using assms(3,5) by force
  note found = f[OF this]
  have l: "semanage_module_list (sim_semanage listing :: (nat, string, 'c sim_state) semanage_lib) h w' =
      (((0, 0), map (take SEMIFO_NAMELEN) (listing (fs w'))), w')"
    using assms(4) by (simp add: sim_semanage_def sim_list_def sys_malloc_nil)
  have b: "take (length (basename (d @ [SLASH] @ n @ ''.pp'')) - 3) (basename (d @ [SLASH] @ n @ ''.pp'')) = n"
  proof -
    have "takeWhile (\<lambda>x. x \<noteq> SLASH) (rev n @ SLASH # rev d) = rev n"
      using assms(2) by (subst takeWhile_append2) auto
    then show ?thesis by (simp add: basename_def)
  qed
  have "fst (check_module (sim_semanage listing :: (nat, string, 'c sim_state) semanage_lib) h n w')"
    using found[of w'] unfolding check_module_def l by (auto split: prod.split)
  moreover have "fs w' (policy_file n) \<noteq> None"
    using assms(1) unfolding sim_install_file_def Let_def b
    by (auto simp: create_file_def sys_creat_def Let_def elim!: sys_cases split: prod.splits if_splits option.splits)
  ultimately show ?thesis by simp
qed

end
