(* ===== verification/Client.thy ===== *)
theory Client
  imports Context_Inv Prot_In Action Utf8_Utils
begin

text \<open>
  \<open>src/protocol/client.c\<close>: the session of the daemon with one client. A session is the
  client structure with what it acts on: the channel of its descriptors, the global flag of
  the log, the lines of the log of the protocol, the descriptors closed so far, and the system.
  Requests are handled over any host (permission manager and MAC). The other messages printed on
  the error stream are left out.
\<close>

section \<open>State\<close>

record 'z client =
  cprot :: prot
  cctx :: "'z wstate perm_mgr_itf ctx"
  version :: nat
  invalid :: bool
  fdin :: int
  fdout :: int

record 'z session =
  cl :: "'z client"
  chn :: chan
  server_log :: bool
  plog :: "(bool \<times> string list) list"
  closed :: "int list"
  world :: "'z wstate"

definition on_prot :: "(prot \<Rightarrow> prot) \<Rightarrow> 'z session \<Rightarrow> 'z session" where
  "on_prot f s = s\<lparr>cl := (cl s)\<lparr>cprot := f (cprot (cl s))\<rparr>\<rparr>"

definition set_link :: "prot \<Rightarrow> chan \<Rightarrow> 'z session \<Rightarrow> 'z session" where
  "set_link p ch s = s\<lparr>cl := (cl s)\<lparr>cprot := p\<rparr>, chn := ch\<rparr>"

definition set_ctx ::
  "'z wstate perm_mgr_itf ctx \<Rightarrow> 'z wstate \<Rightarrow> 'z session \<Rightarrow> 'z session" where
  "set_ctx c w s = s\<lparr>cl := (cl s)\<lparr>cctx := c\<rparr>, world := w\<rparr>"

section \<open>Names of \<open>sec-lsm-manager-protocol.c\<close>\<close>

abbreviation (input) n_clear :: string where "n_clear \<equiv> ''clear''"
abbreviation (input) n_display :: string where "n_display \<equiv> ''display''"
abbreviation (input) n_done :: string where "n_done \<equiv> ''done''"
abbreviation (input) n_error :: string where "n_error \<equiv> ''error''"
abbreviation (input) n_id :: string where "n_id \<equiv> ''id''"
abbreviation (input) n_install :: string where "n_install \<equiv> ''install''"
abbreviation (input) n_log :: string where "n_log \<equiv> ''log''"
abbreviation (input) n_off :: string where "n_off \<equiv> ''off''"
abbreviation (input) n_on :: string where "n_on \<equiv> ''on''"
abbreviation (input) n_path :: string where "n_path \<equiv> ''path''"
abbreviation (input) n_permission :: string where "n_permission \<equiv> ''permission''"
abbreviation (input) n_plug :: string where "n_plug \<equiv> ''plug''"
abbreviation (input) n_sec_lsm_manager :: string where "n_sec_lsm_manager \<equiv> ''sec-lsm-manager''"
abbreviation (input) n_string :: string where "n_string \<equiv> ''string''"
abbreviation (input) n_uninstall :: string where "n_uninstall \<equiv> ''uninstall''"

abbreviation (input) VERSION_BITS :: nat where "VERSION_BITS \<equiv> 3"
abbreviation (input) PROTOCOL_VERSION_1 :: nat where "PROTOCOL_VERSION_1 \<equiv> 1"
abbreviation (input) PROTOCOL_VERSION_1_STRING :: string where "PROTOCOL_VERSION_1_STRING \<equiv> ''1''"
abbreviation (input) DEFAULT_PROTOCOL_VERSION :: nat where
  "DEFAULT_PROTOCOL_VERSION \<equiv> PROTOCOL_VERSION_1"
abbreviation (input) MAX_PUTX_ITEMS :: nat where "MAX_PUTX_ITEMS \<equiv> 15"

text \<open>The comparison of \<open>ckarg\<close>, from the offset on: the value may end before the argument.\<close>

fun ckarg_loop :: "string \<Rightarrow> string \<Rightarrow> bool" where
  "ckarg_loop [] v \<longleftrightarrow> v = []"
| "ckarg_loop (c # a) v \<longleftrightarrow> (case v of [] \<Rightarrow> False | d # v \<Rightarrow> c = d \<and> ckarg_loop a v)"

definition ckarg :: "string \<Rightarrow> string \<Rightarrow> nat \<Rightarrow> bool" where
  "ckarg arg value offset = ckarg_loop (drop offset arg) (drop offset value)"

section \<open>Output\<close>

text \<open>
  The log of the protocol: the direction, true from the client to the server, and the fields of each
  record, in the order of the lines printed; the text of a line is \<open>protocol_line\<close> of \<open>Logging\<close>.
\<close>

definition dolog_protocol :: "bool \<Rightarrow> string list \<Rightarrow> 'z session \<Rightarrow> 'z session" where
  "dolog_protocol c2s record s = (if server_log s then s\<lparr>plog := plog s @ [(c2s, record)]\<rparr> else s)"

text \<open>\<open>poll\<close> with a null timeout returns at once; its failures are scheduled.\<close>

function poll_retry :: "'z wstate \<Rightarrow> int \<times> 'z wstate" where
  "poll_retry w =
     (case pop_fault w of (e, w1) \<Rightarrow> if e = EINTR then poll_retry w1 else (- e, w1))"
  by pat_completeness auto
termination
  by (relation "measure (\<lambda>w. length (faults w))") (auto simp: pop_fault_def split: list.splits)

declare poll_retry.simps [simp del]

text \<open>
  The loop of \<open>flushw\<close>, with fuel: a turn uses an event of the channel or writes bytes, so
  \<open>flush_fuel\<close> turns are enough for a well-formed buffer.
\<close>

fun flushw_loop :: "nat \<Rightarrow> 'z session \<Rightarrow> (int \<times> 'z session) option" where
  "flushw_loop 0 s = None"
| "flushw_loop (Suc n) s =
     (if \<not> prot_should_write (cprot (cl s)) then Some (0, s)
      else case prot_write (cprot (cl s)) (chn s) of (rc, p, ch) \<Rightarrow>
        let s = set_link p ch s
        in if rc \<ge> 0 then flushw_loop n s
           else if rc = - ENODATA then Some (0, s)
           else if rc \<noteq> - EAGAIN then Some (rc, s)
           else case poll_retry (world s) of (rc, w) \<Rightarrow>
             if rc \<ge> 0 then flushw_loop n (s\<lparr>world := w\<rparr>) else Some (rc, s\<lparr>world := w\<rparr>))"

definition flush_fuel :: "'z session \<Rightarrow> nat" where
  "flush_fuel s = length (tx (chn s)) + wrokcnt (cprot (cl s)) + 1"

definition flushw :: "'z session \<Rightarrow> int \<times> 'z session" where
  "flushw s = (case flushw_loop (flush_fuel s) s of None \<Rightarrow> (- ELOOP, s) | Some r \<Rightarrow> r)"

definition put_record :: "string list \<Rightarrow> 'z session \<Rightarrow> int \<times> 'z session" where
  "put_record args s =
     (case prot_put (cprot (cl s)) (map Some args) of (rc, p) \<Rightarrow> (rc, on_prot (\<lambda>_. p) s))"

definition putx :: "string list \<Rightarrow> 'z session \<Rightarrow> int \<times> 'z session" where
  "putx args s =
     (if length args > MAX_PUTX_ITEMS then (- EINVAL, s)
      else case put_record args (dolog_protocol False args s) of (rc, s) \<Rightarrow>
        if rc = - ECANCELED then
          (case flushw s of (rc, s) \<Rightarrow> if rc = 0 then put_record args s else (rc, s))
        else (rc, s))"

definition send_done :: "string option \<Rightarrow> 'z session \<Rightarrow> 'z session" where
  "send_done arg s =
     snd (flushw (snd (putx (n_done # (case arg of None \<Rightarrow> [] | Some a \<Rightarrow> [a])) s)))"

definition send_error :: "string \<Rightarrow> 'z session \<Rightarrow> 'z session" where
  "send_error errorstr s =
     (let s = set_ctx (context_raise_error (cctx (cl s))) (world s) s
      in snd (flushw (snd (putx [n_error, errorstr] s))))"

definition display_id :: "string \<Rightarrow> 'z session \<Rightarrow> int \<times> 'z session" where
  "display_id i = putx [n_string, n_id, i]"

definition display_path :: "string \<Rightarrow> string \<Rightarrow> 'z session \<Rightarrow> int \<times> 'z session" where
  "display_path p t = putx [n_string, n_path, p, t]"

definition display_permission :: "string \<Rightarrow> 'z session \<Rightarrow> int \<times> 'z session" where
  "display_permission p = putx [n_string, n_permission, p]"

definition display_plug :: "string \<Rightarrow> string \<Rightarrow> string \<Rightarrow> 'z session \<Rightarrow> int \<times> 'z session" where
  "display_plug exp i imp = putx [n_string, n_plug, exp, i, imp]"

definition display_visitor_itf :: "'z session context_visitor" where
  "display_visitor_itf = \<lparr>visit_id = Some display_id, visit_path = Some display_path,
     visit_permission = Some display_permission, visit_plug = Some display_plug\<rparr>"

definition send_display :: "'z session \<Rightarrow> int \<times> 'z session" where
  "send_display s =
     (case (if context_has_error (cctx (cl s)) then putx [n_string, n_error, n_on] s else (0, s)) of
        (rc, s) \<Rightarrow>
          if rc = 0 then context_visit (cctx (cl s)) display_visitor_itf s else (rc, s))"

section \<open>Requests\<close>

text \<open>The last argument that names a known version, but the first one.\<close>

fun handshake :: "string list \<Rightarrow> nat \<Rightarrow> string option" where
  "handshake args 0 = None"
| "handshake args (Suc idx) =
     (if idx = 0 then None
      else if ckarg (args ! idx) PROTOCOL_VERSION_1_STRING 0 then Some (args ! idx)
      else handshake args idx)"

definition invalid_protocol :: "'z session \<Rightarrow> 'z session" where
  "invalid_protocol s = (let s = send_error ''protocol'' s in s\<lparr>cl := (cl s)\<lparr>invalid := True\<rparr>\<rparr>)"

definition id_error :: "int \<Rightarrow> string" where
  "id_error e = (if e = ENOTRECOVERABLE then ''not-recoverable'' else if e = EINVAL then ''invalid''
     else if e = EEXIST then ''already-set'' else ''internal'')"

definition install_error :: "int \<Rightarrow> string" where
  "install_error e = (if e = ENOTRECOVERABLE then ''not-recoverable'' else if e = EINVAL then ''invalid''
     else if e = EPERM then ''forbidden'' else ''internal'')"

definition path_error :: "int \<Rightarrow> string" where
  "path_error e = (if e = ENOTRECOVERABLE then ''not-recoverable'' else if e = EINVAL then ''invalid''
     else if e = EEXIST then ''already-set'' else if e = ENOENT then ''not-found''
     else if e = EACCES then ''no-access'' else ''internal'')"

definition permission_error :: "int \<Rightarrow> string" where
  "permission_error e = (if e = ENOTRECOVERABLE then ''not-recoverable'' else if e = EINVAL then ''invalid''
     else if e = EEXIST then ''already-set'' else ''internal'')"

definition plug_error :: "int \<Rightarrow> string" where
  "plug_error e = (if e = ENOTRECOVERABLE then ''not-recoverable'' else if e = EINVAL then ''invalid''
     else if e = EEXIST then ''already-set'' else if e = ENOENT then ''not-found''
     else if e = EACCES then ''no-access'' else if e = ENOTDIR then ''not-dir'' else ''internal'')"

definition uninstall_error :: "int \<Rightarrow> string" where
  "uninstall_error e = (if e = ENOTRECOVERABLE then ''not-recoverable'' else if e = EINVAL then ''invalid''
     else ''internal'')"

text \<open>\<open>if (rc >= 0) send_done (client, NULL); else switch (-rc) ... send_error (client, errtxt);\<close>\<close>

definition reply_status :: "(int \<Rightarrow> string) \<Rightarrow> int \<Rightarrow> 'z session \<Rightarrow> 'z session" where
  "reply_status errtxt rc s = (if rc \<ge> 0 then send_done None s else send_error (errtxt (- rc)) s)"

definition dispatch :: "'z wstate host \<Rightarrow> string list \<Rightarrow> 'z session \<Rightarrow> 'z session" where
  "dispatch H args s =
     (let n = length args; a0 = args ! 0; car = rd a0 0; c = cctx (cl s); w = world s
      in if car = CHR ''c'' then
           (if ckarg a0 n_clear 1 \<and> n = 1 then send_done None (set_ctx (context_clear c) w s)
            else invalid_protocol s)
         else if car = CHR ''d'' then
           (if ckarg a0 n_display 1 \<and> n = 1 then
              (case send_display s of (rc, s) \<Rightarrow>
                 if rc \<ge> 0 then send_done None s else send_error ''internal'' s)
            else invalid_protocol s)
         else if car = CHR ''i'' then
           (if ckarg a0 n_id 1 \<and> n = 2 then
              (case context_set_id c (args ! 1) of (rc, c) \<Rightarrow> reply_status id_error rc (set_ctx c w s))
            else if ckarg a0 n_install 1 \<and> n = 1 then
              (case action_install H c w of (rc, w) \<Rightarrow> reply_status install_error rc (set_ctx c w s))
            else invalid_protocol s)
         else if car = CHR ''l'' then
           (if ckarg a0 n_log 1 \<and> n \<le> 2 then
              (if n = 2 \<and> \<not> ckarg (args ! 1) n_on 0 \<and> \<not> ckarg (args ! 1) n_off 0
               then invalid_protocol s
               else
                 let nextlog = (if n = 2 then ckarg (args ! 1) n_on 0 else server_log s);
                     s = send_done (Some (if nextlog then n_on else n_off)) s
                 in s\<lparr>server_log := nextlog\<rparr>)
            else invalid_protocol s)
         else if car = CHR ''p'' then
           (if ckarg a0 n_path 1 \<and> n = 3 then
              (case context_add_path c (args ! 1) (args ! 2) w of (rc, c, w) \<Rightarrow>
                 reply_status path_error rc (set_ctx c w s))
            else if ckarg a0 n_permission 1 \<and> n = 2 then
              (case context_add_permission c (args ! 1) w of (rc, c, w) \<Rightarrow>
                 reply_status permission_error rc (set_ctx c w s))
            else if ckarg a0 n_plug 1 \<and> n = 4 then
              (case context_add_plug c (args ! 1) (args ! 2) (args ! 3) w of (rc, c, w) \<Rightarrow>
                 reply_status plug_error rc (set_ctx c w s))
            else invalid_protocol s)
         else if car = CHR ''u'' then
           (if ckarg a0 n_uninstall 1 \<and> n = 1 then
              (case action_uninstall H c w of (rc, w) \<Rightarrow> reply_status uninstall_error rc (set_ctx c w s))
            else invalid_protocol s)
         else invalid_protocol s)"

definition check_utf8 :: "string list \<Rightarrow> bool" where
  "check_utf8 args \<longleftrightarrow> list_all is_utf8 (rev args)"

definition onrequest :: "'z wstate host \<Rightarrow> string list \<Rightarrow> 'z session \<Rightarrow> 'z session" where
  "onrequest H args s =
     (if args = [] then s
      else let s = dolog_protocol True args s
      in if \<not> check_utf8 args then invalid_protocol s
      else if version (cl s) = 0 \<and> ckarg (args ! 0) n_sec_lsm_manager 0 then
        (case handshake args (length args) of
           None \<Rightarrow> invalid_protocol s
         | Some arg \<Rightarrow>
             send_done (Some arg)
               (s\<lparr>cl := (cl s)\<lparr>version := PROTOCOL_VERSION_1 mod 2 ^ VERSION_BITS\<rparr>\<rparr>))
      else dispatch H args
        (if version (cl s) = 0 then s\<lparr>cl := (cl s)\<lparr>version := DEFAULT_PROTOCOL_VERSION\<rparr>\<rparr> else s))"

section \<open>Life of a client\<close>

definition client_create ::
  "'z client \<Rightarrow> int \<Rightarrow> int \<Rightarrow> 'z wstate \<Rightarrow> int \<times> 'z client option \<times> 'z wstate" where
  "client_create mem fin fout w =
     (if fin < 0 \<or> fout < 0 then (- EINVAL, None, w)
      else case sys_malloc w of (ok, w) \<Rightarrow>
        if \<not> ok then (- ENOMEM, None, w)
        else case sys_malloc w of (ok, w) \<Rightarrow>
          case prot_create (if ok then Some (cprot mem) else None) of
            (rc, None) \<Rightarrow> (rc, None, w)
          | (rc, Some p) \<Rightarrow>
              if rc < 0 then (rc, None, w)
              else case context_create (cctx mem) w of
                (rc, None, w) \<Rightarrow> (rc, None, w)
              | (rc, Some c, w) \<Rightarrow>
                  if rc < 0 then (rc, None, w)
                  else (0, Some \<lparr>cprot = p, cctx = c, version = 0, invalid = False,
                                 fdin = fin, fdout = fout\<rparr>, w))"

definition client_is_connected :: "'z client \<Rightarrow> bool" where
  "client_is_connected c \<longleftrightarrow> fdin c \<ge> 0"

definition disconnect :: "'z session \<Rightarrow> 'z session" where
  "disconnect s = s\<lparr>closed := closed s @ (if fdin (cl s) \<noteq> fdout (cl s) then [fdout (cl s)] else [])
        @ [fdin (cl s)],
      cl := (cl s)\<lparr>fdin := - 1, fdout := - 1\<rparr>\<rparr>"

definition client_disconnect :: "'z session \<Rightarrow> 'z session" where
  "client_disconnect s = (if client_is_connected (cl s) then disconnect s else s)"

text \<open>Disconnect, then free: the context is cleared.\<close>

definition client_destroy :: "'z session \<Rightarrow> 'z session" where
  "client_destroy s =
     (let s = client_disconnect s in s\<lparr>cl := (cl s)\<lparr>cctx := context_destroy (cctx (cl s))\<rparr>\<rparr>)"

definition client_set_permission_manager ::
  "'z wstate perm_mgr_itf option \<Rightarrow> 'z client \<Rightarrow> 'z wstate perm_mgr_itf option \<times> 'z client" where
  "client_set_permission_manager pm c =
     (case context_set_permission_manager (cctx c) pm of (old, x) \<Rightarrow> (old, c\<lparr>cctx := x\<rparr>))"

section \<open>The input side across a request\<close>

text \<open>What answering never touches: the received bytes and what is still to be received.\<close>

definition same_rx :: "'z session \<Rightarrow> 'z session \<Rightarrow> bool" where
  "same_rx s t \<longleftrightarrow> inbuf (cprot (cl t)) = inbuf (cprot (cl s))
     \<and> pfields (cprot (cl t)) = pfields (cprot (cl s))
     \<and> allow_empty (cprot (cl t)) = allow_empty (cprot (cl s)) \<and> rx (chn t) = rx (chn s)
     \<and> fdin (cl t) = fdin (cl s) \<and> fdout (cl t) = fdout (cl s) \<and> closed t = closed s"

lemma same_rx_refl [simp]: "same_rx s s"
  by (simp add: same_rx_def)

lemma same_rx_trans: "same_rx s t \<Longrightarrow> same_rx t u \<Longrightarrow> same_rx s u"
  by (simp add: same_rx_def)

lemma same_rx_upd [simp]:
  "same_rx s (set_ctx c w t) = same_rx s t"
  "same_rx s (t\<lparr>world := w\<rparr>) = same_rx s t"
  "same_rx s (t\<lparr>server_log := b\<rparr>) = same_rx s t"
  "same_rx s (t\<lparr>plog := l\<rparr>) = same_rx s t"
  "same_rx s (t\<lparr>cl := (cl t)\<lparr>invalid := i\<rparr>\<rparr>) = same_rx s t"
  "same_rx s (t\<lparr>cl := (cl t)\<lparr>version := v\<rparr>\<rparr>) = same_rx s t"
  by (simp_all add: same_rx_def set_ctx_def)

lemma prot_put_field_same: "prot_put_field p f = (rc, q) \<Longrightarrow> same_in p q"
  by (auto simp: prot_put_field_def same_in_def Let_def split: prod.splits)

lemma prot_put_fields_same: "prot_put_fields p l = (rc, q) \<Longrightarrow> same_in p q"
proof (induction l arbitrary: p)
  case Nil
  then show ?case by (simp add: same_in_def)
next
  case (Cons f l)
  obtain r p1 where f: "prot_put_field p f = (r, p1)" by fastforce
  have "(if r \<ge> 0 \<and> l \<noteq> [] then prot_put_fields p1 l else (r, p1)) = (rc, q)"
    using Cons.prems f by simp
  then show ?case
    using Cons.IH[of p1] prot_put_field_same[OF f]
    by (cases "r \<ge> 0 \<and> l \<noteq> []") (auto intro: same_in_trans)
qed

lemma prot_put_same: "prot_put p l = (rc, q) \<Longrightarrow> same_in p q"
proof -
  assume r: "prot_put p l = (rc, q)"
  obtain r1 p1 where 1: "prot_put_fields p l = (r1, p1)" by fastforce
  obtain r2 p2 where 2: "(if r1 = 0 then prot_put_end p1 else (r1, p1)) = (r2, p2)" by fastforce
  have s2: "same_in p1 p2"
    using 2 by (auto simp: prot_put_end_def same_in_def split: if_splits prod.splits)
  have "(r2, if r2 \<noteq> 0 then prot_put_cancel p2 else p2) = (rc, q)"
    using r by (simp only: prot_put_def 1 2 Let_def prod.case)
  then have "q = (if r2 \<noteq> 0 then prot_put_cancel p2 else p2)" by (metis snd_conv)
  then have "same_in p2 q" by (simp add: prot_put_cancel_def same_in_def)
  then show ?thesis using prot_put_fields_same[OF 1] s2 same_in_trans by blast
qed

lemma writev_retry_rx: "rx (snd (writev_retry vec ch)) = rx ch"
  by (cases "writev_retry vec ch"; cases "fst (writev_retry vec ch)")
     (auto dest: writev_retry_ok writev_retry_err)

lemma buf_write_rx: "rx (snd (snd (buf_write_length b n ch))) = rx ch"
proof -
  have "rx (snd (snd (case writev_retry vec ch of (Inl e, ch1) \<Rightarrow> (- e, b, ch1)
      | (Inr n, ch1) \<Rightarrow> (int n, f n, ch1)))) = rx ch" for vec f
    using writev_retry_rx[of vec ch] by (cases "writev_retry vec ch"; cases "fst (writev_retry vec ch)") simp_all
  then show ?thesis unfolding buf_write_length_def Let_def by simp
qed

lemma prot_write_same: "prot_write p ch = (rc, q, ch') \<Longrightarrow> same_in p q \<and> rx ch' = rx ch"
  using buf_write_rx[of "outbuf p" "wrokcnt p" ch]
  by (auto simp: prot_write_def same_in_def split: prod.splits)

section \<open>What a request keeps\<close>

text \<open>
  The steps by which answering changes a session, and what they keep: the contract for the
  invariants of a session.
\<close>

locale session_keeps =
  fixes P :: "'z session \<Rightarrow> bool"
  assumes wr: "P s \<Longrightarrow> prot_write (cprot (cl s)) (chn s) = (r, p, ch) \<Longrightarrow> P (set_link p ch s)"
    and polled: "P s \<Longrightarrow> P (s\<lparr>world := w\<rparr>)"
    and put: "P s \<Longrightarrow> args \<noteq> [] \<Longrightarrow> P (snd (put_record args s))"
    and ctx: "P s \<Longrightarrow> (ctx_inv (cctx (cl s)) \<Longrightarrow> ctx_inv c) \<Longrightarrow> P (set_ctx c w s)"
    and logging: "P s \<Longrightarrow> P (s\<lparr>server_log := b\<rparr>)"
    and printing: "P s \<Longrightarrow> P (s\<lparr>plog := l\<rparr>)"
    and inval: "P s \<Longrightarrow> P (s\<lparr>cl := (cl s)\<lparr>invalid := True\<rparr>\<rparr>)"
    and vers: "P s \<Longrightarrow> P (s\<lparr>cl := (cl s)\<lparr>version := 1\<rparr>\<rparr>)"
begin

lemma flush_loop: "flushw_loop n s = Some (rc, t) \<Longrightarrow> P s \<Longrightarrow> P t"
proof (induction n arbitrary: s)
  case (Suc n)
  obtain r p ch where w: "prot_write (cprot (cl s)) (chn s) = (r, p, ch)" by (metis prod_cases3)
  obtain e v where p: "poll_retry (world (set_link p ch s)) = (e, v)" by fastforce
  have P1: "P (set_link p ch s)" by (rule wr[OF Suc.prems(2) w])
  have P2: "P ((set_link p ch s)\<lparr>world := v\<rparr>)" by (rule polled[OF P1])
  note run = Suc.prems(1)[unfolded flushw_loop.simps w Let_def prod.case p]
  show ?case
  proof (cases "flushw_loop n (set_link p ch s) = Some (rc, t) \<or>
      flushw_loop n ((set_link p ch s)\<lparr>world := v\<rparr>) = Some (rc, t)")
    case True
    then show ?thesis using Suc.IH P1 P2 by blast
  next
    case False
    then have "t = s \<or> t = set_link p ch s \<or> t = (set_link p ch s)\<lparr>world := v\<rparr>"
      using run by (auto split: if_splits)
    then show ?thesis using Suc.prems(2) P1 P2 by blast
  qed
qed simp

lemma flush: "P s \<Longrightarrow> P (snd (flushw s))"
  by (cases "flushw_loop (flush_fuel s) s") (auto simp: flushw_def dest: flush_loop)

lemma dolog: "P s \<Longrightarrow> P (dolog_protocol d args s)"
  by (simp add: dolog_protocol_def printing)

lemma putx: "P s \<Longrightarrow> args \<noteq> [] \<Longrightarrow> P (snd (putx args s))"
proof -
  assume s: "P s" "args \<noteq> []"
  obtain r t where 1: "put_record args (dolog_protocol False args s) = (r, t)" by fastforce
  obtain r2 u where 2: "flushw t = (r2, u)" by fastforce
  have t: "P t" using put[OF dolog[OF s(1)] s(2)] 1 by (metis snd_conv)
  have u: "P u" using flush[OF t] 2 by simp
  have "P (snd (put_record args u))" by (rule put[OF u s(2)])
  then show ?thesis using 1 2 s t u by (simp add: putx_def)
qed

lemma sending: "P s \<Longrightarrow> P (send_done a s)"
  by (simp add: send_done_def flush putx)

lemma erring: "P s \<Longrightarrow> P (send_error e s)"
  by (simp add: send_error_def Let_def flush putx ctx context_raise_error_inv)

lemma bad: "P s \<Longrightarrow> P (invalid_protocol s)"
  by (simp add: invalid_protocol_def Let_def inval erring)

lemma reply: "P s \<Longrightarrow> P (reply_status f rc s)"
  by (simp add: reply_status_def sending erring)

lemma visiting:
  assumes "\<And>x v. P v \<Longrightarrow> P (snd (f x v))"
  shows "P v \<Longrightarrow> P (snd (visit_all f xs rc v))"
proof (induction xs arbitrary: rc v)
  case (Cons x xs)
  obtain r u where f: "f x v = (r, u)" by fastforce
  have "P u" using assms[OF Cons.prems, of x] f by simp
  then show ?case using Cons f by simp
qed simp

lemma visit: "P v \<Longrightarrow> P (snd (context_visit c display_visitor_itf v))"
proof -
  assume v: "P v"
  obtain r1 v1 where 1: "(if has_id c then display_id (context_id c) v else (0, v)) = (r1, v1)" by fastforce
  obtain r2 v2 where 2: "visit_all (\<lambda>i. display_path (path i) (path_type_name (path_type i)))
      (path_set c) r1 v1 = (r2, v2)" by fastforce
  obtain r3 v3 where 3: "visit_all display_permission (permissions (permission_set c)) r2 v2 = (r3, v3)"
    by fastforce
  have d: "P (snd (display_id i u))" "P (snd (display_path p t u))" "P (snd (display_permission p u))"
    "P (snd (display_plug p i t u))" if "P u" for p i t u
    using that by (simp_all add: display_id_def display_path_def display_permission_def display_plug_def putx)
  have "P v1" using v 1 d(1)[OF v, of "context_id c"] by (simp split: if_splits)
  then have "P v2"
    using visiting[of "\<lambda>i. display_path (path i) (path_type_name (path_type i))" v1 "path_set c" r1] d(2) 2
    by simp
  then have "P v3" using visiting[of display_permission v2 _ r2] d(3) 3 by (metis snd_conv)
  then have "P (snd (visit_all (\<lambda>p. display_plug (expdir p) (impid p) (impdir p)) (plugset c) r3 v3))"
    by (intro visiting d(4))
  then show ?thesis by (simp add: context_visit_def display_visitor_itf_def 1 2 3)
qed

lemma displaying: "P s \<Longrightarrow> P (snd (send_display s))"
proof -
  assume s: "P s"
  obtain r t where 1: "(if context_has_error (cctx (cl s)) then Client.putx [n_string, n_error, n_on] s
      else (0, s)) = (r, t)" by fastforce
  have "P t" using 1 s putx[OF s, of "[n_string, n_error, n_on]"] by (auto split: if_splits)
  then show ?thesis using visit[of t "cctx (cl t)"] by (simp add: send_display_def 1)
qed

lemma dispatching:
  assumes "P s"
  shows "P (dispatch H args s)"
proof -
  let ?c = "cctx (cl s)"
  have cx: "P (reply_status f rc (set_ctx c w s))" if "ctx_inv ?c \<Longrightarrow> ctx_inv c" for f rc c w
    using that by (intro reply ctx assms)
  have clear: "P (send_done None (set_ctx (context_clear ?c) w s))" for w
    by (intro sending ctx assms context_clear_inv)
  obtain r1 t where d: "send_display s = (r1, t)" by fastforce
  have t: "P t" using displaying[OF assms] d by simp
  obtain r2 c2 where i: "context_set_id ?c (args ! 1) = (r2, c2)" by fastforce
  obtain r3 c3 w3 where p: "context_add_path ?c (args ! 1) (args ! 2) (world s) = (r3, c3, w3)"
    by (metis prod_cases3)
  obtain r4 c4 w4 where q: "context_add_permission ?c (args ! 1) (world s) = (r4, c4, w4)"
    by (metis prod_cases3)
  obtain r5 c5 w5 where g: "context_add_plug ?c (args ! 1) (args ! 2) (args ! 3) (world s) = (r5, c5, w5)"
    by (metis prod_cases3)
  obtain r6 w6 where a: "action_install H ?c (world s) = (r6, w6)" by fastforce
  obtain r7 w7 where u: "action_uninstall H ?c (world s) = (r7, w7)" by fastforce
  note steps = bad[OF assms] clear sending[OF t] erring[OF t] logging[OF sending[OF assms]]
    cx[OF context_set_id_inv[OF i]] cx[OF context_add_path_inv[OF p]]
    cx[OF context_add_permission_inv[OF q]] cx[OF context_add_plug_inv[OF g]] cx[of ?c]
  show ?thesis
    unfolding dispatch_def Let_def d i p q g a u prod.case
    by (simp add: steps)
qed

lemma request:
  assumes "P s"
  shows "P (onrequest H args s)"
proof -
  have "P (dolog_protocol True args s)" by (rule dolog[OF assms])
  then show ?thesis
    using assms bad sending vers dispatching
    by (simp add: onrequest_def Let_def split: option.splits)
qed

end

lemma put_record_rx: "same_rx s (snd (put_record args s))"
  by (auto simp: put_record_def on_prot_def same_rx_def same_in_def split: prod.splits
      dest!: prot_put_same)

interpretation rx: session_keeps "same_rx s" for s
proof
  show "same_rx s (set_link p ch u)" if "same_rx s u" "prot_write (cprot (cl u)) (chn u) = (r, p, ch)"
    for u r p ch
    using that(1) prot_write_same[OF that(2)] by (simp add: same_rx_def set_link_def same_in_def)
  show "same_rx s (snd (put_record args u))" if "same_rx s u" for u args
    using that put_record_rx same_rx_trans by blast
qed simp_all

section \<open>Processing the input\<close>

text \<open>The bytes of the buffer and the record in hand, as the loop consumes them.\<close>

definition backlog :: "prot \<Rightarrow> nat" where
  "backlog p = 2 * bcount (inbuf p) + (if fcount (pfields p) < 0 then 0 else 1)"

lemma prot_next_backlog:
  "0 \<le> fcount (pfields p) \<Longrightarrow> backlog (prot_next p) \<le> 2 * (bcount (inbuf p) - bpos (inbuf p))"
  by (simp add: prot_next_def backlog_def buf_crop_def Let_def)

lemma prot_get_backlog: "prot_get p = Some (rc, q) \<Longrightarrow> 0 \<le> rc \<Longrightarrow> backlog (prot_next q) < backlog p"
proof (induction p rule: prot_get.induct)
  case (1 p)
  show ?case
  proof (cases "fcount (pfields p) < 0")
    case True
    obtain found b where sc: "buf_scan_end_record (inbuf p) = (found, b)" by fastforce
    note run = "1.prems"(1)[unfolded prot_get.simps[of p] sc prod.case]
    have found: found
      using run True "1.prems"(2) by (auto split: if_splits)
    have b: "bpos b < bcount b" "bcount b = bcount (inbuf p)"
      using sc found by (auto simp: buf_scan_end_record_def split: prod.splits dest: scan_loop_bounds)
    obtain b2 fl where g: "buf_get_fields b = Some (b2, fl)"
      using run True found by (auto split: option.splits)
    have b2: "bpos b2 = bpos b + 1" "bcount b2 = bcount b" "0 \<le> fcount fl"
      using g by (auto simp: buf_get_fields_def split: if_splits option.splits prod.splits)
    let ?p2 = "p\<lparr>inbuf := b2, pfields := fl\<rparr>"
    have less: "backlog (prot_next ?p2) < backlog p"
      using prot_next_backlog[of ?p2] b b2 True by (simp add: backlog_def)
    show ?thesis
    proof (cases "fcount fl = 0 \<and> \<not> allow_empty ?p2")
      case True
      then have "prot_get (prot_next ?p2) = Some (rc, q)"
        using run \<open>fcount (pfields p) < 0\<close> found g by (simp add: Let_def)
      then have "backlog (prot_next q) < backlog (prot_next ?p2)"
        using "1.IH"(1)[OF \<open>fcount (pfields p) < 0\<close> sc[symmetric] _ g refl refl True] found "1.prems"(2)
        by simp
      then show ?thesis using less by simp
    next
      case False
      then have "q = ?p2" using run True found g by (simp add: Let_def split: if_splits)
      then show ?thesis using less by simp
    qed
  next
    case False
    have less: "backlog (prot_next p) < backlog p"
      using prot_next_backlog[of p] False by (simp add: backlog_def)
    note run = "1.prems"(1)[unfolded prot_get.simps[of p]]
    show ?thesis
    proof (cases "fcount (pfields p) = 0 \<and> \<not> allow_empty p")
      case True
      then have "backlog (prot_next q) < backlog (prot_next p)"
        using "1.IH"(2)[OF False True] run False "1.prems"(2) by simp
      then show ?thesis using less by simp
    next
      case e: False
      then have "q = p" using run False by (simp split: if_splits)
      then show ?thesis using less by simp
    qed
  qed
qed

text \<open>\<open>while (!client->invalid) { ... }\<close>: zero, or the error that ends the processing.\<close>

function pending :: "'z wstate host \<Rightarrow> 'z session \<Rightarrow> (int \<times> 'z session) option" where
  "pending H s =
     (if invalid (cl s) then Some (0, s)
      else case prot_get (cprot (cl s)) of
        None \<Rightarrow> None
      | Some (rc, p) \<Rightarrow>
          let s = on_prot (\<lambda>_. p) s
          in if rc < 0 then Some (if rc = - EMSGSIZE then rc else 0, s)
             else pending H (on_prot prot_next (if rc > 0 then onrequest H (prot_fields p) s else s)))"
  by pat_completeness auto
termination
proof (relation "measure (\<lambda>(H, s). backlog (cprot (cl s)))")
  fix H :: "'z wstate host" and s u :: "'z session" and y rc p
  assume g: "prot_get (cprot (cl s)) = Some y" "(rc, p) = y" "u = on_prot (\<lambda>_. p) s" "\<not> rc < 0"
  let ?v = "if rc > 0 then onrequest H (prot_fields p) u else u"
  have "same_rx u ?v" using rx.request[of u u H "prot_fields p"] by simp
  then have "inbuf (cprot (cl ?v)) = inbuf p \<and> pfields (cprot (cl ?v)) = pfields p"
    using g(3) by (simp add: same_rx_def on_prot_def)
  then have "backlog (prot_next (cprot (cl ?v))) = backlog (prot_next p)"
    by (simp add: backlog_def prot_next_def)
  moreover have "backlog (prot_next p) < backlog (cprot (cl s))"
    using prot_get_backlog[of "cprot (cl s)" rc p] g by simp
  ultimately show "((H, on_prot prot_next ?v), (H, s)) \<in> measure (\<lambda>(H, s). backlog (cprot (cl s)))"
    by (simp add: on_prot_def)
qed simp

declare pending.simps [simp del]

lemma prot_get_rest: "prot_get p = Some (rc, q) \<Longrightarrow> same_out p q"
proof (induction p rule: prot_get.induct)
  case (1 p)
  show ?case
  proof (cases "fcount (pfields p) < 0")
    case True
    obtain found b where sc: "buf_scan_end_record (inbuf p) = (found, b)" by fastforce
    note run = "1.prems"(1)[unfolded prot_get.simps[of p] sc prod.case]
    show ?thesis
    proof (cases found)
      case False
      then show ?thesis using run True by (auto simp: same_out_def)
    next
      case found: True
      then obtain b2 fl where g: "buf_get_fields b = Some (b2, fl)"
        using run True by (auto split: option.splits)
      let ?p2 = "p\<lparr>inbuf := b2, pfields := fl\<rparr>"
      show ?thesis
      proof (cases "fcount fl = 0 \<and> \<not> allow_empty ?p2")
        case e: True
        then have "prot_get (prot_next ?p2) = Some (rc, q)" using run True found g by (simp add: Let_def)
        then have "same_out (prot_next ?p2) q" using "1.IH"(1)[OF True sc[symmetric] _ g refl refl e] found by simp
        then show ?thesis by (simp add: same_out_def prot_next_def split: if_splits)
      next
        case False
        then have "q = ?p2" using run True found g by (simp add: Let_def split: if_splits)
        then show ?thesis by (simp add: same_out_def)
      qed
    qed
  next
    case False
    note run = "1.prems"(1)[unfolded prot_get.simps[of p]]
    show ?thesis
    proof (cases "fcount (pfields p) = 0 \<and> \<not> allow_empty p")
      case True
      then have "same_out (prot_next p) q" using "1.IH"(2)[OF False True] run False by simp
      then show ?thesis by (simp add: same_out_def prot_next_def split: if_splits)
    next
      case e: False
      then show ?thesis using run False by (simp split: if_splits)
    qed
  qed
qed

text \<open>What a loop over the pending records keeps.\<close>

definition keeps_link :: "'z session \<Rightarrow> 'z session \<Rightarrow> bool" where
  "keeps_link s t \<longleftrightarrow> rx (chn t) = rx (chn s) \<and> fdin (cl t) = fdin (cl s) \<and> fdout (cl t) = fdout (cl s)
     \<and> closed t = closed s \<and> allow_empty (cprot (cl t)) = allow_empty (cprot (cl s))"

lemma pending_link: "pending H s = Some (rc, t) \<Longrightarrow> keeps_link s t"
proof (induction H s rule: pending.induct)
  case (1 H s)
  show ?case
  proof (cases "invalid (cl s)")
    case True
    then show ?thesis using "1.prems" by (simp add: pending.simps keeps_link_def)
  next
    case False
    then obtain r p where g: "prot_get (cprot (cl s)) = Some (r, p)"
      using "1.prems" by (subst (asm) pending.simps) (auto split: option.splits)
    let ?u = "on_prot (\<lambda>_. p) s"
    let ?v = "if r > 0 then onrequest H (prot_fields p) ?u else ?u"
    have u: "keeps_link s ?u" using prot_get_rest[OF g] by (simp add: keeps_link_def on_prot_def same_out_def)
    have uv: "same_rx ?u ?v" using rx.request[of ?u ?u H "prot_fields p"] by simp
    show ?thesis
    proof (cases "r < 0")
      case True
      then show ?thesis using "1.prems" False g u by (simp add: pending.simps Let_def)
    next
      case r: False
      then have "pending H (on_prot prot_next ?v) = Some (rc, t)"
        using "1.prems" False g by (subst (asm) pending.simps) (simp add: Let_def)
      then have "keeps_link (on_prot prot_next ?v) t"
        using "1.IH"[OF False g refl refl r] by simp
      then show ?thesis using u uv
        by (simp add: keeps_link_def same_rx_def on_prot_def prot_next_def split: if_splits)
    qed
  qed
qed

definition rx_size :: "chan \<Rightarrow> nat" where
  "rx_size ch = sum_list (map (\<lambda>e. case e of RxData s \<Rightarrow> Suc (length s) | _ \<Rightarrow> 1) (rx ch))"

lemma sys_read_size:
  "sys_read n ch = (Inl e, ch') \<Longrightarrow> rx_size ch' \<le> rx_size ch"
  "sys_read n ch = (Inr s, ch') \<Longrightarrow> rx_size ch' \<le> rx_size ch \<and> (s \<noteq> [] \<longrightarrow> rx_size ch' < rx_size ch)"
  by (auto simp: sys_read_def rx_size_def split: list.splits rx_event.splits if_splits)

lemma read_retry_size:
  "read_retry n ch = (Inr s, ch') \<Longrightarrow> s \<noteq> [] \<Longrightarrow> rx_size ch' < rx_size ch"
proof (induction n ch rule: read_retry.induct)
  case (1 n ch)
  obtain r c where r: "sys_read n ch = (r, c)" by fastforce
  show ?case
  proof (cases r)
    case (Inl e)
    then have "e = EINTR" "read_retry n c = (Inr s, ch')"
      using "1.prems"(1) r by (subst (asm) read_retry.simps; simp split: if_splits)+
    then show ?thesis using "1.IH"[OF r[symmetric] Inl] "1.prems"(2) sys_read_size(1) r Inl by fastforce
  next
    case (Inr x)
    then have "x = s" "c = ch'" using "1.prems"(1) r by (subst (asm) read_retry.simps; simp)+
    then show ?thesis using sys_read_size(2) r Inr "1.prems"(2) by blast
  qed
qed

lemma prot_read_size: "prot_read p ch = (rc, q, ch') \<Longrightarrow> rc > 0 \<Longrightarrow> rx_size ch' < rx_size ch"
  by (auto simp: prot_read_def inbuf_read_def split: prod.splits if_splits sum.splits
      dest: read_retry_err intro: read_retry_size)

function client_process_input :: "'z wstate host \<Rightarrow> 'z session \<Rightarrow> (int \<times> 'z session) option" where
  "client_process_input H s =
     (case pending H s of
        None \<Rightarrow> None
      | Some (rc, s) \<Rightarrow>
          if rc < 0 then Some (rc, s)
          else if \<not> client_is_connected (cl s) then Some (- EINVAL, s)
          else if invalid (cl s) then Some (- EPROTO, s)
          else case prot_read (cprot (cl s)) (chn s) of (rc, p, ch) \<Rightarrow>
            let s = set_link p ch s
            in if rc \<le> 0 then Some (rc, s) else client_process_input H s)"
  by pat_completeness auto
termination
proof (relation "measure (\<lambda>(H, s). rx_size (chn s))")
  fix H :: "'z wstate host" and s t u :: "'z session" and y rc r q p ch
  assume a: "pending H s = Some y" "(rc, t) = y" "(r, q) = prot_read (cprot (cl t)) (chn t)"
    "(p, ch) = q" "u = set_link p ch t" "\<not> r \<le> 0"
  have "rx (chn t) = rx (chn s)" using a(1,2) pending_link by (auto simp: keeps_link_def)
  then have "rx_size (chn t) = rx_size (chn s)" by (simp add: rx_size_def)
  moreover have "prot_read (cprot (cl t)) (chn t) = (r, p, ch)" using a(3,4) by simp
  moreover have "r > 0" using a(6) by (simp add: not_le)
  ultimately have "rx_size ch < rx_size (chn s)"
    using prot_read_size[of "cprot (cl t)" "chn t" r p ch] by simp
  then show "((H, u), (H, s)) \<in> measure (\<lambda>(H, s). rx_size (chn s))"
    using a(5) by (simp add: set_link_def)
qed simp

declare client_process_input.simps [simp del]

section \<open>\<open>offline.c\<close>\<close>

text \<open>The loop of \<open>offline\<close>: the exit status, and the session when it exits.\<close>

partial_function (option) offline_loop :: "'z wstate host \<Rightarrow> 'z session \<Rightarrow> (int \<times> 'z session) option" where
  "offline_loop H s =
     Option.bind (client_process_input H s) (\<lambda>(rc, s).
       if rc < 0 then Some (1, s) else if rc = 0 then Some (0, s) else offline_loop H s)"

text \<open>
  \<open>fdo\<close> is the result of opening \<open>/dev/null\<close>, \<open>mem\<close> the memory of the client, \<open>itf\<close> the
  offline permission manager, \<open>lg\<close> the flag of the log the daemon was started with; \<open>None\<close> for the session when it fails before it starts.
\<close>

definition offline ::
  "'z wstate host \<Rightarrow> 'z wstate perm_mgr_itf \<Rightarrow> bool \<Rightarrow> 'z client \<Rightarrow> chan \<Rightarrow> int \<Rightarrow> 'z wstate \<Rightarrow>
     (int \<times> 'z session option) option" where
  "offline H itf lg mem ch fdo w =
     (if fdo < 0 then Some (1, None)
      else case client_create mem 0 fdo w of
        (rc, None, w) \<Rightarrow> Some (1, None)
      | (rc, Some c, w) \<Rightarrow>
          if rc < 0 then Some (1, None)
          else
            let c = snd (client_set_permission_manager (Some itf) c);
                s = \<lparr>cl = c, chn = ch, server_log = lg, plog = [], closed = [], world = w\<rparr>
            in map_option (\<lambda>(status, s). (status, Some s)) (offline_loop H s))"

end
