(* ===== verification/Server.thy ===== *)
theory Server
  imports Client "HOL-Library.Word"
begin

unbundle bit_operations_syntax

text \<open>
  \<open>src/protocol/sec-lsm-manager-server.c\<close> and \<open>src/protocol/pollitem.c\<close>: the server, its three
  slots for clients, and the loop that dispatches the events of the polling descriptor. What
  the kernel keeps is part of the state: the descriptors registered for polling with their
  masks, those closed, the connections to come, the readings of the clock and the system.
\<close>

abbreviation (input) MAX_CLIENT_COUNT :: nat where "MAX_CLIENT_COUNT \<equiv> 3"
abbreviation (input) INT_MAX :: int where "INT_MAX \<equiv> 2147483647"

type_synonym events = "32 word"

abbreviation (input) EPOLLIN :: events where "EPOLLIN \<equiv> 1"
abbreviation (input) EPOLLHUP :: events where "EPOLLHUP \<equiv> 16"

section \<open>State\<close>

text \<open>A slot: \<open>struct client\<close>, with the connection of its descriptor.\<close>

record 'z conn =
  connected :: "'z client option"
  cfd :: int
  lasttime :: int
  cwire :: chan

record 'z server =
  stoprc :: int
  stopped :: bool
  deaf :: bool
  servfd :: int
  pollfd :: int
  conns :: "'z conn list"
  slm_server_log :: bool
  slm_plog :: "(bool \<times> string list) list"
  polled :: "int \<rightharpoonup> events"
  released :: "int list"
  accepts :: "(int + int \<times> chan) list"
  clock :: "int list"
  now :: int
  sys_state :: "'z wstate"

section \<open>Calls of the kernel\<close>

definition sys_time :: "'z server \<Rightarrow> int \<times> 'z server" where
  "sys_time s = (case clock s of [] \<Rightarrow> (now s, s) | t # ts \<Rightarrow> (t, s\<lparr>now := t, clock := ts\<rparr>))"

definition sys_accept :: "'z server \<Rightarrow> (int + int \<times> chan) \<times> 'z server" where
  "sys_accept s = (case accepts s of [] \<Rightarrow> (Inl EAGAIN, s) | r # rs \<Rightarrow> (r, s\<lparr>accepts := rs\<rparr>))"

definition sys_close :: "int \<Rightarrow> 'z server \<Rightarrow> 'z server" where
  "sys_close fd s = s\<lparr>released := released s @ [fd], polled := (polled s)(fd := None)\<rparr>"

datatype epoll_op = EPOLL_CTL_ADD | EPOLL_CTL_MOD | EPOLL_CTL_DEL

text \<open>\<open>epoll_ctl\<close>: the result and \<open>errno\<close>.\<close>

definition sys_epoll_ctl :: "epoll_op \<Rightarrow> int \<Rightarrow> events \<Rightarrow> 'z server \<Rightarrow> (int \<times> int) \<times> 'z server" where
  "sys_epoll_ctl ctl fd evs s =
     (case pop_fault (sys_state s) of (e, w) \<Rightarrow>
        let s = s\<lparr>sys_state := w\<rparr>; known = (polled s fd \<noteq> None)
        in if e > 0 \<and> e \<notin> set [EEXIST, ENOENT] then ((- 1, e), s)
           else case ctl of
             EPOLL_CTL_ADD \<Rightarrow> (if known then ((- 1, EEXIST), s)
                              else ((0, 0), s\<lparr>polled := (polled s)(fd \<mapsto> evs)\<rparr>))
           | EPOLL_CTL_MOD \<Rightarrow> (if \<not> known then ((- 1, ENOENT), s)
                              else ((0, 0), s\<lparr>polled := (polled s)(fd \<mapsto> evs)\<rparr>))
           | EPOLL_CTL_DEL \<Rightarrow> (if \<not> known then ((- 1, ENOENT), s)
                              else ((0, 0), s\<lparr>polled := (polled s)(fd := None)\<rparr>)))"

section \<open>\<open>pollitem.c\<close>\<close>

definition pollitem_do :: "int \<Rightarrow> events \<Rightarrow> epoll_op \<Rightarrow> 'z server \<Rightarrow> (int \<times> int) \<times> 'z server" where
  "pollitem_do fd evs ctl = sys_epoll_ctl ctl fd evs"

definition pollitem_add :: "int \<Rightarrow> events \<Rightarrow> 'z server \<Rightarrow> (int \<times> int) \<times> 'z server" where
  "pollitem_add fd evs = pollitem_do fd evs EPOLL_CTL_ADD"

definition pollitem_mod :: "int \<Rightarrow> events \<Rightarrow> 'z server \<Rightarrow> (int \<times> int) \<times> 'z server" where
  "pollitem_mod fd evs = pollitem_do fd evs EPOLL_CTL_MOD"

definition pollitem_del :: "int \<Rightarrow> 'z server \<Rightarrow> (int \<times> int) \<times> 'z server" where
  "pollitem_del fd = pollitem_do fd 0 EPOLL_CTL_DEL"

section \<open>Clients of a server\<close>

text \<open>The session of a slot, and the server after it: closing a descriptor ends its polling.\<close>

definition session_of :: "nat \<Rightarrow> 'z client \<Rightarrow> 'z server \<Rightarrow> 'z session" where
  "session_of idx c s = \<lparr>cl = c, chn = cwire (conns s ! idx), server_log = slm_server_log s, plog = slm_plog s,
     closed = released s, world = sys_state s\<rparr>"

definition put_session :: "nat \<Rightarrow> 'z session \<Rightarrow> 'z server \<Rightarrow> 'z server" where
  "put_session idx t s =
     s\<lparr>conns := (conns s)[idx := (conns s ! idx)\<lparr>connected := Some (cl t), cwire := chn t\<rparr>],
       slm_server_log := server_log t, slm_plog := plog t, released := closed t,
       polled := polled s |` (- set (drop (length (released s)) (closed t))), sys_state := world t\<rparr>"

definition set_conn :: "nat \<Rightarrow> ('z conn \<Rightarrow> 'z conn) \<Rightarrow> 'z server \<Rightarrow> 'z server" where
  "set_conn idx f s = s\<lparr>conns := (conns s)[idx := f (conns s ! idx)]\<rparr>"

text \<open>\<open>client_destroy (client->client); client->client = NULL;\<close>\<close>

definition destroy_client :: "nat \<Rightarrow> 'z server \<Rightarrow> 'z server" where
  "destroy_client idx s =
     (case connected (conns s ! idx) of
        None \<Rightarrow> s
      | Some c \<Rightarrow> set_conn idx (connected_update (\<lambda>_. None))
                   (put_session idx (client_destroy (session_of idx c s)) s))"

text \<open>\<open>pollitem_del (&client->pollitem, pollfd);\<close> before.\<close>

definition drop_client :: "nat \<Rightarrow> 'z server \<Rightarrow> 'z server" where
  "drop_client idx s = destroy_client idx (snd (pollitem_del (cfd (conns s ! idx)) s))"

definition sec_lsm_manager_server_stop :: "int \<Rightarrow> 'z server \<Rightarrow> 'z server" where
  "sec_lsm_manager_server_stop status s =
     (if \<not> stopped s then s\<lparr>stopped := True, stoprc := status\<rparr> else s)"

text \<open>The handler runs for a slot with a client; it would use NULL otherwise: \<open>None\<close>.\<close>

definition on_client_event :: "'z wstate host \<Rightarrow> nat \<Rightarrow> events \<Rightarrow> 'z server \<Rightarrow> 'z server option" where
  "on_client_event H idx evs s =
     (case connected (conns s ! idx) of
        None \<Rightarrow> None
      | Some c \<Rightarrow>
          Option.bind
            (if evs AND EPOLLHUP \<noteq> 0 then Some (False, s)
             else map_option (\<lambda>(rc, t). (rc > 0 \<or> rc = - EAGAIN, put_session idx t s))
                    (client_process_input H (session_of idx c s)))
            (\<lambda>(keep, s).
               Some (if keep then (case sys_time s of (t, s) \<Rightarrow> set_conn idx (lasttime_update (\<lambda>_. t)) s)
                     else drop_client idx s)))"

text \<open>\<open>for (idx = 0; idx < MAX_CLIENT_COUNT; idx++) if (clients[idx].client == NULL) break;\<close>\<close>

fun free_slot :: "'z conn list \<Rightarrow> nat" where
  "free_slot [] = 0"
| "free_slot (x # xs) = (case connected x of None \<Rightarrow> 0 | Some _ \<Rightarrow> Suc (free_slot xs))"

text \<open>If full avoid accepting new clients.\<close>

definition become_deaf :: "'z server \<Rightarrow> 'z server" where
  "become_deaf s =
     (case pollitem_mod (servfd s) 0 s of ((rc, _), s) \<Rightarrow>
        (if rc < 0 then sec_lsm_manager_server_stop rc s else s)\<lparr>deaf := True\<rparr>)"

text \<open>\<open>mem\<close> is the memory of a new client.\<close>

definition on_server_event :: "'z client \<Rightarrow> events \<Rightarrow> 'z server \<Rightarrow> 'z server" where
  "on_server_event mem evs s =
     (if evs AND EPOLLHUP \<noteq> 0 then sec_lsm_manager_server_stop (- EPIPE) s
      else if evs AND EPOLLIN = 0 then s
      else
        let idx = free_slot (conns s)
        in if idx < MAX_CLIENT_COUNT then
             (case sys_accept s of
                (Inl e, s) \<Rightarrow> s
              | (Inr (fd, ch), s) \<Rightarrow>
                  (case client_create mem fd fd (sys_state s) of
                     (rc, None, w) \<Rightarrow> sys_close fd (s\<lparr>sys_state := w\<rparr>)
                   | (rc, Some c, w) \<Rightarrow>
                       if rc < 0 then sys_close fd (s\<lparr>sys_state := w\<rparr>)
                       else
                         (case sys_time (s\<lparr>sys_state := w\<rparr>) of (t, s) \<Rightarrow>
                            let s = set_conn idx (\<lambda>_. \<lparr>connected = Some c, cfd = fd, lasttime = t, cwire = ch\<rparr>) s
                            in case pollitem_add fd EPOLLIN s of ((rc, _), s) \<Rightarrow>
                              if rc < 0 then destroy_client idx s
                              else if idx + 1 + free_slot (drop (idx + 1) (conns s)) < MAX_CLIENT_COUNT then s
                              else become_deaf s)))
           else become_deaf s)"

text \<open>What \<open>epoll_wait\<close> returns: nothing, an error, or an event for an item.\<close>

datatype poll_result = PollTimeout | PollErr int | PollServer events | PollClient nat events

definition pollitem_wait_dispatch ::
  "'z wstate host \<Rightarrow> 'z client \<Rightarrow> poll_result \<Rightarrow> 'z server \<Rightarrow> ((int \<times> int) \<times> 'z server) option" where
  "pollitem_wait_dispatch H mem r s =
     (case r of
        PollTimeout \<Rightarrow> Some ((0, 0), s)
      | PollErr e \<Rightarrow> Some ((- 1, e), s)
      | PollServer evs \<Rightarrow> Some ((1, 0), on_server_event mem evs s)
      | PollClient idx evs \<Rightarrow> map_option (Pair (1, 0)) (on_client_event H idx evs s))"

section \<open>Serving\<close>

text \<open>
  The pass over the slots: the clients silent for too long are disconnected, those that are not
  connected are dropped, the others are counted.
\<close>

fun watch_clients :: "int \<Rightarrow> nat list \<Rightarrow> nat \<Rightarrow> 'z server \<Rightarrow> nat \<times> 'z server" where
  "watch_clients trig [] ncli s = (ncli, s)"
| "watch_clients trig (idx # is) ncli s =
     (case connected (conns s ! idx) of
        None \<Rightarrow> watch_clients trig is ncli s
      | Some c \<Rightarrow>
          let t = (if lasttime (conns s ! idx) \<le> trig then client_disconnect (session_of idx c s)
                   else session_of idx c s);
              s = put_session idx t s
          in if client_is_connected (cl t) then watch_clients trig is (ncli + 1) s
             else watch_clients trig is ncli (drop_client idx s))"

definition serve_turn ::
  "'z wstate host \<Rightarrow> 'z client \<Rightarrow> int \<Rightarrow> poll_result \<Rightarrow> 'z server \<Rightarrow> 'z server option" where
  "serve_turn H mem shutofftime r s =
     Option.bind (pollitem_wait_dispatch H mem r s) (\<lambda>((rc, err), s).
       Some (if rc < 0 \<and> err \<noteq> EINTR then sec_lsm_manager_server_stop rc s
             else
               (case (if shutofftime < 0 then (0, s)
                      else (case sys_time s of (t, s) \<Rightarrow> (t - shutofftime, s))) of (trig, s) \<Rightarrow>
                case watch_clients trig [0..<MAX_CLIENT_COUNT] 0 s of (ncli, s) \<Rightarrow>
                  if rc = 0 \<and> ncli = 0 \<and> shutofftime \<ge> 0 then sec_lsm_manager_server_stop 0 s
                  else if deaf s \<and> ncli < MAX_CLIENT_COUNT then
                    (case pollitem_mod (servfd s) EPOLLIN s of ((rc, _), s) \<Rightarrow>
                       if rc < 0 then sec_lsm_manager_server_stop rc s else s)
                  else s)))"

definition serve_tempo :: "int \<Rightarrow> int" where
  "serve_tempo shutofftime =
     (if shutofftime < 0 then - 1 else if shutofftime > INT_MAX div 1000 then INT_MAX else shutofftime * 1000)"

text \<open>
  \<open>while (!server->stopped)\<close> over the results of polling to come: the status when it stops,
  and \<open>None\<close> for the status when it still waits.
\<close>

fun serve_loop ::
  "'z wstate host \<Rightarrow> 'z client \<Rightarrow> int \<Rightarrow> poll_result list \<Rightarrow> 'z server \<Rightarrow> (int option \<times> 'z server) option" where
  "serve_loop H mem sh [] s = Some (if stopped s then Some (stoprc s) else None, s)"
| "serve_loop H mem sh (r # rs) s =
     (if stopped s then Some (Some (stoprc s), s)
      else Option.bind (serve_turn H mem sh r s) (serve_loop H mem sh rs))"

definition sec_lsm_manager_server_serve ::
  "'z wstate host \<Rightarrow> 'z client \<Rightarrow> int \<Rightarrow> poll_result list \<Rightarrow> 'z server \<Rightarrow> (int option \<times> 'z server) option" where
  "sec_lsm_manager_server_serve H mem shutofftime rs s =
     serve_loop H mem shutofftime rs (s\<lparr>stoprc := 0, stopped := False\<rparr>)"

section \<open>Life of a server\<close>

text \<open>
  The results of \<open>epoll_create1\<close> and of \<open>socket_open\<close> are given; \<open>start\<close> is the server as
  \<open>calloc\<close> clears it, with the state of the kernel.
\<close>

definition sec_lsm_manager_server_create ::
  "int + int \<Rightarrow> int + int \<Rightarrow> 'z server \<Rightarrow> int \<times> 'z server option \<times> 'z server" where
  "sec_lsm_manager_server_create epfd sock start =
     (case sys_malloc (sys_state start) of (ok, w) \<Rightarrow>
        let s = start\<lparr>stoprc := 0, stopped := False, deaf := False,
                  conns := replicate MAX_CLIENT_COUNT \<lparr>connected = None, cfd = 0, lasttime = 0,
                    cwire = \<lparr>rx = [], tx = [], sent = []\<rparr>\<rparr>, sys_state := w\<rparr>
        in if \<not> ok then (- ENOMEM, None, s)
           else case epfd of
             Inl e \<Rightarrow> (- e, None, s)
           | Inr ep \<Rightarrow>
               (case sock of
                  Inl e \<Rightarrow> (- e, None, sys_close ep (s\<lparr>pollfd := ep\<rparr>))
                | Inr fd \<Rightarrow>
                    (case pollitem_add fd EPOLLIN (s\<lparr>pollfd := ep, servfd := fd\<rparr>) of ((rc, err), s) \<Rightarrow>
                       if rc \<ge> 0 then (0, Some s, s)
                       else (- err, None, sys_close ep (sys_close fd s)))))"

fun destroy_clients :: "nat list \<Rightarrow> 'z server \<Rightarrow> 'z server" where
  "destroy_clients [] s = s"
| "destroy_clients (idx # is) s =
     destroy_clients is (case connected (conns s ! idx) of None \<Rightarrow> s | Some c \<Rightarrow> drop_client idx s)"

definition sec_lsm_manager_server_destroy :: "'z server \<Rightarrow> 'z server" where
  "sec_lsm_manager_server_destroy s =
     (let s = snd (pollitem_del (servfd s) s);
          s = destroy_clients [0..<MAX_CLIENT_COUNT] s
      in sys_close (pollfd s) (sys_close (servfd s) s))"

end
