(* ===== verification/Client_Props.thy ===== *)
theory Client_Props
  imports Client Prot_Link
begin

text \<open>
  What a session guarantees: the invariant of its parts, kept by every request and by the
  processing loop, which returns on any input; and the refinement of the request handler
  by an abstract server that maps a request to its replies and to the new context.
\<close>

section \<open>The invariant of a session\<close>

definition session_inv :: "'z session \<Rightarrow> bool" where
  "session_inv s \<longleftrightarrow> in_inv (cprot (cl s)) \<and> out_inv (cprot (cl s)) \<and> outfields (cprot (cl s)) = 0
     \<and> \<not> allow_empty (cprot (cl s)) \<and> ctx_inv (cctx (cl s))"

interpretation kept: session_keeps session_inv
proof
  show "session_inv (set_link p ch s)"
    if "session_inv s" "prot_write (cprot (cl s)) (chn s) = (r, p, ch)" for r p ch and s :: "'z session"
  proof -
    have "out_inv (cprot (cl s))" using that(1) by (simp add: session_inv_def)
    from that(2) this have "out_inv p \<and> outfields p = outfields (cprot (cl s)) \<and> same_in (cprot (cl s)) p"
    proof (cases rule: prot_write_cases)
      case nodata
      then show ?thesis using that(1) by (simp add: session_inv_def same_in_def)
    next
      case error
      then show ?thesis using that(1) by (simp add: session_inv_def same_in_def)
    next
      case wrote
      then show ?thesis by simp
    qed
    then show ?thesis
      using that(1) same_in_inv[of "cprot (cl s)" p]
      by (simp add: session_inv_def set_link_def same_in_def)
  qed
  show "session_inv (snd (put_record args s))" if "session_inv s" "args \<noteq> []" for args and s :: "'z session"
  proof -
    obtain rc p where p: "prot_put (cprot (cl s)) (map Some args) = (rc, p)" by fastforce
    have "out_inv p \<and> outfields p = 0 \<and> same_in (cprot (cl s)) p"
      using prot_put_record[OF p _ _ that(2)] that(1) by (simp add: session_inv_def)
    then show ?thesis
      using that(1) same_in_inv[of "cprot (cl s)" p] p
      by (simp add: session_inv_def put_record_def on_prot_def same_in_def)
  qed
qed (simp_all add: session_inv_def set_ctx_def)

section \<open>Flushing returns\<close>

lemma writev_retry_progress:
  "writev_retry vec ch = (r, ch') \<Longrightarrow> length (tx ch') < length (tx ch)
     \<or> tx ch' = [] \<and> tx ch = [] \<and> r = Inr (length (concat vec))"
proof (induction vec ch arbitrary: r ch' rule: writev_retry.induct)
  case (1 vec ch)
  show ?case
  proof (cases "tx ch")
    case Nil
    then show ?thesis using "1.prems" by (subst (asm) writev_retry.simps) (auto simp: sys_writev_def Let_def)
  next
    case (Cons ev es)
    obtain q c where q: "sys_writev vec ch = (q, c)" by fastforce
    have c: "tx c = es" using q Cons by (auto simp: sys_writev_def Let_def split: tx_event.splits)
    show ?thesis
    proof (cases "q = Inl EINTR")
      case True
      then have "writev_retry vec c = (r, ch')" using "1.prems" q by (subst (asm) writev_retry.simps) simp
      from "1.IH"[OF q[symmetric] True refl this] show ?thesis using c Cons by auto
    next
      case False
      then have "c = ch'" using "1.prems" q by (subst (asm) writev_retry.simps) (auto split: sum.splits if_splits)
      then show ?thesis using c Cons by simp
    qed
  qed
qed

lemma prot_write_progress:
  assumes "prot_write p ch = (rc, q, ch')" "out_inv p" "wrokcnt p > 0"
  shows "length (tx ch') + wrokcnt q < length (tx ch) + wrokcnt p"
proof -
  obtain vec where v: "concat vec = committed p" and pw: "prot_write p ch = (case writev_retry vec ch of
        (Inl e, ch1) \<Rightarrow> (- e, p, ch1)
      | (Inr n, ch1) \<Rightarrow> (int n, p\<lparr>outbuf := (outbuf p)\<lparr>bcount := bcount (outbuf p) - n,
           bpos := wrap (bpos (outbuf p) + n)\<rparr>, wrokcnt := wrokcnt p - n\<rparr>, ch1))"
    by (rule prot_write_vec[OF assms(2,3)]) blast
  obtain r c where r: "writev_retry vec ch = (r, c)" by fastforce
  have l: "length (concat vec) = wrokcnt p" using assms(2) by (simp add: v committed_def out_inv_def)
  show ?thesis
    using assms(1,3) pw writev_retry_progress[OF r] l r by (cases r) auto
qed

lemma flushw_loop_returns:
  "session_inv s \<Longrightarrow> length (tx (chn s)) + wrokcnt (cprot (cl s)) < n \<Longrightarrow> flushw_loop n s \<noteq> None"
proof (induction n arbitrary: s)
  case (Suc n)
  show ?case
  proof (cases "prot_should_write (cprot (cl s))")
    case True
    obtain r p ch where w: "prot_write (cprot (cl s)) (chn s) = (r, p, ch)" by (metis prod_cases3)
    obtain e v where q: "poll_retry (world (set_link p ch s)) = (e, v)" by fastforce
    have inv: "session_inv (set_link p ch s)" by (rule kept.wr[OF Suc.prems(1) w])
    have inv2: "session_inv ((set_link p ch s)\<lparr>world := v\<rparr>)" by (rule kept.polled[OF inv])
    have "length (tx ch) + wrokcnt p < length (tx (chn s)) + wrokcnt (cprot (cl s))"
      using prot_write_progress[OF w] Suc.prems(1) True by (simp add: session_inv_def prot_should_write_def)
    then have less: "length (tx ch) + wrokcnt p < n" using Suc.prems(2) by simp
    then have "flushw_loop n (set_link p ch s) \<noteq> None"
      "flushw_loop n ((set_link p ch s)\<lparr>world := v\<rparr>) \<noteq> None"
      using Suc.IH[OF inv] Suc.IH[OF inv2] by (simp_all add: set_link_def)
    then show ?thesis using True w q by (simp add: Let_def)
  qed simp
qed simp

lemma flushw_fuel_enough:
  "session_inv s \<Longrightarrow> flushw_loop (flush_fuel s) s = Some (flushw s)"
  using flushw_loop_returns[of s "flush_fuel s"] by (auto simp: flushw_def flush_fuel_def)

text \<open>What a flush does: some bytes leave the buffer for the channel, and events are consumed.\<close>

definition flushes :: "'z session \<Rightarrow> 'z session \<Rightarrow> bool" where
  "flushes s t \<longleftrightarrow> (\<exists>p ch w k. t = (set_link p ch s)\<lparr>world := w\<rparr>
     \<and> sent ch = sent (chn s) @ take k (obytes (outbuf (cprot (cl s))))
     \<and> obytes (outbuf p) = drop k (obytes (outbuf (cprot (cl s))))
     \<and> set (tx ch) \<subseteq> set (tx (chn s)) \<and> set (faults w) \<subseteq> set (faults (world s)))"

lemma flushes_refl: "flushes s s"
  unfolding flushes_def
  by (intro exI[of _ "cprot (cl s)"] exI[of _ "chn s"] exI[of _ "world s"] exI[of _ 0]) (simp add: set_link_def)

lemma flushes_trans: "flushes s t \<Longrightarrow> flushes t u \<Longrightarrow> flushes s u"
proof -
  assume "flushes s t" "flushes t u"
  then obtain p ch w k q d v l where t: "t = (set_link p ch s)\<lparr>world := w\<rparr>"
      "sent ch = sent (chn s) @ take k (obytes (outbuf (cprot (cl s))))"
      "obytes (outbuf p) = drop k (obytes (outbuf (cprot (cl s))))"
      "set (tx ch) \<subseteq> set (tx (chn s))" "set (faults w) \<subseteq> set (faults (world s))"
    and u: "u = (set_link q d t)\<lparr>world := v\<rparr>" "sent d = sent (chn t) @ take l (obytes (outbuf (cprot (cl t))))"
      "obytes (outbuf q) = drop l (obytes (outbuf (cprot (cl t))))"
      "set (tx d) \<subseteq> set (tx (chn t))" "set (faults v) \<subseteq> set (faults (world t))"
    unfolding flushes_def by blast
  show ?thesis
    unfolding flushes_def
    by (intro exI[of _ q] exI[of _ d] exI[of _ v] exI[of _ "k + l"])
      (use t u in \<open>auto simp: set_link_def take_add add.commute\<close>)
qed

lemma flushes_world: "flushes s t \<Longrightarrow> set (faults v) \<subseteq> set (faults (world t)) \<Longrightarrow> flushes s (t\<lparr>world := v\<rparr>)"
proof -
  assume "flushes s t" and v: "set (faults v) \<subseteq> set (faults (world t))"
  then obtain p ch w k where t: "t = (set_link p ch s)\<lparr>world := w\<rparr>"
      "sent ch = sent (chn s) @ take k (obytes (outbuf (cprot (cl s))))"
      "obytes (outbuf p) = drop k (obytes (outbuf (cprot (cl s))))"
      "set (tx ch) \<subseteq> set (tx (chn s))" "set (faults w) \<subseteq> set (faults (world s))"
    unfolding flushes_def by blast
  show ?thesis unfolding flushes_def
    by (intro exI[of _ p] exI[of _ ch] exI[of _ v] exI[of _ k]) (use t v in \<open>auto simp: set_link_def\<close>)
qed

text \<open>The results: nothing is left, or an error of the channel or of the poll.\<close>

definition flush_result :: "'z session \<Rightarrow> int \<Rightarrow> 'z session \<Rightarrow> bool" where
  "flush_result s rc t \<longleftrightarrow>
     (if rc = 0 then obytes (outbuf (cprot (cl t))) = [] \<or> TxErr ENODATA \<in> set (tx (chn s))
      else rc < 0 \<and> rc \<noteq> - EINTR \<and>
        ((\<exists>e. TxErr e \<in> set (tx (chn s)) \<and> e \<noteq> EAGAIN \<and> rc = - max 1 e) \<or> - rc \<in> set (faults (world s))))"

lemma flush_result_mono: "flushes s t \<Longrightarrow> flush_result t rc u \<Longrightarrow> flush_result s rc u"
  by (auto simp: flushes_def flush_result_def set_link_def split: if_splits)

lemma poll_retry_result:
  "poll_retry w = (rc, w') \<Longrightarrow> set (faults w') \<subseteq> set (faults w)
     \<and> (rc < 0 \<longrightarrow> - rc \<in> set (faults w) \<and> rc \<noteq> - EINTR)"
proof (induction w rule: poll_retry.induct)
  case (1 w)
  obtain e v where p: "pop_fault w = (e, v)" by fastforce
  have v: "set (faults v) \<subseteq> set (faults w)" "e > 0 \<Longrightarrow> e \<in> set (faults w)"
    using p by (auto simp: pop_fault_def split: list.splits)
  show ?case
  proof (cases "e = EINTR")
    case True
    then have "poll_retry v = (rc, w')" using "1.prems" p by (subst (asm) poll_retry.simps) simp
    from "1.IH"[OF p[symmetric] True this] show ?thesis using v(1) by blast
  next
    case False
    then have "rc = - e" "w' = v" using "1.prems" p by (subst (asm) poll_retry.simps; simp)+
    then show ?thesis using v False by auto
  qed
qed

lemma prot_write_flushes:
  assumes "session_inv s" "prot_write (cprot (cl s)) (chn s) = (rc, p, ch)" "wrokcnt (cprot (cl s)) > 0"
  shows "flushes s (set_link p ch s)"
    and "rc < 0 \<Longrightarrow> rc \<noteq> - EINTR \<and> (\<exists>e. TxErr e \<in> set (tx (chn s)) \<and> rc = - max 1 e)"
proof -
  have oi: "out_inv (cprot (cl s))" using assms(1) by (simp add: session_inv_def)
  obtain vec where pw: "prot_write (cprot (cl s)) (chn s) = (case writev_retry vec (chn s) of
        (Inl e, ch1) \<Rightarrow> (- e, cprot (cl s), ch1)
      | (Inr n, ch1) \<Rightarrow> (int n, (cprot (cl s))\<lparr>outbuf := (outbuf (cprot (cl s)))\<lparr>bcount := bcount (outbuf (cprot (cl s))) - n,
           bpos := wrap (bpos (outbuf (cprot (cl s))) + n)\<rparr>, wrokcnt := wrokcnt (cprot (cl s)) - n\<rparr>, ch1))"
    by (rule prot_write_vec[OF oi assms(3)]) blast
  obtain r c where r: "writev_retry vec (chn s) = (r, c)" by fastforce
  note ev = writev_retry_events[OF r]
  have c: "set (tx ch) \<subseteq> set (tx (chn s))" using assms(2) pw r ev by (auto split: sum.splits)
  show "rc \<noteq> - EINTR \<and> (\<exists>e. TxErr e \<in> set (tx (chn s)) \<and> rc = - max 1 e)" if "rc < 0"
    using that assms(2) pw r ev writev_retry_err[of vec "chn s"] by (auto split: sum.splits)
  show "flushes s (set_link p ch s)"
    using assms(2) oi
  proof (cases rule: prot_write_cases)
    case nodata
    then show ?thesis using assms(3) by simp
  next
    case error
    then show ?thesis unfolding flushes_def
      by (intro exI[of _ p] exI[of _ ch] exI[of _ "world s"] exI[of _ 0]) (use c in \<open>auto simp: set_link_def\<close>)
  next
    case (wrote n)
    then have "take n (committed (cprot (cl s))) = take n (obytes (outbuf (cprot (cl s))))"
      by (simp add: committed_def min.absorb1)
    then show ?thesis unfolding flushes_def
      by (intro exI[of _ p] exI[of _ ch] exI[of _ "world s"] exI[of _ n]) (use c wrote in \<open>auto simp: set_link_def\<close>)
  qed
qed

lemma nothing_to_write:
  assumes "session_inv s" "wrokcnt (cprot (cl s)) = 0"
  shows "obytes (outbuf (cprot (cl s))) = []"
proof -
  have "bcount (outbuf (cprot (cl s))) = 0" using assms by (simp add: session_inv_def out_inv_def)
  then show ?thesis using length_obytes by (metis length_0_conv)
qed

lemma flushw_loop_flushes:
  "flushw_loop n s = Some (rc, t) \<Longrightarrow> session_inv s \<Longrightarrow> flushes s t \<and> flush_result s rc t"
proof (induction n arbitrary: s)
  case (Suc n)
  show ?case
  proof (cases "prot_should_write (cprot (cl s))")
    case False
    then show ?thesis
      using Suc.prems nothing_to_write[of s] flushes_refl by (auto simp: prot_should_write_def flush_result_def)
  next
    case True
    obtain r p ch where w: "prot_write (cprot (cl s)) (chn s) = (r, p, ch)" by (metis prod_cases3)
    let ?u = "set_link p ch s"
    obtain e v where q: "poll_retry (world ?u) = (e, v)" by fastforce
    let ?v = "?u\<lparr>world := v\<rparr>"
    have inv: "session_inv ?u" "session_inv ?v" using kept.wr[OF Suc.prems(2) w] kept.polled by blast+
    note f = prot_write_flushes[OF Suc.prems(2) w True[unfolded prot_should_write_def]]
    note pr = poll_retry_result[OF q]
    have v: "flushes s ?v" using flushes_world[OF f(1)] pr by blast
    note run = Suc.prems(1)[unfolded flushw_loop.simps w Let_def prod.case q]
    consider (on) "r \<ge> 0" "flushw_loop n ?u = Some (rc, t)"
      | (nodata) "r = - ENODATA" "rc = 0" "t = ?u"
      | (error) "r < 0" "r \<noteq> - EAGAIN" "r \<noteq> - ENODATA" "rc = r" "t = ?u"
      | (again) "r = - EAGAIN" "e \<ge> 0" "flushw_loop n ?v = Some (rc, t)"
      | (poll) "r = - EAGAIN" "e < 0" "rc = e" "t = ?v"
      using run True by (auto split: if_splits)
    then show ?thesis
    proof cases
      case on
      then show ?thesis
        using Suc.IH[OF on(2) inv(1)] flushes_trans[OF f(1)] flush_result_mono[OF f(1)] by blast
    next
      case again
      then show ?thesis
        using Suc.IH[OF again(3) inv(2)] flushes_trans[OF v] flush_result_mono[OF v] by blast
    next
      case nodata
      then show ?thesis using f by (auto simp: flush_result_def max_def split: if_splits)
    next
      case error
      then show ?thesis using f by (auto simp: flush_result_def)
    next
      case poll
      then show ?thesis using v pr by (auto simp: flush_result_def set_link_def)
    qed
  qed
qed simp

section \<open>Processing\<close>

text \<open>A session between two requests: no record is in hand.\<close>

definition session_ready :: "'z session \<Rightarrow> bool" where
  "session_ready s \<longleftrightarrow> session_inv s \<and> fcount (pfields (cprot (cl s))) < 0"

lemma pending_ready:
  "session_ready s \<Longrightarrow> \<exists>rc t. pending H s = Some (rc, t) \<and> session_ready t \<and> (rc = 0 \<or> rc = - EMSGSIZE)"
proof (induction H s rule: pending.induct)
  case (1 H s)
  show ?case
  proof (cases "invalid (cl s)")
    case True
    then show ?thesis using "1.prems" by (simp add: pending.simps)
  next
    case False
    let ?p = "cprot (cl s)"
    have inv: "in_inv ?p" "fcount (pfields ?p) < 0" "session_inv s"
      using "1.prems" by (auto simp: session_ready_def session_inv_def)
    obtain r p where g: "prot_get ?p = Some (r, p)" "got ?p r p" using prot_get_pending[OF inv(1,2)] by blast
    have ip: "in_inv p" "same_out ?p p" using g(2) by (auto simp: got_def)
    let ?u = "on_prot (\<lambda>_. p) s"
    have u: "session_inv ?u" using inv(3) ip same_out_inv[of ?p p]
      by (simp add: session_inv_def on_prot_def same_out_def)
    let ?v = "if r > 0 then onrequest H (prot_fields p) ?u else ?u"
    have v: "session_inv ?v" using u kept.request[of ?u H "prot_fields p"] by simp
    show ?thesis
    proof (cases "r < 0")
      case True
      have "fcount (pfields p) < 0 \<or> r = fcount (pfields p)"
        using g(2) by (auto simp: got_def split: prod.splits option.splits)
      then have "session_ready ?u" using u True by (auto simp: session_ready_def on_prot_def)
      then show ?thesis using False g(1) True by (simp add: pending.simps Let_def)
    next
      case r: False
      have n: "in_inv (prot_next (cprot (cl ?v)))" "fcount (pfields (prot_next (cprot (cl ?v)))) < 0"
        "same_out (cprot (cl ?v)) (prot_next (cprot (cl ?v)))"
        using prot_next_in[of "cprot (cl ?v)"] v by (simp_all add: session_inv_def)
      have "session_ready (on_prot prot_next ?v)"
        using v n same_out_inv[OF n(3)] by (simp add: session_ready_def session_inv_def on_prot_def same_out_def)
      from "1.IH"[OF False g(1) refl refl r this] show ?thesis
        using False g(1) r by (simp add: pending.simps[of H s] Let_def)
    qed
  qed
qed

lemma process_ready:
  "session_ready s \<Longrightarrow> \<exists>rc t. client_process_input H s = Some (rc, t) \<and> session_ready t \<and> rc \<le> 0
     \<and> (rc = 0 \<longrightarrow> \<not> invalid (cl t) \<and> client_is_connected (cl t))"
proof (induction H s rule: client_process_input.induct)
  case (1 H s)
  obtain r t where p: "pending H s = Some (r, t)" "session_ready t" "r = 0 \<or> r = - EMSGSIZE"
    using pending_ready[OF "1.prems", of H] by blast
  show ?case
  proof (cases "r < 0 \<or> \<not> client_is_connected (cl t) \<or> invalid (cl t)")
    case True
    then show ?thesis using p by (subst client_process_input.simps) auto
  next
    case False
    obtain k q ch where rd: "prot_read (cprot (cl t)) (chn t) = (k, q, ch)" by (metis prod_cases3)
    let ?u = "set_link q ch t"
    have it: "in_inv (cprot (cl t))" "session_inv t" "fcount (pfields (cprot (cl t))) < 0"
      using p(2) by (auto simp: session_ready_def session_inv_def)
    have "in_inv q \<and> same_out (cprot (cl t)) q \<and> fcount (pfields q) < 0"
      using rd it(1)
    proof (cases rule: prot_read_cases)
      case full
      then show ?thesis using it by simp
    next
      case error
      then show ?thesis using it by simp
    next
      case data
      moreover have "pfields q = pfields (cprot (cl t))" using rd by (auto simp: prot_read_def split: prod.splits)
      ultimately show ?thesis using it by simp
    qed
    then have u: "session_ready ?u"
      using it same_out_inv[of "cprot (cl t)" q]
      by (simp add: session_ready_def session_inv_def set_link_def same_out_def)
    have run: "client_process_input H s = (if k \<le> 0 then Some (k, ?u) else client_process_input H ?u)"
      using p False rd by (subst client_process_input.simps) (simp add: Let_def)
    show ?thesis
    proof (cases "k \<le> 0")
      case True
      then show ?thesis using run u False by (simp add: set_link_def client_is_connected_def)
    next
      case k: False
      have "client_is_connected (cl t)" "\<not> invalid (cl t)" "\<not> r < 0" using False by auto
      from "1.IH"[OF p(1) refl this(3) _ _ rd[symmetric] refl refl k u] this show ?thesis
        using run k by simp
    qed
  qed
qed

section \<open>A channel that accepts everything\<close>

text \<open>All what was answered: what is sent, then what waits in the buffer.\<close>

definition out_stream :: "'z session \<Rightarrow> string" where
  "out_stream s = sent (chn s) @ obytes (outbuf (cprot (cl s)))"

definition fits :: "string list \<Rightarrow> bool" where
  "fits r \<longleftrightarrow> length (encode r) \<le> PROT_MAX_BUFFER_LENGTH"

text \<open>From \<open>s\<close> to \<open>t\<close> nothing has changed but the output, to which \<open>x\<close> has been added.\<close>

definition answers :: "'z session \<Rightarrow> string \<Rightarrow> 'z session \<Rightarrow> bool" where
  "answers s x t \<longleftrightarrow> session_inv t \<and> tx (chn t) = [] \<and> out_stream t = out_stream s @ x \<and> same_rx s t
     \<and> cctx (cl t) = cctx (cl s) \<and> version (cl t) = version (cl s) \<and> invalid (cl t) = invalid (cl s)
     \<and> server_log t = server_log s \<and> world t = world s"

lemma dolog_simps [simp]:
  "cl (dolog_protocol d r s) = cl s" "chn (dolog_protocol d r s) = chn s" "world (dolog_protocol d r s) = world s"
  "server_log (dolog_protocol d r s) = server_log s" "closed (dolog_protocol d r s) = closed s"
  "session_inv (dolog_protocol d r s) = session_inv s"
  by (simp_all add: dolog_protocol_def session_inv_def)

text \<open>The lines that records add to the log of the protocol.\<close>

definition loglines :: "bool \<Rightarrow> string list list \<Rightarrow> (bool \<times> string list) list" where
  "loglines lg rs = (if lg then map (Pair False) rs else [])"

lemma loglines_simps [simp]: "loglines lg [] = []" "loglines lg rs @ loglines lg qs = loglines lg (rs @ qs)"
  "loglines lg rs @ loglines lg qs @ l = loglines lg (rs @ qs) @ l"
  by (simp_all add: loglines_def)

definition exchange_log :: "bool \<Rightarrow> string list \<Rightarrow> string list list \<Rightarrow> (bool \<times> string list) list" where
  "exchange_log lg args rs = (if lg then (True, args) # map (Pair False) rs else [])"

lemma dolog_exchange: "plog (dolog_protocol True args s) @ loglines (server_log s) rs = plog s @ exchange_log (server_log s) args rs"
  by (simp add: dolog_protocol_def loglines_def exchange_log_def)

lemma put_record_plog: "plog (snd (put_record r s)) = plog s" "server_log (snd (put_record r s)) = server_log s"
  by (simp_all add: put_record_def on_prot_def split: prod.splits)

lemma flushw_loop_plog: "flushw_loop n s = Some (rc, t) \<Longrightarrow> plog t = plog s \<and> server_log t = server_log s"
proof (induction n arbitrary: s)
  case (Suc n)
  obtain r p ch where w: "prot_write (cprot (cl s)) (chn s) = (r, p, ch)" by (metis prod_cases3)
  obtain e v where q: "poll_retry (world (set_link p ch s)) = (e, v)" by fastforce
  let ?u = "set_link p ch s" and ?v = "(set_link p ch s)\<lparr>world := v\<rparr>"
  have f: "plog ?u = plog s" "server_log ?u = server_log s" "plog ?v = plog s" "server_log ?v = server_log s"
    by (simp_all add: set_link_def)
  have "t = s \<or> t = ?u \<or> t = ?v \<or> flushw_loop n ?u = Some (rc, t) \<or> flushw_loop n ?v = Some (rc, t)"
    using Suc.prems[unfolded flushw_loop.simps w Let_def prod.case q] by (simp split: if_splits)
  then show ?case by (elim disjE; insert f Suc.IH[of ?u] Suc.IH[of ?v]; simp)
qed simp

lemma flushw_plog: "plog (snd (flushw s)) = plog s" "server_log (snd (flushw s)) = server_log s"
  by (cases "flushw_loop (flush_fuel s) s"; auto simp: flushw_def dest: flushw_loop_plog)+

lemma putx_plog:
  assumes "length r \<le> MAX_PUTX_ITEMS"
  shows "plog (snd (putx r s)) = plog s @ loglines (server_log s) [r]" "server_log (snd (putx r s)) = server_log s"
proof -
  let ?s = "dolog_protocol False r s"
  obtain k t where 1: "put_record r ?s = (k, t)" by fastforce
  obtain j u where 2: "flushw t = (j, u)" by fastforce
  note f = put_record_plog[of r ?s] flushw_plog[of t] put_record_plog[of r u]
  have "plog ?s = plog s @ loglines (server_log s) [r]" by (simp add: dolog_protocol_def loglines_def)
  then show "plog (snd (putx r s)) = plog s @ loglines (server_log s) [r]" "server_log (snd (putx r s)) = server_log s"
    using assms f by (simp_all add: putx_def 1 2)
qed

lemma sending_plog:
  "plog (send_done a s) = plog s @ loglines (server_log s) [n_done # (case a of None \<Rightarrow> [] | Some x \<Rightarrow> [x])]"
  "plog (send_error e s) = plog s @ loglines (server_log s) [[n_error, e]]"
  by (simp_all add: send_done_def send_error_def Let_def flushw_plog putx_plog set_ctx_def split: option.splits)

lemma dolog_record_cl: "(dolog_protocol d r s)\<lparr>cl := cl s\<rparr> = dolog_protocol d r s"
  by (simp add: dolog_protocol_def)

lemma answers_log: "answers (dolog_protocol d r s) x t = answers s x t"
  by (simp add: answers_def out_stream_def same_rx_def)

lemma answers_refl: "session_inv s \<Longrightarrow> tx (chn s) = [] \<Longrightarrow> answers s [] s"
  by (simp add: answers_def)

lemma answers_trans: "answers s x t \<Longrightarrow> answers t y u \<Longrightarrow> answers s (x @ y) u"
  by (auto simp: answers_def intro: same_rx_trans)

lemma prot_write_calm:
  assumes "out_inv p" "outfields p = 0" "wrokcnt p > 0" "tx ch = []"
  shows "\<exists>q ch'. prot_write p ch = (int (wrokcnt p), q, ch') \<and> tx ch' = [] \<and> wrokcnt q = 0
    \<and> obytes (outbuf q) = [] \<and> sent ch' = sent ch @ obytes (outbuf p)"
proof -
  obtain rc q ch' where w: "prot_write p ch = (rc, q, ch')" by (metis prod_cases3)
  have all: "committed p = obytes (outbuf p)" "wrokcnt p = length (obytes (outbuf p))"
    using assms(1,2) by (simp_all add: committed_def out_inv_def)
  have t: "tx ch' = [] \<and> rc = int (wrokcnt p)"
  proof -
    obtain vec where v: "concat vec = committed p" and pw: "prot_write p ch = (case writev_retry vec ch of
          (Inl e, ch1) \<Rightarrow> (- e, p, ch1)
        | (Inr n, ch1) \<Rightarrow> (int n, p\<lparr>outbuf := (outbuf p)\<lparr>bcount := bcount (outbuf p) - n,
             bpos := wrap (bpos (outbuf p) + n)\<rparr>, wrokcnt := wrokcnt p - n\<rparr>, ch1))"
      by (rule prot_write_vec[OF assms(1,3)]) blast
    obtain r c where r: "writev_retry vec ch = (r, c)" by fastforce
    then show ?thesis using writev_retry_progress[OF r] assms(4) pw w v all by simp
  qed
  from w assms(1) show ?thesis
  proof (cases rule: prot_write_cases)
    case nodata
    then show ?thesis using assms(3) by simp
  next
    case error
    then show ?thesis using t by simp
  next
    case (wrote n)
    then have "n = wrokcnt p" using t by simp
    then show ?thesis using wrote t w all by auto
  qed
qed

lemma flushw_calm:
  assumes "session_inv s" "tx (chn s) = []"
  shows "\<exists>t. flushw s = (0, t) \<and> answers s [] t \<and> obytes (outbuf (cprot (cl t))) = []"
proof (cases "wrokcnt (cprot (cl s)) = 0")
  case True
  then have "bcount (outbuf (cprot (cl s))) = 0" using assms(1) by (simp add: session_inv_def out_inv_def)
  then have "obytes (outbuf (cprot (cl s))) = []" using length_obytes by (metis length_0_conv)
  moreover have "flushw s = (0, s)"
    using True by (simp add: flushw_def flush_fuel_def prot_should_write_def)
  ultimately show ?thesis using answers_refl[OF assms] by simp
next
  case False
  let ?p = "cprot (cl s)"
  have inv: "out_inv ?p" "outfields ?p = 0" "wrokcnt ?p > 0" using assms(1) False by (auto simp: session_inv_def)
  obtain q ch where w: "prot_write ?p (chn s) = (int (wrokcnt ?p), q, ch)" "tx ch = []" "wrokcnt q = 0"
    "obytes (outbuf q) = []" "sent ch = sent (chn s) @ obytes (outbuf ?p)"
    using prot_write_calm[OF inv assms(2)] by blast
  let ?t = "set_link q ch s"
  obtain m where m: "flush_fuel s = Suc (Suc m)" using inv(3) by (cases "wrokcnt ?p") (auto simp: flush_fuel_def)
  have "flushw s = (0, ?t)"
    using inv(3) w(1,3) by (simp add: flushw_def m prot_should_write_def set_link_def)
  moreover have "answers s [] ?t"
    using kept.wr[OF assms(1) w(1)] rx.wr[OF same_rx_refl w(1)] w
    by (simp add: answers_def out_stream_def set_link_def)
  ultimately show ?thesis using w(4) by (simp add: set_link_def)
qed

lemma put_record_calm:
  assumes "session_inv s" "tx (chn s) = []" "r \<noteq> []"
  shows "\<exists>t. put_record r s = (if length (obytes (outbuf (cprot (cl s)))) + length (encode r) \<le> PROT_MAX_BUFFER_LENGTH
      then 0 else - ECANCELED, t)
    \<and> answers s (if length (obytes (outbuf (cprot (cl s)))) + length (encode r) \<le> PROT_MAX_BUFFER_LENGTH
      then encode r else []) t"
proof -
  obtain rc p where p: "prot_put (cprot (cl s)) (map Some r) = (rc, p)" by fastforce
  have "snd (put_record r s) = on_prot (\<lambda>_. p) s" using p by (simp add: put_record_def)
  then have "session_inv (on_prot (\<lambda>_. p) s)" "same_rx s (on_prot (\<lambda>_. p) s)"
    using kept.put[OF assms(1,3)] rx.put[OF same_rx_refl assms(3)] by metis+
  then show ?thesis
    using prot_put_record[OF p _ _ assms(3)] assms p
    by (auto simp: put_record_def answers_def out_stream_def on_prot_def session_inv_def)
qed

lemma putx_calm:
  assumes "session_inv s" "tx (chn s) = []" "r \<noteq> []" "length r \<le> MAX_PUTX_ITEMS"
  shows "\<exists>t. putx r s = (if fits r then 0 else - ECANCELED, t) \<and> answers s (if fits r then encode r else []) t"
proof -
  let ?s = "dolog_protocol False r s"
  have s: "session_inv ?s" "tx (chn ?s) = []" using kept.dolog[OF assms(1)] assms(2) by simp_all
  obtain rc t where 1: "put_record r ?s = (rc, t)" "rc = 0 \<and> fits r \<and> answers s (encode r) t
      \<or> rc = - ECANCELED \<and> answers s [] t"
    using put_record_calm[OF s assms(3)] by (cases "length (obytes (outbuf (cprot (cl s)))) + length (encode r) \<le> PROT_MAX_BUFFER_LENGTH")
      (auto simp: fits_def answers_log)
  show ?thesis
  proof (cases "rc = 0")
    case True
    then show ?thesis using 1 assms(4) by (simp add: putx_def)
  next
    case False
    then have rc: "rc = - ECANCELED" "answers s [] t" using 1 by auto
    then obtain u where u: "flushw t = (0, u)" "answers t [] u" "obytes (outbuf (cprot (cl u))) = []"
      using flushw_calm[of t] by (auto simp: answers_def)
    have su: "answers s [] u" using answers_trans[OF rc(2) u(2)] by simp
    obtain v where v: "put_record r u = (if fits r then 0 else - ECANCELED, v)"
      "answers u (if fits r then encode r else []) v"
      using put_record_calm[of u r] su u(3) assms(3) by (auto simp: fits_def answers_def)
    then show ?thesis using 1(1) rc(1) u(1) assms(4) answers_trans[OF su v(2)] by (simp add: putx_def)
  qed
qed

lemma putx_flush_calm:
  assumes "session_inv s" "tx (chn s) = []" "r \<noteq> []" "length r \<le> MAX_PUTX_ITEMS" "fits r"
  shows "answers s (encode r) (snd (flushw (snd (putx r s))))
    \<and> obytes (outbuf (cprot (cl (snd (flushw (snd (putx r s))))))) = []"
proof -
  obtain t where t: "putx r s = (0, t)" "answers s (encode r) t" using putx_calm[OF assms(1-4)] assms(5) by auto
  obtain u where u: "flushw t = (0, u)" "answers t [] u" "obytes (outbuf (cprot (cl u))) = []"
    using flushw_calm[of t] t(2) by (auto simp: answers_def)
  then show ?thesis using t answers_trans[OF t(2) u(2)] by simp
qed

section \<open>Displaying\<close>

fun item_record :: "visited \<Rightarrow> string list" where
  "item_record (VId i) = [n_string, n_id, i]"
| "item_record (VPath p t) = [n_string, n_path, p, t]"
| "item_record (VPermission p) = [n_string, n_permission, p]"
| "item_record (VPlug e i d) = [n_string, n_plug, e, i, d]"

definition display_records :: "'p ctx \<Rightarrow> string list list" where
  "display_records c = (if error_flag c then [[n_string, n_error, n_on]] else []) @ map item_record (ctx_items c)"

lemma item_record_len: "item_record x \<noteq> [] \<and> length (item_record x) \<le> MAX_PUTX_ITEMS"
  by (cases x) simp_all

lemma display_visitor: "display_visitor_itf = visitor_of (\<lambda>x. putx (item_record x))"
  by (simp add: display_visitor_itf_def visitor_of_def display_id_def display_path_def
      display_permission_def display_plug_def fun_eq_iff)

lemma visit_calm:
  assumes "session_inv s" "tx (chn s) = []"
  shows "\<exists>t. visit_all (\<lambda>x. putx (item_record x)) xs 0 s =
      (if list_all fits (map item_record xs) then 0 else - ECANCELED, t)
    \<and> answers s (stream (takeWhile fits (map item_record xs))) t
    \<and> (list_all fits (map item_record xs) \<longrightarrow> plog t = plog s @ loglines (server_log s) (map item_record xs))"
  using assms
proof (induction xs arbitrary: s)
  case Nil
  then show ?case using answers_refl by (simp add: stream_def)
next
  case (Cons x xs)
  let ?r = "item_record x"
  obtain t where t: "putx ?r s = (if fits ?r then 0 else - ECANCELED, t)"
    "answers s (if fits ?r then encode ?r else []) t"
    using putx_calm[OF Cons.prems] item_record_len by blast
  show ?case
  proof (cases "fits ?r")
    case True
    obtain u where u: "visit_all (\<lambda>x. putx (item_record x)) xs 0 t =
      (if list_all fits (map item_record xs) then 0 else - ECANCELED, u)"
      "answers t (stream (takeWhile fits (map item_record xs))) u"
      "list_all fits (map item_record xs) \<longrightarrow> plog u = plog t @ loglines (server_log t) (map item_record xs)"
      using Cons.IH[of t] t(2) by (auto simp: answers_def)
    have "plog t = plog s @ loglines (server_log s) [?r]" "server_log t = server_log s"
      using putx_plog[of ?r s] t(1) item_record_len[of x] by simp_all
    moreover have "answers s (encode ?r @ stream (takeWhile fits (map item_record xs))) u"
      using answers_trans[OF t(2) u(2)] True by simp
    ultimately show ?thesis using t(1) u(1,3) True by (simp add: stream_def)
  next
    case False
    have "visit_all (\<lambda>x. putx (item_record x)) xs (- ECANCELED) t = (- ECANCELED, t)"
      by (cases xs) simp_all
    then show ?thesis using t False by (simp add: stream_def)
  qed
qed

lemma fits_on: "fits [n_string, n_error, n_on]"
  by (simp add: fits_def encode_def needs_escape_def PROT_MAX_BUFFER_LENGTH_def)

lemma send_display_calm:
  assumes "session_inv s" "tx (chn s) = []"
  defines "rs \<equiv> display_records (cctx (cl s))"
  shows "\<exists>t. send_display s = (if list_all fits rs then 0 else - ECANCELED, t)
    \<and> answers s (stream (takeWhile fits rs)) t
    \<and> (list_all fits rs \<longrightarrow> plog t = plog s @ loglines (server_log s) rs)"
proof -
  let ?c = "cctx (cl s)"
  let ?e = "if error_flag ?c then [[n_string, n_error, n_on]] else []"
  obtain t where t: "(if context_has_error ?c then putx [n_string, n_error, n_on] s else (0, s)) = (0, t)"
    "answers s (stream ?e) t" "plog t = plog s @ loglines (server_log s) ?e"
  proof (cases "error_flag ?c")
    case True
    obtain t where "putx [n_string, n_error, n_on] s = (0, t)" "answers s (encode [n_string, n_error, n_on]) t"
      using putx_calm[OF assms(1,2), of "[n_string, n_error, n_on]"] fits_on by auto
    then show ?thesis using True that[of t] putx_plog(1)[of "[n_string, n_error, n_on]" s]
      by (simp add: context_has_error_def stream_def)
  next
    case False
    then show ?thesis using answers_refl[OF assms(1,2)] that[of s] by (simp add: context_has_error_def stream_def)
  qed
  have ct: "cctx (cl t) = ?c" using t(2) by (simp add: answers_def)
  obtain u where u: "visit_all (\<lambda>x. putx (item_record x)) (ctx_items ?c) 0 t =
      (if list_all fits (map item_record (ctx_items ?c)) then 0 else - ECANCELED, u)"
      "answers t (stream (takeWhile fits (map item_record (ctx_items ?c)))) u"
      "list_all fits (map item_record (ctx_items ?c)) \<longrightarrow> plog u = plog t @ loglines (server_log t) (map item_record (ctx_items ?c))"
    using visit_calm[of t "ctx_items ?c"] t(2) by (auto simp: answers_def)
  have "server_log t = server_log s" using t(2) by (simp add: answers_def)
  then have "list_all fits rs \<longrightarrow> plog u = plog s @ loglines (server_log s) rs"
    using u(3) t(3) fits_on by (simp add: rs_def display_records_def)
  moreover have "send_display s = (if list_all fits (map item_record (ctx_items ?c)) then 0 else - ECANCELED, u)"
    unfolding send_display_def t(1) prod.case display_visitor visit_in_order ct u(1) by simp
  moreover have "takeWhile fits rs = ?e @ takeWhile fits (map item_record (ctx_items ?c))"
    "list_all fits rs = list_all fits (map item_record (ctx_items ?c))"
    using fits_on by (simp_all add: rs_def display_records_def)
  moreover have "answers s (stream ?e @ stream (takeWhile fits (map item_record (ctx_items ?c)))) u"
    by (rule answers_trans[OF t(2) u(2)])
  ultimately show ?thesis by (simp add: stream_def)
qed

section \<open>The abstract server\<close>

text \<open>
  What a request means: the records of the reply, the flag of the log, the context and the
  system afterwards, and whether the request is one of the protocol.
\<close>

type_synonym 'z served =
  "string list list \<times> bool \<times> 'z wstate perm_mgr_itf ctx \<times> 'z wstate \<times> bool"

definition status :: "(int \<Rightarrow> string) \<Rightarrow> bool \<Rightarrow> int \<Rightarrow> 'z wstate perm_mgr_itf ctx \<Rightarrow> 'z wstate \<Rightarrow> 'z served" where
  "status errtxt lg rc c w =
     (if rc \<ge> 0 then ([[n_done]], lg, c, w, True)
      else ([[n_error, errtxt (- rc)]], lg, context_raise_error c, w, True))"

definition serve ::
  "'z wstate host \<Rightarrow> string list \<Rightarrow> bool \<Rightarrow> 'z wstate perm_mgr_itf ctx \<Rightarrow> 'z wstate \<Rightarrow> 'z served" where
  "serve H args lg c w =
     (let bad = ([[n_error, ''protocol'']], lg, context_raise_error c, w, False)
      in case args of
           [a] \<Rightarrow>
             if a = n_clear then ([[n_done]], lg, context_clear c, w, True)
             else if a = n_display then
               (let rs = display_records c
                in if list_all fits rs then (rs @ [[n_done]], lg, c, w, True)
                   else (takeWhile fits rs @ [[n_error, ''internal'']], lg, context_raise_error c, w, True))
             else if a = n_install then
               (case action_install H c w of (rc, w) \<Rightarrow> status install_error lg rc c w)
             else if a = n_uninstall then
               (case action_uninstall H c w of (rc, w) \<Rightarrow> status uninstall_error lg rc c w)
             else if a = n_log then ([[n_done, if lg then n_on else n_off]], lg, c, w, True)
             else bad
         | [a, x] \<Rightarrow>
             if a = n_id then (case context_set_id c x of (rc, c) \<Rightarrow> status id_error lg rc c w)
             else if a = n_permission then
               (case context_add_permission c x w of (rc, c, w) \<Rightarrow> status permission_error lg rc c w)
             else if a = n_log \<and> (x = n_on \<or> x = n_off) then ([[n_done, x]], x = n_on, c, w, True)
             else bad
         | [a, x, y] \<Rightarrow>
             if a = n_path then (case context_add_path c x y w of (rc, c, w) \<Rightarrow> status path_error lg rc c w)
             else bad
         | [a, x, y, z] \<Rightarrow>
             if a = n_plug then (case context_add_plug c x y z w of (rc, c, w) \<Rightarrow> status plug_error lg rc c w)
             else bad
         | _ \<Rightarrow> bad)"

text \<open>From \<open>s\<close>, the session \<open>t\<close> has answered as the server says, and everything is sent.\<close>

definition served :: "'z session \<Rightarrow> 'z served \<Rightarrow> 'z session \<Rightarrow> bool" where
  "served s r t \<longleftrightarrow> (case r of (rs, lg, c, w, ok) \<Rightarrow>
     session_inv t \<and> tx (chn t) = [] \<and> obytes (outbuf (cprot (cl t))) = []
     \<and> sent (chn t) = out_stream s @ stream rs
     \<and> cctx (cl t) = c \<and> world t = w \<and> server_log t = lg \<and> same_rx s t
     \<and> (invalid (cl t) \<longleftrightarrow> invalid (cl s) \<or> \<not> ok) \<and> version (cl t) = version (cl s)
     \<and> (list_all fits (display_records (cctx (cl s))) \<longrightarrow> plog t = plog s @ loglines (server_log s) rs))"

lemma ckarg_loop_eq: "ckarg_loop a v \<longleftrightarrow> a = v"
  by (induction a v rule: ckarg_loop.induct) (auto split: list.splits)

lemma ckarg_0: "ckarg a v 0 \<longleftrightarrow> a = v"
  by (simp add: ckarg_def ckarg_loop_eq)

lemma ckarg_1: "v = c # v' \<Longrightarrow> rd a 0 = c \<and> c \<noteq> NUL \<and> ckarg a v 1 \<longleftrightarrow> c \<noteq> NUL \<and> a = v"
  by (cases a) (auto simp: ckarg_def ckarg_loop_eq)

lemma fits_small: "length (encode r) \<le> 100 \<Longrightarrow> fits r"
  by (simp add: fits_def PROT_MAX_BUFFER_LENGTH_def)

lemma length_escape: "length (escape_field f) \<le> 2 * length f"
  by (induction f) auto

lemma fits_done: "fits [n_done]" "length x \<le> 10 \<Longrightarrow> fits [n_done, x]"
  using length_escape[of x] by (auto intro!: fits_small simp: encode_def needs_escape_def)

lemma fits_error: "length x \<le> 20 \<Longrightarrow> fits [n_error, x]"
  using length_escape[of x] by (auto intro!: fits_small simp: encode_def needs_escape_def)

lemma error_texts:
  "length (id_error e) \<le> 20" "length (install_error e) \<le> 20" "length (path_error e) \<le> 20"
  "length (permission_error e) \<le> 20" "length (plug_error e) \<le> 20" "length (uninstall_error e) \<le> 20"
  by (simp_all add: id_error_def install_error_def path_error_def permission_error_def
      plug_error_def uninstall_error_def)

lemma send_done_calm:
  assumes "session_inv s" "tx (chn s) = []" "fits (n_done # (case arg of None \<Rightarrow> [] | Some a \<Rightarrow> [a]))"
  shows "answers s (encode (n_done # (case arg of None \<Rightarrow> [] | Some a \<Rightarrow> [a]))) (send_done arg s)
    \<and> obytes (outbuf (cprot (cl (send_done arg s)))) = []"
  using putx_flush_calm[OF assms(1,2) _ _ assms(3)] by (simp add: send_done_def split: option.splits)

lemma send_error_calm:
  assumes "session_inv s" "tx (chn s) = []" "fits [n_error, e]"
  shows "answers (set_ctx (context_raise_error (cctx (cl s))) (world s) s) (encode [n_error, e]) (send_error e s)
    \<and> obytes (outbuf (cprot (cl (send_error e s)))) = []"
proof -
  let ?s = "set_ctx (context_raise_error (cctx (cl s))) (world s) s"
  have "session_inv ?s" by (intro kept.ctx assms(1) context_raise_error_inv)
  moreover have "tx (chn ?s) = []" using assms(2) by (simp add: set_ctx_def)
  ultimately show ?thesis using putx_flush_calm[of ?s "[n_error, e]"] assms(3) by (simp add: send_error_def)
qed

lemma served_status:
  assumes "session_inv s" "tx (chn s) = []" "ctx_inv (cctx (cl s)) \<Longrightarrow> ctx_inv c" "\<And>e. length (f e) \<le> 20"
  shows "served s (status f (server_log s) rc c w) (reply_status f rc (set_ctx c w s))"
proof -
  let ?s = "set_ctx c w s"
  have s: "session_inv ?s" "tx (chn ?s) = []"
    using kept.ctx[OF assms(1,3)] assms(2) by (simp_all add: set_ctx_def)
  show ?thesis
  proof (cases "rc \<ge> 0")
    case True
    then show ?thesis
      using send_done_calm[OF s, of None] fits_done(1)
      by (auto simp: served_def status_def reply_status_def answers_def out_stream_def stream_def set_ctx_def same_rx_def sending_plog)
  next
    case False
    then show ?thesis
      using send_error_calm[OF s fits_error[OF assms(4), of "- rc"]]
      by (auto simp: served_def status_def reply_status_def answers_def out_stream_def stream_def set_ctx_def same_rx_def sending_plog)
  qed
qed

lemma served_bad:
  assumes "session_inv s" "tx (chn s) = []"
  shows "served s ([[n_error, ''protocol'']], server_log s, context_raise_error (cctx (cl s)), world s, False)
     (invalid_protocol s)"
  using send_error_calm[OF assms, of "''protocol''"] fits_error[of "''protocol''"]
  by (auto simp: served_def invalid_protocol_def answers_def out_stream_def stream_def set_ctx_def
      same_rx_def session_inv_def Let_def sending_plog)

lemma ckarg_named:
  "rd a 0 = CHR ''c'' \<Longrightarrow> ckarg a n_clear (Suc 0) \<longleftrightarrow> a = n_clear"
  "rd a 0 = CHR ''d'' \<Longrightarrow> ckarg a n_display (Suc 0) \<longleftrightarrow> a = n_display"
  "rd a 0 = CHR ''i'' \<Longrightarrow> ckarg a n_id (Suc 0) \<longleftrightarrow> a = n_id"
  "rd a 0 = CHR ''i'' \<Longrightarrow> ckarg a n_install (Suc 0) \<longleftrightarrow> a = n_install"
  "rd a 0 = CHR ''l'' \<Longrightarrow> ckarg a n_log (Suc 0) \<longleftrightarrow> a = n_log"
  "rd a 0 = CHR ''p'' \<Longrightarrow> ckarg a n_path (Suc 0) \<longleftrightarrow> a = n_path"
  "rd a 0 = CHR ''p'' \<Longrightarrow> ckarg a n_permission (Suc 0) \<longleftrightarrow> a = n_permission"
  "rd a 0 = CHR ''p'' \<Longrightarrow> ckarg a n_plug (Suc 0) \<longleftrightarrow> a = n_plug"
  "rd a 0 = CHR ''u'' \<Longrightarrow> ckarg a n_uninstall (Suc 0) \<longleftrightarrow> a = n_uninstall"
  by (cases a; simp add: ckarg_def ckarg_loop_eq)+

lemma served_display:
  assumes "session_inv s" "tx (chn s) = []"
  defines "rs \<equiv> display_records (cctx (cl s))"
  shows "served s (if list_all fits rs then (rs @ [[n_done]], server_log s, cctx (cl s), world s, True)
      else (takeWhile fits rs @ [[n_error, ''internal'']], server_log s, context_raise_error (cctx (cl s)), world s, True))
    (case send_display s of (rc, s) \<Rightarrow> if rc \<ge> 0 then send_done None s else send_error ''internal'' s)"
proof -
  obtain t where t: "send_display s = (if list_all fits rs then 0 else - ECANCELED, t)"
    "answers s (stream (takeWhile fits rs)) t"
    "list_all fits rs \<longrightarrow> plog t = plog s @ loglines (server_log s) rs"
    using send_display_calm[OF assms(1,2)] unfolding rs_def by blast
  have it: "session_inv t" "tx (chn t) = []" using t(2) by (simp_all add: answers_def)
  show ?thesis
  proof (cases "list_all fits rs")
    case True
    have tw: "takeWhile fits rs = rs" using True by (simp add: takeWhile_eq_all_conv list_all_iff)
    show ?thesis
      using True t(1,3) t(2)[unfolded tw] send_done_calm[OF it, of None] fits_done(1)
      by (auto simp: served_def answers_def out_stream_def stream_def same_rx_def sending_plog)
  next
    case False
    then show ?thesis
      using t(1,2) send_error_calm[OF it, of "''internal''"] fits_error[of "''internal''"] rs_def
      by (auto simp: served_def answers_def out_stream_def stream_def same_rx_def sending_plog set_ctx_def)
  qed
qed

lemma served_log:
  assumes "session_inv s" "tx (chn s) = []" "x = n_on \<or> x = n_off"
  shows "served s ([[n_done, x]], b, cctx (cl s), world s, True) ((send_done (Some x) s)\<lparr>server_log := b\<rparr>)"
proof -
  have "fits [n_done, x]" using assms(3) by (intro fits_done(2)) auto
  then show ?thesis
    using send_done_calm[OF assms(1,2), of "Some x"]
    by (auto simp: served_def answers_def out_stream_def stream_def same_rx_def sending_plog session_inv_def)
qed

lemma served_clear:
  assumes "session_inv s" "tx (chn s) = []"
  shows "served s ([[n_done]], server_log s, context_clear (cctx (cl s)), world s, True)
    (send_done None (set_ctx (context_clear (cctx (cl s))) (world s) s))"
  using served_status[OF assms context_clear_inv, where f = id_error and rc = 0] error_texts(1)
  by (simp add: status_def reply_status_def)

text \<open>The handler by the names of the requests.\<close>

lemma dispatch_names:
  "dispatch H args s =
     (let n = length args; a0 = args ! 0; c = cctx (cl s); w = world s
      in if a0 = n_clear \<and> n = 1 then send_done None (set_ctx (context_clear c) w s)
         else if a0 = n_display \<and> n = 1 then
           (case send_display s of (rc, s) \<Rightarrow> if rc \<ge> 0 then send_done None s else send_error ''internal'' s)
         else if a0 = n_id \<and> n = 2 then
           (case context_set_id c (args ! 1) of (rc, c) \<Rightarrow> reply_status id_error rc (set_ctx c w s))
         else if a0 = n_install \<and> n = 1 then
           (case action_install H c w of (rc, w) \<Rightarrow> reply_status install_error rc (set_ctx c w s))
         else if a0 = n_log \<and> (n = 1 \<or> n = 2 \<and> (args ! 1 = n_on \<or> args ! 1 = n_off)) then
           (let nextlog = (if n = 2 then args ! 1 = n_on else server_log s)
            in (send_done (Some (if nextlog then n_on else n_off)) s)\<lparr>server_log := nextlog\<rparr>)
         else if a0 = n_path \<and> n = 3 then
           (case context_add_path c (args ! 1) (args ! 2) w of (rc, c, w) \<Rightarrow> reply_status path_error rc (set_ctx c w s))
         else if a0 = n_permission \<and> n = 2 then
           (case context_add_permission c (args ! 1) w of (rc, c, w) \<Rightarrow> reply_status permission_error rc (set_ctx c w s))
         else if a0 = n_plug \<and> n = 4 then
           (case context_add_plug c (args ! 1) (args ! 2) (args ! 3) w of (rc, c, w) \<Rightarrow> reply_status plug_error rc (set_ctx c w s))
         else if a0 = n_uninstall \<and> n = 1 then
           (case action_uninstall H c w of (rc, w) \<Rightarrow> reply_status uninstall_error rc (set_ctx c w s))
         else invalid_protocol s)"
    if "args \<noteq> []"
proof (cases "args ! 0")
  case Nil
  then show ?thesis by (simp add: dispatch_def)
next
  case (Cons k r)
  note eqs = dispatch_def Let_def Cons ckarg_def ckarg_loop_eq
  have n: "length args \<le> 2 \<longleftrightarrow> length args = 1 \<or> length args = 2"
    using that by (cases args rule: list.exhaust; cases "tl args") auto
  consider "k = CHR ''c''" | "k = CHR ''d''" | "k = CHR ''i''" | "k = CHR ''l''" | "k = CHR ''p''"
    | "k = CHR ''u''" | "k \<notin> {CHR ''c'', CHR ''d'', CHR ''i'', CHR ''l'', CHR ''p'', CHR ''u''}" by auto
  then show ?thesis
  proof cases
    case 4
    then show ?thesis
      by (cases "length args = 1"; cases "length args = 2") (simp_all add: eqs n)
  qed (simp_all add: eqs)
qed

lemma dispatch_serves:
  assumes "session_inv s" "tx (chn s) = []" "args \<noteq> []"
  shows "served s (serve H args (server_log s) (cctx (cl s)) (world s)) (dispatch H args s)"
proof -
  let ?c = "cctx (cl s)" and ?w = "world s"
  note dn = dispatch_names[OF assms(3), of H s]
  note st = served_status[OF assms(1,2)] and bad = served_bad[OF assms(1,2)]
  consider (one) a where "args = [a]" | (two) a x where "args = [a, x]" | (three) a x y where "args = [a, x, y]"
    | (four) a x y z where "args = [a, x, y, z]" | (more) a x y z q r where "args = a # x # y # z # q # r"
    using assms(3) by (metis neq_Nil_conv)
  then show ?thesis
  proof cases
    case one
    obtain r1 w1 where i: "action_install H ?c ?w = (r1, w1)" by fastforce
    obtain r2 w2 where u: "action_uninstall H ?c ?w = (r2, w2)" by fastforce
    have s1: "served s (status install_error (server_log s) r1 ?c w1) (reply_status install_error r1 (set_ctx ?c w1 s))"
      "served s (status uninstall_error (server_log s) r2 ?c w2) (reply_status uninstall_error r2 (set_ctx ?c w2 s))"
      by (rule st; simp add: error_texts)+
    show ?thesis
      unfolding dn unfolding serve_def one Let_def i u prod.case
      using s1 bad served_clear[OF assms(1,2)] served_display[OF assms(1,2)]
        served_log[OF assms(1,2), of n_on True] served_log[OF assms(1,2), of n_off False]
      by (simp del: One_nat_def)
  next
    case two
    obtain r1 c1 where i: "context_set_id ?c x = (r1, c1)" by fastforce
    obtain r2 c2 w2 where p: "context_add_permission ?c x ?w = (r2, c2, w2)" by (metis prod_cases3)
    have s1: "served s (status id_error (server_log s) r1 c1 ?w) (reply_status id_error r1 (set_ctx c1 ?w s))"
      by (rule st[OF context_set_id_inv[OF i]]) (simp_all add: error_texts)
    have s2: "served s (status permission_error (server_log s) r2 c2 w2) (reply_status permission_error r2 (set_ctx c2 w2 s))"
      by (rule st[OF context_add_permission_inv[OF p]]) (simp_all add: error_texts)
    show ?thesis
      unfolding dn unfolding serve_def two Let_def
      using s1 s2 bad i p served_log[OF assms(1,2), of n_on True] served_log[OF assms(1,2), of n_off False] by auto
  next
    case three
    obtain r2 c2 w2 where p: "context_add_path ?c x y ?w = (r2, c2, w2)" by (metis prod_cases3)
    have s2: "served s (status path_error (server_log s) r2 c2 w2) (reply_status path_error r2 (set_ctx c2 w2 s))"
      by (rule st[OF context_add_path_inv[OF p]]) (simp_all add: error_texts)
    show ?thesis unfolding dn unfolding serve_def three Let_def using s2 bad p by auto
  next
    case four
    obtain r2 c2 w2 where p: "context_add_plug ?c x y z ?w = (r2, c2, w2)" by (metis prod_cases3)
    have s2: "served s (status plug_error (server_log s) r2 c2 w2) (reply_status plug_error r2 (set_ctx c2 w2 s))"
      by (rule st[OF context_add_plug_inv[OF p]]) (simp_all add: error_texts)
    show ?thesis unfolding dn unfolding serve_def four Let_def using s2 bad p by auto
  next
    case more
    then show ?thesis unfolding dn unfolding serve_def more Let_def using bad by simp
  qed
qed

text \<open>A session whose version is negotiated, or defaulted by its first request.\<close>

lemma request_serves:
  assumes "session_inv s" "tx (chn s) = []" "args \<noteq> []" "check_utf8 args"
    "version (cl s) \<noteq> 0 \<or> hd args \<noteq> n_sec_lsm_manager"
  shows "served ((dolog_protocol True args s)\<lparr>cl := (cl s)\<lparr>version := (if version (cl s) = 0 then 1 else version (cl s))\<rparr>\<rparr>)
    (serve H args (server_log s) (cctx (cl s)) (world s)) (onrequest H args s)"
proof -
  let ?s = "(dolog_protocol True args s)\<lparr>cl := (cl s)\<lparr>version := (if version (cl s) = 0 then 1 else version (cl s))\<rparr>\<rparr>"
  have s: "session_inv ?s" "tx (chn ?s) = []" using assms(1,2) by (simp_all add: session_inv_def)
  have run: "onrequest H args s = dispatch H args ?s"
    using assms(3-5)
    by (cases "version (cl s) = 0") (simp_all add: onrequest_def ckarg_0 hd_conv_nth Let_def dolog_record_cl)
  show ?thesis unfolding run using dispatch_serves[OF s assms(3), of H] by simp
qed

section \<open>A new session\<close>

lemma client_create_ready:
  assumes "client_create mem fin fout w = (0, Some c, w')" "length (id_array (cctx mem)) = 201"
    "length (bcontent (inbuf (cprot mem))) = PROT_MAX_BUFFER_LENGTH"
    "length (bcontent (outbuf (cprot mem))) = PROT_MAX_BUFFER_LENGTH"
  shows "session_ready \<lparr>cl = c, chn = ch, server_log = b, plog = pl, closed = cs, world = w'\<rparr>
    \<and> version c = 0 \<and> \<not> invalid c \<and> fdin c = fin \<and> fdout c = fout \<and> 0 \<le> fin \<and> 0 \<le> fout"
proof -
  have c: "cprot c = prot_reset (cprot mem)" "cctx c = context_init (cctx mem)" "version c = 0"
    "\<not> invalid c" "fdin c = fin" "fdout c = fout" "0 \<le> fin" "0 \<le> fout"
    using assms(1)
    by (auto simp: client_create_def prot_create_def context_create_def split: if_splits prod.splits)
  show ?thesis
    using prot_reset_inv[OF assms(3,4)] context_init_inv[OF assms(2)] c
    by (simp add: session_ready_def session_inv_def)
qed

definition demo_client_mem :: "unit client" where
  "demo_client_mem = \<lparr>cprot = raw_prot,
     cctx = \<lparr>id_array = replicate 201 (CHR ''Z''), permission_set = \<lparr>permissions = [], slots = 0\<rparr>, path_set = [],
       plugset = [], need_id = True, error_flag = True, permgr = None\<rparr>,
     version = 3, invalid = True, fdin = 0, fdout = 0\<rparr>"

definition demo_server_host :: "os host" where
  "demo_server_host = \<lparr>default_permgr = \<lparr>add_permissions = \<lambda>l ps d w. (0, w), drop_permissions = \<lambda>l w. (0, w),
       check_permission = \<lambda>l p w. (1, w)\<rparr>,
     mac = \<lparr>mac_install = \<lambda>c w. (0, w), mac_uninstall = \<lambda>c w. (0, w), mac_get_label = \<lambda>i w. i\<rparr>\<rparr>"

definition demo_session :: "rx_event list \<Rightarrow> unit session" where
  "demo_session evs = \<lparr>cl = \<lparr>cprot = new_prot, cctx = context_init (cctx demo_client_mem), version = 0,
       invalid = False, fdin = 4, fdout = 4\<rparr>, chn = \<lparr>rx = evs, tx = [], sent = []\<rparr>,
     server_log = False, plog = [], closed = [], world = demo_os\<rparr>"

lemma demo_session_ready: "session_ready (demo_session evs)" "session_inv (demo_session evs)"
  "tx (chn (demo_session evs)) = []" "out_stream (demo_session evs) = []"
  using new_prot_inv context_init_inv[of "cctx demo_client_mem"]
  by (simp_all add: session_ready_def session_inv_def demo_session_def demo_client_mem_def out_stream_def)

text \<open>A reply that waits, on a channel that refuses, cuts and interrupts the writes.\<close>

definition demo_flush :: "unit session" where
  "demo_flush = (snd (put_record [''done''] (demo_session [])))
     \<lparr>chn := \<lparr>rx = [], tx = [TxErr EAGAIN, TxTake 2, TxErr EINTR], sent = []\<rparr>\<rparr>"

section \<open>Properties\<close>

text \<open>
  C10: whatever a client sends, and whatever the reads, the writes and the system do, the
  processing of its input returns; it never reads outside of its buffers, it leaves every
  part of the session well formed (the buffers, the context), and its result is negative or
  zero, zero only for a session that is still valid and connected.
\<close>

theorem session_input_safe:
  assumes "session_ready s"
  shows "\<exists>rc t. client_process_input H s = Some (rc, t) \<and> session_ready t \<and> rc \<le> 0
     \<and> (rc = 0 \<longrightarrow> \<not> invalid (cl t) \<and> client_is_connected (cl t))"
  using assms by (rule process_ready)

theorem session_input_safe_witness:
  "\<exists>rc t. client_process_input demo_server_host (demo_session [RxData ''id'', RxErr EINTR, RxData [LF], RxEof]) = Some (rc, t)
     \<and> ctx_inv (cctx (cl t))"
proof -
  obtain rc t where "client_process_input demo_server_host
      (demo_session [RxData ''id'', RxErr EINTR, RxData [LF], RxEof]) = Some (rc, t)" "session_ready t"
    using session_input_safe[OF demo_session_ready(1), of demo_server_host "[RxData ''id'', RxErr EINTR, RxData [LF], RxEof]"]
    by blast
  then show ?thesis by (auto simp: session_ready_def session_inv_def)
qed

text \<open>
  C34: flushing the replies of a session, however the writes are cut, interrupted or refused for a
  while, returns (the turns that \<open>flush_fuel\<close> allows are enough) and only moves bytes, in order,
  from the buffer to the channel. With zero all the bytes that waited have been sent, unless
  the channel gave \<open>ENODATA\<close>, which is taken for nothing to write; another result is an error of
  the channel or of the poll, neither an interruption nor a refusal for a while of the channel.
\<close>

theorem flushing_returns:
  assumes "session_inv s" "flush_fuel s \<le> n"
  shows "\<exists>rc p ch w k. flushw_loop n s = Some (rc, (set_link p ch s)\<lparr>world := w\<rparr>)
    \<and> sent ch = sent (chn s) @ take k (obytes (outbuf (cprot (cl s))))
    \<and> obytes (outbuf p) = drop k (obytes (outbuf (cprot (cl s))))
    \<and> (if rc = 0 then obytes (outbuf p) = [] \<or> TxErr ENODATA \<in> set (tx (chn s))
       else rc < 0 \<and> rc \<noteq> - EINTR \<and>
         ((\<exists>e. TxErr e \<in> set (tx (chn s)) \<and> e \<noteq> EAGAIN \<and> rc = - max 1 e) \<or> - rc \<in> set (faults (world s))))"
proof -
  have "length (tx (chn s)) + wrokcnt (cprot (cl s)) < n" using assms(2) by (simp add: flush_fuel_def)
  then obtain rc t where r: "flushw_loop n s = Some (rc, t)" using flushw_loop_returns[OF assms(1)] by fastforce
  then obtain p ch w k where t: "t = (set_link p ch s)\<lparr>world := w\<rparr>"
    "sent ch = sent (chn s) @ take k (obytes (outbuf (cprot (cl s))))"
    "obytes (outbuf p) = drop k (obytes (outbuf (cprot (cl s))))" "flush_result s rc t"
    using flushw_loop_flushes[OF r assms(1)] unfolding flushes_def by blast
  have "cprot (cl t) = p" by (simp add: t(1) set_link_def)
  then show ?thesis using r[unfolded t(1)] t(2-4) unfolding flush_result_def by metis
qed

theorem flushing_returns_witness:
  "\<exists>t. flushw_loop 9 demo_flush = Some (0, t) \<and> sent (chn t) = ''done'' @ [LF] \<and> obytes (outbuf (cprot (cl t))) = []"
proof -
  have "session_inv (snd (put_record [''done''] (demo_session [])))" by (rule kept.put[OF demo_session_ready(2)]) simp
  then have inv: "session_inv demo_flush" by (simp add: demo_flush_def session_inv_def)
  have fu: "flush_fuel demo_flush \<le> 9" by code_simp
  have ob: "obytes (outbuf (cprot (cl demo_flush))) = ''done'' @ [LF]" by code_simp
  have zero: "map_option fst (flushw_loop 9 demo_flush) = Some 0" by code_simp
  obtain rc p ch w k where f: "flushw_loop 9 demo_flush = Some (rc, (set_link p ch demo_flush)\<lparr>world := w\<rparr>)"
    "sent ch = sent (chn demo_flush) @ take k (obytes (outbuf (cprot (cl demo_flush))))"
    "obytes (outbuf p) = drop k (obytes (outbuf (cprot (cl demo_flush))))"
    "if rc = 0 then obytes (outbuf p) = [] \<or> TxErr ENODATA \<in> set (tx (chn demo_flush)) else rc < 0"
    using flushing_returns[OF inv fu] by metis
  have rc: "rc = 0" using f(1) zero by simp
  have s: "sent (chn demo_flush) = []" "TxErr ENODATA \<notin> set (tx (chn demo_flush))" by (simp_all add: demo_flush_def)
  then have "drop k (obytes (outbuf (cprot (cl demo_flush)))) = []" using f(3,4) rc by simp
  then have "take k (obytes (outbuf (cprot (cl demo_flush)))) = ''done'' @ [LF]" unfolding ob by simp
  then show ?thesis using f(1-3) rc s(1) \<open>drop k _ = []\<close> by (simp add: set_link_def)
qed

text \<open>
  C1: the request handler implements the abstract server: on a channel that accepts what is
  written, a request of a valid text is answered by exactly the records the server gives,
  all of them sent, after what was waiting, the context, the system and the flag of the log
  become what the server says, and the session becomes invalid exactly for a request that
  the protocol does not have.
\<close>

theorem request_refines_server:
  assumes "session_inv s" "tx (chn s) = []" "args \<noteq> []" "list_all is_utf8 args"
    "version (cl s) \<noteq> 0 \<or> hd args \<noteq> ''sec-lsm-manager''"
    "serve H args (server_log s) (cctx (cl s)) (world s) = (rs, lg, c, w, ok)" "t = onrequest H args s"
  shows "sent (chn t) = sent (chn s) @ obytes (outbuf (cprot (cl s))) @ stream rs
    \<and> obytes (outbuf (cprot (cl t))) = []
    \<and> cctx (cl t) = c \<and> world t = w \<and> server_log t = lg
    \<and> (invalid (cl t) \<longleftrightarrow> invalid (cl s) \<or> \<not> ok)"
proof -
  have "check_utf8 args" using assms(4) by (simp add: check_utf8_def)
  from request_serves[OF assms(1-3) this assms(5), of H] show ?thesis
    by (simp add: served_def assms(6,7) out_stream_def)
qed

theorem request_refines_server_witness:
  "sent (chn (onrequest demo_server_host [''id'', ''demo''] (demo_session []))) = ''done'' @ [LF]
   \<and> context_id (cctx (cl (onrequest demo_server_host [''id'', ''demo''] (demo_session [])))) = ''demo''"
proof -
  have u: "list_all is_utf8 [''id'', ''demo'']" by code_simp
  have c: "fst (context_set_id (context_init (cctx demo_client_mem)) ''demo'') = 0"
    "context_id (snd (context_set_id (context_init (cctx demo_client_mem)) ''demo'')) = ''demo''"
    by (code_simp, code_simp)
  obtain c' where c': "context_set_id (context_init (cctx demo_client_mem)) ''demo'' = (0, c')" "context_id c' = ''demo''"
    using c by (metis prod.collapse)
  have "serve demo_server_host [''id'', ''demo''] (server_log (demo_session []))
      (cctx (cl (demo_session []))) (world (demo_session [])) = ([[''done'']], False, c', demo_os, True)"
    using c'(1) by (simp add: serve_def status_def demo_session_def)
  from request_refines_server[OF demo_session_ready(2,3) _ u _ this refl] show ?thesis
    using c'(2) demo_session_ready(4)[of "[]"]
    by (simp add: stream_def encode_def needs_escape_def out_stream_def)
qed

lemma serve_after_error:
  assumes "error_flag c" "args \<noteq> [n_clear]"
    "serve H args lg c w = (rs, lg', c', w', ok)"
  shows "c' = c \<and> w' = w
    \<and> (ok \<and> args \<noteq> [n_display] \<and> hd args \<noteq> n_log \<longrightarrow> rs = [[n_error, ''not-recoverable'']])"
proof -
  have r: "context_raise_error c = c" using assms(1) by (simp add: context_raise_error_def)
  have acts: "action_install H c w = (- ENOTRECOVERABLE, w)" "action_uninstall H c w = (- ENOTRECOVERABLE, w)"
    using assms(1) by (simp_all add: action_install_def action_uninstall_def check_context_def)
  have sets: "context_set_id c x = (- ENOTRECOVERABLE, c)" "context_add_permission c x w = (- ENOTRECOVERABLE, c, w)"
    "context_add_path c x y w = (- ENOTRECOVERABLE, c, w)" "context_add_plug c x y z w = (- ENOTRECOVERABLE, c, w)"
    for x y z
    using assms(1) by (simp_all add: context_set_id_def context_add_permission_def context_add_path_def context_add_plug_def)
  have e: "id_error ENOTRECOVERABLE = ''not-recoverable''" "install_error ENOTRECOVERABLE = ''not-recoverable''"
    "path_error ENOTRECOVERABLE = ''not-recoverable''" "permission_error ENOTRECOVERABLE = ''not-recoverable''"
    "plug_error ENOTRECOVERABLE = ''not-recoverable''" "uninstall_error ENOTRECOVERABLE = ''not-recoverable''"
    by (simp_all add: id_error_def install_error_def path_error_def permission_error_def plug_error_def uninstall_error_def)
  show ?thesis
    using assms(2,3)
    by (auto simp: serve_def status_def acts sets e r Let_def split: list.splits if_splits)
qed

text \<open>
  C26: after an error nothing but \<open>clear\<close> changes the session: as long as the flag is raised,
  a request of the protocol leaves the context and the system as they are, and the requests
  that would change them or act are answered \<open>not-recoverable\<close>.
\<close>

theorem error_until_clear:
  assumes "session_inv s" "tx (chn s) = []" "args \<noteq> []" "list_all is_utf8 args"
    "version (cl s) \<noteq> 0" "error_flag (cctx (cl s))" "args \<noteq> [''clear'']" "t = onrequest H args s"
  shows "cctx (cl t) = cctx (cl s) \<and> world t = world s
    \<and> (\<not> invalid (cl t) \<and> args \<noteq> [''display''] \<and> hd args \<noteq> ''log''
        \<longrightarrow> sent (chn t) = sent (chn s) @ obytes (outbuf (cprot (cl s))) @ encode [''error'', ''not-recoverable''])"
proof -
  obtain rs lg c w ok where sv: "serve H args (server_log s) (cctx (cl s)) (world s) = (rs, lg, c, w, ok)"
    by (metis prod_cases5)
  have "check_utf8 args" using assms(4) by (simp add: check_utf8_def)
  from request_serves[OF assms(1-3) this, of H] assms(5) show ?thesis
    using serve_after_error[OF assms(6,7) sv]
    by (auto simp: served_def sv assms(8) out_stream_def stream_def)
qed

theorem error_until_clear_witness:
  "sent (chn (onrequest demo_server_host [''install'']
      ((demo_session [])\<lparr>cl := (cl (demo_session []))\<lparr>version := 1, cctx := context_raise_error (context_init (cctx demo_client_mem))\<rparr>\<rparr>)))
    = ''error not-recoverable'' @ [LF]"
proof -
  let ?s = "(demo_session [])\<lparr>cl := (cl (demo_session []))\<lparr>version := 1,
      cctx := context_raise_error (context_init (cctx demo_client_mem))\<rparr>\<rparr>"
  have s: "session_inv ?s" "tx (chn ?s) = []" "sent (chn ?s) = []" "obytes (outbuf (cprot (cl ?s))) = []"
    using new_prot_inv context_init_inv[of "cctx demo_client_mem"]
      context_raise_error_inv[of "context_init (cctx demo_client_mem)"]
    by (simp_all add: session_inv_def demo_session_def demo_client_mem_def)
  have u: "list_all is_utf8 [''install'']" by code_simp
  have f: "error_flag (cctx (cl ?s))" "version (cl ?s) \<noteq> 0" by (simp_all add: context_raise_error_def)
  have "action_install demo_server_host (cctx (cl ?s)) (world ?s) = (- ENOTRECOVERABLE, world ?s)"
    using f(1) by (simp add: action_install_def check_context_def)
  then have "serve demo_server_host [''install''] (server_log ?s) (cctx (cl ?s)) (world ?s) =
      ([[''error'', ''not-recoverable'']], server_log ?s, context_raise_error (cctx (cl ?s)), world ?s, True)"
    by (simp add: serve_def status_def install_error_def)
  then have "\<not> invalid (cl (onrequest demo_server_host [''install''] ?s))"
    using request_serves[OF s(1,2), of "[''install'']" demo_server_host] u f(2)
    by (simp add: served_def check_utf8_def) (simp add: demo_session_def)
  with error_until_clear[OF s(1,2) _ u f(2,1) _ refl, of demo_server_host] s(3,4) show ?thesis
    by (simp add: encode_def needs_escape_def)
qed

section \<open>The handshake\<close>

lemma handshake_iff: "n \<le> length args \<Longrightarrow> handshake args n = (if ''1'' \<in> set (take (n - 1) (tl args)) then Some ''1'' else None)"
proof (induction n)
  case (Suc n)
  show ?case
  proof (cases n)
    case (Suc m)
    then have n: "n < length args" "n > 0" using Suc.prems by simp_all
    then have t: "take n (tl args) = take (n - 1) (tl args) @ [args ! n]"
      using take_Suc_conv_app_nth[of m "tl args"] Suc by (simp add: nth_tl)
    show ?thesis using Suc.IH Suc.prems n t by (auto simp: ckarg_0)
  qed simp
qed simp

text \<open>
  C31: the version is negotiated by the first request: \<open>sec-lsm-manager\<close> followed by version
  numbers is answered \<open>done 1\<close> and sets the version when \<open>1\<close> is one of them, wherever it
  stands; otherwise it is answered \<open>error protocol\<close> and the session becomes invalid.
\<close>

theorem handshake_negotiates:
  assumes "session_inv s" "tx (chn s) = []" "version (cl s) = 0" "list_all is_utf8 vs"
    "t = onrequest H (''sec-lsm-manager'' # vs) s"
  shows "sent (chn t) = sent (chn s) @ obytes (outbuf (cprot (cl s)))
      @ encode (if ''1'' \<in> set vs then [''done'', ''1''] else [''error'', ''protocol''])
    \<and> version (cl t) = (if ''1'' \<in> set vs then 1 else 0)
    \<and> (invalid (cl t) \<longleftrightarrow> invalid (cl s) \<or> ''1'' \<notin> set vs)
    \<and> (''1'' \<in> set vs \<longrightarrow> cctx (cl t) = cctx (cl s))"
proof -
  have u: "check_utf8 (''sec-lsm-manager'' # vs)"
  proof -
    have "is_utf8 ''sec-lsm-manager''" by code_simp
    then show ?thesis using assms(4) by (simp add: check_utf8_def)
  qed
  have h: "handshake (''sec-lsm-manager'' # vs) (Suc (length vs)) = (if ''1'' \<in> set vs then Some ''1'' else None)"
    using handshake_iff[of "Suc (length vs)" "''sec-lsm-manager'' # vs"] by (simp del: handshake.simps)
  show ?thesis
  proof (cases "''1'' \<in> set vs")
    case True
    let ?s = "(dolog_protocol True (''sec-lsm-manager'' # vs) s)\<lparr>cl := (cl s)\<lparr>version := 1\<rparr>\<rparr>"
    have t: "t = send_done (Some ''1'') ?s"
      using u h True assms(3,5) by (simp add: onrequest_def ckarg_0 del: handshake.simps)
    have "session_inv ?s" "tx (chn ?s) = []" using assms(1,2) by (simp_all add: session_inv_def)
    from send_done_calm[OF this, of "Some ''1''"] show ?thesis
      using True t fits_done(2)[of "''1''"] by (auto simp: answers_def out_stream_def)
  next
    case False
    let ?s = "dolog_protocol True (''sec-lsm-manager'' # vs) s"
    have t: "t = invalid_protocol ?s"
      using u h False assms(3,5) by (simp add: onrequest_def ckarg_0 del: handshake.simps)
    have "session_inv ?s" "tx (chn ?s) = []" using assms(1,2) by simp_all
    from served_bad[OF this] show ?thesis
      using t False assms(3) by (simp add: served_def out_stream_def stream_def)
  qed
qed

theorem handshake_negotiates_witness:
  "sent (chn (onrequest demo_server_host [''sec-lsm-manager'', ''2'', ''1''] (demo_session []))) = ''done 1'' @ [LF]"
proof -
  have "list_all is_utf8 [''2'', ''1'']" by code_simp
  from handshake_negotiates[OF demo_session_ready(2,3) _ this refl, of "[]" demo_server_host] show ?thesis
    by (simp add: demo_session_def new_prot_inv encode_def needs_escape_def)
qed

end
