(* ===== verification/Server_Props.thy ===== *)
theory Server_Props
  imports Server Client_Props
begin

text \<open>
  What the server guarantees: the invariant of its slots, its descriptors and its polling over
  every reachable state, the end of silent clients, and the release of every descriptor.
\<close>

section \<open>Sessions of slots\<close>

definition client_ok :: "'z client \<Rightarrow> bool" where
  "client_ok c \<longleftrightarrow> in_inv (cprot c) \<and> out_inv (cprot c) \<and> outfields (cprot c) = 0
     \<and> \<not> allow_empty (cprot c) \<and> ctx_inv (cctx c) \<and> fcount (pfields (cprot c)) < 0"

lemma session_ready_client: "session_ready s \<longleftrightarrow> client_ok (cl s)"
  by (auto simp: session_ready_def session_inv_def client_ok_def)

lemma process_link: "client_process_input H s = Some (rc, t) \<Longrightarrow>
   fdin (cl t) = fdin (cl s) \<and> fdout (cl t) = fdout (cl s) \<and> closed t = closed s"
proof (induction H s rule: client_process_input.induct)
  case (1 H s)
  obtain r u where p: "pending H s = Some (r, u)"
    using "1.prems" by (subst (asm) client_process_input.simps) (auto split: option.splits)
  have u: "fdin (cl u) = fdin (cl s)" "fdout (cl u) = fdout (cl s)" "closed u = closed s"
    using pending_link[OF p] by (auto simp: keeps_link_def)
  obtain k q ch where rd: "prot_read (cprot (cl u)) (chn u) = (k, q, ch)" by (metis prod_cases3)
  note run = "1.prems"[unfolded client_process_input.simps[of H s] p option.case prod.case rd Let_def]
  show ?case
  proof (cases "r < 0 \<or> \<not> client_is_connected (cl u) \<or> invalid (cl u) \<or> k \<le> 0")
    case True
    then have "t = u \<or> t = set_link q ch u" using run by (auto split: if_splits)
    then show ?thesis using u by (auto simp: set_link_def)
  next
    case False
    then have a: "\<not> r < 0" "\<not> \<not> client_is_connected (cl u)" "\<not> invalid (cl u)" "\<not> k \<le> 0" by auto
    have "client_process_input H (set_link q ch u) = Some (rc, t)" using run a by simp
    from "1.IH"[OF p refl a(1-3) rd[symmetric] refl refl a(4) this] show ?thesis
      using u by (simp add: set_link_def)
  qed
qed

section \<open>Slots\<close>

lemma free_slot_le: "free_slot xs \<le> length xs"
  by (induction xs) (auto split: option.splits)

lemma free_slot_none: "free_slot xs < length xs \<Longrightarrow> connected (xs ! free_slot xs) = None"
  by (induction xs) (auto split: option.splits)

lemma free_slot_full: "free_slot xs < length xs \<longleftrightarrow> (\<exists>x \<in> set xs. connected x = None)"
  by (induction xs) (auto split: option.splits)

lemma free_slot_before: "i < free_slot xs \<Longrightarrow> connected (xs ! i) \<noteq> None"
proof (induction xs arbitrary: i)
  case (Cons x xs)
  then show ?case by (cases i) (auto split: option.splits)
qed simp

definition full :: "'z server \<Rightarrow> bool" where
  "full s \<longleftrightarrow> (\<forall>i < MAX_CLIENT_COUNT. connected (conns s ! i) \<noteq> None)"

text \<open>The slots, their descriptors and what is polled.\<close>

definition fds_inv :: "'z server \<Rightarrow> bool" where
  "fds_inv s \<longleftrightarrow> length (conns s) = MAX_CLIENT_COUNT \<and> servfd s \<noteq> pollfd s
     \<and> (\<forall>i < MAX_CLIENT_COUNT. \<forall>c. connected (conns s ! i) = Some c \<longrightarrow>
          client_ok c \<and> fdin c = cfd (conns s ! i) \<and> fdout c = cfd (conns s ! i) \<and> 0 \<le> fdin c
          \<and> polled s (fdin c) = Some EPOLLIN \<and> fdin c \<noteq> servfd s \<and> fdin c \<noteq> pollfd s)
     \<and> (\<forall>i < MAX_CLIENT_COUNT. \<forall>j < MAX_CLIENT_COUNT. i \<noteq> j \<longrightarrow> connected (conns s ! i) \<noteq> None \<longrightarrow>
          connected (conns s ! j) \<noteq> None \<longrightarrow> cfd (conns s ! i) \<noteq> cfd (conns s ! j))
     \<and> dom (polled s) = insert (servfd s)
          {cfd (conns s ! i) | i. i < MAX_CLIENT_COUNT \<and> connected (conns s ! i) \<noteq> None}"

text \<open>The polling of the socket of the server: while a turn runs, and between two turns.\<close>

definition listen_mid :: "'z server \<Rightarrow> bool" where
  "listen_mid s \<longleftrightarrow> (stopped s \<or> (if deaf s then full s \<longrightarrow> polled s (servfd s) = Some 0
     else \<not> full s \<and> polled s (servfd s) = Some EPOLLIN))"

definition listen_inv :: "'z server \<Rightarrow> bool" where
  "listen_inv s \<longleftrightarrow> (stopped s \<or> (polled s (servfd s) = Some (if full s then 0 else EPOLLIN) \<and> (full s \<longrightarrow> deaf s)))"

lemma listen_inv_mid: "listen_inv s \<Longrightarrow> listen_mid s"
  by (auto simp: listen_inv_def listen_mid_def)

text \<open>States that differ by the clock, the schedules or the system only.\<close>

definition same_slots :: "'z server \<Rightarrow> 'z server \<Rightarrow> bool" where
  "same_slots s s' \<longleftrightarrow> conns s' = conns s \<and> polled s' = polled s \<and> servfd s' = servfd s \<and> pollfd s' = pollfd s"

lemma same_slots_inv: "same_slots s s' \<Longrightarrow> fds_inv s' = fds_inv s \<and> full s' = full s"
  by (simp add: same_slots_def fds_inv_def full_def)

lemma epoll_ctl_cases:
  assumes "sys_epoll_ctl ctl fd evs s = ((rc, e), s')"
  obtains (failed) w where "rc = - 1" "e > 0" "s' = s\<lparr>sys_state := w\<rparr>"
  | (add) w where "ctl = EPOLL_CTL_ADD" "rc = 0" "polled s fd = None"
      "s' = s\<lparr>sys_state := w, polled := (polled s)(fd \<mapsto> evs)\<rparr>"
  | (modify) w where "ctl = EPOLL_CTL_MOD" "rc = 0" "polled s fd \<noteq> None"
      "s' = s\<lparr>sys_state := w, polled := (polled s)(fd \<mapsto> evs)\<rparr>"
  | (del) w where "ctl = EPOLL_CTL_DEL" "rc = 0" "s' = s\<lparr>sys_state := w, polled := (polled s)(fd := None)\<rparr>"
proof -
  obtain x w where p: "pop_fault (sys_state s) = (x, w)" by fastforce
  show ?thesis
    using assms that[of w] by (cases ctl) (auto simp: sys_epoll_ctl_def p Let_def split: if_splits)
qed

text \<open>The end of a slot.\<close>

definition closes_slot :: "nat \<Rightarrow> 'z server \<Rightarrow> 'z server \<Rightarrow> bool" where
  "closes_slot idx s s' \<longleftrightarrow> (\<exists>w. s' = s\<lparr>conns := (conns s)[idx := (conns s ! idx)\<lparr>connected := None\<rparr>],
     released := released s @ [cfd (conns s ! idx)], polled := (polled s)(cfd (conns s ! idx) := None), sys_state := w\<rparr>)"

lemma pollitem_del_any: "\<exists>w m. snd (pollitem_del fd s) = s\<lparr>sys_state := w, polled := m\<rparr>
    \<and> (m = polled s \<or> m = (polled s)(fd := None))"
proof -
  obtain rc e s' where r: "pollitem_del fd s = ((rc, e), s')" by (metis prod_cases3 prod.collapse)
  from r[unfolded pollitem_del_def pollitem_do_def] show ?thesis
  proof (cases rule: epoll_ctl_cases)
    case (failed w)
    then show ?thesis using r by (intro exI[of _ w] exI[of _ "polled s"]) simp
  next
    case (del w)
    then show ?thesis using r by (intro exI[of _ w] exI[of _ "(polled s)(fd := None)"]) simp
  qed simp_all
qed

lemma restrict_one: "m |` (UNIV - {x}) = m(x := None)"
  by (auto simp: restrict_map_def fun_eq_iff)

lemmas put_simps = session_of_def put_session_def set_conn_def client_destroy_def client_disconnect_def
  client_is_connected_def disconnect_def restrict_one
  restrict_complement_singleton_eq

lemma destroy_client_closes:
  assumes "connected (conns s ! idx) = Some c" "idx < length (conns s)" "fdin c = cfd (conns s ! idx)"
    "fdout c = cfd (conns s ! idx)" "0 \<le> fdin c"
  shows "closes_slot idx s (destroy_client idx s)"
  unfolding closes_slot_def
  by (rule exI[of _ "sys_state s"], cases s) (use assms in \<open>simp add: destroy_client_def put_simps\<close>)

lemma drop_client_closes:
  assumes "connected (conns s ! idx) = Some c" "idx < length (conns s)" "fdin c = cfd (conns s ! idx)"
    "fdout c = cfd (conns s ! idx)" "0 \<le> fdin c"
  shows "closes_slot idx s (drop_client idx s)"
proof -
  obtain w m where d: "snd (pollitem_del (cfd (conns s ! idx)) s) = s\<lparr>sys_state := w, polled := m\<rparr>"
    "m = polled s \<or> m = (polled s)(cfd (conns s ! idx) := None)" using pollitem_del_any by blast
  have r: "m(cfd (conns s ! idx) := None) = (polled s)(cfd (conns s ! idx) := None)" using d(2) by auto
  have "closes_slot idx (s\<lparr>sys_state := w, polled := m\<rparr>) (drop_client idx s)"
    using destroy_client_closes[of "s\<lparr>sys_state := w, polled := m\<rparr>" idx c] assms d(1)
    by (simp add: drop_client_def)
  then show ?thesis unfolding closes_slot_def by (cases s) (use r in auto)
qed

lemma put_disconnected:
  assumes "connected (conns s ! idx) = Some c" "idx < length (conns s)" "fdin c = cfd (conns s ! idx)"
    "fdout c = cfd (conns s ! idx)" "0 \<le> fdin c"
  shows "put_session idx (client_disconnect (session_of idx c s)) s =
     s\<lparr>conns := (conns s)[idx := (conns s ! idx)\<lparr>connected := Some (c\<lparr>fdin := - 1, fdout := - 1\<rparr>)\<rparr>],
       released := released s @ [cfd (conns s ! idx)], polled := (polled s)(cfd (conns s ! idx) := None)\<rparr>"
  by (cases s) (use assms in \<open>simp add: put_simps\<close>)

lemma drop_disconnected_closes:
  assumes "connected (conns s ! idx) = Some c" "idx < length (conns s)" "fdin c = cfd (conns s ! idx)"
    "fdout c = cfd (conns s ! idx)" "0 \<le> fdin c"
  shows "closes_slot idx s (drop_client idx (put_session idx (client_disconnect (session_of idx c s)) s))"
proof -
  let ?f = "cfd (conns s ! idx)"
  let ?s = "put_session idx (client_disconnect (session_of idx c s)) s"
  note s = put_disconnected[OF assms]
  obtain w m where d: "snd (pollitem_del ?f ?s) = ?s\<lparr>sys_state := w, polled := m\<rparr>"
    "m = polled ?s \<or> m = (polled ?s)(?f := None)" using pollitem_del_any by blast
  have f: "cfd (conns ?s ! idx) = ?f" using assms(2) by (simp add: s)
  have m: "m = (polled s)(?f := None)" using d(2) by (auto simp: s)
  show ?thesis
    unfolding closes_slot_def drop_client_def f unfolding s d(1)[unfolded s] m
    by (rule exI[of _ w], cases s) (use assms in \<open>simp add: destroy_client_def put_simps\<close>)
qed

lemma fds_invD:
  assumes "fds_inv s" "i < MAX_CLIENT_COUNT" "connected (conns s ! i) = Some c"
  shows "client_ok c" "fdin c = cfd (conns s ! i)" "fdout c = cfd (conns s ! i)" "0 \<le> fdin c"
    "polled s (cfd (conns s ! i)) = Some EPOLLIN" "cfd (conns s ! i) \<noteq> servfd s" "cfd (conns s ! i) \<noteq> pollfd s"
    "length (conns s) = MAX_CLIENT_COUNT"
  using assms unfolding fds_inv_def by metis+

lemma fds_invI:
  assumes "length (conns s) = MAX_CLIENT_COUNT" "servfd s \<noteq> pollfd s"
    "\<And>i c. i < MAX_CLIENT_COUNT \<Longrightarrow> connected (conns s ! i) = Some c \<Longrightarrow>
          client_ok c \<and> fdin c = cfd (conns s ! i) \<and> fdout c = cfd (conns s ! i) \<and> 0 \<le> fdin c
          \<and> polled s (fdin c) = Some EPOLLIN \<and> fdin c \<noteq> servfd s \<and> fdin c \<noteq> pollfd s"
    "\<And>i j. i < MAX_CLIENT_COUNT \<Longrightarrow> j < MAX_CLIENT_COUNT \<Longrightarrow> i \<noteq> j \<Longrightarrow> connected (conns s ! i) \<noteq> None \<Longrightarrow>
          connected (conns s ! j) \<noteq> None \<Longrightarrow> cfd (conns s ! i) \<noteq> cfd (conns s ! j)"
    "dom (polled s) = insert (servfd s)
          {cfd (conns s ! i) | i. i < MAX_CLIENT_COUNT \<and> connected (conns s ! i) \<noteq> None}"
  shows "fds_inv s"
  unfolding fds_inv_def using assms by blast

lemma fds_inv_base: "fds_inv s \<Longrightarrow> length (conns s) = MAX_CLIENT_COUNT \<and> servfd s \<noteq> pollfd s"
  unfolding fds_inv_def by blast

lemma fds_inv_distinct:
  "fds_inv s \<Longrightarrow> i < MAX_CLIENT_COUNT \<Longrightarrow> j < MAX_CLIENT_COUNT \<Longrightarrow> i \<noteq> j \<Longrightarrow> connected (conns s ! i) \<noteq> None \<Longrightarrow>
     connected (conns s ! j) \<noteq> None \<Longrightarrow> cfd (conns s ! i) \<noteq> cfd (conns s ! j)"
  unfolding fds_inv_def by blast

lemma fds_inv_dom:
  "fds_inv s \<Longrightarrow> dom (polled s) = insert (servfd s)
     {cfd (conns s ! i) | i. i < MAX_CLIENT_COUNT \<and> connected (conns s ! i) \<noteq> None}"
  unfolding fds_inv_def by blast

lemma closes_slot_inv:
  assumes "fds_inv s" "closes_slot idx s s'" "idx < MAX_CLIENT_COUNT" "connected (conns s ! idx) \<noteq> None"
  shows "fds_inv s' \<and> \<not> full s' \<and> polled s' (servfd s') = polled s (servfd s) \<and> servfd s' = servfd s
    \<and> pollfd s' = pollfd s \<and> stopped s' = stopped s \<and> deaf s' = deaf s"
proof -
  let ?f = "cfd (conns s ! idx)"
  obtain w where s': "s' = s\<lparr>conns := (conns s)[idx := (conns s ! idx)\<lparr>connected := None\<rparr>],
     released := released s @ [?f], polled := (polled s)(?f := None), sys_state := w\<rparr>"
    using assms(2) by (auto simp: closes_slot_def)
  have len: "length (conns s) = MAX_CLIENT_COUNT" using fds_inv_base[OF assms(1)] by blast
  have other: "cfd (conns s ! i) \<noteq> ?f" if "i < MAX_CLIENT_COUNT" "i \<noteq> idx" "connected (conns s ! i) \<noteq> None" for i
    using fds_inv_distinct[OF assms(1) that(1) assms(3)] that assms(4) by blast
  have sf: "?f \<noteq> servfd s" using fds_invD(6)[OF assms(1,3)] assms(4) by blast
  have kept: "i \<noteq> idx \<and> conns s' ! i = conns s ! i" if "connected (conns s' ! i) \<noteq> None" "i < MAX_CLIENT_COUNT" for i
    using that len by (cases "i = idx") (auto simp: s')
  have same: "conns s' ! i = conns s ! i" if "i \<noteq> idx" for i using that by (simp add: s')
  have gone: "connected (conns s' ! idx) = None" using len assms(3) by (simp add: s')
  have "{cfd (conns s' ! i) | i. i < MAX_CLIENT_COUNT \<and> connected (conns s' ! i) \<noteq> None}
      = {cfd (conns s ! i) | i. i < MAX_CLIENT_COUNT \<and> connected (conns s ! i) \<noteq> None} - {?f}" (is "?A = ?B - _")
  proof
    show "?A \<subseteq> ?B - {?f}"
    proof
      fix x assume "x \<in> ?A"
      then obtain i where i: "x = cfd (conns s' ! i)" "i < MAX_CLIENT_COUNT" "connected (conns s' ! i) \<noteq> None" by blast
      then show "x \<in> ?B - {?f}" using kept[OF i(3,2)] other[OF i(2)] by auto
    qed
    show "?B - {?f} \<subseteq> ?A"
    proof
      fix x assume "x \<in> ?B - {?f}"
      then obtain i where i: "x = cfd (conns s ! i)" "i < MAX_CLIENT_COUNT" "connected (conns s ! i) \<noteq> None" "x \<noteq> ?f" by blast
      then have "i \<noteq> idx" by blast
      then show "x \<in> ?A" using i same[of i] by (intro CollectI exI[of _ i]) simp
    qed
  qed
  moreover have "dom (polled s') = dom (polled s) - {?f}" by (simp add: s')
  ultimately have dom: "dom (polled s') = insert (servfd s')
      {cfd (conns s' ! i) | i. i < MAX_CLIENT_COUNT \<and> connected (conns s' ! i) \<noteq> None}"
    using fds_inv_dom[OF assms(1)] sf by (simp add: s' insert_Diff_if)
  have ok: "client_ok c \<and> fdin c = cfd (conns s' ! i) \<and> fdout c = cfd (conns s' ! i) \<and> 0 \<le> fdin c
          \<and> polled s' (fdin c) = Some EPOLLIN \<and> fdin c \<noteq> servfd s' \<and> fdin c \<noteq> pollfd s'"
    if i: "i < MAX_CLIENT_COUNT" "connected (conns s' ! i) = Some c" for i c
  proof -
    have n: "i \<noteq> idx" "connected (conns s ! i) = Some c" using kept[of i] i by auto
    then have "cfd (conns s ! i) \<noteq> ?f" using other[OF i(1)] by simp
    then show ?thesis using fds_invD[OF assms(1) i(1) n(2)] same[OF n(1)] by (simp add: s')
  qed
  have dist: "cfd (conns s' ! i) \<noteq> cfd (conns s' ! j)"
    if "i < MAX_CLIENT_COUNT" "j < MAX_CLIENT_COUNT" "i \<noteq> j" "connected (conns s' ! i) \<noteq> None" "connected (conns s' ! j) \<noteq> None" for i j
    using kept[of i] kept[of j] that fds_inv_distinct[OF assms(1) that(1-3)] by metis
  have base: "length (conns s') = MAX_CLIENT_COUNT" "servfd s' \<noteq> pollfd s'"
    using fds_inv_base[OF assms(1)] by (simp_all add: s')
  have "fds_inv s'" by (rule fds_invI[OF base ok dist dom])
  then show ?thesis using sf len assms(3) by (auto simp: s' full_def)
qed

lemma fds_inv_pointwise:
  assumes "fds_inv s" "length (conns s') = MAX_CLIENT_COUNT" "polled s' = polled s" "servfd s' = servfd s" "pollfd s' = pollfd s"
    "\<And>i. i < MAX_CLIENT_COUNT \<Longrightarrow> connected (conns s' ! i) = None \<longleftrightarrow> connected (conns s ! i) = None"
    "\<And>i c. i < MAX_CLIENT_COUNT \<Longrightarrow> connected (conns s' ! i) = Some c \<Longrightarrow>
       cfd (conns s' ! i) = cfd (conns s ! i) \<and> client_ok c \<and> fdin c = cfd (conns s ! i) \<and> fdout c = cfd (conns s ! i)"
  shows "fds_inv s' \<and> full s' = full s"
proof -
  have same: "cfd (conns s' ! i) = cfd (conns s ! i) \<and> connected (conns s ! i) \<noteq> None"
    if i: "i < MAX_CLIENT_COUNT" and c: "connected (conns s' ! i) \<noteq> None" for i
    using assms(6)[OF i] assms(7)[OF i] c by auto
  have "{cfd (conns s' ! i) | i. i < MAX_CLIENT_COUNT \<and> connected (conns s' ! i) \<noteq> None}
      = {cfd (conns s ! i) | i. i < MAX_CLIENT_COUNT \<and> connected (conns s ! i) \<noteq> None}"
    using assms(6) same by (metis (no_types, lifting))
  then have dom: "dom (polled s') = insert (servfd s') {cfd (conns s' ! i) | i. i < MAX_CLIENT_COUNT \<and> connected (conns s' ! i) \<noteq> None}"
    using fds_inv_dom[OF assms(1)] assms(3,4) by simp
  have ok: "client_ok c \<and> fdin c = cfd (conns s' ! i) \<and> fdout c = cfd (conns s' ! i) \<and> 0 \<le> fdin c
          \<and> polled s' (fdin c) = Some EPOLLIN \<and> fdin c \<noteq> servfd s' \<and> fdin c \<noteq> pollfd s'"
    if i: "i < MAX_CLIENT_COUNT" and c: "connected (conns s' ! i) = Some c" for i c
  proof -
    obtain d where d: "connected (conns s ! i) = Some d" using same[OF i] c by auto
    show ?thesis using fds_invD[OF assms(1) i d] assms(3-5) assms(7)[OF i c] by simp
  qed
  have dist: "cfd (conns s' ! i) \<noteq> cfd (conns s' ! j)"
    if "i < MAX_CLIENT_COUNT" "j < MAX_CLIENT_COUNT" "i \<noteq> j" "connected (conns s' ! i) \<noteq> None" "connected (conns s' ! j) \<noteq> None" for i j
    using same that fds_inv_distinct[OF assms(1)] by metis
  have base: "servfd s' \<noteq> pollfd s'" using fds_inv_base[OF assms(1)] assms(4,5) by simp
  have "fds_inv s'" by (rule fds_invI[OF assms(2) base ok dist dom])
  then show ?thesis using assms(6) by (simp add: full_def)
qed

lemma fds_inv_add:
  assumes "fds_inv s" "idx < MAX_CLIENT_COUNT" "connected (conns s ! idx) = None"
    "client_ok c" "fdin c = fd" "fdout c = fd" "0 \<le> fd" "fd \<notin> dom (polled s)" "fd \<noteq> pollfd s"
    "conns s' = (conns s)[idx := x]" "connected x = Some c" "cfd x = fd" "polled s' = (polled s)(fd \<mapsto> EPOLLIN)"
    "servfd s' = servfd s" "pollfd s' = pollfd s"
  shows "fds_inv s'"
proof -
  have len: "length (conns s) = MAX_CLIENT_COUNT" using fds_inv_base[OF assms(1)] by blast
  have here: "conns s' ! idx = x" using len assms(2,10) by simp
  have other: "conns s' ! i = conns s ! i" if "i \<noteq> idx" for i using assms(10) that by simp
  have new: "cfd (conns s ! i) \<noteq> fd" if "i < MAX_CLIENT_COUNT" "connected (conns s ! i) \<noteq> None" for i
    using fds_inv_dom[OF assms(1)] assms(8) that by blast
  have sfd: "fd \<noteq> servfd s" using fds_inv_dom[OF assms(1)] assms(8) by blast
  have "{cfd (conns s' ! i) | i. i < MAX_CLIENT_COUNT \<and> connected (conns s' ! i) \<noteq> None}
      = insert fd {cfd (conns s ! i) | i. i < MAX_CLIENT_COUNT \<and> connected (conns s ! i) \<noteq> None}" (is "?A = insert fd ?B")
  proof
    show "?A \<subseteq> insert fd ?B"
    proof
      fix y assume "y \<in> ?A"
      then obtain i where i: "y = cfd (conns s' ! i)" "i < MAX_CLIENT_COUNT" "connected (conns s' ! i) \<noteq> None" by blast
      then show "y \<in> insert fd ?B" using here other[of i] assms(12) by (cases "i = idx") auto
    qed
    have "fd \<in> ?A" using assms(2,10-12) len by (intro CollectI exI[of _ idx]) simp
    moreover have "?B \<subseteq> ?A"
    proof
      fix y assume "y \<in> ?B"
      then obtain i where i: "y = cfd (conns s ! i)" "i < MAX_CLIENT_COUNT" "connected (conns s ! i) \<noteq> None" by blast
      then have "i \<noteq> idx" using assms(3) by blast
      then show "y \<in> ?A" using i other[of i] by (intro CollectI exI[of _ i]) simp
    qed
    ultimately show "insert fd ?B \<subseteq> ?A" by blast
  qed
  then have dom: "dom (polled s') = insert (servfd s') {cfd (conns s' ! i) | i. i < MAX_CLIENT_COUNT \<and> connected (conns s' ! i) \<noteq> None}"
    using fds_inv_dom[OF assms(1)] assms(13,14) by (simp add: insert_commute)
  have ok: "client_ok d \<and> fdin d = cfd (conns s' ! i) \<and> fdout d = cfd (conns s' ! i) \<and> 0 \<le> fdin d
          \<and> polled s' (fdin d) = Some EPOLLIN \<and> fdin d \<noteq> servfd s' \<and> fdin d \<noteq> pollfd s'"
    if "i < MAX_CLIENT_COUNT" "connected (conns s' ! i) = Some d" for i d
  proof (cases "i = idx")
    case True
    then show ?thesis using that assms sfd len by simp
  next
    case False
    then have d: "connected (conns s ! i) = Some d" using that other by simp
    show ?thesis using fds_invD[OF assms(1) that(1) d] other[OF False] assms(13-15) new[OF that(1)] d by simp
  qed
  have dist: "cfd (conns s' ! i) \<noteq> cfd (conns s' ! j)"
    if "i < MAX_CLIENT_COUNT" "j < MAX_CLIENT_COUNT" "i \<noteq> j" "connected (conns s' ! i) \<noteq> None" "connected (conns s' ! j) \<noteq> None" for i j
    using that other here assms(12) new[of i] new[of j] fds_inv_distinct[OF assms(1), of i j]
    by (cases "i = idx"; cases "j = idx") auto
  have base: "length (conns s') = MAX_CLIENT_COUNT" "servfd s' \<noteq> pollfd s'"
    using fds_inv_base[OF assms(1)] assms(10,14,15) by simp_all
  show ?thesis by (rule fds_invI[OF base ok dist dom])
qed

section \<open>Events\<close>

lemma listen_frame:
  "listen_mid s \<Longrightarrow> polled s' (servfd s') = polled s (servfd s) \<Longrightarrow> stopped s' = stopped s \<Longrightarrow> deaf s' = deaf s \<Longrightarrow>
     (full s' \<Longrightarrow> full s) \<Longrightarrow> listen_mid s'"
  unfolding listen_mid_def by metis

lemma server_stop_inv:
  "fds_inv (sec_lsm_manager_server_stop rc s) = fds_inv s" "stopped (sec_lsm_manager_server_stop rc s)"
  by (simp_all add: sec_lsm_manager_server_stop_def fds_inv_def)

lemma put_session_id:
  "connected (conns s ! idx) = Some c \<Longrightarrow> idx < length (conns s) \<Longrightarrow> put_session idx (session_of idx c s) s = s"
  by (cases s) (auto simp: put_session_def session_of_def restrict_map_def list_eq_iff_nth_eq nth_list_update)

lemma put_session_inv:
  assumes "fds_inv s" "idx < MAX_CLIENT_COUNT" "connected (conns s ! idx) = Some c" "client_ok (cl t)"
    "fdin (cl t) = fdin c" "fdout (cl t) = fdout c" "closed t = released s"
  shows "fds_inv (put_session idx t s) \<and> full (put_session idx t s) = full s
    \<and> polled (put_session idx t s) = polled s"
proof -
  let ?s = "put_session idx t s"
  have len: "length (conns s) = MAX_CLIENT_COUNT" using fds_inv_base[OF assms(1)] by blast
  have p: "polled ?s = polled s" using assms(7) by (simp add: put_session_def fun_eq_iff restrict_map_def)
  have c: "conns ?s ! i = (if i = idx then (conns s ! idx)\<lparr>connected := Some (cl t), cwire := chn t\<rparr> else conns s ! i)" for i
    using assms(2) len by (simp add: put_session_def)
  have "fds_inv ?s \<and> full ?s = full s"
  proof (rule fds_inv_pointwise[OF assms(1)])
    show "length (conns ?s) = MAX_CLIENT_COUNT" "servfd ?s = servfd s" "pollfd ?s = pollfd s"
      using len by (simp_all add: put_session_def)
    show "polled ?s = polled s" by (rule p)
    show "connected (conns ?s ! i) = None \<longleftrightarrow> connected (conns s ! i) = None" for i
      using assms(3) by (simp add: c)
    show "cfd (conns ?s ! i) = cfd (conns s ! i) \<and> client_ok d \<and> fdin d = cfd (conns s ! i) \<and> fdout d = cfd (conns s ! i)"
      if "i < MAX_CLIENT_COUNT" "connected (conns ?s ! i) = Some d" for i d
      using that fds_invD[OF assms(1), of i] assms(2-6) by (auto simp: c split: if_splits)
  qed
  then show ?thesis using p by simp
qed

lemma set_lasttime_inv:
  assumes "fds_inv s" "idx < MAX_CLIENT_COUNT"
  shows "fds_inv (set_conn idx (lasttime_update f) s) \<and> full (set_conn idx (lasttime_update f) s) = full s"
proof (rule fds_inv_pointwise[OF assms(1)])
  have len: "length (conns s) = MAX_CLIENT_COUNT" using fds_inv_base[OF assms(1)] by blast
  let ?s = "set_conn idx (lasttime_update f) s"
  have c: "conns ?s ! i = (if i = idx then lasttime_update f (conns s ! idx) else conns s ! i)" for i
    using assms(2) len by (simp add: set_conn_def)
  show "length (conns ?s) = MAX_CLIENT_COUNT" "servfd ?s = servfd s" "pollfd ?s = pollfd s" "polled ?s = polled s"
    using len by (simp_all add: set_conn_def)
  show "connected (conns ?s ! i) = None \<longleftrightarrow> connected (conns s ! i) = None" for i by (simp add: c)
  show "cfd (conns ?s ! i) = cfd (conns s ! i) \<and> client_ok d \<and> fdin d = cfd (conns s ! i) \<and> fdout d = cfd (conns s ! i)"
    if "i < MAX_CLIENT_COUNT" "connected (conns ?s ! i) = Some d" for i d
    using that fds_invD[OF assms(1), of i] by (auto simp: c split: if_splits)
qed

lemma sys_time_same: "sys_time s = (t, s') \<Longrightarrow> same_slots s s' \<and> stopped s' = stopped s \<and> deaf s' = deaf s
    \<and> stoprc s' = stoprc s \<and> now s' = t"
  by (auto simp: sys_time_def same_slots_def split: list.splits)

lemma client_event_inv:
  assumes "fds_inv s" "listen_mid s" "idx < MAX_CLIENT_COUNT" "connected (conns s ! idx) \<noteq> None"
  shows "\<exists>s'. on_client_event H idx evs s = Some s' \<and> fds_inv s' \<and> listen_mid s'"
proof -
  obtain c where c: "connected (conns s ! idx) = Some c" using assms(4) by auto
  note d = fds_invD[OF assms(1,3) c]
  have idx: "idx < length (conns s)" using d assms(3) by simp
  have dropped: "fds_inv (drop_client idx u) \<and> listen_mid (drop_client idx u)"
    if "fds_inv u" "listen_mid u" "connected (conns u ! idx) = Some e" for u e
  proof -
    note f = fds_invD[OF that(1) assms(3) that(3)]
    have "closes_slot idx u (drop_client idx u)"
      using drop_client_closes[OF that(3)] f assms(3) by simp
    note e = closes_slot_inv[OF that(1) this assms(3)]
    have "listen_mid (drop_client idx u)"
      by (rule listen_frame[OF that(2)]) (use e that(3) in auto)
    then show ?thesis using e that(3) by simp
  qed
  show ?thesis
  proof (cases "evs AND EPOLLHUP \<noteq> 0")
    case True
    then show ?thesis using c dropped[OF assms(1,2) c] by (simp add: on_client_event_def)
  next
    case False
    have "session_ready (session_of idx c s)" using d by (simp add: session_ready_client session_of_def)
    then obtain rc t where t: "client_process_input H (session_of idx c s) = Some (rc, t)" "client_ok (cl t)"
      using process_ready[of "session_of idx c s" H] by (auto simp: session_ready_client)
    let ?u = "put_session idx t s"
    have k: "fdin (cl t) = fdin c" "fdout (cl t) = fdout c" "closed t = released s"
      using process_link[OF t(1)] by (simp_all add: session_of_def)
    have u: "fds_inv ?u" "full ?u = full s" "polled ?u = polled s"
      using put_session_inv[OF assms(1,3) c t(2) k] by blast+
    have uc: "connected (conns ?u ! idx) = Some (cl t)" using idx by (simp add: put_session_def)
    have lu: "listen_mid ?u"
      by (rule listen_frame[OF assms(2)]) (use u in \<open>simp_all add: put_session_def\<close>)
    show ?thesis
    proof (cases "rc > 0 \<or> rc = - EAGAIN")
      case True
      obtain x v where v: "sys_time ?u = (x, v)" by fastforce
      have vs: "fds_inv v" "full v = full ?u" "same_slots ?u v" "stopped v = stopped ?u" "deaf v = deaf ?u"
        using sys_time_same[OF v] same_slots_inv u(1) by blast+
      have "listen_mid v"
        by (rule listen_frame[OF lu]) (use vs in \<open>simp_all add: same_slots_def\<close>)
      then have "listen_mid (set_conn idx (lasttime_update (\<lambda>_. x)) v)"
        by (rule listen_frame) (use set_lasttime_inv[OF vs(1) assms(3)] in \<open>simp_all add: set_conn_def\<close>)
      then show ?thesis
        using set_lasttime_inv[OF vs(1) assms(3)] c t(1) True False v by (simp add: on_client_event_def)
    next
      case keep: False
      then show ?thesis using dropped[OF u(1) lu uc] c t(1) False by (simp add: on_client_event_def)
    qed
  qed
qed

text \<open>The memory of a new client has the sizes of the code; a new descriptor is one not in use.\<close>

definition client_mem :: "'z client \<Rightarrow> bool" where
  "client_mem mem \<longleftrightarrow> length (id_array (cctx mem)) = 201
     \<and> length (bcontent (inbuf (cprot mem))) = PROT_MAX_BUFFER_LENGTH
     \<and> length (bcontent (outbuf (cprot mem))) = PROT_MAX_BUFFER_LENGTH"

definition accepts_fresh :: "'z server \<Rightarrow> bool" where
  "accepts_fresh s \<longleftrightarrow> (case accepts s of
      Inr (fd, _) # _ \<Rightarrow> 0 \<le> fd \<and> fd \<noteq> pollfd s \<and> fd \<notin> dom (polled s)
    | _ \<Rightarrow> True)"

lemma become_deaf_inv:
  assumes "fds_inv s"
  shows "fds_inv (become_deaf s) \<and> listen_mid (become_deaf s)"
proof -
  obtain rc e s' where r: "pollitem_mod (servfd s) 0 s = ((rc, e), s')" by (metis prod_cases3 prod.collapse)
  have servfd: "polled s (servfd s) \<noteq> None" using fds_inv_dom[OF assms] by blast
  from r[unfolded pollitem_mod_def pollitem_do_def] show ?thesis
  proof (cases rule: epoll_ctl_cases)
    case (failed w)
    have "same_slots s (become_deaf s)" "stopped (become_deaf s)"
      using r failed by (simp_all add: become_deaf_def same_slots_def sec_lsm_manager_server_stop_def)
    then show ?thesis using same_slots_inv assms by (auto simp: listen_mid_def)
  next
    case (modify w)
    let ?s = "become_deaf s"
    have s': "?s = s\<lparr>sys_state := w, polled := (polled s)(servfd s \<mapsto> 0), deaf := True\<rparr>"
      using r modify by (simp add: become_deaf_def)
    have "fds_inv ?s"
    proof (rule fds_invI)
      show "dom (polled ?s) = insert (servfd ?s)
          {cfd (conns ?s ! i) | i. i < MAX_CLIENT_COUNT \<and> connected (conns ?s ! i) \<noteq> None}"
        using fds_inv_dom[OF assms] by (simp add: s')
    qed (use fds_inv_base[OF assms] fds_invD[OF assms] fds_inv_distinct[OF assms] in \<open>auto simp: s'\<close>)
    then show ?thesis by (simp add: listen_mid_def s')
  qed (use r in simp_all)
qed

lemma become_deaf_after: "fds_inv s \<Longrightarrow> s' = become_deaf s \<Longrightarrow> fds_inv s' \<and> listen_mid s'"
  using become_deaf_inv by blast

lemma server_event_accept:
  assumes "fds_inv s" "listen_mid s" "idx < MAX_CLIENT_COUNT" "connected (conns s ! idx) = None"
    "client_ok c" "fdin c = fd" "fdout c = fd" "0 \<le> fd" "fd \<noteq> pollfd s" "fd \<notin> dom (polled s)"
    "u = set_conn idx (\<lambda>_. \<lparr>connected = Some c, cfd = fd, lasttime = t, cwire = ch\<rparr>) s"
    "pollitem_add fd EPOLLIN u = ((rc, e), v)"
  shows "(rc < 0 \<longrightarrow> fds_inv (destroy_client idx v) \<and> listen_mid (destroy_client idx v))
    \<and> (rc \<ge> 0 \<longrightarrow> fds_inv v \<and> (\<not> full v \<longrightarrow> listen_mid v))"
proof -
  have len: "length (conns s) = MAX_CLIENT_COUNT" using fds_inv_base[OF assms(1)] by blast
  have nf: "\<not> full s" using assms(3,4) by (auto simp: full_def)
  from assms(12)[unfolded pollitem_add_def pollitem_do_def] show ?thesis
  proof (cases rule: epoll_ctl_cases)
    case (failed w)
    have "closes_slot idx v (destroy_client idx v)"
      by (rule destroy_client_closes[where c = c]) (use assms(3,6-8,11) len failed in \<open>simp_all add: set_conn_def\<close>)
    then obtain w' where d: "destroy_client idx v = v\<lparr>conns := (conns v)[idx := (conns v ! idx)\<lparr>connected := None\<rparr>],
       released := released v @ [cfd (conns v ! idx)], polled := (polled v)(cfd (conns v ! idx) := None), sys_state := w'\<rparr>"
      by (auto simp: closes_slot_def)
    have p: "(polled s)(fd := None) = polled s" using assms(10) by auto
    have "fds_inv (destroy_client idx v) \<and> full (destroy_client idx v) = full s"
    proof (rule fds_inv_pointwise[OF assms(1)])
      show "length (conns (destroy_client idx v)) = MAX_CLIENT_COUNT" "servfd (destroy_client idx v) = servfd s"
        "pollfd (destroy_client idx v) = pollfd s" "polled (destroy_client idx v) = polled s"
        using failed len assms(3,11) p unfolding d by (simp_all add: set_conn_def)
      show "connected (conns (destroy_client idx v) ! i) = None \<longleftrightarrow> connected (conns s ! i) = None" for i
        using failed len assms(3,4,11) unfolding d by (cases "i = idx") (simp_all add: set_conn_def)
      show "cfd (conns (destroy_client idx v) ! i) = cfd (conns s ! i) \<and> client_ok b
          \<and> fdin b = cfd (conns s ! i) \<and> fdout b = cfd (conns s ! i)"
        if "i < MAX_CLIENT_COUNT" "connected (conns (destroy_client idx v) ! i) = Some b" for i b
      proof -
        have "i \<noteq> idx" using that(2) failed len assms(3,11) unfolding d by (auto simp: set_conn_def)
        then show ?thesis
          using that fds_invD[OF assms(1) that(1)] failed len assms(3,11) unfolding d by (simp add: set_conn_def)
      qed
    qed
    moreover have "listen_mid (destroy_client idx v)"
    proof (rule listen_frame[OF assms(2)])
      show "full (destroy_client idx v) \<Longrightarrow> full s" using calculation by blast
    qed (unfold d, use failed len assms(3,11) p in \<open>simp_all add: set_conn_def\<close>)
    ultimately show ?thesis using failed by simp
  next
    case (add w)
    have "fds_inv v"
      by (rule fds_inv_add[OF assms(1,3-5) assms(6-8) assms(10,9),
            where x = "\<lparr>connected = Some c, cfd = fd, lasttime = t, cwire = ch\<rparr>"]) (use add assms(11) in \<open>simp_all add: set_conn_def\<close>)
    moreover have "listen_mid v" if "\<not> full v"
    proof (rule listen_frame[OF assms(2)])
      have "servfd s \<in> dom (polled s)" using fds_inv_dom[OF assms(1)] by blast
      then show "polled v (servfd v) = polled s (servfd s)" using add assms(10,11) by (auto simp: set_conn_def)
    qed (use add assms(11) that in \<open>simp_all add: set_conn_def\<close>)
    ultimately show ?thesis using add by simp
  qed simp_all
qed

lemma full_slots:
  assumes "length (conns s) = MAX_CLIENT_COUNT"
  shows "free_slot (conns s) < MAX_CLIENT_COUNT \<longleftrightarrow> \<not> full s"
proof -
  have "(\<exists>x \<in> set (conns s). connected x = None) \<longleftrightarrow> (\<exists>i < MAX_CLIENT_COUNT. connected (conns s ! i) = None)"
    using assms by (metis in_set_conv_nth)
  then show ?thesis using free_slot_full[of "conns s"] assms by (simp add: full_def)
qed

lemma full_after:
  assumes "length xs = MAX_CLIENT_COUNT" "idx = free_slot xs" "idx < MAX_CLIENT_COUNT"
    "ys = xs[idx := x]" "connected x \<noteq> None"
  shows "idx + 1 + free_slot (drop (idx + 1) ys) < MAX_CLIENT_COUNT \<longleftrightarrow> (\<exists>i < MAX_CLIENT_COUNT. connected (ys ! i) = None)"
proof -
  have before: "connected (ys ! i) \<noteq> None" if "i \<le> idx" for i
    using assms free_slot_before[of i xs] that by (cases "i = idx") auto
  have len: "length ys = MAX_CLIENT_COUNT" using assms by simp
  have "idx + 1 + free_slot (drop (idx + 1) ys) < MAX_CLIENT_COUNT \<longleftrightarrow> (\<exists>x \<in> set (drop (idx + 1) ys). connected x = None)"
    using free_slot_full[of "drop (idx + 1) ys"] len assms(3) by auto
  also have "\<dots> \<longleftrightarrow> (\<exists>i < MAX_CLIENT_COUNT. connected (ys ! i) = None)"
  proof
    assume "\<exists>x \<in> set (drop (idx + 1) ys). connected x = None"
    then obtain j where "j < length (drop (idx + 1) ys)" "connected (drop (idx + 1) ys ! j) = None"
      by (auto simp: in_set_conv_nth)
    then show "\<exists>i < MAX_CLIENT_COUNT. connected (ys ! i) = None"
      using len by (intro exI[of _ "idx + 1 + j"]) simp
  next
    assume "\<exists>i < MAX_CLIENT_COUNT. connected (ys ! i) = None"
    then obtain i where i: "i < MAX_CLIENT_COUNT" "connected (ys ! i) = None" by blast
    then have "idx < i" using before[of i] by (meson not_le)
    then have "ys ! i = drop (idx + 1) ys ! (i - (idx + 1))" "i - (idx + 1) < length (drop (idx + 1) ys)"
      using i len by simp_all
    then show "\<exists>x \<in> set (drop (idx + 1) ys). connected x = None" using i(2) nth_mem by metis
  qed
  finally show ?thesis .
qed

lemma server_event_inv:
  assumes "fds_inv s" "listen_mid s" "client_mem mem" "accepts_fresh s"
  shows "fds_inv (on_server_event mem evs s) \<and> listen_mid (on_server_event mem evs s)"
proof -
  let ?idx = "free_slot (conns s)" and ?r = "on_server_event mem evs s"
  have len: "length (conns s) = MAX_CLIENT_COUNT" using fds_inv_base[OF assms(1)] by blast
  consider (hup) "evs AND EPOLLHUP \<noteq> 0" | (none) "evs AND EPOLLHUP = 0" "evs AND EPOLLIN = 0"
    | (full) "evs AND EPOLLHUP = 0" "evs AND EPOLLIN \<noteq> 0" "\<not> ?idx < MAX_CLIENT_COUNT"
    | (refused) e v where "evs AND EPOLLHUP = 0" "evs AND EPOLLIN \<noteq> 0" "?idx < MAX_CLIENT_COUNT"
        "sys_accept s = (Inl e, v)"
    | (got) fd ch v where "evs AND EPOLLHUP = 0" "evs AND EPOLLIN \<noteq> 0" "?idx < MAX_CLIENT_COUNT"
        "sys_accept s = (Inr (fd, ch), v)"
    by (metis old.prod.exhaust sum.exhaust)
  then show ?thesis
  proof cases
    case hup
    then show ?thesis using assms(1) by (simp add: on_server_event_def server_stop_inv listen_mid_def)
  next
    case none
    then show ?thesis using assms(1,2) by (simp add: on_server_event_def)
  next
    case full
    then have "?r = become_deaf s" by (simp add: on_server_event_def Let_def)
    then show ?thesis using become_deaf_inv[OF assms(1)] by simp
  next
    case refused
    then have "?r = v" by (simp add: on_server_event_def Let_def)
    moreover have "same_slots s v" "stopped v = stopped s" "deaf v = deaf s"
      using refused(4) by (auto simp: sys_accept_def same_slots_def split: list.splits)
    ultimately show ?thesis
      using same_slots_inv[of s v] assms(1) listen_frame[OF assms(2), of v] by (auto simp: same_slots_def)
  next
    case got
    have vs: "same_slots s v" "stopped v = stopped s" "deaf v = deaf s"
      using got(4) by (auto simp: sys_accept_def same_slots_def split: list.splits)
    have fd: "0 \<le> fd" "fd \<noteq> pollfd s" "fd \<notin> dom (polled s)"
      using got(4) assms(4) by (auto simp: sys_accept_def accepts_fresh_def split: list.splits)
    obtain rc oc w where cc: "client_create mem fd fd (sys_state v) = (rc, oc, w)" by (metis prod_cases3)
    let ?v = "v\<lparr>sys_state := w\<rparr>"
    have v: "fds_inv ?v" "full ?v = full s" "listen_mid ?v" "same_slots s ?v"
    proof -
      show ss: "same_slots s ?v" using vs by (simp add: same_slots_def)
      show "fds_inv ?v" "full ?v = full s" using same_slots_inv[OF ss] assms(1) by blast+
      then show "listen_mid ?v" using listen_frame[OF assms(2), of ?v] vs ss by (simp add: same_slots_def)
    qed
    note run = on_server_event_def[of mem evs s, unfolded Let_def got(4)]
    show ?thesis
    proof (cases "oc = None \<or> rc < 0")
      case True
      then have r: "?r = sys_close fd ?v" using run got cc by (cases oc) simp_all
      have p: "(polled ?v)(fd := None) = polled ?v" using fd(3) v(4) by (auto simp: same_slots_def)
      have s: "same_slots ?v (sys_close fd ?v)" using p by (simp add: same_slots_def sys_close_def)
      have "listen_mid (sys_close fd ?v)"
        by (rule listen_frame[OF v(3)]) (use s same_slots_inv[OF s] in \<open>simp_all add: same_slots_def sys_close_def\<close>)
      then show ?thesis using same_slots_inv[OF s] v(1) r by simp
    next
      case False
      then obtain c where c: "oc = Some c" "\<not> rc < 0" by auto
      have "rc = 0" using cc c by (auto simp: client_create_def split: prod.splits option.splits if_splits)
      then have ok: "client_ok c" "fdin c = fd" "fdout c = fd"
        using client_create_ready[of mem fd fd "sys_state v" c w undefined undefined undefined] cc c assms(3)
        by (simp_all add: client_mem_def session_ready_client)
      obtain t u where t: "sys_time ?v = (t, u)" by fastforce
      have us: "same_slots ?v u" "stopped u = stopped ?v" "deaf u = deaf ?v" using sys_time_same[OF t] by blast+
      have u: "fds_inv u" "full u = full s" "listen_mid u"
        using same_slots_inv[OF us(1)] v listen_frame[OF v(3), of u] us by (simp_all add: same_slots_def)
      have uc: "connected (conns u ! ?idx) = None" "conns u = conns s" "?idx < MAX_CLIENT_COUNT"
        using free_slot_none[of "conns s"] got(3) len us(1) v(4) by (simp_all add: same_slots_def)
      let ?n = "\<lparr>connected = Some c, cfd = fd, lasttime = t, cwire = ch\<rparr>"
      obtain ra e x where a: "pollitem_add fd EPOLLIN (set_conn ?idx (\<lambda>_. ?n) u) = ((ra, e), x)"
        by (metis prod_cases3 prod.collapse)
      have fu: "fd \<noteq> pollfd u" "fd \<notin> dom (polled u)" using fd us(1) v(4) by (simp_all add: same_slots_def)
      note acc = server_event_accept[OF u(1,3) uc(3,1) ok fd(1) fu refl a]
      have cx: "conns x = (conns s)[?idx := ?n]"
        using a uc(2) unfolding pollitem_add_def pollitem_do_def
        by (cases rule: epoll_ctl_cases) (simp_all add: set_conn_def)
      have fx: "?idx + 1 + free_slot (drop (?idx + 1) (conns x)) < MAX_CLIENT_COUNT \<longleftrightarrow> \<not> full x"
        using full_after[OF len refl got(3) cx] by (simp add: full_def)
      have "?r = (if ra < 0 then destroy_client ?idx x else if \<not> full x then x else become_deaf x)"
        using run got c cc t a fx by simp
      then show ?thesis using acc become_deaf_inv[of x] by (cases "ra < 0"; cases "full x") simp_all
    qed
  qed
qed

section \<open>A turn\<close>

text \<open>What the pass over the slots does: the slots it leaves are those that spoke after the limit.\<close>

definition watched :: "int \<Rightarrow> nat list \<Rightarrow> 'z server \<Rightarrow> 'z server \<Rightarrow> bool" where
  "watched trig is s s' \<longleftrightarrow> fds_inv s' \<and> polled s' (servfd s') = polled s (servfd s) \<and> stopped s' = stopped s
     \<and> deaf s' = deaf s \<and> (full s' \<longrightarrow> full s) \<and> servfd s' = servfd s \<and> now s' = now s \<and> stoprc s' = stoprc s
     \<and> (\<forall>i. i \<notin> set is \<longrightarrow> conns s' ! i = conns s ! i)
     \<and> (\<forall>i \<in> set is. connected (conns s' ! i) \<noteq> None \<longrightarrow>
          conns s' ! i = conns s ! i \<and> trig < lasttime (conns s ! i))"

lemma watched_refl: "fds_inv s \<Longrightarrow> watched trig [] s s"
  by (simp add: watched_def)

lemma watched_trans:
  assumes "watched trig is s t" "watched trig js t u" "set is \<inter> set js = {}"
  shows "watched trig (is @ js) s u"
proof -
  have p4: "conns u ! i = conns s ! i \<and> trig < lasttime (conns s ! i)"
    if "i \<in> set (is @ js)" "connected (conns u ! i) \<noteq> None" for i
  proof (cases "i \<in> set is")
    case True
    then have "conns u ! i = conns t ! i" using assms(2,3) by (auto simp: watched_def)
    moreover have "connected (conns t ! i) \<noteq> None \<longrightarrow> conns t ! i = conns s ! i \<and> trig < lasttime (conns s ! i)"
      using assms(1) True unfolding watched_def by blast
    ultimately show ?thesis using that(2) by metis
  next
    case False
    then have "conns t ! i = conns s ! i" using assms(1) by (simp add: watched_def)
    moreover have "i \<in> set js" using False that(1) by simp
    then have "connected (conns u ! i) \<noteq> None \<longrightarrow> conns u ! i = conns t ! i \<and> trig < lasttime (conns t ! i)"
      using assms(2) unfolding watched_def by blast
    ultimately show ?thesis using that(2) by metis
  qed
  have p1: "polled u (servfd u) = polled s (servfd s)" using assms(1,2) unfolding watched_def by metis
  have p2: "fds_inv u \<and> stopped u = stopped s \<and> deaf u = deaf s \<and> (full u \<longrightarrow> full s) \<and> servfd u = servfd s
      \<and> now u = now s \<and> stoprc u = stoprc s"
    using assms(1,2) unfolding watched_def by metis
  have p3: "conns u ! i = conns s ! i" if "i \<notin> set (is @ js)" for i
    using assms(1,2) that by (simp add: watched_def)
  show ?thesis unfolding watched_def using p1 p2 p3 p4 by blast
qed

lemma closes_watched:
  assumes "fds_inv s" "idx < MAX_CLIENT_COUNT" "connected (conns s ! idx) \<noteq> None" "closes_slot idx s s'"
  shows "watched trig [idx] s s' \<and> connected (conns s' ! idx) = None"
proof -
  have len: "length (conns s) = MAX_CLIENT_COUNT" using fds_inv_base[OF assms(1)] by blast
  have "conns s' = (conns s)[idx := (conns s ! idx)\<lparr>connected := None\<rparr>]" "now s' = now s" "stoprc s' = stoprc s"
    using assms(4) by (auto simp: closes_slot_def)
  then have "connected (conns s' ! idx) = None" "\<forall>i. i \<noteq> idx \<longrightarrow> conns s' ! i = conns s ! i"
    "now s' = now s" "stoprc s' = stoprc s"
    using len assms(2) by simp_all
  then show ?thesis using closes_slot_inv[OF assms(1,4,2,3)] by (auto simp: watched_def)
qed

lemma watch_clients_watched:
  "watch_clients trig is n s = (m, s') \<Longrightarrow> fds_inv s \<Longrightarrow> distinct is \<Longrightarrow> set is \<subseteq> {..<MAX_CLIENT_COUNT} \<Longrightarrow>
     watched trig is s s' \<and> m = n + length (filter (\<lambda>i. connected (conns s' ! i) \<noteq> None) is)"
proof (induction trig "is" n s rule: watch_clients.induct)
  case (2 trig idx "is" n s)
  have rest: "distinct is" "set is \<subseteq> {..<MAX_CLIENT_COUNT}" "idx < MAX_CLIENT_COUNT" "idx \<notin> set is"
    using "2.prems"(3,4) by auto
  have seen: "connected (conns s' ! idx) = connected (conns u ! idx)" if "watched trig is u s'" for u
    using that rest(4) by (simp add: watched_def)
  show ?case
  proof (cases "connected (conns s ! idx)")
    case None
    then have "watched trig is s s'" "m = n + length (filter (\<lambda>i. connected (conns s' ! i) \<noteq> None) is)"
      using "2.IH"(1) "2.prems"(1,2) rest by simp_all
    moreover have "watched trig [idx] s s" using None "2.prems"(2) by (simp add: watched_def)
    ultimately show ?thesis
      using watched_trans[of trig "[idx]" s s "is" s'] rest(4) seen[of s] None by simp
  next
    case (Some c)
    note d = fds_invD[OF "2.prems"(2) rest(3) Some]
    have len: "idx < length (conns s)" using d(8) rest(3) by simp
    show ?thesis
    proof (cases "lasttime (conns s ! idx) \<le> trig")
      case True
      let ?t = "client_disconnect (session_of idx c s)"
      let ?u = "drop_client idx (put_session idx ?t s)"
      have off: "\<not> client_is_connected (cl ?t)"
        using d by (simp add: session_of_def client_disconnect_def client_is_connected_def disconnect_def)
      have "closes_slot idx s ?u" using drop_disconnected_closes[OF Some len] d by simp
      then have w: "watched trig [idx] s ?u" "connected (conns ?u ! idx) = None"
        using closes_watched "2.prems"(2) rest(3) Some by blast+
      have fu: "fds_inv ?u" using w(1) by (simp add: watched_def)
      have "watch_clients trig is n ?u = (m, s')" using "2.prems"(1) Some True off by (simp add: Let_def)
      then have "watched trig is ?u s'" "m = n + length (filter (\<lambda>i. connected (conns s' ! i) \<noteq> None) is)"
        using "2.IH"(3)[OF Some, of ?t "put_session idx ?t s"] True off fu rest by simp_all
      then show ?thesis using watched_trans[OF w(1), of "is" s'] rest(4) seen[of ?u] w(2) by simp
    next
      case False
      have on: "client_is_connected (cl (session_of idx c s))"
        using d by (simp add: session_of_def client_is_connected_def)
      note id = put_session_id[OF Some len]
      have "watch_clients trig is (n + 1) s = (m, s')" using "2.prems"(1) Some False on id by (simp add: Let_def)
      then have "watched trig is s s'" "m = n + 1 + length (filter (\<lambda>i. connected (conns s' ! i) \<noteq> None) is)"
        using "2.IH"(2)[OF Some, of "session_of idx c s" s] False on id "2.prems"(2) rest by simp_all
      moreover have "watched trig [idx] s s" using False "2.prems"(2) by (simp add: watched_def)
      ultimately show ?thesis
        using watched_trans[of trig "[idx]" s s "is" s'] rest(4) seen[of s] Some by simp
    qed
  qed
qed (simp add: watched_refl)

lemma count_full:
  "length (filter (\<lambda>i. connected (conns s ! i) \<noteq> None) [0..<MAX_CLIENT_COUNT]) < MAX_CLIENT_COUNT \<longleftrightarrow> \<not> full s"
proof -
  have "length (filter P [0..<MAX_CLIENT_COUNT]) < MAX_CLIENT_COUNT \<longleftrightarrow> (\<exists>i < MAX_CLIENT_COUNT. \<not> P i)" for P
    using length_filter_less[of _ "[0..<MAX_CLIENT_COUNT]" P]
    by (metis (no_types, lifting) atLeastLessThan_iff diff_zero filter_True length_upt linorder_not_less
        order_refl set_upt zero_le)
  then show ?thesis by (simp add: full_def)
qed

text \<open>The results of polling the kernel can give in a state.\<close>

definition poll_ready :: "'z server \<Rightarrow> poll_result \<Rightarrow> bool" where
  "poll_ready s r \<longleftrightarrow> (case r of
     PollTimeout \<Rightarrow> True
   | PollErr e \<Rightarrow> True
   | PollServer evs \<Rightarrow> polled s (servfd s) \<noteq> None \<and> accepts_fresh s
   | PollClient idx evs \<Rightarrow> idx < MAX_CLIENT_COUNT \<and> connected (conns s ! idx) \<noteq> None)"

lemma dispatch_inv:
  assumes "fds_inv s" "listen_inv s" "client_mem mem" "poll_ready s r"
  shows "\<exists>rc e s'. pollitem_wait_dispatch H mem r s = Some ((rc, e), s') \<and> fds_inv s' \<and> listen_mid s'
    \<and> (rc = 0 \<longleftrightarrow> r = PollTimeout) \<and> (rc = 0 \<longrightarrow> s' = s)"
proof -
  note mid = listen_inv_mid[OF assms(2)]
  show ?thesis
  proof (cases r)
    case (PollServer evs)
    then show ?thesis
      using server_event_inv[OF assms(1) mid assms(3), of evs] assms(4)
      by (simp add: pollitem_wait_dispatch_def poll_ready_def)
  next
    case (PollClient idx evs)
    then show ?thesis
      using client_event_inv[OF assms(1) mid, of idx H evs] assms(4)
      by (auto simp: pollitem_wait_dispatch_def poll_ready_def)
  qed (use assms(1) mid in \<open>simp_all add: pollitem_wait_dispatch_def\<close>)
qed

text \<open>The end of a turn: the socket of the server is polled again when a slot is free.\<close>

definition turn_end :: "int \<Rightarrow> int \<Rightarrow> nat \<Rightarrow> 'z server \<Rightarrow> 'z server" where
  "turn_end rc shutofftime ncli s =
     (if rc = 0 \<and> ncli = 0 \<and> shutofftime \<ge> 0 then sec_lsm_manager_server_stop 0 s
      else if deaf s \<and> ncli < MAX_CLIENT_COUNT then
        (case pollitem_mod (servfd s) EPOLLIN s of ((rc, _), s) \<Rightarrow>
           if rc < 0 then sec_lsm_manager_server_stop rc s else s)
      else s)"

lemma turn_end_inv:
  assumes "fds_inv s" "listen_mid s" "ncli < MAX_CLIENT_COUNT \<longleftrightarrow> \<not> full s"
  shows "fds_inv (turn_end rc sh ncli s) \<and> listen_inv (turn_end rc sh ncli s)
    \<and> conns (turn_end rc sh ncli s) = conns s \<and> now (turn_end rc sh ncli s) = now s"
proof -
  consider (stop) "rc = 0 \<and> ncli = 0 \<and> sh \<ge> 0" | (listen) "\<not> (rc = 0 \<and> ncli = 0 \<and> sh \<ge> 0)" "deaf s" "\<not> full s"
    | (same) "\<not> (rc = 0 \<and> ncli = 0 \<and> sh \<ge> 0)" "\<not> (deaf s \<and> \<not> full s)" by blast
  then show ?thesis
  proof cases
    case stop
    then have "turn_end rc sh ncli s = sec_lsm_manager_server_stop 0 s" by (simp add: turn_end_def)
    then show ?thesis using assms(1) server_stop_inv[of 0 s]
      by (simp add: listen_inv_def sec_lsm_manager_server_stop_def)
  next
    case same
    then have "turn_end rc sh ncli s = s" using assms(3) by (auto simp: turn_end_def)
    then show ?thesis using assms(1,2) same(2) by (auto simp: listen_mid_def listen_inv_def split: if_splits)
  next
    case listen
    obtain r e t where m: "pollitem_mod (servfd s) EPOLLIN s = ((r, e), t)" by (metis prod_cases3 prod.collapse)
    have te: "turn_end rc sh ncli s = (if r < 0 then sec_lsm_manager_server_stop r t else t)"
      using listen assms(3) m by (auto simp: turn_end_def)
    have known: "polled s (servfd s) \<noteq> None" using fds_inv_dom[OF assms(1)] by blast
    from m[unfolded pollitem_mod_def pollitem_do_def] show ?thesis
    proof (cases rule: epoll_ctl_cases)
      case (failed w)
      then have "same_slots s (turn_end rc sh ncli s)" "stopped (turn_end rc sh ncli s)" "now (turn_end rc sh ncli s) = now s"
        using te by (simp_all add: same_slots_def sec_lsm_manager_server_stop_def)
      then show ?thesis using same_slots_inv[of s "turn_end rc sh ncli s"] assms(1) by (simp add: listen_inv_def same_slots_def)
    next
      case (modify w)
      then have te: "turn_end rc sh ncli s = t" using te by simp
      have t: "t = s\<lparr>sys_state := w, polled := (polled s)(servfd s \<mapsto> EPOLLIN)\<rparr>" by (rule modify(4))
      have "fds_inv t"
      proof (rule fds_invI)
        show "dom (polled t) = insert (servfd t)
            {cfd (conns t ! i) | i. i < MAX_CLIENT_COUNT \<and> connected (conns t ! i) \<noteq> None}"
          using fds_inv_dom[OF assms(1)] by (simp add: t)
      qed (use fds_inv_base[OF assms(1)] fds_invD[OF assms(1)] fds_inv_distinct[OF assms(1)] in \<open>auto simp: t\<close>)
      moreover have "full t = full s" by (simp add: full_def t)
      ultimately show ?thesis using te listen(3) by (simp add: listen_inv_def t)
    qed simp_all
  qed
qed

text \<open>A turn: the dispatch of an event, the pass over the slots, the end of the turn.\<close>

lemma serve_turn_steps:
  assumes "fds_inv s" "listen_inv s" "client_mem mem" "poll_ready s r"
  obtains (stop) rc e u x where "pollitem_wait_dispatch H mem r s = Some ((rc, e), u)" "fds_inv u" "r = PollErr x"
      "serve_turn H mem sh r s = Some (sec_lsm_manager_server_stop rc u)"
  | (pass) rc e u trig v ncli x where "pollitem_wait_dispatch H mem r s = Some ((rc, e), u)" "fds_inv v"
      "same_slots u v" "trig = (if sh < 0 then 0 else now v - sh)"
      "watch_clients trig [0..<MAX_CLIENT_COUNT] 0 v = (ncli, x)" "watched trig [0..<MAX_CLIENT_COUNT] v x"
      "fds_inv x" "listen_mid x" "ncli < MAX_CLIENT_COUNT \<longleftrightarrow> \<not> full x"
      "serve_turn H mem sh r s = Some (turn_end rc sh ncli x)"
proof -
  obtain rc e u where d: "pollitem_wait_dispatch H mem r s = Some ((rc, e), u)" "fds_inv u" "listen_mid u"
    using dispatch_inv[OF assms] by blast
  show ?thesis
  proof (cases "rc < 0 \<and> e \<noteq> EINTR")
    case True
    then obtain x where "r = PollErr x" using d(1) by (cases r) (auto simp: pollitem_wait_dispatch_def)
    then show ?thesis using stop[OF d(1,2)] d True by (simp add: serve_turn_def)
  next
    case False
    obtain trig v where t: "(if sh < 0 then (0, u) else (case sys_time u of (t, s) \<Rightarrow> (t - sh, s))) = (trig, v)"
      by fastforce
    have v: "same_slots u v" "stopped v = stopped u" "deaf v = deaf u" "trig = (if sh < 0 then 0 else now v - sh)"
    proof -
      obtain a b where tm: "sys_time u = (a, b)" by fastforce
      have "v = (if sh < 0 then u else b)" "trig = (if sh < 0 then 0 else a - sh)" using t tm by (auto split: if_splits)
      then show "same_slots u v" "stopped v = stopped u" "deaf v = deaf u" "trig = (if sh < 0 then 0 else now v - sh)"
        using sys_time_same[OF tm] by (auto simp: same_slots_def)
    qed
    have vi: "fds_inv v" "full v = full u" using same_slots_inv[OF v(1)] d(2) by blast+
    have vl: "listen_mid v"
      by (rule listen_frame[OF d(3)]) (use v vi in \<open>simp_all add: same_slots_def\<close>)
    obtain ncli x where w: "watch_clients trig [0..<MAX_CLIENT_COUNT] 0 v = (ncli, x)" by fastforce
    have x: "watched trig [0..<MAX_CLIENT_COUNT] v x"
      "ncli = length (filter (\<lambda>i. connected (conns x ! i) \<noteq> None) [0..<MAX_CLIENT_COUNT])"
      using watch_clients_watched[OF w vi(1)] by (simp_all add: subset_iff)
    have xi: "fds_inv x" "listen_mid x" "ncli < MAX_CLIENT_COUNT \<longleftrightarrow> \<not> full x"
    proof -
      show "fds_inv x" using x(1) by (simp add: watched_def)
      show "listen_mid x" by (rule listen_frame[OF vl]) (use x(1) in \<open>auto simp: watched_def\<close>)
      show "ncli < MAX_CLIENT_COUNT \<longleftrightarrow> \<not> full x" using count_full[of x] x(2) by simp
    qed
    have "serve_turn H mem sh r s = Some (turn_end rc sh ncli x)"
      using d(1) False unfolding serve_turn_def turn_end_def by (simp only: option.simps bind.simps prod.case t w if_False)
    then show ?thesis using pass[OF d(1) vi(1) v(1,4) w x(1) xi] by blast
  qed
qed

lemma serve_turn_inv:
  assumes "fds_inv s" "listen_inv s" "client_mem mem" "poll_ready s r"
  shows "\<exists>s'. serve_turn H mem sh r s = Some s' \<and> fds_inv s' \<and> listen_inv s'
    \<and> (0 \<le> sh \<longrightarrow> (\<forall>e. r \<noteq> PollErr e) \<longrightarrow>
        (\<forall>i < MAX_CLIENT_COUNT. connected (conns s' ! i) \<noteq> None \<longrightarrow> now s' - sh < lasttime (conns s' ! i)))"
  using assms
proof (cases rule: serve_turn_steps[where H = H and sh = sh])
  case (stop rc e u x)
  then show ?thesis by (auto simp: server_stop_inv listen_inv_def)
next
  case (pass rc e u trig v ncli x)
  have "trig < lasttime (conns x ! i)" if "i < MAX_CLIENT_COUNT" "connected (conns x ! i) \<noteq> None" for i
    using pass(6) that unfolding watched_def by (metis atLeastLessThan_iff set_upt zero_le)
  moreover have "now x = now v" using pass(6) by (simp add: watched_def)
  ultimately show ?thesis using pass(4,10) turn_end_inv[OF pass(7-9), of rc sh] by auto
qed

section \<open>Reachable servers\<close>

lemma server_create_cases:
  assumes "sec_lsm_manager_server_create epfd sock start = (rc, res, s)"
  obtains (nomem) w where "rc = - ENOMEM" "res = None" "released s = released start" "polled s = polled start"
  | (noepoll) e where "epfd = Inl e" "rc = - e" "res = None" "released s = released start" "polled s = polled start"
  | (nosock) ep e where "epfd = Inr ep" "sock = Inl e" "rc = - e" "res = None" "released s = released start @ [ep]"
      "polled s = (polled start)(ep := None)"
  | (nopoll) ep fd e where "epfd = Inr ep" "sock = Inr fd" "e > 0" "rc = - e" "res = None"
      "released s = released start @ [fd, ep]" "polled s = (polled start)(fd := None, ep := None)"
  | (created) ep fd w where "epfd = Inr ep" "sock = Inr fd" "rc = 0" "res = Some s"
      "s = start\<lparr>stoprc := 0, stopped := False, deaf := False, servfd := fd, pollfd := ep,
         conns := replicate MAX_CLIENT_COUNT \<lparr>connected = None, cfd = 0, lasttime = 0,
           cwire = \<lparr>rx = [], tx = [], sent = []\<rparr>\<rparr>, polled := (polled start)(fd \<mapsto> EPOLLIN), sys_state := w\<rparr>"
proof -
  obtain ok w where m: "sys_malloc (sys_state start) = (ok, w)" by fastforce
  let ?s = "start\<lparr>stoprc := 0, stopped := False, deaf := False,
                  conns := replicate MAX_CLIENT_COUNT \<lparr>connected = None, cfd = 0, lasttime = 0,
                    cwire = \<lparr>rx = [], tx = [], sent = []\<rparr>\<rparr>, sys_state := w\<rparr>"
  note run = assms[unfolded sec_lsm_manager_server_create_def m Let_def prod.case]
  show ?thesis
  proof (cases "ok \<and> (\<exists>ep fd. epfd = Inr ep \<and> sock = Inr fd)")
    case False
    then show ?thesis
      using run that(1-3) by (cases ok; cases epfd; cases sock) (auto simp: sys_close_def)
  next
    case True
    then obtain ep fd where r: ok "epfd = Inr ep" "sock = Inr fd" by blast
    obtain k e t where a: "pollitem_add fd EPOLLIN (?s\<lparr>pollfd := ep, servfd := fd\<rparr>) = ((k, e), t)"
      by (metis prod_cases3 prod.collapse)
    have run: "(if k \<ge> 0 then (0, Some t, t) else (- e, None, sys_close ep (sys_close fd t))) = (rc, res, s)"
      using assms r m a unfolding sec_lsm_manager_server_create_def by simp
    from a[unfolded pollitem_add_def pollitem_do_def] show ?thesis
    proof (cases rule: epoll_ctl_cases)
      case (failed w')
      then show ?thesis using run a r that(4)[of ep fd e] by (auto simp: sys_close_def)
    next
      case (add w')
      have "s = t" "rc = 0" "res = Some t" using run a add by auto
      then show ?thesis using that(5)[of ep fd w'] r add by (cases start) simp
    qed simp_all
  qed
qed

text \<open>
  The states of a server that serves: each result of polling is one the kernel can give.
\<close>

inductive server_reachable :: "'z wstate host \<Rightarrow> 'z client \<Rightarrow> int \<Rightarrow> 'z server \<Rightarrow> bool" for H mem sh where
  created: "sec_lsm_manager_server_create (Inr ep) (Inr fd) start = (0, Some s, s) \<Longrightarrow> ep \<noteq> fd \<Longrightarrow>
     polled start = Map.empty \<Longrightarrow> server_reachable H mem sh (s\<lparr>stoprc := 0, stopped := False\<rparr>)"
| turned: "server_reachable H mem sh s \<Longrightarrow> \<not> stopped s \<Longrightarrow> poll_ready s r \<Longrightarrow> serve_turn H mem sh r s = Some s' \<Longrightarrow>
     server_reachable H mem sh s'"

lemma server_reachable_inv: "server_reachable H mem sh s \<Longrightarrow> client_mem mem \<Longrightarrow> fds_inv s \<and> listen_inv s"
proof (induction rule: server_reachable.induct)
  case (created ep fd start s)
  obtain w where s: "s = start\<lparr>stoprc := 0, stopped := False, deaf := False, servfd := fd, pollfd := ep,
         conns := replicate MAX_CLIENT_COUNT \<lparr>connected = None, cfd = 0, lasttime = 0,
           cwire = \<lparr>rx = [], tx = [], sent = []\<rparr>\<rparr>, polled := (polled start)(fd \<mapsto> EPOLLIN), sys_state := w\<rparr>"
    using created(1)
  proof (cases rule: server_create_cases)
    case (created e f w)
    then show ?thesis using that[of w] by simp
  qed simp_all
  have c: "conns s = replicate 3 \<lparr>connected = None, cfd = 0, lasttime = 0, cwire = \<lparr>rx = [], tx = [], sent = []\<rparr>\<rparr>"
    and p: "polled s = [fd \<mapsto> EPOLLIN]" "servfd s = fd" "pollfd s = ep"
    using created(3) unfolding s by simp_all
  have none: "connected (conns s ! i) = None" if "i < 3" for i
    using that by (simp add: c nth_replicate)
  have "fds_inv s"
  proof (rule fds_invI)
    show "length (conns s) = MAX_CLIENT_COUNT" by (simp add: c)
    show "servfd s \<noteq> pollfd s" using created(2) p by simp
    show "dom (polled s) = insert (servfd s) {cfd (conns s ! i) | i. i < MAX_CLIENT_COUNT \<and> connected (conns s ! i) \<noteq> None}"
      using none p by auto
  qed (use none in simp_all)
  moreover have "\<not> full s" unfolding full_def using none[of 0] by (metis zero_less_numeral)
  ultimately show ?case using same_slots_inv[of s "s\<lparr>stoprc := 0, stopped := False\<rparr>"] p
    by (simp add: same_slots_def listen_inv_def)
next
  case (turned s r s')
  then show ?case using serve_turn_inv[of s mem r H sh] by auto
qed

text \<open>A turn without event, when every client was silent for too long.\<close>

lemma idle_turn:
  assumes "fds_inv s" "listen_mid s" "\<not> stopped s" "0 \<le> sh" "clock s = t # ts"
    "\<forall>i < MAX_CLIENT_COUNT. connected (conns s ! i) \<noteq> None \<longrightarrow> lasttime (conns s ! i) \<le> t - sh"
  shows "\<exists>s'. serve_turn H mem sh PollTimeout s = Some s' \<and> stopped s' \<and> stoprc s' = 0
    \<and> (\<forall>i < MAX_CLIENT_COUNT. connected (conns s' ! i) = None)"
proof -
  let ?v = "s\<lparr>now := t, clock := ts\<rparr>"
  have tm: "sys_time s = (t, ?v)" using assms(5) by (simp add: sys_time_def)
  have v: "fds_inv ?v" using same_slots_inv[of s ?v] assms(1) by (simp add: same_slots_def)
  obtain ncli x where w: "watch_clients (t - sh) [0..<MAX_CLIENT_COUNT] 0 ?v = (ncli, x)" by fastforce
  have x: "watched (t - sh) [0..<MAX_CLIENT_COUNT] ?v x"
    "ncli = length (filter (\<lambda>i. connected (conns x ! i) \<noteq> None) [0..<MAX_CLIENT_COUNT])"
    using watch_clients_watched[OF w v] by (simp_all add: subset_iff)
  have gone: "connected (conns x ! i) = None" if "i < MAX_CLIENT_COUNT" for i
  proof (rule ccontr)
    assume c: "connected (conns x ! i) \<noteq> None"
    have "\<forall>i \<in> set [0..<MAX_CLIENT_COUNT]. connected (conns x ! i) \<noteq> None \<longrightarrow>
        conns x ! i = conns ?v ! i \<and> t - sh < lasttime (conns ?v ! i)"
      using x(1) unfolding watched_def by blast
    then have "conns x ! i = conns ?v ! i \<and> t - sh < lasttime (conns ?v ! i)"
      using c that by (metis atLeastLessThan_iff set_upt zero_le)
    moreover have "conns ?v = conns s" by simp
    ultimately show False using assms(6) that c by fastforce
  qed
  have "filter (\<lambda>i. connected (conns x ! i) \<noteq> None) [0..<MAX_CLIENT_COUNT] = []"
    using gone by (simp add: filter_empty_conv)
  then have n: "ncli = 0" using x(2) by simp
  have "serve_turn H mem sh PollTimeout s = Some (sec_lsm_manager_server_stop 0 x)"
    using assms(4) tm w n unfolding serve_turn_def pollitem_wait_dispatch_def by simp
  moreover have "\<not> stopped x" using x(1) assms(3) by (simp add: watched_def)
  ultimately show ?thesis using gone by (simp add: sec_lsm_manager_server_stop_def)
qed

text \<open>Destroying the clients closes the descriptors of the slots in use, in order.\<close>

definition slots_ok :: "'z server \<Rightarrow> bool" where
  "slots_ok s \<longleftrightarrow> length (conns s) = MAX_CLIENT_COUNT \<and> (\<forall>i < MAX_CLIENT_COUNT. \<forall>c. connected (conns s ! i) = Some c \<longrightarrow>
     fdin c = cfd (conns s ! i) \<and> fdout c = cfd (conns s ! i) \<and> 0 \<le> fdin c)"

lemma slots_okD:
  "slots_ok s \<Longrightarrow> i < MAX_CLIENT_COUNT \<Longrightarrow> connected (conns s ! i) = Some c \<Longrightarrow>
     fdin c = cfd (conns s ! i) \<and> fdout c = cfd (conns s ! i) \<and> 0 \<le> fdin c"
  unfolding slots_ok_def by blast

definition fds_of :: "nat list \<Rightarrow> 'z server \<Rightarrow> int list" where
  "fds_of is s = map (\<lambda>i. cfd (conns s ! i)) (filter (\<lambda>i. connected (conns s ! i) \<noteq> None) is)"

lemma fds_of_cong: "(\<And>i. i \<in> set is \<Longrightarrow> conns u ! i = conns s ! i) \<Longrightarrow> fds_of is u = fds_of is s"
  by (induction "is") (simp_all add: fds_of_def)

lemma destroy_clients_closes:
  "slots_ok s \<Longrightarrow> distinct is \<Longrightarrow> set is \<subseteq> {..<MAX_CLIENT_COUNT} \<Longrightarrow>
     released (destroy_clients is s) = released s @ fds_of is s
     \<and> dom (polled (destroy_clients is s)) = dom (polled s) - set (fds_of is s)
     \<and> servfd (destroy_clients is s) = servfd s \<and> pollfd (destroy_clients is s) = pollfd s"
proof (induction "is" arbitrary: s)
  case (Cons idx "is")
  show ?case
  proof (cases "connected (conns s ! idx)")
    case None
    then show ?thesis using Cons by (simp add: fds_of_def)
  next
    case (Some c)
    let ?u = "drop_client idx s"
    have idx: "idx < MAX_CLIENT_COUNT" "idx \<notin> set is" using Cons.prems(2,3) by auto
    have c: "fdin c = cfd (conns s ! idx)" "fdout c = cfd (conns s ! idx)" "0 \<le> fdin c" "idx < length (conns s)"
      using Cons.prems(1) idx(1) Some unfolding slots_ok_def by auto
    have "closes_slot idx s ?u" by (rule drop_client_closes[OF Some c(4,1,2,3)])
    then obtain w where u: "?u = s\<lparr>conns := (conns s)[idx := (conns s ! idx)\<lparr>connected := None\<rparr>],
       released := released s @ [cfd (conns s ! idx)], polled := (polled s)(cfd (conns s ! idx) := None), sys_state := w\<rparr>"
      by (auto simp: closes_slot_def)
    have other: "conns ?u ! i = conns s ! i" if "i \<noteq> idx" for i using that by (simp add: u)
    have "slots_ok ?u"
      unfolding slots_ok_def
    proof (intro conjI allI impI)
      fix i d
      assume i: "i < MAX_CLIENT_COUNT" "connected (conns ?u ! i) = Some d"
      then have n: "i \<noteq> idx" using c(4) by (auto simp: u)
      then show "fdin d = cfd (conns ?u ! i)" "fdout d = cfd (conns ?u ! i)" "0 \<le> fdin d"
        using i other[OF n] slots_okD[OF Cons.prems(1) i(1)] by simp_all
    qed (use Cons.prems(1) in \<open>simp add: u slots_ok_def\<close>)
    moreover have same: "fds_of is ?u = fds_of is s"
    proof -
      have "conns ?u ! i = conns s ! i" if "i \<in> set is" for i using that idx(2) other[of i] by blast
      then show ?thesis by (rule fds_of_cong)
    qed
    ultimately have ih: "released (destroy_clients is ?u) = released ?u @ fds_of is s
     \<and> dom (polled (destroy_clients is ?u)) = dom (polled ?u) - set (fds_of is s)
     \<and> servfd (destroy_clients is ?u) = servfd ?u \<and> pollfd (destroy_clients is ?u) = pollfd ?u"
      using Cons.IH[of ?u] Cons.prems(2,3) by simp
    have e: "destroy_clients (idx # is) s = destroy_clients is ?u" "fds_of (idx # is) s = cfd (conns s ! idx) # fds_of is s"
      using Some by (simp_all add: fds_of_def)
    have f: "released ?u = released s @ [cfd (conns s ! idx)]" "dom (polled ?u) = dom (polled s) - {cfd (conns s ! idx)}"
      "servfd ?u = servfd s" "pollfd ?u = pollfd s" unfolding u by simp_all
    show ?thesis unfolding e using ih f by auto
  qed
qed (simp add: fds_of_def)

lemma server_destroy_closes:
  assumes "fds_inv s"
  shows "released (sec_lsm_manager_server_destroy s) = released s @ fds_of [0..<MAX_CLIENT_COUNT] s @ [servfd s, pollfd s]
    \<and> polled (sec_lsm_manager_server_destroy s) = Map.empty"
proof -
  obtain w m where d: "snd (pollitem_del (servfd s) s) = s\<lparr>sys_state := w, polled := m\<rparr>"
    "m = polled s \<or> m = (polled s)(servfd s := None)" using pollitem_del_any by blast
  let ?u = "s\<lparr>sys_state := w, polled := m\<rparr>"
  let ?x = "destroy_clients [0..<MAX_CLIENT_COUNT] ?u"
  have ok: "slots_ok ?u"
    using fds_inv_base[OF assms] fds_invD[OF assms] by (simp add: slots_ok_def)
  have f: "fds_of [0..<MAX_CLIENT_COUNT] ?u = fds_of [0..<MAX_CLIENT_COUNT] s" by (simp add: fds_of_def)
  have x: "released ?x = released s @ fds_of [0..<MAX_CLIENT_COUNT] s"
    "dom (polled ?x) = dom m - set (fds_of [0..<MAX_CLIENT_COUNT] s)" "servfd ?x = servfd s" "pollfd ?x = pollfd s"
    using destroy_clients_closes[OF ok, of "[0..<MAX_CLIENT_COUNT]"] f by (simp_all add: subset_iff)
  have "set (fds_of [0..<MAX_CLIENT_COUNT] s)
      = {cfd (conns s ! i) | i. i < MAX_CLIENT_COUNT \<and> connected (conns s ! i) \<noteq> None}"
    by (auto simp: fds_of_def)
  then have "dom (polled ?x) \<subseteq> {servfd s}" using x(2) d(2) fds_inv_dom[OF assms] by auto
  then have p: "(polled ?x)(servfd s := None, pollfd s := None) = Map.empty"
    by (auto simp: fun_eq_iff domIff subset_iff; metis option.exhaust)
  have "sec_lsm_manager_server_destroy s = sys_close (pollfd s) (sys_close (servfd s) ?x)"
    unfolding sec_lsm_manager_server_destroy_def Let_def d(1) x(3,4) ..
  then show ?thesis using x p by (simp add: sys_close_def)
qed

lemma fds_of_distinct:
  assumes "fds_inv s"
  shows "distinct (fds_of [0..<MAX_CLIENT_COUNT] s @ [servfd s, pollfd s])"
proof -
  have "inj_on (\<lambda>i. cfd (conns s ! i)) (set (filter (\<lambda>i. connected (conns s ! i) \<noteq> None) [0..<MAX_CLIENT_COUNT]))"
    using fds_inv_distinct[OF assms] by (intro inj_onI) (simp, metis option.distinct(1))
  moreover have nn: "servfd s \<noteq> cfd (conns s ! i) \<and> pollfd s \<noteq> cfd (conns s ! i)"
    if "i < MAX_CLIENT_COUNT" "connected (conns s ! i) = Some c" for i c
    using fds_invD(6,7)[OF assms that] by metis
  have "servfd s \<notin> set (fds_of [0..<MAX_CLIENT_COUNT] s)" "pollfd s \<notin> set (fds_of [0..<MAX_CLIENT_COUNT] s)"
    using nn by (auto simp: fds_of_def)
  with calculation show ?thesis using fds_inv_base[OF assms] by (auto simp: fds_of_def distinct_map)
qed

section \<open>Properties\<close>

text \<open>A server over a kernel that gives a connection, then a clock.\<close>

definition demo_start :: "unit server" where
  "demo_start = \<lparr>stoprc = 7, stopped = True, deaf = True, servfd = 0, pollfd = 0, conns = [], slm_server_log = False, slm_plog = [],
     polled = Map.empty, released = [], accepts = [Inr (5, \<lparr>rx = [], tx = [], sent = []\<rparr>)], clock = [1000], now = 0,
     sys_state = demo_os\<rparr>"

definition demo_server :: "unit server" where
  "demo_server = snd (snd (sec_lsm_manager_server_create (Inr 3) (Inr 4) demo_start))"

lemma demo_server_eq: "demo_server = demo_start\<lparr>stoprc := 0, stopped := False, deaf := False, servfd := 4, pollfd := 3,
    conns := replicate 3 \<lparr>connected = None, cfd = 0, lasttime = 0, cwire = \<lparr>rx = [], tx = [], sent = []\<rparr>\<rparr>,
    polled := [4 \<mapsto> EPOLLIN]\<rparr>"
  by (simp add: demo_server_def demo_start_def sec_lsm_manager_server_create_def sys_malloc_def pop_fault_def
      pollitem_add_def pollitem_do_def sys_epoll_ctl_def demo_os_def Let_def)

lemma demo_server_reachable: "server_reachable H mem sh demo_server"
proof -
  have "sec_lsm_manager_server_create (Inr 3) (Inr 4) demo_start = (0, Some demo_server, demo_server)"
    by (simp add: demo_server_def demo_start_def sec_lsm_manager_server_create_def sys_malloc_def pop_fault_def
      pollitem_add_def pollitem_do_def sys_epoll_ctl_def demo_os_def Let_def)
  moreover have "polled demo_start = Map.empty" by (simp add: demo_start_def)
  ultimately have "server_reachable H mem sh (demo_server\<lparr>stoprc := 0, stopped := False\<rparr>)"
    using server_reachable.created[of 3 4 demo_start demo_server H mem sh] by simp
  moreover have "demo_server\<lparr>stoprc := 0, stopped := False\<rparr> = demo_server" by (simp add: demo_server_eq demo_start_def)
  ultimately show ?thesis by simp
qed

lemma demo_server_facts:
  "\<forall>i < 3. connected (conns demo_server ! i) = None" "\<not> stopped demo_server" "clock demo_server = [1000]"
  "servfd demo_server = 4" "pollfd demo_server = 3" "released demo_server = []"
  by (simp_all add: demo_server_eq demo_start_def nth_Cons' numeral_3_eq_3)

lemma demo_client_mem: "client_mem demo_client_mem"
  by (simp add: client_mem_def demo_client_mem_def raw_prot_def PROT_MAX_BUFFER_LENGTH_def)

text \<open>
  C8: in every state a serving server reaches, over any host, any behaviour of its clients and
  any failure of the system: there are three slots; a slot in use has a well-formed session
  over its own descriptor, polled for input; no two slots share a descriptor; nothing else but
  the socket of the server is polled; and unless the server has stopped, the socket is polled
  for connections exactly when a slot is free. Every event the kernel can give next is handled.
\<close>

theorem server_invariant:
  assumes "client_mem mem" "server_reachable H mem sh s"
  shows "length (conns s) = 3
    \<and> (\<forall>i < 3. \<forall>c. connected (conns s ! i) = Some c \<longrightarrow> session_ready (session_of i c s)
        \<and> fdin c = cfd (conns s ! i) \<and> fdout c = cfd (conns s ! i) \<and> polled s (cfd (conns s ! i)) = Some EPOLLIN)
    \<and> (\<forall>i < 3. \<forall>j < 3. i \<noteq> j \<longrightarrow> connected (conns s ! i) \<noteq> None \<longrightarrow> connected (conns s ! j) \<noteq> None \<longrightarrow>
        cfd (conns s ! i) \<noteq> cfd (conns s ! j))
    \<and> dom (polled s) = insert (servfd s) {cfd (conns s ! i) | i. i < 3 \<and> connected (conns s ! i) \<noteq> None}
    \<and> (stopped s \<or> polled s (servfd s) = Some (if \<forall>i < 3. connected (conns s ! i) \<noteq> None then 0 else EPOLLIN))
    \<and> (\<forall>r. poll_ready s r \<longrightarrow> (\<exists>s'. serve_turn H mem sh r s = Some s'))"
proof -
  have inv: "fds_inv s" "listen_inv s" using server_reachable_inv[OF assms(2,1)] by auto
  have ready: "session_ready (session_of i c s) \<and> fdin c = cfd (conns s ! i) \<and> fdout c = cfd (conns s ! i)
        \<and> polled s (cfd (conns s ! i)) = Some EPOLLIN" if "i < 3" "connected (conns s ! i) = Some c" for i c
    using fds_invD[OF inv(1) that] by (simp add: session_ready_client session_of_def)
  have listens: "stopped s \<or> polled s (servfd s) = Some (if \<forall>i < 3. connected (conns s ! i) \<noteq> None then 0 else EPOLLIN)"
    using inv(2) unfolding listen_inv_def full_def by meson
  have handled: "\<exists>s'. serve_turn H mem sh r s = Some s'" if "poll_ready s r" for r
    using serve_turn_inv[OF inv assms(1) that] by blast
  have base: "length (conns s) = 3" using fds_inv_base[OF inv(1)] by blast
  have dist: "cfd (conns s ! i) \<noteq> cfd (conns s ! j)"
    if "i < 3" "j < 3" "i \<noteq> j" "connected (conns s ! i) \<noteq> None" "connected (conns s ! j) \<noteq> None" for i j
    using fds_inv_distinct[OF inv(1) that] .
  show ?thesis
    by (intro conjI allI impI base ready dist fds_inv_dom[OF inv(1)] listens handled)
qed

theorem server_invariant_witness:
  "\<exists>s. serve_turn demo_server_host demo_client_mem 10 (PollServer EPOLLIN) demo_server = Some s
     \<and> server_reachable demo_server_host demo_client_mem 10 s
     \<and> dom (polled s) = insert (servfd s) {cfd (conns s ! i) | i. i < 3 \<and> connected (conns s ! i) \<noteq> None}"
proof -
  let ?H = demo_server_host
  note r = demo_server_reachable[of ?H demo_client_mem 10]
  have p: "poll_ready demo_server (PollServer EPOLLIN)"
    by (simp add: poll_ready_def accepts_fresh_def demo_server_eq demo_start_def)
  from server_invariant[OF demo_client_mem r] p
  obtain s where s: "serve_turn ?H demo_client_mem 10 (PollServer EPOLLIN) demo_server = Some s" by blast
  have "\<not> stopped demo_server" by (simp add: demo_server_eq)
  then have r2: "server_reachable ?H demo_client_mem 10 s" using server_reachable.turned[OF r _ p s] by simp
  show ?thesis using server_invariant[OF demo_client_mem r2] s r2 by blast
qed

text \<open>
  C32: a server started with a shut-off time stops by itself: when no event comes while every
  client has been silent for that time, the clients are disconnected, every slot is released
  and the serving loop returns the status zero.
\<close>

theorem idle_server_stops:
  assumes "client_mem mem" "server_reachable H mem sh s" "\<not> stopped s" "0 \<le> sh" "clock s = t # ts"
    "\<forall>i < 3. connected (conns s ! i) \<noteq> None \<longrightarrow> lasttime (conns s ! i) \<le> t - sh"
  shows "\<exists>s'. serve_loop H mem sh (PollTimeout # rs) s = Some (Some 0, s') \<and> (\<forall>i < 3. connected (conns s' ! i) = None)"
proof -
  have inv: "fds_inv s" "listen_mid s" using server_reachable_inv[OF assms(2,1)] listen_inv_mid by auto
  obtain s' where s': "serve_turn H mem sh PollTimeout s = Some s'" "stopped s'" "stoprc s' = 0"
    "\<forall>i < 3. connected (conns s' ! i) = None"
    using idle_turn[OF inv assms(3-6)] by blast
  have "serve_loop H mem sh rs s' = Some (Some 0, s')" using s'(2,3) by (cases rs) simp_all
  then show ?thesis using assms(3) s' by simp
qed

theorem idle_server_stops_witness:
  "\<exists>s'. serve_loop demo_server_host demo_client_mem 10 [PollTimeout] demo_server = Some (Some 0, s')"
proof -
  have "\<forall>i < 3. connected (conns demo_server ! i) \<noteq> None \<longrightarrow> lasttime (conns demo_server ! i) \<le> 1000 - 10"
    using demo_server_facts(1) by simp
  from idle_server_stops[OF demo_client_mem demo_server_reachable demo_server_facts(2) _ demo_server_facts(3) this,
      of demo_server_host "[]"]
  show ?thesis by auto
qed

text \<open>
  C33: descriptors do not leak. Destroying a server closes the descriptor of every slot in use,
  the socket and the polling descriptor, each exactly once, and leaves nothing polled; and a
  creation that fails has closed whatever it was given.
\<close>

theorem server_releases_descriptors:
  assumes "client_mem mem" "server_reachable H mem sh s"
    "sec_lsm_manager_server_create epfd sock start = (rc, None, failed)" "rc \<noteq> - ENOMEM"
  shows "(\<exists>fds. released (sec_lsm_manager_server_destroy s) = released s @ fds \<and> distinct fds
      \<and> set fds = {cfd (conns s ! i) | i. i < 3 \<and> connected (conns s ! i) \<noteq> None} \<union> {servfd s, pollfd s})
    \<and> polled (sec_lsm_manager_server_destroy s) = Map.empty
    \<and> set (released failed) = set (released start) \<union> (case epfd of Inl e \<Rightarrow> {} | Inr ep \<Rightarrow>
        insert ep (case sock of Inl e \<Rightarrow> {} | Inr fd \<Rightarrow> {fd}))"
proof -
  have inv: "fds_inv s" using server_reachable_inv[OF assms(2,1)] by blast
  have "set (released failed) = set (released start) \<union> (case epfd of Inl e \<Rightarrow> {} | Inr ep \<Rightarrow>
        insert ep (case sock of Inl e \<Rightarrow> {} | Inr fd \<Rightarrow> {fd}))"
    using assms(3) by (cases rule: server_create_cases) (use assms(4) in auto)
  moreover have "set (fds_of [0..<3] s) = {cfd (conns s ! i) | i. i < 3 \<and> connected (conns s ! i) \<noteq> None}"
    by (auto simp: fds_of_def)
  ultimately show ?thesis
    using server_destroy_closes[OF inv] fds_of_distinct[OF inv]
    by (intro conjI exI[of _ "fds_of [0..<3] s @ [servfd s, pollfd s]"]) auto
qed

theorem server_releases_descriptors_witness:
  "set (released (sec_lsm_manager_server_destroy demo_server)) = {4, 3}"
proof -
  have f: "sec_lsm_manager_server_create (Inr 3) (Inl EACCES) demo_start = (- EACCES, None,
      snd (snd (sec_lsm_manager_server_create (Inr 3) (Inl EACCES) demo_start)))"
    by (simp add: demo_start_def sec_lsm_manager_server_create_def sys_malloc_def pop_fault_def demo_os_def Let_def)
  from server_releases_descriptors[OF demo_client_mem demo_server_reachable[of demo_server_host _ 10] f]
  show ?thesis using demo_server_facts by auto
qed

end
