(* ===== verification/Isolation.thy ===== *)
theory Isolation
  imports Server_Props
begin

text \<open>
  The clients of a server do not interfere: what one turn of the serving loop can do to the slot of a
  client that has no event, and what a new client starts with.
\<close>

section \<open>Other slots\<close>

named_theorems slot_frame

lemma stop_conns [slot_frame]: "conns (sec_lsm_manager_server_stop rc s) = conns s"
  by (simp add: sec_lsm_manager_server_stop_def)

lemma epoll_ctl_conns [slot_frame]: "conns (snd (sys_epoll_ctl ctl fd evs s)) = conns s"
  by (cases ctl) (simp_all add: sys_epoll_ctl_def Let_def case_prod_beta)

lemma pollitem_conns [slot_frame]:
  "conns (snd (pollitem_add fd evs s)) = conns s" "conns (snd (pollitem_mod fd evs s)) = conns s"
  "conns (snd (pollitem_del fd s)) = conns s"
  by (simp_all add: pollitem_add_def pollitem_mod_def pollitem_del_def pollitem_do_def slot_frame)

lemma sys_conns [slot_frame]:
  "conns (snd (sys_time s)) = conns s" "conns (snd (sys_accept s)) = conns s" "conns (sys_close fd s) = conns s"
  by (simp_all add: sys_time_def sys_accept_def sys_close_def split: list.split)

lemma become_deaf_conns [slot_frame]: "conns (become_deaf s) = conns s"
  by (simp add: become_deaf_def case_prod_beta slot_frame)

lemma put_session_other [slot_frame]: "j \<noteq> i \<Longrightarrow> conns (put_session i t s) ! j = conns s ! j"
  by (simp add: put_session_def)

lemma set_conn_other [slot_frame]: "j \<noteq> i \<Longrightarrow> conns (set_conn i f s) ! j = conns s ! j"
  by (simp add: set_conn_def)

lemma destroy_client_other [slot_frame]:
  "j \<noteq> i \<Longrightarrow> conns (destroy_client i s) ! j = conns s ! j"
  "j \<noteq> i \<Longrightarrow> conns (drop_client i s) ! j = conns s ! j"
  by (simp_all add: drop_client_def destroy_client_def slot_frame split: option.split)

lemma client_event_other:
  "on_client_event H i evs s = Some s' \<Longrightarrow> j \<noteq> i \<Longrightarrow> conns s' ! j = conns s ! j"
  by (auto simp: on_client_event_def case_prod_beta bind_eq_Some_conv slot_frame split: option.splits if_splits)

section \<open>New clients\<close>

definition newcomer :: "'z client \<Rightarrow> bool" where
  "newcomer c \<longleftrightarrow> \<not> has_id (cctx c) \<and> permissions (permission_set (cctx c)) = [] \<and> path_set (cctx c) = []
     \<and> plugset (cctx c) = [] \<and> \<not> need_id (cctx c) \<and> \<not> error_flag (cctx c) \<and> permgr (cctx c) = None
     \<and> unread (cprot c) = [] \<and> obytes (outbuf (cprot c)) = [] \<and> version c = 0 \<and> \<not> invalid c"

lemma client_create_newcomer:
  assumes "client_create mem fin fout w = (rc, Some c, w')" "client_mem mem"
  shows "newcomer c"
proof -
  have c: "cprot c = prot_reset (cprot mem)" "cctx c = context_init (cctx mem)" "version c = 0" "\<not> invalid c"
    using assms(1)
    by (auto simp: client_create_def prot_create_def context_create_def split: if_splits prod.splits)
  have "length (id_array (cctx mem)) = 201" using assms(2) by (simp add: client_mem_def)
  then have "\<not> has_id (context_init (cctx mem))"
    by (simp add: has_id_def context_init_def rd_def nth_append)
  then show ?thesis
    using c prot_reset_inv[of "cprot mem"] assms(2)
    by (simp add: newcomer_def client_mem_def context_init_def permission_set_init_def path_set_init_def plugset_init_def)
qed

lemma server_event_slots:
  assumes "client_mem mem" "length (conns s) = MAX_CLIENT_COUNT" "s' = on_server_event mem evs s" "conns s' ! j \<noteq> conns s ! j"
  shows "connected (conns s ! j) = None \<and> (\<forall>c. connected (conns s' ! j) = Some c \<longrightarrow> newcomer c)"
proof -
  let ?i = "free_slot (conns s)"
  have i: "?i < MAX_CLIENT_COUNT"
    using assms(3,4) by (auto simp: on_server_event_def Let_def slot_frame split: if_splits)
  obtain fd ch s1 where ac: "sys_accept s = (Inr (fd, ch), s1)"
    using assms(3,4) sys_conns(2)[of s]
    by (cases "sys_accept s"; cases "fst (sys_accept s)") (auto simp: on_server_event_def Let_def slot_frame split: if_splits)
  have s1: "conns s1 = conns s" using sys_conns(2)[of s] ac by simp
  obtain rc oc w where cc: "client_create mem fd fd (sys_state s1) = (rc, oc, w)" by (metis prod_cases3)
  obtain c where oc: "oc = Some c" "\<not> rc < 0"
    using assms(3,4) ac cc s1
    by (cases oc) (auto simp: on_server_event_def Let_def slot_frame split: if_splits)
  obtain t s2 where tm: "sys_time (s1\<lparr>sys_state := w\<rparr>) = (t, s2)" by fastforce
  have s2: "conns s2 = conns s" using sys_conns(1)[of "s1\<lparr>sys_state := w\<rparr>"] tm s1 by simp
  let ?u = "set_conn ?i (\<lambda>_. \<lparr>connected = Some c, cfd = fd, lasttime = t, cwire = ch\<rparr>) s2"
  obtain ra e x where a: "pollitem_add fd EPOLLIN ?u = ((ra, e), x)" by (metis prod_cases3 prod.collapse)
  have x: "conns x = (conns s)[?i := \<lparr>connected = Some c, cfd = fd, lasttime = t, cwire = ch\<rparr>]"
    using pollitem_conns(1)[of fd EPOLLIN ?u] a s2 by (simp add: set_conn_def)
  have r: "conns s' = conns (destroy_client ?i x) \<or> conns s' = conns x"
    using assms(3,4) i ac cc oc tm a by (auto simp: on_server_event_def Let_def slot_frame split: if_splits)
  have j: "j = ?i"
    using r assms(4) x by (cases "j = ?i") (auto simp: slot_frame)
  have free: "connected (conns s ! j) = None" using free_slot_none[of "conns s"] i assms(2) j by simp
  have "connected (conns (destroy_client ?i x) ! j) = None"
    using x i assms(2) j by (simp add: destroy_client_def set_conn_def put_session_def)
  moreover have "connected (conns x ! j) = Some c" using x i assms(2) j by simp
  ultimately show ?thesis using r free client_create_newcomer[OF cc[unfolded oc(1)] assms(1)] by auto
qed

section \<open>A turn\<close>

text \<open>The pass over the slots changes only the slots of the clients that are silent for too long.\<close>

lemma watch_changes:
  "watch_clients trig is n s = (m, s') \<Longrightarrow> fds_inv s \<Longrightarrow> set is \<subseteq> {..<MAX_CLIENT_COUNT} \<Longrightarrow>
     conns s' ! j \<noteq> conns s ! j \<Longrightarrow> connected (conns s ! j) \<noteq> None \<and> lasttime (conns s ! j) \<le> trig"
proof (induction trig "is" n s rule: watch_clients.induct)
  case (2 trig idx "is" n s)
  have rest: "set is \<subseteq> {..<MAX_CLIENT_COUNT}" "idx < MAX_CLIENT_COUNT" using "2.prems"(3) by auto
  show ?case
  proof (cases "connected (conns s ! idx)")
    case None
    then show ?thesis using "2.IH"(1) "2.prems" rest by simp
  next
    case (Some c)
    note d = fds_invD[OF "2.prems"(2) rest(2) Some]
    have len: "idx < length (conns s)" using d(8) rest(2) by simp
    show ?thesis
    proof (cases "lasttime (conns s ! idx) \<le> trig")
      case True
      let ?t = "client_disconnect (session_of idx c s)"
      let ?u = "drop_client idx (put_session idx ?t s)"
      have off: "\<not> client_is_connected (cl ?t)"
        using d by (simp add: session_of_def client_disconnect_def client_is_connected_def disconnect_def)
      have "closes_slot idx s ?u" using drop_disconnected_closes[OF Some len] d by simp
      then have fu: "fds_inv ?u"
        using closes_watched[of s idx ?u] "2.prems"(2) rest(2) Some by (auto simp: watched_def)
      have run: "watch_clients trig is n ?u = (m, s')" using "2.prems"(1) Some True off by (simp add: Let_def)
      show ?thesis
      proof (cases "j = idx")
        case False
        then have "conns ?u ! j = conns s ! j" by (simp add: slot_frame)
        then show ?thesis
          using "2.IH"(3)[OF Some, of ?t "put_session idx ?t s"] True off run fu rest "2.prems"(4) by simp
      qed (use Some True in simp)
    next
      case False
      have on: "client_is_connected (cl (session_of idx c s))"
        using d by (simp add: session_of_def client_is_connected_def)
      note id = put_session_id[OF Some len]
      have "watch_clients trig is (n + 1) s = (m, s')" using "2.prems"(1) Some False on id by (simp add: Let_def)
      then show ?thesis
        using "2.IH"(2)[OF Some, of "session_of idx c s" s] False on id "2.prems" rest by simp
    qed
  qed
qed simp

lemma dispatch_slots:
  assumes "client_mem mem" "fds_inv s" "pollitem_wait_dispatch H mem r s = Some (x, u)"
    "\<forall>evs. r \<noteq> PollClient j evs" "conns u ! j \<noteq> conns s ! j"
  shows "connected (conns s ! j) = None \<and> (\<forall>c. connected (conns u ! j) = Some c \<longrightarrow> newcomer c)"
proof (cases r)
  case (PollServer evs)
  then have "u = on_server_event mem evs s" using assms(3) by (simp add: pollitem_wait_dispatch_def)
  then show ?thesis using server_event_slots[OF assms(1) _ _ assms(5)] fds_inv_base[OF assms(2)] by blast
next
  case (PollClient i evs)
  then have "on_client_event H i evs s = Some u" "j \<noteq> i"
    using assms(3,4) by (auto simp: pollitem_wait_dispatch_def)
  then show ?thesis using client_event_other assms(5) by blast
qed (use assms(3,5) in \<open>simp_all add: pollitem_wait_dispatch_def\<close>)

lemma turn_slots:
  assumes "client_mem mem" "fds_inv s" "listen_inv s" "poll_ready s r" "serve_turn H mem sh r s = Some s'"
    "j < MAX_CLIENT_COUNT"
  shows "\<exists>x u. pollitem_wait_dispatch H mem r s = Some (x, u)
    \<and> (conns s' ! j \<noteq> conns u ! j \<longrightarrow> connected (conns s' ! j) = None \<and> connected (conns u ! j) \<noteq> None
         \<and> lasttime (conns u ! j) \<le> (if sh < 0 then 0 else now s' - sh))"
  using assms(2,3,1,4)
proof (cases rule: serve_turn_steps[where H = H and sh = sh])
  case (stop rc e u x)
  then show ?thesis using assms(5) by (auto simp: slot_frame)
next
  case (pass rc e u trig v ncli x)
  have s': "conns s' = conns x" "now s' = now x"
    using assms(5) pass(10) turn_end_inv[OF pass(7-9), of rc sh] by simp_all
  have nw: "now x = now v" "conns v = conns u" using pass(3,6) by (simp_all add: watched_def same_slots_def)
  have "connected (conns x ! j) = None" if "conns x ! j \<noteq> conns v ! j"
    using pass(6) that assms(6) unfolding watched_def by (metis atLeastLessThan_iff set_upt zero_le)
  moreover have "connected (conns v ! j) \<noteq> None \<and> lasttime (conns v ! j) \<le> trig" if "conns x ! j \<noteq> conns v ! j"
    using watch_changes[OF pass(5,2) _ that] by (simp add: subset_iff)
  ultimately show ?thesis using pass(1,4) s' nw by auto
qed

section \<open>Isolation\<close>

text \<open>
  C9: the clients of a server do not interfere. In a turn of the serving loop, the slot of a
  client without an event is left as it is, connection, buffers and session included, unless
  its client was silent for too long and is dropped; and a free slot can only receive a client
  that has just connected, whose session holds nothing of a previous one: no identifier, no
  permission, no path, no plug, no error, no byte received or to be sent.
\<close>

theorem clients_isolated:
  assumes "client_mem mem" "server_reachable H mem sh s" "poll_ready s r" "serve_turn H mem sh r s = Some s'"
    "j < 3" "\<forall>evs. r \<noteq> PollClient j evs"
  shows "case connected (conns s ! j) of
      Some c \<Rightarrow> conns s' ! j = conns s ! j
        \<or> connected (conns s' ! j) = None \<and> lasttime (conns s ! j) \<le> (if sh < 0 then 0 else now s' - sh)
    | None \<Rightarrow> (\<forall>c. connected (conns s' ! j) = Some c \<longrightarrow> newcomer c)"
proof -
  have inv: "fds_inv s" "listen_inv s" using server_reachable_inv[OF assms(2,1)] by auto
  obtain x u where u: "pollitem_wait_dispatch H mem r s = Some (x, u)"
    "conns s' ! j \<noteq> conns u ! j \<Longrightarrow> connected (conns s' ! j) = None \<and> connected (conns u ! j) \<noteq> None
       \<and> lasttime (conns u ! j) \<le> (if sh < 0 then 0 else now s' - sh)"
    using turn_slots[OF assms(1) inv assms(3-5)] by blast
  have d: "connected (conns s ! j) = None \<and> (\<forall>c. connected (conns u ! j) = Some c \<longrightarrow> newcomer c)"
    if "conns u ! j \<noteq> conns s ! j" using dispatch_slots[OF assms(1) inv(1) u(1) assms(6) that] .
  show ?thesis
    using u(2) d by (cases "conns u ! j = conns s ! j"; cases "conns s' ! j = conns u ! j") (auto split: option.split)
qed

text \<open>The first connection of the server of the example.\<close>

lemma demo_connects:
  "map_option (\<lambda>s. connected (conns s ! 0) = None) (serve_turn demo_server_host demo_client_mem 10 (PollServer EPOLLIN) demo_server)
     = Some False"
  by code_simp

theorem clients_isolated_witness:
  "\<exists>s c. serve_turn demo_server_host demo_client_mem 10 (PollServer EPOLLIN) demo_server = Some s
     \<and> connected (conns s ! 0) = Some c \<and> newcomer c"
proof -
  have p: "poll_ready demo_server (PollServer EPOLLIN)"
    by (simp add: poll_ready_def accepts_fresh_def demo_server_eq demo_start_def)
  obtain s c where s: "serve_turn demo_server_host demo_client_mem 10 (PollServer EPOLLIN) demo_server = Some s"
    "connected (conns s ! 0) = Some c"
    using demo_connects by auto
  have "connected (conns demo_server ! 0) = None" using demo_server_facts(1) by simp
  then show ?thesis
    using clients_isolated[OF demo_client_mem demo_server_reachable p s(1), of 0] s by simp
qed

end
