(* ===== verification/Manager_Lib.thy ===== *)
theory Manager_Lib
  imports Client
begin

text \<open>
  \<open>src/protocol/sec-lsm-manager.c\<close>: the library of the clients of the daemon. A call returns, or
  waits for ever for a peer that says nothing more, or aborts on the assertion of the record
  decoder. The state is the handler with the connection it has, what opening sockets, polling
  and testing the connection give next, the descriptors closed so far and what the callback of
  a display was called with.
\<close>

abbreviation (input) ECONNREFUSED :: int where "ECONNREFUSED \<equiv> 111"

section \<open>Calls that may wait\<close>

datatype 'a run = Returns 'a | Waits | Aborts

fun run_bind :: "'a run \<Rightarrow> ('a \<Rightarrow> 'b run) \<Rightarrow> 'b run" where
  "run_bind (Returns x) f = f x"
| "run_bind Waits f = Waits"
| "run_bind Aborts f = Aborts"

lemma run_bind_cong [fundef_cong]: "r = r' \<Longrightarrow> (\<And>x. r' = Returns x \<Longrightarrow> f x = g x) \<Longrightarrow> run_bind r f = run_bind r' g"
  by (cases r') auto

lemma run_bind_returns: "run_bind r f = Returns y \<longleftrightarrow> (\<exists>x. r = Returns x \<and> f x = Returns y)"
  by (cases r) auto

section \<open>State\<close>

datatype connection_state = state_Disconnected | state_Connected | state_Broken

record slm =
  slm_fd :: int
  synclock :: bool
  slm_state :: connection_state
  slm_prot :: prot
  reply_count :: int
  socketspec :: string
  peer :: chan
  dials :: "(int + int \<times> chan) list"
  poll_errs :: "int list"
  probes :: "int list"
  slm_closed :: "int list"
  shown :: "string list list"

definition slm_link :: "prot \<Rightarrow> chan \<Rightarrow> slm \<Rightarrow> slm" where
  "slm_link p ch s = s\<lparr>slm_prot := p, peer := ch\<rparr>"

text \<open>
  The fields of the reply are pointers to the input buffer of the protocol handler: they are
  read there. They can be fewer than the count recorded when another record was decoded since.
\<close>

definition reply_fields :: "slm \<Rightarrow> string list" where
  "reply_fields s = map (\<lambda>i. cstr (drop (foffs (pfields (slm_prot s)) ! i) (bcontent (inbuf (slm_prot s)))))
     [0..<nat (reply_count s)]"

definition reply_dangling :: "slm \<Rightarrow> bool" where
  "reply_dangling s \<longleftrightarrow> length (foffs (pfields (slm_prot s))) < nat (reply_count s)"

section \<open>Calls of the kernel\<close>

text \<open>\<open>poll\<close> without timeout, retried on \<open>EINTR\<close>: a failure, or one.\<close>

fun poll_next :: "int list \<Rightarrow> int \<times> int list" where
  "poll_next [] = (1, [])"
| "poll_next (e # es) = (if e = EINTR then poll_next es else if e > 0 then (- e, es) else (1, es))"

definition sys_poll :: "slm \<Rightarrow> int \<times> slm" where
  "sys_poll s = (case poll_next (poll_errs s) of (rc, es) \<Rightarrow> (rc, s\<lparr>poll_errs := es\<rparr>))"

text \<open>\<open>write (fd, NULL, 0) == 0\<close>\<close>

definition sys_probe :: "slm \<Rightarrow> bool \<times> slm" where
  "sys_probe s = (case probes s of [] \<Rightarrow> (True, s) | e # es \<Rightarrow> (e = 0, s\<lparr>probes := es\<rparr>))"

text \<open>\<open>socket_open\<close>: \<open>errno\<close>, or the descriptor with its connection.\<close>

definition sys_dial :: "slm \<Rightarrow> (int + int \<times> chan) \<times> slm" where
  "sys_dial s = (case dials s of [] \<Rightarrow> (Inl ECONNREFUSED, s) | r # rs \<Rightarrow> (r, s\<lparr>dials := rs\<rparr>))"

section \<open>Private methods\<close>

definition disconnection :: "connection_state \<Rightarrow> slm \<Rightarrow> slm" where
  "disconnection state s =
     (let s = (if slm_state s = state_Connected then s\<lparr>slm_closed := slm_closed s @ [slm_fd s]\<rparr> else s)
      in s\<lparr>slm_state := state\<rparr>)"

text \<open>The loop of \<open>flushw\<close>, with fuel: a turn uses an event of the connection or writes bytes.\<close>

fun slm_flush_loop :: "nat \<Rightarrow> slm \<Rightarrow> (int \<times> slm) option" where
  "slm_flush_loop 0 s = None"
| "slm_flush_loop (Suc n) s =
     (if \<not> prot_should_write (slm_prot s) then Some (0, s)
      else case prot_write (slm_prot s) (peer s) of (rc, p, ch) \<Rightarrow>
        case (if rc = - EAGAIN then sys_poll (slm_link p ch s) else (rc, slm_link p ch s)) of (rc, s) \<Rightarrow>
          if rc < 0 then Some (rc, s) else slm_flush_loop n s)"

definition slm_fuel :: "slm \<Rightarrow> nat" where
  "slm_fuel s = length (tx (peer s)) + wrokcnt (slm_prot s) + 1"

definition slm_flushw :: "slm \<Rightarrow> int \<times> slm" where
  "slm_flushw s = (case slm_flush_loop (slm_fuel s) s of None \<Rightarrow> (- ELOOP, s) | Some r \<Rightarrow> r)"

text \<open>
  The loop of \<open>send_fields\<close>, with the trials left: a record that does not fit is tried again
  after flushing.
\<close>

fun send_trial :: "nat \<Rightarrow> string list \<Rightarrow> slm \<Rightarrow> int \<times> slm" where
  "send_trial n args s =
     (case putx_loop (slm_prot s) args of (rc, p) \<Rightarrow>
      case (if rc = 0 then prot_put_end p else (rc, p)) of (rc, p) \<Rightarrow>
        if rc = 0 then slm_flushw (s\<lparr>slm_prot := p\<rparr>)
        else
          let s = s\<lparr>slm_prot := prot_put_cancel p\<rparr>
          in case n of
               0 \<Rightarrow> (rc, s)
             | Suc m \<Rightarrow> (case slm_flushw s of (rc, s) \<Rightarrow>
                 if rc \<noteq> 0 then (rc, s) else send_trial m args s))"

declare send_trial.simps [simp del]

definition send_fields :: "string list \<Rightarrow> slm \<Rightarrow> int \<times> slm" where
  "send_fields args = send_trial 1 args"

definition putxkv :: "string \<Rightarrow> string list \<Rightarrow> slm \<Rightarrow> int \<times> slm" where
  "putxkv command optargs = send_fields (take 8 (command # optargs))"

definition wait_input :: "slm \<Rightarrow> (int \<times> slm) run" where
  "wait_input s =
     (case sys_poll s of (rc, s) \<Rightarrow>
        if rc < 0 then Returns (rc, s) else if rx (peer s) = [] then Waits else Returns (0, s))"

lemma read_retry_err_less:
  "read_retry n ch = (Inl e, ch') \<Longrightarrow> rx ch' \<noteq> [] \<Longrightarrow> length (rx ch') < length (rx ch)"
proof (induction n ch rule: read_retry.induct)
  case (1 n ch)
  obtain r c where r: "sys_read n ch = (r, c)" by fastforce
  have c: "r = Inl x \<Longrightarrow> rx c \<noteq> [] \<Longrightarrow> length (rx c) < length (rx ch)" for x
    using r by (auto simp: sys_read_def split: list.splits rx_event.splits if_splits)
  show ?case
  proof (cases "r = Inl EINTR")
    case True
    then have n: "read_retry n c = (Inl e, ch')" using "1.prems"(1) r by (subst (asm) read_retry.simps) simp
    then have "rx c \<noteq> []" using "1.prems"(2) by (subst (asm) read_retry.simps) (auto simp: sys_read_def split: if_splits)
    then show ?thesis using "1.IH"[OF r[symmetric] True refl n "1.prems"(2)] c[OF True] by simp
  next
    case False
    then have "r = Inl e" "c = ch'" using "1.prems"(1) r by (subst (asm) read_retry.simps; auto split: sum.splits if_splits)+
    then show ?thesis using c "1.prems"(2) by simp
  qed
qed

text \<open>\<open>prot_read\<close>, waiting for the input when there is none: zero at the end of the connection.\<close>

function read_more :: "bool \<Rightarrow> slm \<Rightarrow> (int \<times> slm) run" where
  "read_more block s =
     (case prot_read (slm_prot s) (peer s) of (rc, p, ch) \<Rightarrow>
        let s = slm_link p ch s
        in if rc = - EAGAIN \<and> block then
             run_bind (wait_input s) (\<lambda>(rc, s). if rc < 0 then Returns (rc, s) else read_more block s)
           else Returns (rc, s))"
  by pat_completeness auto
termination
proof (relation "measure (\<lambda>(b, s). length (rx (peer s)))")
  fix block s x y p ch t z rc u
  assume a: "(x, y) = prot_read (slm_prot s) (peer s)" "(p, ch) = y" "t = slm_link p ch s"
    "x = - EAGAIN \<and> block" "wait_input t = Returns z" "(rc, u) = z" "\<not> rc < (0 :: int)"
  have ch: "rx ch \<noteq> []" "rx (peer u) = rx ch"
    using a(3,5,6,7) by (auto simp: wait_input_def sys_poll_def slm_link_def split: prod.splits if_splits)
  have "prot_read (slm_prot s) (peer s) = (- EAGAIN, p, ch)" using a(1,2,4) by simp
  then obtain e where e: "read_retry (PROT_MAX_BUFFER_LENGTH - bcount (inbuf (slm_prot s))) (peer s) = (Inl e, ch)"
    by (auto simp: prot_read_def inbuf_read_def split: prod.splits if_splits sum.splits)
  have "length (rx ch) < length (rx (peer s))" by (rule read_retry_err_less[OF e ch(1)])
  then show "((block, u), (block, s)) \<in> measure (\<lambda>(b, s). length (rx (peer s)))" using ch(2) by simp
qed simp

declare read_more.simps [simp del]

lemma read_retry_err_size: "read_retry n ch = (Inl e, ch') \<Longrightarrow> rx_size ch' \<le> rx_size ch"
proof (induction n ch rule: read_retry.induct)
  case (1 n ch)
  obtain r c where r: "sys_read n ch = (r, c)" by fastforce
  show ?case
  proof (cases "r = Inl EINTR")
    case True
    then have "read_retry n c = (Inl e, ch')" using "1.prems" r by (subst (asm) read_retry.simps) simp
    then show ?thesis using "1.IH"[OF r[symmetric] True] sys_read_size(1) r True by fastforce
  next
    case False
    then have "r = Inl e" "c = ch'" using "1.prems" r by (subst (asm) read_retry.simps; auto split: sum.splits if_splits)+
    then show ?thesis using sys_read_size(1) r by blast
  qed
qed

lemma prot_read_err_size: "prot_read p ch = (rc, q, ch') \<Longrightarrow> rc < 0 \<Longrightarrow> rx_size ch' \<le> rx_size ch"
  by (auto simp: prot_read_def inbuf_read_def split: prod.splits if_splits sum.splits dest: read_retry_err_size)

lemma wait_input_same: "wait_input s = Returns (rc, t) \<Longrightarrow> \<exists>es. t = s\<lparr>poll_errs := es\<rparr> \<and> rc \<le> 0"
  by (auto simp: wait_input_def sys_poll_def split: prod.splits if_splits)

lemma read_more_size:
  "read_more block s = Returns (rc, t) \<Longrightarrow> rc > 0 \<Longrightarrow> rx_size (peer t) < rx_size (peer s)"
proof (induction block s rule: read_more.induct)
  case (1 block s)
  obtain k p ch where r: "prot_read (slm_prot s) (peer s) = (k, p, ch)" by (metis prod_cases3)
  let ?s = "slm_link p ch s"
  note run = "1.prems"(1)[unfolded read_more.simps[of block s] r prod.case Let_def]
  show ?case
  proof (cases "k = - EAGAIN \<and> block")
    case True
    then obtain w u where w: "wait_input ?s = Returns (w, u)"
      "(if w < 0 then Returns (w, u) else read_more block u) = Returns (rc, t)"
      using run by (auto simp: run_bind_returns)
    then have "\<not> w < 0" using "1.prems"(2) by auto
    then have m: "read_more block u = Returns (rc, t)" using w(2) by simp
    have "rx_size (peer t) < rx_size (peer u)"
      using "1.IH"[OF r[symmetric] refl refl True w(1) refl \<open>\<not> w < 0\<close> m "1.prems"(2)] .
    moreover have "peer u = ch" using wait_input_same[OF w(1)] by (auto simp: slm_link_def)
    ultimately show ?thesis using prot_read_err_size[OF r] True by simp
  next
    case False
    then have "rc = k" "t = ?s" using run by auto
    then show ?thesis using prot_read_size[OF r] "1.prems"(2) by (simp add: slm_link_def)
  qed
qed

text \<open>The count of fields of the next reply, or an error.\<close>

function wait_reply :: "bool \<Rightarrow> slm \<Rightarrow> (int \<times> slm) run" where
  "wait_reply block s =
     (case prot_get (prot_next (slm_prot s)) of
        None \<Rightarrow> Aborts
      | Some (rc, p) \<Rightarrow>
          let s = s\<lparr>slm_prot := p\<rparr>
          in if rc > 0 then Returns (rc, s\<lparr>reply_count := rc\<rparr>)
             else if rc = - EMSGSIZE then Returns (- EPIPE, disconnection state_Broken s)
             else if rc < 0 then
               run_bind (read_more block s) (\<lambda>(rc, s).
                 if rc = 0 then Returns (- EPIPE, disconnection state_Broken s)
                 else if rc < 0 then Returns (rc, s)
                 else wait_reply block s)
             else wait_reply block s)"
  by pat_completeness auto
termination
proof (relation "(\<lambda>(b, s). rx_size (peer s)) <*mlex*> measure (\<lambda>(b, s). backlog (prot_next (slm_prot s)))")
  show "wf ((\<lambda>(b, s). rx_size (peer s)) <*mlex*> measure (\<lambda>(b, s). backlog (prot_next (slm_prot s))))"
    by (intro wf_mlex) simp
  fix block and s t :: slm and y rc p
  assume a: "prot_get (prot_next (slm_prot s)) = Some y" "(rc, p) = y" "t = s\<lparr>slm_prot := p\<rparr>"
  show "((block, u), (block, s)) \<in> (\<lambda>(b, s). rx_size (peer s)) <*mlex*> measure (\<lambda>(b, s). backlog (prot_next (slm_prot s)))"
    if "read_more block t = Returns z" "(k, u) = z" "k \<noteq> 0" "\<not> k < 0" for z k u
    using read_more_size[of block t k u] that a(3) by (intro mlex_less) auto
  show "((block, t), (block, s)) \<in> (\<lambda>(b, s). rx_size (peer s)) <*mlex*> measure (\<lambda>(b, s). backlog (prot_next (slm_prot s)))"
    if "\<not> rc < 0"
    using prot_get_backlog[of "prot_next (slm_prot s)" rc p] a that by (intro mlex_leq) auto
qed

declare wait_reply.simps [simp del]

text \<open>\<open>wait_reply\<close> never returns zero (\<open>wait_reply_result\<close> below): the loop of \<open>wait_any_reply\<close> runs once.\<close>

definition wait_any_reply :: "slm \<Rightarrow> (int \<times> slm) run" where
  "wait_any_reply s = wait_reply True s"

definition raw_wait_done_or_error :: "slm \<Rightarrow> (int \<times> slm) run" where
  "raw_wait_done_or_error s = run_bind (wait_any_reply s) (\<lambda>(rc, s). Returns
     (if rc > 0 then
        (if reply_fields s ! 0 = n_done then rc
         else if reply_fields s ! 0 = n_error then - EPROTO
         else - ECANCELED, s)
      else (rc, s)))"

definition wait_done_or_error :: "slm \<Rightarrow> (int \<times> slm) run" where
  "wait_done_or_error s = run_bind (raw_wait_done_or_error s) (\<lambda>(rc, s). Returns (if rc < 0 then rc else 0, s))"

definition connection :: "slm \<Rightarrow> (int \<times> slm) run" where
  "connection s =
     (let s = s\<lparr>reply_count := - 1, slm_prot := prot_reset (slm_prot s)\<rparr>
      in case sys_dial s of
           (Inl e, s) \<Rightarrow> Returns (- e, s\<lparr>slm_fd := - 1\<rparr>)
         | (Inr (fd, ch), s) \<Rightarrow>
             (case putxkv n_sec_lsm_manager [''1''] (s\<lparr>slm_fd := fd, peer := ch\<rparr>) of (rc, s) \<Rightarrow>
                if rc \<ge> 0 then
                  run_bind (wait_any_reply s) (\<lambda>(rc, s). Returns
                    (if rc \<ge> 0 then
                       (if reply_count s \<ge> 2 \<and> reply_fields s ! 0 = n_done \<and> reply_fields s ! 1 = ''1''
                        then (0, s\<lparr>slm_state := state_Connected\<rparr>)
                        else (- EPROTO, disconnection state_Broken s))
                     else (rc, disconnection state_Broken s)))
                else Returns (rc, disconnection state_Broken s)))"

definition ensure_opened :: "slm \<Rightarrow> (int \<times> slm) run" where
  "ensure_opened s =
     (case slm_state s of
        state_Disconnected \<Rightarrow> connection s
      | state_Connected \<Rightarrow>
          (case sys_probe s of (ok, s) \<Rightarrow>
             Returns (if ok then (0, s) else (- EPIPE, disconnection state_Broken s)))
      | state_Broken \<Rightarrow> Returns (- EPIPE, s))"

text \<open>Lock, open, send; then \<open>aftersend\<close>.\<close>

definition sync_process :: "string list \<Rightarrow> (slm \<Rightarrow> (int \<times> slm) run) \<Rightarrow> slm \<Rightarrow> (int \<times> slm) run" where
  "sync_process args aftersend s =
     (if synclock s then Returns (- EBUSY, s)
      else
        run_bind
          (run_bind (ensure_opened (s\<lparr>synclock := True\<rparr>)) (\<lambda>(rc, s).
             if rc \<ge> 0 then (case send_fields args s of (rc, s) \<Rightarrow> if rc \<ge> 0 then aftersend s else Returns (rc, s))
             else Returns (rc, s)))
          (\<lambda>(rc, s). Returns (rc, s\<lparr>synclock := False\<rparr>)))"

section \<open>Public methods\<close>

text \<open>The value of the environment variable is \<open>envvalue\<close>; a NULL pointer is \<open>None\<close>.\<close>

definition sec_lsm_manager_get_socket :: "string option \<Rightarrow> string option \<Rightarrow> string" where
  "sec_lsm_manager_get_socket envvalue value =
     (case value of
        Some v \<Rightarrow> v
      | None \<Rightarrow> (case envvalue of Some v \<Rightarrow> v | None \<Rightarrow> ''unix:/run/sec-lsm-manager.socket''))"

text \<open>
  \<open>calloc\<close> and \<open>strdup\<close> succeed or not, \<open>mem\<close> is the memory of the protocol handler; \<open>start\<close> is
  the state of the kernel.
\<close>

definition sec_lsm_manager_create ::
  "string option \<Rightarrow> string option \<Rightarrow> bool \<Rightarrow> bool \<Rightarrow> prot option \<Rightarrow> slm \<Rightarrow> int \<times> slm option" where
  "sec_lsm_manager_create envvalue spec ok_calloc ok_strdup mem start =
     (if \<not> ok_calloc then (- ENOMEM, None)
      else if \<not> ok_strdup then (- ENOMEM, None)
      else case prot_create mem of
        (rc, None) \<Rightarrow> (rc, None)
      | (rc, Some p) \<Rightarrow>
          if rc < 0 then (rc, None)
          else (0, Some (start\<lparr>slm_fd := 0, synclock := False, slm_state := state_Disconnected, slm_prot := p,
                 reply_count := 0, socketspec := sec_lsm_manager_get_socket envvalue spec\<rparr>)))"

definition sec_lsm_manager_destroy :: "slm \<Rightarrow> slm" where
  "sec_lsm_manager_destroy s = disconnection state_Broken s"

definition sec_lsm_manager_disconnect :: "slm \<Rightarrow> slm" where
  "sec_lsm_manager_disconnect s = disconnection state_Disconnected s"

definition sec_lsm_manager_set_id :: "string option \<Rightarrow> slm \<Rightarrow> (int \<times> slm) run" where
  "sec_lsm_manager_set_id i s =
     (case i of None \<Rightarrow> Returns (- EINVAL, s) | Some i \<Rightarrow> sync_process [n_id, i] wait_done_or_error s)"

definition sec_lsm_manager_add_path :: "string option \<Rightarrow> string option \<Rightarrow> slm \<Rightarrow> (int \<times> slm) run" where
  "sec_lsm_manager_add_path p ptype s =
     (case (p, ptype) of
        (Some p, Some t) \<Rightarrow> sync_process [n_path, p, t] wait_done_or_error s
      | _ \<Rightarrow> Returns (- EINVAL, s))"

definition sec_lsm_manager_add_plug ::
  "string option \<Rightarrow> string option \<Rightarrow> string option \<Rightarrow> slm \<Rightarrow> (int \<times> slm) run" where
  "sec_lsm_manager_add_plug exp iid imp s =
     (case (exp, iid, imp) of
        (Some e, Some i, Some d) \<Rightarrow> sync_process [n_plug, e, i, d] wait_done_or_error s
      | _ \<Rightarrow> Returns (- EINVAL, s))"

definition sec_lsm_manager_add_permission :: "string option \<Rightarrow> slm \<Rightarrow> (int \<times> slm) run" where
  "sec_lsm_manager_add_permission p s =
     (case p of None \<Rightarrow> Returns (- EINVAL, s) | Some p \<Rightarrow> sync_process [n_permission, p] wait_done_or_error s)"

definition sec_lsm_manager_clear :: "slm \<Rightarrow> (int \<times> slm) run" where
  "sec_lsm_manager_clear s = sync_process [n_clear] wait_done_or_error s"

definition sec_lsm_manager_install :: "slm \<Rightarrow> (int \<times> slm) run" where
  "sec_lsm_manager_install s = sync_process [n_install] wait_done_or_error s"

definition sec_lsm_manager_uninstall :: "slm \<Rightarrow> (int \<times> slm) run" where
  "sec_lsm_manager_uninstall s = sync_process [n_uninstall] wait_done_or_error s"

definition wait_log_reply :: "slm \<Rightarrow> (int \<times> slm) run" where
  "wait_log_reply s = run_bind (raw_wait_done_or_error s) (\<lambda>(rc, s). Returns
     (if rc > 0 then of_bool (reply_count s \<ge> 2 \<and> reply_fields s ! 1 = n_on) else rc, s))"

definition sec_lsm_manager_log :: "bool \<Rightarrow> bool \<Rightarrow> slm \<Rightarrow> (int \<times> slm) run" where
  "sec_lsm_manager_log on off s =
     sync_process (take (if on \<or> off then 2 else 1) [n_log, if off then n_off else n_on]) wait_log_reply s"

lemma wait_reply_progress:
  "wait_reply block s = Returns (rc, t) \<Longrightarrow> rc > 0 \<Longrightarrow> rx_size (peer t) < rx_size (peer s)
     \<or> rx_size (peer t) \<le> rx_size (peer s) \<and> backlog (prot_next (slm_prot t)) < backlog (prot_next (slm_prot s))"
proof (induction block s rule: wait_reply.induct)
  case (1 block s)
  obtain k p where g: "prot_get (prot_next (slm_prot s)) = Some (k, p)"
    using "1.prems"(1) by (subst (asm) wait_reply.simps) (auto split: option.splits)
  let ?s = "s\<lparr>slm_prot := p\<rparr>"
  note run = "1.prems"(1)[unfolded wait_reply.simps[of block s] g option.case prod.case Let_def]
  have less: "backlog (prot_next p) < backlog (prot_next (slm_prot s))" if "k \<ge> 0"
    using prot_get_backlog[OF g that] .
  consider (got) "k > 0" | (big) "k = - EMSGSIZE" | (more) "k < 0" "k \<noteq> - EMSGSIZE" | (again) "k = 0" by linarith
  then show ?case
  proof cases
    case got
    then have "t = ?s\<lparr>reply_count := k\<rparr>" using run by auto
    then show ?thesis using less got by simp
  next
    case big
    then show ?thesis using run "1.prems"(2) by simp
  next
    case more
    then obtain w u where w: "read_more block ?s = Returns (w, u)"
      "(if w = 0 then Returns (- EPIPE, disconnection state_Broken u) else if w < 0 then Returns (w, u)
        else wait_reply block u) = Returns (rc, t)"
      using run by (auto simp: run_bind_returns)
    then have c: "w > 0" using "1.prems"(2) by (auto split: if_splits)
    then have r: "wait_reply block u = Returns (rc, t)" using w(2) by simp
    have "rx_size (peer u) < rx_size (peer s)" using read_more_size[OF w(1) c] by simp
    moreover have "rx_size (peer t) \<le> rx_size (peer u)"
      using "1.IH"(1)[OF g refl refl _ more(2) more(1) w(1) refl _ _ r "1.prems"(2)] c more(1) by auto
    ultimately show ?thesis by simp
  next
    case again
    then have "wait_reply block ?s = Returns (rc, t)" using run by simp
    from "1.IH"(2)[OF g refl refl _ _ _ this "1.prems"(2)] show ?thesis using again less by auto
  qed
qed

text \<open>The callback gets the fields of a reply but the first one.\<close>

function show_replies :: "int \<Rightarrow> slm \<Rightarrow> (int \<times> slm) run" where
  "show_replies rc s =
     (if rc > 2 \<and> reply_fields s ! 0 = n_string then
        run_bind (wait_reply True (s\<lparr>shown := shown s @ [tl (reply_fields s)]\<rparr>)) (\<lambda>(rc, s). show_replies rc s)
      else Returns (rc, s))"
  by pat_completeness auto
termination
proof (relation "(\<lambda>(rc, s). of_bool (rc > 2) :: nat) <*mlex*> (\<lambda>(rc, s). rx_size (peer s))
     <*mlex*> measure (\<lambda>(rc, s). backlog (prot_next (slm_prot s)))")
  show "wf ((\<lambda>(rc, s). of_bool (rc > (2 :: int)) :: nat) <*mlex*> (\<lambda>(rc, s). rx_size (peer s))
     <*mlex*> measure (\<lambda>(rc, s). backlog (prot_next (slm_prot s))))"
    by (intro wf_mlex) simp
  fix rc k :: int and s u :: slm and z
  assume a: "rc > 2 \<and> reply_fields s ! 0 = n_string"
    "wait_reply True (s\<lparr>shown := shown s @ [tl (reply_fields s)]\<rparr>) = Returns z" "(k, u) = z"
  show "((k, u), (rc, s)) \<in> (\<lambda>(rc, s). of_bool (rc > (2 :: int)) :: nat) <*mlex*> (\<lambda>(rc, s). rx_size (peer s))
     <*mlex*> measure (\<lambda>(rc, s). backlog (prot_next (slm_prot s)))"
  proof (cases "k > 2")
    case False
    then show ?thesis using a(1) by (intro mlex_less) simp
  next
    case True
    have p: "rx_size (peer u) < rx_size (peer s) \<or> rx_size (peer u) \<le> rx_size (peer s)
        \<and> backlog (prot_next (slm_prot u)) < backlog (prot_next (slm_prot s))"
      using wait_reply_progress[of True "s\<lparr>shown := shown s @ [tl (reply_fields s)]\<rparr>" k u] a True by simp
    have "((k, u), (rc, s)) \<in> (\<lambda>(rc, s). rx_size (peer s)) <*mlex*> measure (\<lambda>(rc, s). backlog (prot_next (slm_prot s)))"
    proof (cases "rx_size (peer u) < rx_size (peer s)")
      case True
      then show ?thesis by (intro mlex_less) simp
    next
      case False
      then show ?thesis using p by (intro mlex_leq) simp_all
    qed
    then show ?thesis using a(1) True by - (rule mlex_leq, simp_all)
  qed
qed

declare show_replies.simps [simp del]

definition wait_display_replies :: "slm \<Rightarrow> (int \<times> slm) run" where
  "wait_display_replies s =
     run_bind (run_bind (wait_reply True s) (\<lambda>(rc, s). show_replies rc s)) (\<lambda>(rc, s). Returns
       (if rc > 0 \<and> reply_fields s ! 0 = n_error then - 1 else rc, s))"

definition sec_lsm_manager_display :: "slm \<Rightarrow> (int \<times> slm) run" where
  "sec_lsm_manager_display s = sync_process [n_display] wait_display_replies s"

text \<open>
  The text of the last error: the count of bytes allocated and the text written there. The size
  of the last field only is counted. \<open>None\<close> when the fields of the reply are gone.
\<close>

fun message_size :: "bool \<Rightarrow> nat \<Rightarrow> string list \<Rightarrow> nat" where
  "message_size first n [] = n"
| "message_size first n (f # r) = message_size False (length f + (if first then 0 else 1)) r"

fun message_text :: "bool \<Rightarrow> string list \<Rightarrow> string" where
  "message_text first [] = []"
| "message_text first (f # r) = (if first then [] else [SPACE]) @ f @ message_text False r"

definition sec_lsm_manager_error_message :: "bool \<Rightarrow> slm \<Rightarrow> (int \<times> (nat \<times> string) option) option" where
  "sec_lsm_manager_error_message ok_malloc s =
     (if reply_count s < 1 then Some (- EINVAL, None)
      else if reply_dangling s then None
      else if reply_fields s ! 0 \<noteq> n_error then Some (- EINVAL, None)
      else if \<not> ok_malloc then Some (- ENOMEM, None)
      else
        let args = tl (reply_fields s)
        in Some (0, Some (message_size True 0 args + 1, message_text True args)))"

end
