(* ===== verification/Manager_Props.thy ===== *)
theory Manager_Props
  imports Manager_Lib Client_Props
begin

text \<open>
  What the library of the clients guarantees: a call never aborts, keeps its handler well formed
  and its lock free; the descriptor a failed negotiation loses, and the size of the text of an error.
\<close>

section \<open>The invariant of a handler\<close>

definition slm_inv :: "slm \<Rightarrow> bool" where
  "slm_inv s \<longleftrightarrow> in_inv (slm_prot s) \<and> out_inv (slm_prot s) \<and> outfields (slm_prot s) = 0
     \<and> \<not> allow_empty (slm_prot s)"

definition run_ok :: "(slm \<Rightarrow> bool) \<Rightarrow> (int \<times> slm) run \<Rightarrow> bool" where
  "run_ok P r \<longleftrightarrow> (case r of Returns (rc, t) \<Rightarrow> P t | Waits \<Rightarrow> True | Aborts \<Rightarrow> False)"

lemma run_ok_simps [simp]:
  "run_ok P (Returns (rc, t)) = P t" "run_ok P Waits" "\<not> run_ok P Aborts"
  by (simp_all add: run_ok_def)

lemma run_ok_bind:
  "run_ok P r \<Longrightarrow> (\<And>rc t. r = Returns (rc, t) \<Longrightarrow> P t \<Longrightarrow> run_ok Q (f (rc, t))) \<Longrightarrow> run_ok Q (run_bind r f)"
  by (cases r) auto

lemma slm_inv_upd [simp]:
  "slm_inv (s\<lparr>synclock := b\<rparr>) = slm_inv s" "slm_inv (s\<lparr>slm_fd := f\<rparr>) = slm_inv s"
  "slm_inv (s\<lparr>reply_count := n\<rparr>) = slm_inv s" "slm_inv (s\<lparr>slm_state := st\<rparr>) = slm_inv s"
  "slm_inv (s\<lparr>shown := x\<rparr>) = slm_inv s" "slm_inv (s\<lparr>peer := ch\<rparr>) = slm_inv s"
  "slm_inv (s\<lparr>poll_errs := es\<rparr>) = slm_inv s" "slm_inv (disconnection st s) = slm_inv s"
  "slm_inv (s\<lparr>slm_closed := l\<rparr>) = slm_inv s"
  "slm_inv (s\<lparr>dials := ds\<rparr>) = slm_inv s" "slm_inv (s\<lparr>probes := es\<rparr>) = slm_inv s"
  by (simp_all add: slm_inv_def disconnection_def Let_def)

text \<open>What talking on the connection keeps: the lock, the state, the descriptors.\<close>

definition same_conn :: "slm \<Rightarrow> slm \<Rightarrow> bool" where
  "same_conn s t \<longleftrightarrow> synclock t = synclock s \<and> slm_state t = slm_state s \<and> slm_fd t = slm_fd s
     \<and> slm_closed t = slm_closed s \<and> probes t = probes s \<and> dials t = dials s"

lemma same_conn_refl [simp]: "same_conn s s"
  by (simp add: same_conn_def)

lemma same_conn_trans: "same_conn s t \<Longrightarrow> same_conn t u \<Longrightarrow> same_conn s u"
  by (simp add: same_conn_def)

section \<open>Sending\<close>

lemma sys_poll_same: "sys_poll s = (rc, t) \<Longrightarrow> \<exists>es. t = s\<lparr>poll_errs := es\<rparr>"
  by (auto simp: sys_poll_def split: prod.splits)

lemma slm_write_inv:
  assumes "slm_inv s" "prot_write (slm_prot s) (peer s) = (rc, p, ch)"
  shows "slm_inv (slm_link p ch s) \<and> same_in (slm_prot s) p \<and> rx ch = rx (peer s)"
proof -
  have "out_inv (slm_prot s)" using assms(1) by (simp add: slm_inv_def)
  from assms(2) this have "out_inv p \<and> outfields p = outfields (slm_prot s) \<and> same_in (slm_prot s) p \<and> rx ch = rx (peer s)"
  proof (cases rule: prot_write_cases)
    case nodata
    then show ?thesis using assms(1) by (simp add: slm_inv_def same_in_def)
  next
    case error
    then show ?thesis using assms(1) by (simp add: slm_inv_def same_in_def)
  next
    case wrote
    then show ?thesis by simp
  qed
  then show ?thesis using assms(1) same_in_inv[of "slm_prot s" p] by (simp add: slm_inv_def slm_link_def same_in_def)
qed

text \<open>Sending leaves the input side alone.\<close>

definition sends :: "slm \<Rightarrow> slm \<Rightarrow> bool" where
  "sends s t \<longleftrightarrow> slm_inv t \<and> same_in (slm_prot s) (slm_prot t) \<and> rx (peer t) = rx (peer s) \<and> same_conn s t
     \<and> shown t = shown s"

lemma sends_refl: "slm_inv s \<Longrightarrow> sends s s"
  by (simp add: sends_def same_in_def)

lemma sends_trans: "sends s t \<Longrightarrow> sends t u \<Longrightarrow> sends s u"
  by (auto simp: sends_def intro: same_in_trans same_conn_trans)

lemma slm_flush_loop_sends: "slm_flush_loop n s = Some (rc, t) \<Longrightarrow> slm_inv s \<Longrightarrow> sends s t"
proof (induction n arbitrary: s)
  case (Suc n)
  obtain r p ch where w: "prot_write (slm_prot s) (peer s) = (r, p, ch)" by (metis prod_cases3)
  let ?u = "slm_link p ch s"
  obtain k v where q: "(if r = - EAGAIN then sys_poll ?u else (r, ?u)) = (k, v)" by fastforce
  have u: "sends s ?u" using slm_write_inv[OF Suc.prems(2) w] by (simp add: sends_def same_conn_def slm_link_def)
  have v: "sends ?u v" using q u sys_poll_same[of ?u k v]
    by (auto simp: sends_def same_in_def same_conn_def split: if_splits)
  note run = Suc.prems(1)[unfolded slm_flush_loop.simps w prod.case q]
  show ?case
  proof (cases "prot_should_write (slm_prot s) \<and> \<not> k < 0")
    case True
    then have "slm_flush_loop n v = Some (rc, t)" using run by simp
    then show ?thesis using Suc.IH[of v] v u sends_trans by (metis sends_def)
  next
    case False
    then have "t = s \<or> t = v" using run by (auto split: if_splits)
    then show ?thesis using u v Suc.prems(2) sends_trans sends_refl by blast
  qed
qed simp

lemma slm_flushw_sends: "slm_flushw s = (rc, t) \<Longrightarrow> slm_inv s \<Longrightarrow> sends s t"
  by (cases "slm_flush_loop (slm_fuel s) s") (auto simp: slm_flushw_def intro: slm_flush_loop_sends sends_refl)

text \<open>The turns allowed are enough.\<close>

lemma slm_flush_loop_returns:
  "slm_inv s \<Longrightarrow> length (tx (peer s)) + wrokcnt (slm_prot s) < n \<Longrightarrow> slm_flush_loop n s \<noteq> None"
proof (induction n arbitrary: s)
  case (Suc n)
  show ?case
  proof (cases "prot_should_write (slm_prot s)")
    case True
    obtain r p ch where w: "prot_write (slm_prot s) (peer s) = (r, p, ch)" by (metis prod_cases3)
    let ?u = "slm_link p ch s"
    obtain k v where q: "(if r = - EAGAIN then sys_poll ?u else (r, ?u)) = (k, v)" by fastforce
    have "slm_inv ?u" using slm_write_inv[OF Suc.prems(1) w] by simp
    then have v: "slm_inv v" "peer v = ch" "slm_prot v = p"
      using q sys_poll_same[of ?u k v] by (auto simp: slm_link_def split: if_splits)
    have "length (tx ch) + wrokcnt p < length (tx (peer s)) + wrokcnt (slm_prot s)"
      using prot_write_progress[OF w] Suc.prems(1) True by (simp add: slm_inv_def prot_should_write_def)
    then have "slm_flush_loop n v \<noteq> None" using Suc.IH[OF v(1)] v Suc.prems(2) by simp
    then show ?thesis using True w q by simp
  qed simp
qed simp

text \<open>One trial puts the record as \<open>prot_put\<close> does.\<close>

lemma put_trial:
  assumes "args \<noteq> []"
  shows "\<exists>rc q. (case putx_loop p args of (rc, p) \<Rightarrow> if rc = 0 then prot_put_end p else (rc, p)) = (rc, q)
     \<and> prot_put p (map Some args) = (rc, if rc \<noteq> 0 then prot_put_cancel q else q)"
  by (auto simp: prot_put_def putx_loop_fields Let_def split: prod.splits)

lemma send_trial_unfold:
  assumes "args \<noteq> []" "prot_put (slm_prot s) (map Some args) = (rc, p)"
  shows "send_trial n args s =
     (if rc = 0 then slm_flushw (s\<lparr>slm_prot := p\<rparr>)
      else case n of 0 \<Rightarrow> (rc, s\<lparr>slm_prot := p\<rparr>)
        | Suc m \<Rightarrow> (case slm_flushw (s\<lparr>slm_prot := p\<rparr>) of (rc, s) \<Rightarrow>
            if rc \<noteq> 0 then (rc, s) else send_trial m args s))"
proof -
  obtain r q where r: "(case putx_loop (slm_prot s) args of (rc, p) \<Rightarrow> if rc = 0 then prot_put_end p else (rc, p)) = (r, q)"
    "prot_put (slm_prot s) (map Some args) = (r, if r \<noteq> 0 then prot_put_cancel q else q)"
    using put_trial[OF assms(1), of "slm_prot s"] by blast
  obtain r1 p1 where 1: "putx_loop (slm_prot s) args = (r1, p1)" by fastforce
  have 2: "(if r1 = 0 then prot_put_end p1 else (r1, p1)) = (r, q)" using r(1) 1 by simp
  have e: "rc = r" "p = (if r \<noteq> 0 then prot_put_cancel q else q)" using r(2) assms(2) by auto
  show ?thesis
    unfolding e by (cases "r = 0") (simp_all add: send_trial.simps[of n args s] 1 2 Let_def)
qed

lemma put_sends:
  assumes "slm_inv s" "args \<noteq> []" "prot_put (slm_prot s) (map Some args) = (rc, p)"
  shows "sends s (s\<lparr>slm_prot := p\<rparr>) \<and> peer (s\<lparr>slm_prot := p\<rparr>) = peer s
    \<and> (if bcount (outbuf (slm_prot s)) + length (encode args) \<le> PROT_MAX_BUFFER_LENGTH
       then rc = 0 \<and> obytes (outbuf p) = obytes (outbuf (slm_prot s)) @ encode args
       else rc = - ECANCELED \<and> obytes (outbuf p) = obytes (outbuf (slm_prot s)))"
proof -
  have "out_inv p \<and> outfields p = 0 \<and> same_in (slm_prot s) p \<and>
     (if bcount (outbuf (slm_prot s)) + length (encode args) \<le> PROT_MAX_BUFFER_LENGTH
       then rc = 0 \<and> obytes (outbuf p) = obytes (outbuf (slm_prot s)) @ encode args
       else rc = - ECANCELED \<and> obytes (outbuf p) = obytes (outbuf (slm_prot s)))"
    using prot_put_record[OF assms(3) _ _ assms(2)] assms(1) by (simp add: slm_inv_def)
  then show ?thesis
    using assms(1) same_in_inv[of "slm_prot s" p] by (simp add: slm_inv_def sends_def same_conn_def same_in_def)
qed

lemma send_trial_sends: "slm_inv s \<Longrightarrow> args \<noteq> [] \<Longrightarrow> send_trial n args s = (rc, t) \<Longrightarrow> sends s t"
proof (induction n arbitrary: s)
  case 0
  obtain r p where p: "prot_put (slm_prot s) (map Some args) = (r, p)" by fastforce
  note u = put_sends[OF 0(1,2) p]
  show ?case
    using 0(3) u slm_flushw_sends[of "s\<lparr>slm_prot := p\<rparr>"] sends_trans[of s "s\<lparr>slm_prot := p\<rparr>"]
    by (auto simp: send_trial_unfold[OF 0(2) p] sends_def split: if_splits)
next
  case (Suc m)
  obtain r p where p: "prot_put (slm_prot s) (map Some args) = (r, p)" by fastforce
  let ?u = "s\<lparr>slm_prot := p\<rparr>"
  obtain k v where f: "slm_flushw ?u = (k, v)" by fastforce
  have u: "sends s ?u" using put_sends[OF Suc.prems(1,2) p] by blast
  then have v: "sends ?u v" using slm_flushw_sends[OF f] by (simp add: sends_def)
  have sv: "sends s v" by (rule sends_trans[OF u v])
  show ?case
  proof (cases "r = 0 \<or> k \<noteq> 0")
    case True
    then have "t = v" using Suc.prems(3) f by (auto simp: send_trial_unfold[OF Suc.prems(2) p] split: if_splits)
    then show ?thesis using sv by simp
  next
    case False
    then have "send_trial m args v = (rc, t)" using Suc.prems(3) f by (simp add: send_trial_unfold[OF Suc.prems(2) p])
    then have "sends v t" using Suc.IH[of v] Suc.prems(2) sv by (simp add: sends_def)
    then show ?thesis using sv sends_trans by blast
  qed
qed

section \<open>Receiving\<close>

lemma slm_read_inv:
  assumes "slm_inv s" "prot_read (slm_prot s) (peer s) = (rc, p, ch)"
  shows "slm_inv (slm_link p ch s) \<and> same_conn s (slm_link p ch s)"
proof -
  have "in_inv (slm_prot s)" using assms(1) by (simp add: slm_inv_def)
  from assms(2) this have "in_inv p \<and> same_out (slm_prot s) p"
    by (cases rule: prot_read_cases) (use assms(1) in \<open>simp_all add: slm_inv_def\<close>)
  then show ?thesis
    using assms(1) same_out_inv[of "slm_prot s" p] by (simp add: slm_inv_def slm_link_def same_conn_def same_out_def)
qed

lemma read_more_ok: "slm_inv s \<Longrightarrow> run_ok (\<lambda>t. slm_inv t \<and> same_conn s t) (read_more block s)"
proof (induction block s rule: read_more.induct)
  case (1 block s)
  obtain k p ch where r: "prot_read (slm_prot s) (peer s) = (k, p, ch)" by (metis prod_cases3)
  let ?s = "slm_link p ch s"
  have i: "slm_inv ?s" "same_conn s ?s" using slm_read_inv[OF "1.prems" r] by auto
  show ?case
  proof (cases "k = - EAGAIN \<and> block")
    case True
    have "run_ok (\<lambda>t. slm_inv t \<and> same_conn s t) (run_bind (wait_input ?s)
        (\<lambda>(rc, s). if rc < 0 then Returns (rc, s) else read_more block s))"
    proof (cases "wait_input ?s")
      case (Returns x)
      obtain w u where x: "x = (w, u)" by fastforce
      obtain es where u: "u = ?s\<lparr>poll_errs := es\<rparr>" using wait_input_same[of ?s w u] Returns x by auto
      have iu: "slm_inv u" "same_conn s u" using i by (simp_all add: u same_conn_def)
      show ?thesis
      proof (cases "w < 0")
        case True
        then show ?thesis using Returns x iu by simp
      next
        case False
        have "run_ok (\<lambda>t. slm_inv t \<and> same_conn u t) (read_more block u)"
          using "1.IH"[OF r[symmetric] refl refl True _ refl False iu(1)] Returns x by simp
        then have "run_ok (\<lambda>t. slm_inv t \<and> same_conn s t) (read_more block u)"
          using iu(2) same_conn_trans by (cases "read_more block u") (auto simp: run_ok_def)
        then show ?thesis using Returns x False by simp
      qed
    next
      case Aborts
      then show ?thesis by (simp add: wait_input_def split: prod.splits if_splits)
    qed simp
    moreover have "read_more block s = run_bind (wait_input ?s)
        (\<lambda>(rc, s). if rc < 0 then Returns (rc, s) else read_more block s)"
      using True r by (subst read_more.simps) simp
    ultimately show ?thesis by simp
  next
    case False
    then show ?thesis using i r by (auto simp: read_more.simps[of block s] Let_def)
  qed
qed

lemma next_fields_nonempty: "next_fields False w = (Some fl, rest) \<Longrightarrow> fl \<noteq> []"
proof (induction "length w" arbitrary: w rule: less_induct)
  case less
  have ih: "next_record w = Some (f, r) \<Longrightarrow> next_fields False r = (Some fl, rest) \<Longrightarrow> fl \<noteq> []" for f r
    using less.hyps[of r] next_record_shorter by blast
  show ?case using less.prems ih by (subst (asm) next_fields.simps) (auto split: option.splits if_splits)
qed

lemma slm_get:
  assumes "slm_inv s"
  shows "\<exists>rc p. prot_get (prot_next (slm_prot s)) = Some (rc, p) \<and> slm_inv (s\<lparr>slm_prot := p\<rparr>) \<and> rc \<noteq> 0
    \<and> got (prot_next (slm_prot s)) rc p"
proof -
  let ?p = "prot_next (slm_prot s)"
  have n: "in_inv ?p" "fcount (pfields ?p) < 0" "same_out (slm_prot s) ?p"
    using prot_next_in[of "slm_prot s"] assms by (simp_all add: slm_inv_def)
  obtain rc p where g: "prot_get ?p = Some (rc, p)" "got ?p rc p" using prot_get_pending[OF n(1,2)] by blast
  have a: "\<not> allow_empty ?p" using n(3) assms by (simp add: same_out_def slm_inv_def)
  have i: "in_inv p" "same_out ?p p" using g(2) by (simp_all add: got_def)
  have "rc \<noteq> 0"
    using g(2) a next_fields_nonempty[of "unread ?p"] unfolding got_def
    by (auto split: prod.splits option.splits if_splits)
  moreover have "slm_inv (s\<lparr>slm_prot := p\<rparr>)"
    using assms i n(3) same_out_inv[OF i(2)] same_out_inv[OF n(3)] by (simp add: slm_inv_def same_out_def)
  ultimately show ?thesis using g by blast
qed

text \<open>After a wait the lock is as it was, and the sockets to open too.\<close>

definition after_wait :: "slm \<Rightarrow> slm \<Rightarrow> bool" where
  "after_wait s t \<longleftrightarrow> slm_inv t \<and> synclock t = synclock s \<and> slm_fd t = slm_fd s
     \<and> (slm_state s \<noteq> state_Connected \<longrightarrow> slm_closed t = slm_closed s \<and> slm_state t \<noteq> state_Connected)"

lemma after_wait_inv: "after_wait s t \<Longrightarrow> slm_inv t"
  by (simp add: after_wait_def)

lemma after_wait_trans: "after_wait s t \<Longrightarrow> after_wait t u \<Longrightarrow> after_wait s u"
  by (auto simp: after_wait_def)

lemma after_wait_conn: "slm_inv t \<Longrightarrow> same_conn s t \<Longrightarrow> after_wait s t"
  by (auto simp: after_wait_def same_conn_def)

lemma after_wait_broken: "slm_inv s \<Longrightarrow> after_wait s (disconnection state_Broken s)"
  by (auto simp: after_wait_def disconnection_def)

lemma run_ok_after: "run_ok (after_wait u) r \<Longrightarrow> after_wait s u \<Longrightarrow> run_ok (after_wait s) r"
  by (cases r) (auto simp: run_ok_def intro: after_wait_trans)

lemma wait_reply_ok: "slm_inv s \<Longrightarrow> run_ok (after_wait s) (wait_reply block s)"
proof (induction block s rule: wait_reply.induct)
  case (1 block s)
  obtain k p where g: "prot_get (prot_next (slm_prot s)) = Some (k, p)" "slm_inv (s\<lparr>slm_prot := p\<rparr>)" "k \<noteq> 0"
    using slm_get[OF "1.prems"] by blast
  let ?s = "s\<lparr>slm_prot := p\<rparr>"
  have s: "after_wait s ?s" using g(2) by (auto simp: after_wait_def)
  note run = wait_reply.simps[of block s, unfolded g(1) option.case prod.case Let_def]
  consider (got) "k > 0" | (big) "k = - EMSGSIZE" | (more) "k < 0" "k \<noteq> - EMSGSIZE" using g(3) by linarith
  then show ?case
  proof cases
    case got
    then show ?thesis using run g(2) by (auto simp: after_wait_def)
  next
    case big
    then show ?thesis using run after_wait_trans[OF s after_wait_broken[OF g(2)]] by simp
  next
    case more
    have "run_ok (after_wait s) (run_bind (read_more block ?s) (\<lambda>(rc, s).
                 if rc = 0 then Returns (- EPIPE, disconnection state_Broken s)
                 else if rc < 0 then Returns (rc, s)
                 else wait_reply block s))"
    proof (rule run_ok_bind[OF read_more_ok[OF g(2)]])
      fix w u
      assume u: "read_more block ?s = Returns (w, u)" "slm_inv u \<and> same_conn ?s u"
      have su: "after_wait s u" using after_wait_trans[OF s after_wait_conn] u(2) by blast
      show "run_ok (after_wait s) (case (w, u) of (rc, s) \<Rightarrow> if rc = 0 then Returns (- EPIPE, disconnection state_Broken s)
          else if rc < 0 then Returns (rc, s) else wait_reply block s)"
      proof (cases "w > 0")
        case True
        have "run_ok (after_wait u) (wait_reply block u)"
          using "1.IH"(1)[OF g(1) refl refl _ more(2,1) u(1) refl] True u(2) more(1) by simp
        then show ?thesis using True run_ok_after[OF _ su] by simp
      next
        case False
        then show ?thesis using su after_wait_trans[OF su after_wait_broken] u(2) by auto
      qed
    qed
    then show ?thesis using run more by simp
  qed
qed

lemma wait_reply_result: "wait_reply block s = Returns (rc, t) \<Longrightarrow> slm_inv s \<Longrightarrow> rc \<noteq> 0"
proof (induction block s rule: wait_reply.induct)
  case (1 block s)
  obtain k p where g: "prot_get (prot_next (slm_prot s)) = Some (k, p)" "slm_inv (s\<lparr>slm_prot := p\<rparr>)" "k \<noteq> 0"
    using slm_get[OF "1.prems"(2)] by blast
  note run = "1.prems"(1)[unfolded wait_reply.simps[of block s] g(1) option.case prod.case Let_def]
  show ?case
  proof (cases "k < 0 \<and> k \<noteq> - EMSGSIZE")
    case True
    then obtain w u where w: "read_more block (s\<lparr>slm_prot := p\<rparr>) = Returns (w, u)"
      "(if w = 0 then Returns (- EPIPE, disconnection state_Broken u) else if w < 0 then Returns (w, u)
        else wait_reply block u) = Returns (rc, t)"
      using run by (auto simp: run_bind_returns)
    have "slm_inv u" using read_more_ok[OF g(2), of block] w(1) by simp
    then show ?thesis
      using w(2) "1.IH"(1)[OF g(1) refl refl _ _ _ w(1) refl] True by (cases "w > 0") (auto split: if_splits)
  next
    case False
    then show ?thesis using run g(3) by (auto split: if_splits)
  qed
qed

section \<open>Calls\<close>

lemma raw_wait_ok: "slm_inv s \<Longrightarrow> run_ok (after_wait s) (raw_wait_done_or_error s)"
  unfolding raw_wait_done_or_error_def wait_any_reply_def
  by (rule run_ok_bind[OF wait_reply_ok]) auto

lemma wait_done_ok: "slm_inv s \<Longrightarrow> run_ok (after_wait s) (wait_done_or_error s)"
  unfolding wait_done_or_error_def by (rule run_ok_bind[OF raw_wait_ok]) auto

lemma wait_log_ok: "slm_inv s \<Longrightarrow> run_ok (after_wait s) (wait_log_reply s)"
  unfolding wait_log_reply_def by (rule run_ok_bind[OF raw_wait_ok]) auto

lemma show_replies_ok: "slm_inv s \<Longrightarrow> run_ok (after_wait s) (show_replies rc s)"
proof (induction rc s rule: show_replies.induct)
  case (1 rc s)
  show ?case
  proof (cases "rc > 2 \<and> reply_fields s ! 0 = n_string")
    case True
    let ?s = "s\<lparr>shown := shown s @ [tl (reply_fields s)]\<rparr>"
    have i: "slm_inv ?s" "after_wait s ?s" using "1.prems" by (auto simp: after_wait_def)
    have "run_ok (after_wait s) (run_bind (wait_reply True ?s) (\<lambda>(rc, s). show_replies rc s))"
    proof (rule run_ok_bind[OF wait_reply_ok[OF i(1)]])
      fix k u
      assume u: "wait_reply True ?s = Returns (k, u)" "after_wait ?s u"
      have "run_ok (after_wait u) (show_replies k u)"
        using "1.IH"[OF True u(1) refl after_wait_inv[OF u(2)]] .
      then show "run_ok (after_wait s) (case (k, u) of (rc, s) \<Rightarrow> show_replies rc s)"
        using run_ok_after after_wait_trans[OF i(2) u(2)] by simp
    qed
    then show ?thesis using True by (subst show_replies.simps) simp
  next
    case False
    have "after_wait s s" using "1.prems" by (simp add: after_wait_def)
    moreover have "show_replies rc s = Returns (rc, s)" using False by (subst show_replies.simps) auto
    ultimately show ?thesis by simp
  qed
qed

lemma wait_display_ok: "slm_inv s \<Longrightarrow> run_ok (after_wait s) (wait_display_replies s)"
  unfolding wait_display_replies_def
proof (rule run_ok_bind[of "after_wait s"])
  assume s: "slm_inv s"
  show "run_ok (after_wait s) (run_bind (wait_reply True s) (\<lambda>(rc, s). show_replies rc s))"
    by (rule run_ok_bind[OF wait_reply_ok[OF s]]) (auto intro: run_ok_after show_replies_ok simp: after_wait_def)
qed simp

lemma slm_inv_reset: "slm_inv s \<Longrightarrow> slm_inv (s\<lparr>slm_prot := prot_reset (slm_prot s)\<rparr>)"
  using prot_reset_inv[of "slm_prot s"] by (simp add: slm_inv_def in_inv_def out_inv_def obuf_inv_def)

text \<open>Opening a connection, from a handler that is not connected.\<close>

definition conn_opened :: "slm \<Rightarrow> int \<times> slm \<Rightarrow> bool" where
  "conn_opened s r \<longleftrightarrow> (case r of (rc, t) \<Rightarrow> slm_inv t \<and> synclock t = synclock s \<and> slm_closed t = slm_closed s
     \<and> (rc < 0 \<longrightarrow> slm_state t \<noteq> state_Connected) \<and> (rc \<ge> 0 \<longrightarrow> slm_state t = state_Connected)
     \<and> (\<forall>fd ch ds. dials s = Inr (fd, ch) # ds \<longrightarrow> slm_fd t = fd \<and> (rc < 0 \<longrightarrow> slm_state t = state_Broken)))"

lemma connection_ok:
  assumes "slm_inv s" "slm_state s \<noteq> state_Connected" "\<forall>e ds. dials s = Inl e # ds \<longrightarrow> 0 < e"
  shows "case connection s of Returns r \<Rightarrow> conn_opened s r | Waits \<Rightarrow> True | Aborts \<Rightarrow> False"
proof -
  let ?s = "s\<lparr>reply_count := - 1, slm_prot := prot_reset (slm_prot s)\<rparr>"
  have i: "slm_inv ?s" using slm_inv_reset[OF assms(1)] by (simp add: slm_inv_def)
  obtain r u where d: "sys_dial ?s = (r, u)" by fastforce
  show ?thesis
  proof (cases r)
    case (Inl e)
    then have "u = ?s \<and> e = ECONNREFUSED \<and> dials s = [] \<or> (\<exists>ds. dials s = Inl e # ds \<and> u = ?s\<lparr>dials := ds\<rparr>)"
      using d by (auto simp: sys_dial_def split: list.splits)
    then have "conn_opened s (- e, u\<lparr>slm_fd := - 1\<rparr>)" using i assms(2,3) by (auto simp: conn_opened_def)
    then show ?thesis using d Inl by (simp add: connection_def)
  next
    case (Inr x)
    then obtain fd ch ds where x: "x = (fd, ch)" "dials s = Inr (fd, ch) # ds" "u = ?s\<lparr>dials := ds\<rparr>"
      using d by (cases x) (auto simp: sys_dial_def split: list.splits)
    let ?u = "u\<lparr>slm_fd := fd, peer := ch\<rparr>"
    have iu: "slm_inv ?u" using i by (simp add: x(3))
    obtain rc v where p: "putxkv n_sec_lsm_manager [''1''] ?u = (rc, v)" by fastforce
    have "sends ?u v" by (rule send_trial_sends[OF iu]) (use p in \<open>auto simp: putxkv_def send_fields_def\<close>)
    then have v: "slm_inv v" "synclock v = synclock s" "slm_closed v = slm_closed s" "slm_fd v = fd" "slm_state v \<noteq> state_Connected"
      using assms(2) by (auto simp: sends_def same_conn_def x(3))
    have run: "connection s = (if rc \<ge> 0 then
                  run_bind (wait_any_reply v) (\<lambda>(rc, s). Returns
                    (if rc \<ge> 0 then
                       (if reply_count s \<ge> 2 \<and> reply_fields s ! 0 = n_done \<and> reply_fields s ! 1 = ''1''
                        then (0, s\<lparr>slm_state := state_Connected\<rparr>)
                        else (- EPROTO, disconnection state_Broken s))
                     else (rc, disconnection state_Broken s)))
                else Returns (rc, disconnection state_Broken v))"
      using d Inr x(1) p by (simp add: connection_def)
    have broken: "conn_opened s (k, disconnection state_Broken y)" if "after_wait v y" "k < 0" for k y
      using that v x(2) by (auto simp: conn_opened_def after_wait_def disconnection_def)
    show ?thesis
    proof (cases "rc \<ge> 0")
      case False
      then show ?thesis using run broken[of v rc] v(1) by (simp add: after_wait_def)
    next
      case True
      have w: "run_ok (after_wait v) (wait_any_reply v)" using wait_reply_ok[OF v(1)] by (simp add: wait_any_reply_def)
      show ?thesis
      proof (cases "wait_any_reply v")
        case (Returns z)
        obtain k y where z: "z = (k, y)" by fastforce
        have y: "after_wait v y" using w Returns z by simp
        then have "conn_opened s (0, y\<lparr>slm_state := state_Connected\<rparr>)" using v x(2) by (auto simp: conn_opened_def after_wait_def)
        then show ?thesis using run True Returns z broken[OF y] by auto
      qed (use w run True in simp_all)
    qed
  qed
qed

definition errno_dials :: "slm \<Rightarrow> bool" where
  "errno_dials s \<longleftrightarrow> (\<forall>e ds. dials s = Inl e # ds \<longrightarrow> 0 < e)"

text \<open>A call ended: the lock is as it was, and what was not connected lost no descriptor.\<close>

definition call_end :: "slm \<Rightarrow> slm \<Rightarrow> bool" where
  "call_end s t \<longleftrightarrow> slm_inv t \<and> synclock t = synclock s"

lemma ensure_opened_ok:
  assumes "slm_inv s" "errno_dials s"
  shows "run_ok (call_end s) (ensure_opened s)"
proof (cases "slm_state s")
  case state_Disconnected
  have "\<forall>e ds. dials s = Inl e # ds \<longrightarrow> 0 < e" using assms(2) by (simp add: errno_dials_def)
  from connection_ok[OF assms(1) _ this] show ?thesis
    using state_Disconnected by (cases "connection s") (auto simp: ensure_opened_def conn_opened_def call_end_def run_ok_def)
next
  case state_Connected
  then show ?thesis using assms(1)
    by (auto simp: ensure_opened_def sys_probe_def call_end_def disconnection_def Let_def split: list.splits)
next
  case state_Broken
  then show ?thesis using assms(1) by (simp add: ensure_opened_def call_end_def)
qed

lemma sync_process_ok:
  assumes "slm_inv s" "errno_dials s" "\<not> synclock s" "args \<noteq> []"
    "\<And>u. slm_inv u \<Longrightarrow> run_ok (after_wait u) (after u)"
  shows "run_ok (\<lambda>t. slm_inv t \<and> \<not> synclock t) (sync_process args after s)"
proof -
  let ?s = "s\<lparr>synclock := True\<rparr>"
  let ?body = "\<lambda>(rc, s). if rc \<ge> 0 then (case send_fields args s of (rc, s) \<Rightarrow> if rc \<ge> 0 then after s else Returns (rc, s))
             else Returns (rc, s)"
  have o: "run_ok (call_end ?s) (ensure_opened ?s)"
    using ensure_opened_ok[of ?s] assms(1,2) by (simp add: errno_dials_def)
  have "run_ok (call_end ?s) (run_bind (ensure_opened ?s) ?body)"
  proof (rule run_ok_bind[OF o])
    fix rc u
    assume u: "call_end ?s u"
    obtain k v where v: "send_fields args u = (k, v)" by fastforce
    have "sends u v" using send_trial_sends[of u args 1 k v] u assms(4) v by (simp add: call_end_def send_fields_def)
    then have cv: "call_end ?s v" using u by (simp add: call_end_def sends_def same_conn_def)
    have "run_ok (call_end ?s) (after v)"
      using assms(5)[of v] cv by (cases "after v") (auto simp: run_ok_def call_end_def after_wait_def)
    then show "run_ok (call_end ?s) (?body (rc, u))" using u cv v by simp
  qed
  then have "run_ok (\<lambda>t. slm_inv t \<and> \<not> synclock t)
      (run_bind (run_bind (ensure_opened ?s) ?body) (\<lambda>(rc, s). Returns (rc, s\<lparr>synclock := False\<rparr>)))"
    by (rule run_ok_bind) (simp add: call_end_def)
  then show ?thesis using assms(3) by (simp add: sync_process_def)
qed

section \<open>Properties\<close>

text \<open>A handler between two calls, connected and with nothing pending.\<close>

definition lib_idle :: "slm \<Rightarrow> bool" where
  "lib_idle s \<longleftrightarrow> slm_inv s \<and> \<not> synclock s \<and> slm_state s = state_Connected \<and> probes s = [] \<and> tx (peer s) = []
     \<and> obytes (outbuf (slm_prot s)) = [] \<and> unread (slm_prot s) = []"

definition demo_lib :: "rx_event list \<Rightarrow> slm" where
  "demo_lib evs = \<lparr>slm_fd = 6, synclock = False, slm_state = state_Connected, slm_prot = new_prot, reply_count = 0,
     socketspec = ''unix:@demo'', peer = \<lparr>rx = evs, tx = [], sent = []\<rparr>, dials = [], poll_errs = [], probes = [],
     slm_closed = [], shown = []\<rparr>"

lemma demo_lib_idle: "lib_idle (demo_lib evs)" "slm_inv (demo_lib evs)"
  using new_prot_inv by (simp_all add: lib_idle_def slm_inv_def demo_lib_def)

text \<open>
  C17: the calls of the library are safe: whatever the peer sends and whatever fails, a call on a
  well-formed handler never aborts; when it returns, the handler is well formed and its lock is
  free. A call on a locked handler returns \<open>- EBUSY\<close> and changes nothing.
\<close>

theorem library_calls_safe:
  assumes "slm_inv s" "errno_dials s" "args \<noteq> []"
    "after = wait_done_or_error \<or> after = wait_log_reply \<or> after = wait_display_replies"
  shows "sync_process args after s \<noteq> Aborts
    \<and> (\<not> synclock s \<longrightarrow> (\<forall>rc t. sync_process args after s = Returns (rc, t) \<longrightarrow> slm_inv t \<and> \<not> synclock t))
    \<and> (synclock s \<longrightarrow> sync_process args after s = Returns (- EBUSY, s))"
proof (cases "synclock s")
  case True
  then show ?thesis by (simp add: sync_process_def)
next
  case False
  have "run_ok (after_wait u) (after u)" if "slm_inv u" for u
    using assms(4) wait_done_ok[OF that] wait_log_ok[OF that] wait_display_ok[OF that] by auto
  from sync_process_ok[OF assms(1,2) False assms(3) this] show ?thesis
    using False by (cases "sync_process args after s") (auto simp: run_ok_def)
qed

theorem library_calls_safe_witness:
  "sec_lsm_manager_display (demo_lib [RxData ''string id'', RxErr EAGAIN, RxEof]) \<noteq> Aborts"
proof -
  have "errno_dials (demo_lib [RxData ''string id'', RxErr EAGAIN, RxEof])" by (simp add: errno_dials_def demo_lib_def)
  from library_calls_safe[OF demo_lib_idle(2) this, of "[''display'']" wait_display_replies]
  show ?thesis by (simp add: sec_lsm_manager_display_def)
qed

text \<open>
  A connection whose negotiation fails loses its descriptor: the handler becomes broken
  with the descriptor open, and neither disconnecting nor destroying the handler closes it.
\<close>

theorem failed_negotiation_leaks:
  assumes "slm_inv s" "slm_state s = state_Disconnected" "dials s = Inr (fd, ch) # ds"
    "connection s = Returns (rc, t)" "rc < 0"
  shows "slm_fd t = fd \<and> slm_state t = state_Broken \<and> slm_closed (sec_lsm_manager_disconnect t) = slm_closed s
    \<and> slm_closed (sec_lsm_manager_destroy t) = slm_closed s"
proof -
  have "conn_opened s (rc, t)" using connection_ok[OF assms(1)] assms(2-4) by simp
  then show ?thesis
    using assms(3,5) by (simp add: conn_opened_def sec_lsm_manager_disconnect_def sec_lsm_manager_destroy_def disconnection_def)
qed

theorem failed_negotiation_leaks_witness:
  "\<exists>t. connection ((demo_lib [])\<lparr>slm_state := state_Disconnected, dials := [Inr (9, \<lparr>rx = [RxEof], tx = [TxErr 32], sent = []\<rparr>)]\<rparr>)
     = Returns (- EPIPE, t) \<and> slm_fd t = 9 \<and> slm_closed (sec_lsm_manager_destroy t) = []"
proof -
  let ?s = "(demo_lib [])\<lparr>slm_state := state_Disconnected, dials := [Inr (9, \<lparr>rx = [RxEof], tx = [TxErr 32], sent = []\<rparr>)]\<rparr>"
  have i: "slm_inv ?s" "slm_state ?s = state_Disconnected" "dials ?s = [Inr (9, \<lparr>rx = [RxEof], tx = [TxErr 32], sent = []\<rparr>)]"
    "slm_closed ?s = []"
    using new_prot_inv by (simp_all add: demo_lib_def slm_inv_def)
  have "(case connection ?s of Returns (rc, t) \<Rightarrow> rc = - EPIPE | _ \<Rightarrow> False)" by code_simp
  then obtain t where c: "connection ?s = Returns (- EPIPE, t)" by (auto split: run.splits)
  from failed_negotiation_leaks[OF i(1-3) c] show ?thesis using c i(4) by simp
qed

section \<open>The text of an error\<close>

lemma message_size_last: "message_size b n l = (if l = [] then n else length (last l) + (if b \<and> length l = 1 then 0 else 1))"
  by (induction b n l rule: message_size.induct) auto

lemma message_text_length:
  "length (message_text b l) = sum_list (map length l) + (if b then length l - 1 else length l)"
proof (induction b l rule: message_text.induct)
  case (2 b f r)
  then show ?case by (cases r) auto
qed simp

lemma message_fits:
  "length (message_text True l) \<le> message_size True 0 l \<longleftrightarrow> length l \<le> 1 \<or> (length l = 2 \<and> l ! 0 = [])"
proof (cases l rule: rev_cases)
  case (snoc m x)
  then show ?thesis
    by (cases m) (auto simp: message_text_length message_size_last)
qed simp

text \<open>
  The text of an error is its fields separated by spaces, but the memory allocated for it is
  that of its last field: the text with its final NUL fits exactly when there is at most one
  field, as in the replies of the daemon, or two of which the first is empty; otherwise the
  library writes after the memory it allocated.
\<close>

theorem error_message_size:
  assumes "1 \<le> reply_count s" "\<not> reply_dangling s" "reply_fields s = ''error'' # args"
  shows "\<exists>n text. sec_lsm_manager_error_message True s = Some (0, Some (n, text))
    \<and> (\<forall>a. args = [a] \<longrightarrow> text = a)
    \<and> (length text + 1 \<le> n \<longleftrightarrow> length args \<le> 1 \<or> (length args = 2 \<and> args ! 0 = []))"
  using assms message_fits[of args] by (auto simp: sec_lsm_manager_error_message_def)

theorem error_message_size_witness:
  "\<exists>s n text. reply_fields s = [''error'', ''bad'', ''thing''] \<and> n = 7
     \<and> sec_lsm_manager_error_message True s = Some (0, Some (n, text)) \<and> \<not> length text + 1 \<le> n"
proof -
  let ?s = "(demo_lib [])\<lparr>slm_prot := new_prot\<lparr>inbuf := (inbuf new_prot)\<lparr>bcontent := lay [''error'', ''bad'', ''thing'']\<rparr>,
      pfields := \<lparr>fcount = 3, foffs = [0, 6, 10]\<rparr>\<rparr>, reply_count := 3\<rparr>"
  have r: "1 \<le> reply_count ?s" "\<not> reply_dangling ?s" "reply_fields ?s = ''error'' # [''bad'', ''thing'']"
    by (simp, simp add: reply_dangling_def, code_simp)
  have "sec_lsm_manager_error_message True ?s = Some (0, Some (7, ''bad thing''))"
    using r by (simp add: sec_lsm_manager_error_message_def)
  then show ?thesis using error_message_size[OF r] r(3) by (intro exI[of _ ?s] exI[of _ 7]) auto
qed

end
