(* ===== verification/Delivery.thy ===== *)
theory Delivery
  imports Manager_Props
begin

text \<open>
  A call of the library and the daemon that answers it. What one end sends arrives at the other in
  any pieces: the daemon handles the request once it is complete, and the library waits for the
  records of the reply, as many as there are.
\<close>

section \<open>A call and the daemon that answers it\<close>

lemma slm_flushw_calm:
  assumes "slm_inv s" "tx (peer s) = []"
  shows "\<exists>t. slm_flushw s = (0, t) \<and> sends s t \<and> tx (peer t) = [] \<and> obytes (outbuf (slm_prot t)) = []
    \<and> sent (peer t) = sent (peer s) @ obytes (outbuf (slm_prot s))"
proof (cases "wrokcnt (slm_prot s) = 0")
  case True
  then have "bcount (outbuf (slm_prot s)) = 0" using assms(1) by (simp add: slm_inv_def out_inv_def)
  then have "obytes (outbuf (slm_prot s)) = []" using length_obytes by (metis length_0_conv)
  moreover have "slm_flushw s = (0, s)"
    using True by (simp add: slm_flushw_def slm_fuel_def prot_should_write_def)
  ultimately show ?thesis using sends_refl[OF assms(1)] assms(2) by simp
next
  case False
  let ?p = "slm_prot s"
  have inv: "out_inv ?p" "outfields ?p = 0" "wrokcnt ?p > 0" using assms(1) False by (auto simp: slm_inv_def)
  obtain q ch where w: "prot_write ?p (peer s) = (int (wrokcnt ?p), q, ch)" "tx ch = []" "wrokcnt q = 0"
    "obytes (outbuf q) = []" "sent ch = sent (peer s) @ obytes (outbuf ?p)"
    using prot_write_calm[OF inv assms(2)] by blast
  let ?t = "slm_link q ch s"
  obtain m where m: "slm_fuel s = Suc (Suc m)" using inv(3) by (cases "wrokcnt ?p") (auto simp: slm_fuel_def)
  have "slm_flushw s = (0, ?t)"
    using inv(3) w(1,3) by (simp add: slm_flushw_def m prot_should_write_def slm_link_def)
  moreover have "sends s ?t" using slm_flushw_sends[OF calculation assms(1)] .
  ultimately show ?thesis using w by (simp add: slm_link_def)
qed

lemma send_calm:
  assumes "slm_inv s" "tx (peer s) = []" "obytes (outbuf (slm_prot s)) = []" "args \<noteq> []" "fits args"
  shows "\<exists>t. send_fields args s = (0, t) \<and> sends s t \<and> tx (peer t) = [] \<and> obytes (outbuf (slm_prot t)) = []
    \<and> sent (peer t) = sent (peer s) @ encode args"
proof -
  obtain rc p where p: "prot_put (slm_prot s) (map Some args) = (rc, p)" by fastforce
  have "bcount (outbuf (slm_prot s)) = 0" using assms(3) length_obytes by (metis list.size(3))
  then have u: "sends s (s\<lparr>slm_prot := p\<rparr>)" "rc = 0" "obytes (outbuf p) = encode args"
    using put_sends[OF assms(1,4) p] assms(3,5) by (simp_all add: fits_def)
  let ?u = "s\<lparr>slm_prot := p\<rparr>"
  obtain t where t: "slm_flushw ?u = (0, t)" "sends ?u t" "tx (peer t) = []" "obytes (outbuf (slm_prot t)) = []"
    "sent (peer t) = sent (peer ?u) @ obytes (outbuf (slm_prot ?u))"
    using slm_flushw_calm[of ?u] u(1) assms(2) by (auto simp: sends_def)
  have "send_fields args s = (0, t)" using t(1) u(2) by (simp add: send_fields_def send_trial_unfold[OF assms(4) p])
  then show ?thesis using t sends_trans[OF u(1) t(2)] u(3) by simp
qed

section \<open>Arriving in pieces\<close>

text \<open>Bytes arrive, in any pieces, and then what is in \<open>es\<close>: nothing, or the end of the stream.\<close>

definition data_then :: "rx_event list \<Rightarrow> chan \<Rightarrow> bool" where
  "data_then es ch \<longleftrightarrow> incoming es = [] \<and> (\<exists>ps. rx ch = map RxData ps @ es \<and> [] \<notin> set ps)"

abbreviation data_only :: "chan \<Rightarrow> bool" where
  "data_only \<equiv> data_then []"

lemma incoming_pieces [simp]: "incoming (map RxData ps @ es) = concat ps @ incoming es"
  by (induction ps) simp_all

lemma incoming_only [simp]: "incoming (map RxData ps) = concat ps"
  using incoming_pieces[of ps "[]"] by simp

lemma data_then_none: "data_then es ch \<Longrightarrow> incoming (rx ch) = [] \<Longrightarrow> rx ch = es"
  by (auto simp: data_then_def) (metis in_set_conv_decomp last_in_set)

lemma read_piece:
  assumes "data_then es ch" "incoming (rx ch) \<noteq> []" "0 < n"
  shows "\<exists>x ch'. read_retry n ch = (Inr x, ch') \<and> x \<noteq> [] \<and> data_then es ch' \<and> tx ch' = tx ch"
proof -
  obtain qs where qs: "rx ch = map RxData qs @ es" "[] \<notin> set qs" "incoming es = []" using assms(1) by (auto simp: data_then_def)
  then obtain p ps where "qs = p # ps" using assms(2) by (cases qs) simp_all
  then have p: "rx ch = RxData p # map RxData ps @ es" "p \<noteq> []" "[] \<notin> set ps" using qs by auto
  have "data_then es (ch\<lparr>rx := (if length p \<le> n then map RxData ps @ es else RxData (drop n p) # map RxData ps @ es)\<rparr>)"
    using p(3) qs(3) by (auto simp: data_then_def intro: exI[of _ ps] exI[of _ "drop n p # ps"])
  then show ?thesis using p assms(3) by (subst read_retry.simps) (simp add: sys_read_def)
qed

lemma prot_read_piece:
  assumes "in_inv p" "bcount (inbuf p) < PROT_MAX_BUFFER_LENGTH" "data_then es ch" "incoming (rx ch) \<noteq> []"
  shows "\<exists>x q ch'. prot_read p ch = (int (length x), q, ch') \<and> x \<noteq> [] \<and> in_inv q \<and> same_out p q
    \<and> unread q = unread p @ x \<and> pfields q = pfields p \<and> incoming (rx ch) = x @ incoming (rx ch')
    \<and> data_then es ch' \<and> tx ch' = tx ch \<and> sent ch' = sent ch"
proof -
  obtain y ch1 where rr: "read_retry (PROT_MAX_BUFFER_LENGTH - bcount (inbuf p)) ch = (Inr y, ch1)" "y \<noteq> []"
    "data_then es ch1" "tx ch1 = tx ch"
    using read_piece[OF assms(3,4), of "PROT_MAX_BUFFER_LENGTH - bcount (inbuf p)"] assms(2) by auto
  obtain rc q ch' where r: "prot_read p ch = (rc, q, ch')" by (metis prod_cases3)
  have e: "rc = int (length y)" "ch' = ch1"
    using r rr(1) assms(2) by (auto simp: prot_read_def inbuf_read_def)
  from r assms(1) show ?thesis
  proof (cases rule: prot_read_cases)
    case (data x)
    then have "x \<noteq> []" using e(1) rr(2) by auto
    then show ?thesis using data r e rr(3,4) by auto
  qed (use e rr(2) assms(2) in auto)
qed

lemma unread_length: "in_inv p \<Longrightarrow> fcount (pfields p) < 0 \<Longrightarrow> bcount (inbuf p) = length (unread p)"
  by (auto simp: unread_def in_inv_def)

text \<open>A record that has not arrived completely leaves room in the buffer.\<close>

lemma next_fields_partial:
  assumes "next_fields False w = (None, w)" "w @ x = encode r @ y" "valid_msg r"
  shows "length w < length (encode r) \<and> x \<noteq> []"
proof -
  have "length w < length (encode r)"
  proof (rule ccontr)
    assume "\<not> ?thesis"
    then have "take (length (encode r)) w = encode r"
      using arg_cong[OF assms(2), of "take (length (encode r))"] by simp
    then obtain z where w: "w = encode r @ z" by (metis append_take_drop_id)
    have "next_record w = Some (r, z)" using assms(3) unfolding w by (intro next_record_encode) (auto simp: valid_msg_def)
    then have "next_fields False w = (Some r, z)" using assms(3) by (subst next_fields.simps) (simp add: valid_msg_def)
    then show False using assms(1) by simp
  qed
  then show ?thesis using assms(2) by auto
qed

text \<open>What is still to be had of the peer: in the buffer, then on the way.\<close>

definition coming :: "slm \<Rightarrow> string" where
  "coming s = unread (slm_prot s) @ incoming (rx (peer s))"

text \<open>From \<open>s\<close> to \<open>t\<close> the library has only listened.\<close>

definition listened :: "slm \<Rightarrow> slm \<Rightarrow> bool" where
  "listened s t \<longleftrightarrow> slm_inv t \<and> same_conn s t \<and> data_only (peer t) \<and> sent (peer t) = sent (peer s)
     \<and> tx (peer t) = tx (peer s) \<and> outbuf (slm_prot t) = outbuf (slm_prot s)"

lemma listened_trans: "listened s t \<Longrightarrow> listened t u \<Longrightarrow> listened s u"
  using same_conn_trans by (auto simp: listened_def)

lemma wait_reply_pieces:
  assumes "slm_inv s" "data_only (peer s)" "coming s = stream (r # rs)" "list_all valid_msg (r # rs)" "fits r"
  shows "\<exists>t. wait_reply block s = Returns (int (length r), t) \<and> listened s t \<and> coming t = stream rs
    \<and> reply_fields t = r \<and> reply_count t = int (length r) \<and> \<not> reply_dangling t \<and> shown t = shown s"
  using assms
proof (induction "length (incoming (rx (peer s)))" arbitrary: s rule: less_induct)
  case less
  let ?p = "prot_next (slm_prot s)"
  note n = prot_next_in[of "slm_prot s"]
  have np: "in_inv ?p" "unread ?p = unread (slm_prot s)" "fcount (pfields ?p) < 0" "same_out (slm_prot s) ?p"
    using n less.prems(1) by (simp_all add: slm_inv_def)
  obtain k p where g: "prot_get ?p = Some (k, p)" "slm_inv (s\<lparr>slm_prot := p\<rparr>)" "got ?p k p"
    using slm_get[OF less.prems(1)] by blast
  have ae: "\<not> allow_empty ?p" using np(4) less.prems(1) by (simp add: same_out_def slm_inv_def)
  have so: "outbuf p = outbuf (slm_prot s)" using g(3) np(4) by (simp add: got_def same_out_def)
  have w: "unread ?p @ incoming (rx (peer s)) = stream (r # rs)" using less.prems(3) np(2) by (simp add: coming_def)
  from next_fields_valid[OF w less.prems(4)] show ?case
  proof (elim disjE exE conjE)
    fix m ms rest
    assume m: "r # rs = m # ms" "next_fields False (unread ?p) = (Some m, rest)" "rest @ incoming (rx (peer s)) = stream ms"
    have k: "k = int (length r)" "fcount (pfields p) = k" "prot_fields p = r" "unread p = rest"
      using g(3) m(1,2) ae by (simp_all add: got_def)
    have pos: "0 < k" using k(1) less.prems(4) by (simp add: valid_msg_def)
    let ?t = "s\<lparr>slm_prot := p, reply_count := k\<rparr>"
    have "wait_reply block s = Returns (k, ?t)" using g(1) pos by (subst wait_reply.simps) simp
    moreover have "listened s ?t" "coming ?t = stream rs"
      using g(2) so less.prems(2) m(1,3) k(4) by (simp_all add: listened_def same_conn_def coming_def slm_inv_def)
    moreover have "reply_fields ?t = r" using k by (simp add: reply_fields_def prot_fields_def)
    moreover have "\<not> reply_dangling ?t"
      using prot_get_offsets[OF g(1) np(3)] pos by (simp add: reply_dangling_def)
    ultimately show ?thesis using k(1) by simp
  next
    assume none: "next_fields False (unread ?p) = (None, unread ?p)"
    have part: "length (unread ?p) < length (encode r)" "incoming (rx (peer s)) \<noteq> []"
      using next_fields_partial[OF none _ _, of "incoming (rx (peer s))" r "stream rs"] w less.prems(4)
      by (simp_all add: stream_def)
    have up: "unread p = unread ?p" "fcount (pfields p) < 0" "k = - EAGAIN"
      using g(3) none ae part(1) less.prems(5) by (simp_all add: got_def fits_def)
    have ip: "in_inv p" using g(2) by (simp add: slm_inv_def)
    have room: "bcount (inbuf p) < PROT_MAX_BUFFER_LENGTH"
      using unread_length[OF ip up(2)] up(1) part(1) less.prems(5) by (simp add: fits_def)
    obtain x q ch where q: "prot_read p (peer s) = (int (length x), q, ch)" "x \<noteq> []" "in_inv q" "same_out p q"
      "unread q = unread p @ x" "pfields q = pfields p" "incoming (rx (peer s)) = x @ incoming (rx ch)"
      "data_only ch" "tx ch = tx (peer s)" "sent ch = sent (peer s)"
      using prot_read_piece[OF ip room less.prems(2) part(2)] by blast
    let ?s = "s\<lparr>slm_prot := p\<rparr>"
    let ?u = "slm_link q ch ?s"
    have rd: "read_more block ?s = Returns (int (length x), ?u)"
      using q(1) by (subst read_more.simps) simp
    have u: "slm_inv ?u" using slm_read_inv[OF g(2)] q(1) by simp
    have run: "wait_reply block s = wait_reply block ?u"
      using g(1) up(3) rd q(2) by (subst wait_reply.simps) simp
    have cu: "coming ?u = stream (r # rs)"
      using q(5,7) up(1) w by (simp add: coming_def slm_link_def)
    have lu: "listened s ?u" "shown ?u = shown s"
      using u q(4,8-10) so by (simp_all add: listened_def slm_link_def same_conn_def same_out_def)
    have sh: "length (incoming (rx (peer ?u))) < length (incoming (rx (peer s)))"
      using q(2,7) by (simp add: slm_link_def)
    have du: "data_only (peer ?u)" using q(8) by (simp add: slm_link_def)
    obtain t where t: "wait_reply block ?u = Returns (int (length r), t)" "listened ?u t" "coming t = stream rs"
      "reply_fields t = r" "reply_count t = int (length r)" "\<not> reply_dangling t" "shown t = shown ?u"
      using less.hyps[OF sh u du cu less.prems(4,5)] by blast
    then show ?thesis using run listened_trans[OF lu(1) t(2)] lu(2) by simp
  qed
qed

section \<open>Replies of several records\<close>

lemma show_replies_pieces:
  assumes "slm_inv s" "data_only (peer s)" "coming s = stream (rs @ [z])" "list_all valid_msg (rs @ [z])"
    "list_all fits (rs @ [z])" "reply_fields s = r" "list_all (\<lambda>q. 2 < length q \<and> q ! 0 = n_string) (r # rs)"
    "\<not> (2 < length z \<and> z ! 0 = n_string)"
  shows "\<exists>t. show_replies (int (length r)) s = Returns (int (length z), t) \<and> listened s t \<and> coming t = []
    \<and> reply_fields t = z \<and> \<not> reply_dangling t \<and> shown t = shown s @ map tl (r # rs)"
  using assms
proof (induction rs arbitrary: s r)
  case Nil
  let ?s = "s\<lparr>shown := shown s @ [tl r]\<rparr>"
  have h: "slm_inv ?s" "data_only (peer ?s)" "coming ?s = stream [z]" "list_all valid_msg [z]" "fits z"
    using Nil.prems by (simp_all add: coming_def)
  obtain t where t: "wait_reply True ?s = Returns (int (length z), t)" "listened ?s t" "coming t = stream []"
    "reply_fields t = z" "\<not> reply_dangling t" "shown t = shown ?s"
    using wait_reply_pieces[OF h] by blast
  have "show_replies (int (length z)) t = Returns (int (length z), t)"
    using Nil.prems(8) t(4) by (subst show_replies.simps) auto
  then have "show_replies (int (length r)) s = Returns (int (length z), t)"
    using Nil.prems(6,7) t(1) by (subst show_replies.simps) simp
  then show ?case using t by (simp add: listened_def same_conn_def stream_def)
next
  case (Cons q rs)
  let ?s = "s\<lparr>shown := shown s @ [tl r]\<rparr>"
  have h: "slm_inv ?s" "data_only (peer ?s)" "coming ?s = stream (q # rs @ [z])" "list_all valid_msg (q # rs @ [z])" "fits q"
    using Cons.prems by (simp_all add: coming_def)
  obtain t where t: "wait_reply True ?s = Returns (int (length q), t)" "listened ?s t" "coming t = stream (rs @ [z])"
    "reply_fields t = q" "shown t = shown ?s"
    using wait_reply_pieces[OF h] by blast
  obtain u where u: "show_replies (int (length q)) t = Returns (int (length z), u)" "listened t u" "coming u = []"
    "reply_fields u = z" "\<not> reply_dangling u" "shown u = shown t @ map tl (q # rs)"
    using Cons.IH[of t q] t(2-4) Cons.prems(4,5,7,8) by (auto simp: listened_def)
  have "show_replies (int (length r)) s = Returns (int (length z), u)"
    using Cons.prems(6,7) t(1) u(1) by (subst show_replies.simps) simp
  moreover have "listened s u" using listened_trans[OF t(2) u(2)] by (simp add: listened_def same_conn_def)
  ultimately show ?case using u(3-6) t(5) by simp
qed

text \<open>How the library waits for the reply to a request, and the replies it can have.\<close>

definition library_wait :: "string list \<Rightarrow> slm \<Rightarrow> (int \<times> slm) run" where
  "library_wait args = (if args = [n_display] then wait_display_replies
     else if hd args = n_log then wait_log_reply else wait_done_or_error)"

definition final_reply :: "string list \<Rightarrow> string list \<Rightarrow> bool" where
  "final_reply args z \<longleftrightarrow> length z \<le> 2 \<and> (z ! 0 = n_done \<or> z ! 0 = n_error)
     \<and> (hd args = n_log \<and> z ! 0 = n_done \<longrightarrow> length z = 2)"

definition good_replies :: "string list \<Rightarrow> string list list \<Rightarrow> bool" where
  "good_replies args rs \<longleftrightarrow> rs \<noteq> [] \<and> list_all valid_msg rs \<and> list_all fits rs \<and> final_reply args (last rs)
     \<and> list_all (\<lambda>q. 2 < length q \<and> q ! 0 = n_string) (butlast rs) \<and> (args \<noteq> [n_display] \<longrightarrow> length rs = 1)"

text \<open>The result of the call and the records given to the callback.\<close>

definition result_of :: "string list \<Rightarrow> string list list \<Rightarrow> int" where
  "result_of args rs = (let z = last rs
     in if z ! 0 = n_error then (if args = [n_display] then - 1 else - EPROTO)
        else if args = [n_display] then int (length z)
        else if hd args = n_log then of_bool (z ! 1 = n_on) else 0)"

definition shown_by :: "string list \<Rightarrow> string list list \<Rightarrow> string list list" where
  "shown_by args rs = (if args = [n_display] then map tl (butlast rs) else [])"

lemma library_wait_pieces:
  assumes "slm_inv s" "data_only (peer s)" "coming s = stream rs" "good_replies args rs"
  shows "\<exists>t. library_wait args s = Returns (result_of args rs, t) \<and> listened s t \<and> coming t = []
    \<and> reply_fields t = last rs \<and> \<not> reply_dangling t \<and> shown t = shown s @ shown_by args rs"
proof -
  obtain qs z where rs: "rs = qs @ [z]" using assms(4) by (metis good_replies_def rev_exhaust)
  have g: "list_all valid_msg (qs @ [z])" "list_all fits (qs @ [z])" "final_reply args z"
    "list_all (\<lambda>q. 2 < length q \<and> q ! 0 = n_string) qs" "args \<noteq> [n_display] \<Longrightarrow> qs = []"
    using assms(4) by (simp_all add: good_replies_def rs)
  have zn: "0 < length z" using g(1) by (simp add: valid_msg_def)
  show ?thesis
  proof (cases qs)
    case Nil
    obtain t where t: "wait_reply True s = Returns (int (length z), t)" "listened s t" "coming t = []"
      "reply_fields t = z" "reply_count t = int (length z)" "\<not> reply_dangling t" "shown t = shown s"
      using wait_reply_pieces[OF assms(1,2), of z "[]" True] assms(3) g(1,2) rs Nil by (auto simp: stream_def)
    have "show_replies (int (length z)) t = Returns (int (length z), t)"
      using g(3) by (subst show_replies.simps) (simp add: final_reply_def)
    then have "library_wait args s = Returns (result_of args rs, t)"
      using t(1,4,5) g(3) zn rs Nil
      by (auto simp: library_wait_def result_of_def final_reply_def wait_display_replies_def wait_log_reply_def
          wait_done_or_error_def raw_wait_done_or_error_def wait_any_reply_def Let_def)
    then show ?thesis using t rs Nil by (simp add: shown_by_def)
  next
    case (Cons q ps)
    then have d: "args = [n_display]" using g(5) by auto
    obtain t where t: "wait_reply True s = Returns (int (length q), t)" "listened s t" "coming t = stream (ps @ [z])"
      "reply_fields t = q" "shown t = shown s"
      using wait_reply_pieces[OF assms(1,2), of q "ps @ [z]" True] assms(3) g(1,2) rs Cons by auto
    have lt: "slm_inv t" "data_only (peer t)" using t(2) by (simp_all add: listened_def)
    have nz: "\<not> (2 < length z \<and> z ! 0 = n_string)" using g(3) by (simp add: final_reply_def)
    obtain u where u: "show_replies (int (length q)) t = Returns (int (length z), u)" "listened t u" "coming u = []"
      "reply_fields u = z" "\<not> reply_dangling u" "shown u = shown t @ map tl (q # ps)"
      using show_replies_pieces[OF lt t(3) _ _ t(4) _ nz] g(1,2,4) Cons by auto
    have "library_wait args s = Returns (result_of args rs, u)"
      using t(1) u(1,4) g(3) zn rs
      by (simp add: d library_wait_def result_of_def final_reply_def wait_display_replies_def)
    then show ?thesis using u(3-6) t(5) rs Cons d listened_trans[OF t(2) u(2)] by (simp add: shown_by_def)
  qed
qed

text \<open>The public functions are these calls.\<close>

definition library_call :: "string list \<Rightarrow> slm \<Rightarrow> (int \<times> slm) run" where
  "library_call args = sync_process args (library_wait args)"

lemma library_calls:
  "sec_lsm_manager_set_id (Some i) = library_call [n_id, i]"
  "sec_lsm_manager_add_path (Some p) (Some ty) = library_call [n_path, p, ty]"
  "sec_lsm_manager_add_plug (Some e) (Some i) (Some d) = library_call [n_plug, e, i, d]"
  "sec_lsm_manager_add_permission (Some p) = library_call [n_permission, p]"
  "sec_lsm_manager_clear = library_call [n_clear]" "sec_lsm_manager_install = library_call [n_install]"
  "sec_lsm_manager_uninstall = library_call [n_uninstall]" "sec_lsm_manager_display = library_call [n_display]"
  "sec_lsm_manager_log False False = library_call [n_log]" "sec_lsm_manager_log True False = library_call [n_log, n_on]"
  "sec_lsm_manager_log on True = library_call [n_log, n_off]"
  by (simp_all add: fun_eq_iff library_call_def library_wait_def sec_lsm_manager_set_id_def sec_lsm_manager_add_path_def
      sec_lsm_manager_add_plug_def sec_lsm_manager_add_permission_def sec_lsm_manager_clear_def sec_lsm_manager_install_def
      sec_lsm_manager_uninstall_def sec_lsm_manager_display_def sec_lsm_manager_log_def)

lemma sync_process_pieces:
  assumes "lib_idle s" "args \<noteq> []" "fits args" "data_only (peer s)" "incoming (rx (peer s)) = stream rs"
    "\<And>u. slm_inv u \<Longrightarrow> data_only (peer u) \<Longrightarrow> coming u = stream rs \<Longrightarrow>
       \<exists>v. after u = Returns (k, v) \<and> listened u v \<and> coming v = [] \<and> reply_fields v = z \<and> \<not> reply_dangling v
         \<and> shown v = shown u @ x"
  shows "\<exists>s'. sync_process args after s = Returns (k, s') \<and> sent (peer s') = sent (peer s) @ encode args
    \<and> reply_fields s' = z \<and> lib_idle s' \<and> \<not> reply_dangling s' \<and> shown s' = shown s @ x"
proof -
  let ?s = "s\<lparr>synclock := True\<rparr>"
  have s: "slm_inv ?s" "slm_state ?s = state_Connected" "probes ?s = []" "tx (peer ?s) = []"
    "obytes (outbuf (slm_prot ?s)) = []" "unread (slm_prot ?s) = []" "\<not> synclock s"
    using assms(1) by (simp_all add: lib_idle_def)
  have o: "ensure_opened ?s = Returns (0, ?s)" using s(2,3) by (simp add: ensure_opened_def sys_probe_def)
  obtain u where u: "send_fields args ?s = (0, u)" "sends ?s u" "sent (peer u) = sent (peer s) @ encode args"
    "tx (peer u) = []" "obytes (outbuf (slm_prot u)) = []"
    using send_calm[OF s(1,4,5) assms(2,3)] by auto
  have ru: "slm_inv u" "data_only (peer u)" "coming u = stream rs" "shown u = shown s"
    using u(2) s(6) assms(4,5) same_in_inv[of "slm_prot ?s" "slm_prot u"] s(1)
    by (auto simp: sends_def slm_inv_def coming_def data_then_def)
  obtain v where v: "after u = Returns (k, v)" "listened u v" "coming v = []"
    "reply_fields v = z" "\<not> reply_dangling v" "shown v = shown u @ x"
    using assms(6)[OF ru(1-3)] by blast
  have "sync_process args after s = Returns (k, v\<lparr>synclock := False\<rparr>)"
    using s(7) o u(1) v(1) by (simp add: sync_process_def)
  moreover have "lib_idle (v\<lparr>synclock := False\<rparr>)"
    using v(2,3) u(2,4,5) s(2,3) by (simp add: lib_idle_def slm_inv_def sends_def same_conn_def listened_def coming_def)
  ultimately show ?thesis
    using v(2,4-6) u(3) ru(4) by (simp add: reply_fields_def reply_dangling_def listened_def)
qed

lemma library_call_pieces:
  assumes "lib_idle s" "args \<noteq> []" "fits args" "data_only (peer s)" "incoming (rx (peer s)) = stream rs"
    "good_replies args rs"
  shows "\<exists>s'. library_call args s = Returns (result_of args rs, s') \<and> sent (peer s') = sent (peer s) @ encode args
    \<and> reply_fields s' = last rs \<and> lib_idle s' \<and> \<not> reply_dangling s' \<and> shown s' = shown s @ shown_by args rs"
  unfolding library_call_def
  by (rule sync_process_pieces[OF assms(1-5)]) (rule library_wait_pieces[OF _ _ _ assms(6)])

section \<open>The daemon\<close>

lemma pending_nothing:
  assumes "session_ready t" "\<not> invalid (cl t)" "next_fields False (unread (cprot (cl t))) = (None, unread (cprot (cl t)))"
    "length (unread (cprot (cl t))) < PROT_MAX_BUFFER_LENGTH"
  shows "\<exists>p. pending H t = Some (0, on_prot (\<lambda>_. p) t) \<and> session_ready (on_prot (\<lambda>_. p) t)
    \<and> unread p = unread (cprot (cl t)) \<and> same_out (cprot (cl t)) p"
proof -
  let ?p = "cprot (cl t)"
  have i: "in_inv ?p" "fcount (pfields ?p) < 0" "\<not> allow_empty ?p"
    using assms(1) by (simp_all add: session_ready_def session_inv_def)
  obtain k p where g: "prot_get ?p = Some (k, p)" "got ?p k p" using prot_get_pending[OF i(1,2)] by blast
  have k: "k = - EAGAIN" "unread p = unread ?p" "fcount (pfields p) < 0"
    using g(2) assms(3,4) i(3) by (simp_all add: got_def)
  have s: "in_inv p" "same_out ?p p" using g(2) by (simp_all add: got_def)
  have "session_ready (on_prot (\<lambda>_. p) t)"
    using assms(1) s k(3) same_out_inv[OF s(2)] by (simp add: session_ready_def session_inv_def on_prot_def same_out_def)
  moreover have "pending H t = Some (0, on_prot (\<lambda>_. p) t)"
    using g(1) k(1) assms(2) by (subst pending.simps) (simp add: Let_def)
  ultimately show ?thesis using k(2) s(2) by blast
qed

text \<open>From \<open>t\<close> to \<open>u\<close> the daemon has only listened to its client.\<close>

definition heard :: "'z session \<Rightarrow> 'z session \<Rightarrow> bool" where
  "heard t u \<longleftrightarrow> session_ready u \<and> outbuf (cprot (cl u)) = outbuf (cprot (cl t))
     \<and> cl u = (cl t)\<lparr>cprot := cprot (cl u)\<rparr> \<and> sent (chn u) = sent (chn t) \<and> tx (chn u) = tx (chn t)
     \<and> server_log u = server_log t \<and> plog u = plog t \<and> closed u = closed t \<and> world u = world t"

lemma heard_trans: "heard s t \<Longrightarrow> heard t u \<Longrightarrow> heard s u"
  unfolding heard_def by (metis client.update_convs(1) client.surjective)

lemma heard_same:
  "heard t u \<Longrightarrow> cctx (cl u) = cctx (cl t) \<and> version (cl u) = version (cl t) \<and> invalid (cl u) = invalid (cl t)
     \<and> fdin (cl u) = fdin (cl t) \<and> fdout (cl u) = fdout (cl t)"
  unfolding heard_def by (metis client.select_convs(2-6) client.update_convs(1) client.surjective)

lemma daemon_reads_piece:
  assumes "session_ready t" "\<not> invalid (cl t)" "client_is_connected (cl t)" "data_then es (chn t)" "incoming (rx (chn t)) \<noteq> []"
    "next_fields False (unread (cprot (cl t))) = (None, unread (cprot (cl t)))"
    "length (unread (cprot (cl t))) < PROT_MAX_BUFFER_LENGTH"
  shows "\<exists>u x. client_process_input H t = client_process_input H u \<and> heard t u \<and> x \<noteq> [] \<and> data_then es (chn u)
    \<and> unread (cprot (cl u)) = unread (cprot (cl t)) @ x \<and> incoming (rx (chn t)) = x @ incoming (rx (chn u))"
proof -
  obtain p where p: "pending H t = Some (0, on_prot (\<lambda>_. p) t)" "session_ready (on_prot (\<lambda>_. p) t)"
    "unread p = unread (cprot (cl t))" "same_out (cprot (cl t)) p"
    using pending_nothing[OF assms(1,2,6,7)] by blast
  have ip: "in_inv p" "fcount (pfields p) < 0"
    using p(2) by (simp_all add: session_ready_def session_inv_def on_prot_def)
  have bc: "bcount (inbuf p) < PROT_MAX_BUFFER_LENGTH" using unread_length[OF ip] p(3) assms(7) by simp
  obtain x q ch where q: "prot_read p (chn t) = (int (length x), q, ch)" "x \<noteq> []" "in_inv q" "same_out p q"
    "unread q = unread p @ x" "pfields q = pfields p" "incoming (rx (chn t)) = x @ incoming (rx ch)"
    "data_then es ch" "tx ch = tx (chn t)" "sent ch = sent (chn t)"
    using prot_read_piece[OF ip(1) bc assms(4,5)] by blast
  let ?u = "set_link q ch (on_prot (\<lambda>_. p) t)"
  have run: "client_process_input H t = client_process_input H ?u"
    using p(1) assms(2,3) q(1,2) by (subst client_process_input.simps) (simp add: on_prot_def client_is_connected_def Let_def)
  have ready: "session_ready ?u"
    using p(2) q(3,4,6) ip same_out_inv[OF q(4)]
    by (simp add: session_ready_def session_inv_def set_link_def on_prot_def same_out_def)
  have "heard t ?u"
    using ready q(4,8-10) p(4) by (simp add: heard_def set_link_def on_prot_def same_out_def)
  then show ?thesis using run q(2,5,7,8) p(3) by (intro exI[of _ ?u] exI[of _ x]) (simp add: set_link_def)
qed

lemma daemon_reads:
  assumes "session_ready t" "\<not> invalid (cl t)" "client_is_connected (cl t)" "data_only (chn t)" "incoming (rx (chn t)) \<noteq> []"
    "unread (cprot (cl t)) @ incoming (rx (chn t)) = encode args" "valid_msg args" "fits args"
  shows "\<exists>u. client_process_input H t = client_process_input H u \<and> heard t u \<and> unread (cprot (cl u)) = encode args
    \<and> rx (chn u) = []"
  using assms
proof (induction "length (incoming (rx (chn t)))" arbitrary: t rule: less_induct)
  case less
  let ?w = "unread (cprot (cl t))"
  have w: "?w @ incoming (rx (chn t)) = stream [args]" using less.prems(6) by (simp add: stream_def)
  have none: "next_fields False ?w = (None, ?w)"
    using next_fields_valid[OF w] less.prems(5,7) by (auto simp: stream_def)
  have part: "length ?w < length (encode args)"
    using next_fields_partial[OF none _ less.prems(7), of "incoming (rx (chn t))" "[]"] less.prems(6) by simp
  then have room: "length ?w < PROT_MAX_BUFFER_LENGTH" using less.prems(8) by (simp add: fits_def)
  obtain u x where u: "client_process_input H t = client_process_input H u" "heard t u" "x \<noteq> []" "data_only (chn u)"
    "unread (cprot (cl u)) = ?w @ x" "incoming (rx (chn t)) = x @ incoming (rx (chn u))"
    using daemon_reads_piece[OF less.prems(1-5) none room] by blast
  have un: "unread (cprot (cl u)) @ incoming (rx (chn u)) = encode args" using u(5,6) less.prems(6) by simp
  have uu: "session_ready u" "\<not> invalid (cl u)" "client_is_connected (cl u)" "data_only (chn u)"
    using u(2,4) heard_same[OF u(2)] less.prems(2,3) by (simp_all add: heard_def client_is_connected_def)
  show ?case
  proof (cases "incoming (rx (chn u)) = []")
    case True
    then show ?thesis using un data_then_none[OF uu(4)] u(1,2) by auto
  next
    case False
    have sh: "length (incoming (rx (chn u))) < length (incoming (rx (chn t)))" using u(3,6) by simp
    obtain v where "client_process_input H u = client_process_input H v" "heard u v"
      "unread (cprot (cl v)) = encode args" "rx (chn v) = []"
      using less.hyps[OF sh uu False un less.prems(7,8)] by blast
    then show ?thesis using u(1) heard_trans[OF u(2)] by metis
  qed
qed

text \<open>What the daemon does of a complete record at the head of what it has received.\<close>

definition daemon_listening :: "'z session \<Rightarrow> bool" where
  "daemon_listening t \<longleftrightarrow> session_ready t \<and> \<not> invalid (cl t) \<and> client_is_connected (cl t) \<and> tx (chn t) = []
     \<and> obytes (outbuf (cprot (cl t))) = []"

definition daemon_idle :: "'z session \<Rightarrow> bool" where
  "daemon_idle t \<longleftrightarrow> daemon_listening t \<and> unread (cprot (cl t)) = []"

lemma process_pending: "pending H t = pending H u \<Longrightarrow> client_process_input H t = client_process_input H u"
  by (simp add: client_process_input.simps)

lemma pending_record:
  assumes "daemon_listening t" "next_fields False (unread (cprot (cl t))) = (Some args, rest)" "args \<noteq> []" "check_utf8 args"
    "version (cl t) \<noteq> 0 \<or> hd args \<noteq> n_sec_lsm_manager"
    "serve H args (server_log t) (cctx (cl t)) (world t) = (rs, lg, c, w, ok)"
  shows "\<exists>y. pending H t = pending H y \<and> session_ready y \<and> client_is_connected (cl y) \<and> tx (chn y) = []
    \<and> obytes (outbuf (cprot (cl y))) = [] \<and> unread (cprot (cl y)) = rest \<and> rx (chn y) = rx (chn t)
    \<and> sent (chn y) = sent (chn t) @ stream rs \<and> cctx (cl y) = c \<and> world y = w \<and> server_log y = lg
    \<and> (invalid (cl y) \<longleftrightarrow> \<not> ok) \<and> version (cl y) \<noteq> 0
    \<and> (list_all fits (display_records (cctx (cl t))) \<longrightarrow> plog y = plog t @ exchange_log (server_log t) args rs)"
proof -
  let ?p = "cprot (cl t)"
  have t: "session_ready t" "\<not> invalid (cl t)" "client_is_connected (cl t)" "tx (chn t) = []" "obytes (outbuf ?p) = []"
    using assms(1) by (simp_all add: daemon_listening_def)
  have i: "in_inv ?p" "fcount (pfields ?p) < 0" "\<not> allow_empty ?p"
    using t(1) by (simp_all add: session_ready_def session_inv_def)
  obtain k p where g: "prot_get ?p = Some (k, p)" "got ?p k p" using prot_get_pending[OF i(1,2)] by blast
  have k: "0 < k" "prot_fields p = args" "unread p = rest" "in_inv p" "same_out ?p p"
    using g(2) assms(2,3) i(3) by (auto simp: got_def)
  let ?v = "on_prot (\<lambda>_. p) t"
  let ?x = "onrequest H args ?v"
  let ?y = "on_prot prot_next ?x"
  have v: "session_inv ?v"
    using t(1) k(4,5) same_out_inv[OF k(5)] by (simp add: session_ready_def session_inv_def on_prot_def same_out_def)
  have run: "pending H t = pending H ?y"
    using g(1) k(1,2) t(2) by (subst pending.simps) (simp add: Let_def)
  have vv: "tx (chn ?v) = []" "server_log ?v = server_log t" "cctx (cl ?v) = cctx (cl t)" "world ?v = world t"
    "version (cl ?v) = version (cl t)" "\<not> invalid (cl ?v)" "sent (chn ?v) = sent (chn t)"
    "obytes (outbuf (cprot (cl ?v))) = []" "rx (chn ?v) = rx (chn t)" "plog ?v = plog t"
    using t k(5) by (simp_all add: on_prot_def set_link_def same_out_def)
  have sv: "served ((dolog_protocol True args ?v)\<lparr>cl := (cl ?v)\<lparr>version := (if version (cl ?v) = 0 then 1 else version (cl ?v))\<rparr>\<rparr>)
      (rs, lg, c, w, ok) ?x"
    using request_serves[OF v vv(1) assms(3,4), of H] assms(5,6) vv by simp
  have x: "sent (chn ?x) = sent (chn t) @ stream rs" "cctx (cl ?x) = c" "world ?x = w" "server_log ?x = lg"
    "invalid (cl ?x) = (\<not> ok)" "session_inv ?x" "rx (chn ?x) = rx (chn t)" "tx (chn ?x) = []"
    "obytes (outbuf (cprot (cl ?x))) = []" "version (cl ?x) \<noteq> 0"
    using sv vv by (simp_all add: served_def out_stream_def same_rx_def)
  have xl: "list_all fits (display_records (cctx (cl t))) \<longrightarrow> plog ?x = plog t @ exchange_log (server_log t) args rs"
    using sv vv(2,3,10) dolog_exchange[of args ?v rs] by (simp add: served_def)
  have px: "inbuf (cprot (cl ?x)) = inbuf p" "pfields (cprot (cl ?x)) = pfields p" "fdin (cl ?x) = fdin (cl t)"
    using sv by (simp_all add: served_def same_rx_def on_prot_def)
  have ix: "in_inv (cprot (cl ?x))" using x(6) by (simp add: session_inv_def)
  note n = prot_next_in[OF ix]
  have "unread (cprot (cl ?x)) = unread p" using px by (simp add: unread_def)
  then have un: "unread (cprot (cl ?y)) = rest" using n k(3) by (simp add: on_prot_def)
  have "session_ready ?y"
    using x(6) n same_out_inv[of "cprot (cl ?x)" "prot_next (cprot (cl ?x))"]
    by (simp add: session_ready_def session_inv_def on_prot_def same_out_def)
  moreover have "sent (chn ?y) = sent (chn t) @ stream rs" "cctx (cl ?y) = c" "world ?y = w" "server_log ?y = lg"
    "invalid (cl ?y) = (\<not> ok)" "rx (chn ?y) = rx (chn t)" "client_is_connected (cl ?y)" "plog ?y = plog ?x" "tx (chn ?y) = []"
    "obytes (outbuf (cprot (cl ?y))) = []" "version (cl ?y) \<noteq> 0"
    using x px(3) t(3) n by (simp_all add: on_prot_def client_is_connected_def same_out_def)
  ultimately show ?thesis using run un xl by auto
qed

text \<open>With no complete record and nothing to read the daemon waits, or ends with the stream.\<close>

lemma daemon_waits:
  assumes "daemon_listening y" "next_fields False (unread (cprot (cl y))) = (None, unread (cprot (cl y)))"
    "length (unread (cprot (cl y))) < PROT_MAX_BUFFER_LENGTH" "rx (chn y) = es" "es = [] \<or> es = [RxEof]"
  shows "\<exists>z. client_process_input H y = Some (if es = [] then - EAGAIN else 0, z) \<and> daemon_listening z \<and> heard y z
    \<and> unread (cprot (cl z)) = unread (cprot (cl y)) \<and> chn z = chn y"
proof -
  have y: "session_ready y" "\<not> invalid (cl y)" "client_is_connected (cl y)" using assms(1) by (simp_all add: daemon_listening_def)
  obtain p where p: "pending H y = Some (0, on_prot (\<lambda>_. p) y)" "session_ready (on_prot (\<lambda>_. p) y)"
    "unread p = unread (cprot (cl y))" "same_out (cprot (cl y)) p"
    using pending_nothing[OF y(1,2) assms(2,3)] by blast
  have ip: "in_inv p" "fcount (pfields p) < 0"
    using p(2) by (simp_all add: session_ready_def session_inv_def on_prot_def)
  have b: "bcount (inbuf p) < PROT_MAX_BUFFER_LENGTH" using unread_length[OF ip] p(3) assms(3) by simp
  have "read_retry (PROT_MAX_BUFFER_LENGTH - bcount (inbuf p)) (chn y) = (if es = [] then Inl EAGAIN else Inr [], chn y)"
    using assms(4,5) by (subst read_retry.simps) (auto simp: sys_read_def)
  then have rd: "prot_read p (chn y) = (if es = [] then - EAGAIN else 0, p, chn y)"
    using b by (simp add: prot_read_def inbuf_read_def)
  let ?z = "set_link p (chn y) (on_prot (\<lambda>_. p) y)"
  have "client_process_input H y = Some (if es = [] then - EAGAIN else 0, ?z)"
    using p(1) y(2,3) rd by (subst client_process_input.simps) (simp add: on_prot_def client_is_connected_def Let_def)
  moreover have z: "session_ready ?z" using p(2) by (simp add: session_ready_def session_inv_def set_link_def on_prot_def)
  moreover have "daemon_listening ?z"
    using z p(4) assms(1)
    by (simp add: daemon_listening_def set_link_def on_prot_def same_out_def client_is_connected_def)
  moreover have "heard y ?z"
    using z p(4) by (simp add: heard_def set_link_def on_prot_def same_out_def)
  ultimately show ?thesis using p(3) by (intro exI[of _ ?z]) (simp add: set_link_def)
qed

lemma next_fields_nil: "next_fields False [] = (None, [])"
  by (simp add: next_fields.simps next_record_def)

lemma daemon_answers:
  assumes "daemon_idle t" "data_only (chn t)" "incoming (rx (chn t)) = encode args" "valid_msg args" "fits args" "list_all is_utf8 args"
    "version (cl t) \<noteq> 0 \<or> hd args \<noteq> n_sec_lsm_manager"
    "serve H args (server_log t) (cctx (cl t)) (world t) = (rs, lg, c, w, ok)"
  shows "\<exists>t'. client_process_input H t = Some (if ok then - EAGAIN else - EPROTO, t')
    \<and> sent (chn t') = sent (chn t) @ stream rs \<and> cctx (cl t') = c \<and> world t' = w \<and> server_log t' = lg
    \<and> (ok \<longrightarrow> daemon_idle t' \<and> version (cl t') \<noteq> 0)
    \<and> (list_all fits (display_records (cctx (cl t))) \<longrightarrow> plog t' = plog t @ exchange_log (server_log t) args rs)"
proof -
  have t: "session_ready t" "\<not> invalid (cl t)" "client_is_connected (cl t)" "tx (chn t) = []"
    "obytes (outbuf (cprot (cl t))) = []" "unread (cprot (cl t)) = []"
    using assms(1) by (simp_all add: daemon_idle_def daemon_listening_def)
  obtain u where run1: "client_process_input H t = client_process_input H u" and h: "heard t u"
    and un: "unread (cprot (cl u)) = encode args" "rx (chn u) = []"
    using daemon_reads[OF t(1-3) assms(2) _ _ assms(4,5)] assms(3) t(6) by (auto simp: encode_def)
  note hs = heard_same[OF h]
  have u: "daemon_listening u" "version (cl u) = version (cl t)" "server_log u = server_log t" "cctx (cl u) = cctx (cl t)"
    "world u = world t" "sent (chn u) = sent (chn t)" "plog u = plog t"
    using hs h t by (simp_all add: heard_def daemon_listening_def client_is_connected_def)
  have "next_record (encode args @ []) = Some (args, [])"
    using assms(4) by (intro next_record_encode) (auto simp: valid_msg_def)
  then have nf: "next_fields False (unread (cprot (cl u))) = (Some args, [])"
    using assms(4) un(1) by (subst next_fields.simps) (simp add: valid_msg_def)
  have args: "args \<noteq> []" "check_utf8 args" using assms(4,6) by (simp_all add: valid_msg_def check_utf8_def)
  obtain y where y: "pending H u = pending H y" "session_ready y" "client_is_connected (cl y)" "tx (chn y) = []"
    "obytes (outbuf (cprot (cl y))) = []" "unread (cprot (cl y)) = []" "rx (chn y) = []"
    "sent (chn y) = sent (chn t) @ stream rs" "cctx (cl y) = c" "world y = w" "server_log y = lg"
    "invalid (cl y) \<longleftrightarrow> \<not> ok" "version (cl y) \<noteq> 0"
    "list_all fits (display_records (cctx (cl t))) \<longrightarrow> plog y = plog t @ exchange_log (server_log t) args rs"
    using pending_record[OF u(1) nf args, of H] assms(7,8) u un(2) by auto
  note run2 = process_pending[OF y(1)]
  show ?thesis
  proof (cases ok)
    case False
    then have "client_process_input H y = Some (- EPROTO, y)"
      using y(3,12) by (subst client_process_input.simps) (simp add: pending.simps[of H y])
    then show ?thesis using run1 run2 y False by simp
  next
    case True
    then have "daemon_listening y" using y by (simp add: daemon_listening_def)
    then obtain z where z: "client_process_input H y = Some (- EAGAIN, z)" "daemon_listening z" "heard y z"
      "unread (cprot (cl z)) = []"
      using daemon_waits[of y "[]" H] y(6,7) next_fields_nil by (auto simp: PROT_MAX_BUFFER_LENGTH_def)
    then show ?thesis
      using run1 run2 y True heard_same[OF z(3)] by (simp add: daemon_idle_def heard_def)
  qed
qed

text \<open>A single reply of the daemon is \<open>done\<close>, maybe with a value, or an error with its text.\<close>

lemma error_texts_no_nul:
  "no_nul (id_error e)" "no_nul (install_error e)" "no_nul (path_error e)"
  "no_nul (permission_error e)" "no_nul (plug_error e)" "no_nul (uninstall_error e)"
  by (simp_all add: no_nul_def id_error_def install_error_def path_error_def permission_error_def
      plug_error_def uninstall_error_def)

definition plain_reply :: "string list \<Rightarrow> bool" where
  "plain_reply r \<longleftrightarrow> r = [n_done] \<or> r = [n_done, n_on] \<or> r = [n_done, n_off]
     \<or> (\<exists>x. r = [n_error, x] \<and> no_nul x \<and> length x \<le> 20)"

lemma plain_reply_ok: "plain_reply r \<Longrightarrow> valid_msg r \<and> fits r \<and> (r ! 0 = n_done \<or> r ! 0 = n_error)"
  using fits_done fits_error
  by (auto simp: plain_reply_def valid_msg_def PROT_MAX_FIELDS_def no_nul_def)

lemma status_plain:
  assumes "no_nul (f (- rc))" "length (f (- rc)) \<le> 20" "status f lg rc c w = ([r], lg', c', w', ok)"
  shows "plain_reply r"
proof (cases "rc \<ge> 0")
  case True
  then have "r = [n_done]" using assms(3) by (simp add: status_def)
  then show ?thesis by (simp add: plain_reply_def)
next
  case False
  then have "r = [n_error, f (- rc)]" using assms(3) by (simp add: status_def)
  then show ?thesis unfolding plain_reply_def using assms(1,2) by blast
qed

lemma serve_plain: "serve H args lg c w = ([r], lg', c', w', ok) \<Longrightarrow> plain_reply r"
proof -
  assume run: "serve H args lg c w = ([r], lg', c', w', ok)"
  have bad: "plain_reply [n_error, ''protocol'']" "plain_reply [n_error, ''internal'']"
    by (simp_all add: plain_reply_def no_nul_def)
  note st = status_plain[OF error_texts_no_nul(1) error_texts(1)] status_plain[OF error_texts_no_nul(2) error_texts(2)]
    status_plain[OF error_texts_no_nul(3) error_texts(3)] status_plain[OF error_texts_no_nul(4) error_texts(4)]
    status_plain[OF error_texts_no_nul(5) error_texts(5)] status_plain[OF error_texts_no_nul(6) error_texts(6)]
  consider (zero) "args = []" | (one) a where "args = [a]" | (two) a x where "args = [a, x]"
    | (three) a x y where "args = [a, x, y]" | (four) a x y z where "args = [a, x, y, z]"
    | (more) a x y z v q where "args = a # x # y # z # v # q"
    by (metis list.exhaust)
  then show ?thesis
  proof cases
    case one
    obtain k u where i: "action_install H c w = (k, u)" by fastforce
    obtain k2 u2 where n: "action_uninstall H c w = (k2, u2)" by fastforce
    have d: "plain_reply [n_done]" "plain_reply [n_done, if lg then n_on else n_off]" by (simp_all add: plain_reply_def)
    have e: "xs @ [y] = [r] \<Longrightarrow> y = r" for xs y by (cases xs) simp_all
    show ?thesis
      using run[unfolded serve_def one Let_def list.case i n prod.case] bad d st(2,6)
      by (auto split: if_splits dest: e)
  next
    case two
    obtain k c2 where i: "context_set_id c x = (k, c2)" by fastforce
    obtain k3 c3 u3 where n: "context_add_permission c x w = (k3, c3, u3)" by (metis prod_cases3)
    have d: "x = n_on \<or> x = n_off \<Longrightarrow> plain_reply [n_done, x]" by (auto simp: plain_reply_def)
    show ?thesis
      using run[unfolded serve_def two Let_def list.case i n prod.case] bad d st(1,4) by (auto split: if_splits)
  next
    case three
    obtain k c2 u2 where i: "context_add_path c x y w = (k, c2, u2)" by (metis prod_cases3)
    show ?thesis
      using run[unfolded serve_def three Let_def list.case i prod.case] bad st(3) by (auto split: if_splits)
  next
    case four
    obtain k c2 u2 where i: "context_add_plug c x y z w = (k, c2, u2)" by (metis prod_cases3)
    show ?thesis
      using run[unfolded serve_def four Let_def list.case i prod.case] bad st(5) by (auto split: if_splits)
  qed (use run bad in \<open>simp_all add: serve_def\<close>)
qed

section \<open>The replies of the abstract server\<close>

text \<open>The permissions of a session come from requests: no text of them holds a NUL.\<close>

definition plain_ctx :: "'p ctx \<Rightarrow> bool" where
  "plain_ctx c \<longleftrightarrow> list_all no_nul (permissions (permission_set c))"

lemma plain_ctx_ops:
  "plain_ctx (context_clear c)" "plain_ctx (context_raise_error c) = plain_ctx c"
  "plain_ctx (snd (context_set_id c x)) = plain_ctx c"
  "plain_ctx (fst (snd (context_add_path c x y w))) = plain_ctx c"
  "plain_ctx (fst (snd (context_add_plug c x y z w))) = plain_ctx c"
  by (simp_all add: plain_ctx_def context_clear_def context_raise_error_def context_set_id_def context_add_path_def
      context_add_plug_def permission_set_clear_def Let_def case_prod_beta split: option.split)

lemma plain_ctx_permission:
  "plain_ctx c \<Longrightarrow> no_nul x \<Longrightarrow> plain_ctx (fst (snd (context_add_permission c x w)))"
proof -
  assume a: "plain_ctx c" "no_nul x"
  obtain rc s w1 where s: "permission_set_add (permission_set c) x w = (rc, s, w1)" by (metis prod_cases3)
  then have "list_all no_nul (permissions s)"
    using a by (auto simp: plain_ctx_def permission_set_add_def Let_def split: if_splits prod.splits)
  then show ?thesis using a by (simp add: plain_ctx_def context_add_permission_def s)
qed

lemma serve_plain_ctx:
  assumes "plain_ctx c" "list_all no_nul args"
  shows "plain_ctx (fst (snd (snd (serve H args lg c w))))"
  using assms
  by (auto simp: serve_def status_def Let_def case_prod_beta plain_ctx_ops plain_ctx_permission split: list.split)

lemma path_type_name_plain: "no_nul (path_type_name t)"
  by (cases t) (simp_all add: no_nul_def)

lemma display_good:
  assumes "ctx_inv c" "plain_ctx c"
  shows "list_all valid_msg (display_records c)" "list_all (\<lambda>q. 2 < length q \<and> q ! 0 = n_string) (display_records c)"
proof -
  have "no_nul (expdir p) \<and> no_nul (impid p) \<and> no_nul (impdir p)" if "p \<in> set (plugset c)" for p
    using that assms(1) valid_id_no_nul by (auto simp: ctx_inv_def ctx_texts_def abs_path_def)
  moreover have "no_nul (path i)" if "i \<in> set (path_set c)" for i
    using that assms(1) by (auto simp: ctx_inv_def ctx_texts_def abs_path_def)
  ultimately show "list_all valid_msg (display_records c)"
    using assms(2)
    by (auto simp: display_records_def ctx_items_def list_all_iff valid_msg_def PROT_MAX_FIELDS_def no_nul_def[of n_string]
        no_nul_def[of n_id] no_nul_def[of n_path] no_nul_def[of n_permission] no_nul_def[of n_plug] no_nul_def[of n_error]
        no_nul_def[of n_on] path_type_name_plain plain_ctx_def context_id_def)
  show "list_all (\<lambda>q. 2 < length q \<and> q ! 0 = n_string) (display_records c)"
    by (auto simp: display_records_def ctx_items_def list_all_iff)
qed

lemma serve_single: "args \<noteq> [n_display] \<Longrightarrow> \<exists>r. fst (serve H args lg c w) = [r]"
  by (simp add: serve_def status_def Let_def case_prod_beta split: list.split)

lemma serve_log:
  "serve H args lg c w = (rs, lg', c', w', True) \<Longrightarrow> hd args = n_log \<Longrightarrow> args \<noteq> [] \<Longrightarrow> rs = [[n_done, n_on]] \<or> rs = [[n_done, n_off]]"
  by (auto simp: serve_def Let_def split: list.splits if_splits)

lemma list_all_takeWhile: "list_all P xs \<Longrightarrow> list_all P (takeWhile Q xs)"
  by (auto simp: list_all_iff dest: set_takeWhileD)

lemma serve_good:
  assumes "serve H args lg c w = (rs, lg', c', w', True)" "ctx_inv c" "plain_ctx c" "args \<noteq> []"
  shows "good_replies args rs"
proof (cases "args = [n_display]")
  case True
  let ?d = "display_records c"
  have v: "list_all valid_msg (takeWhile fits ?d)" "list_all (\<lambda>q. 2 < length q \<and> q ! 0 = n_string) (takeWhile fits ?d)"
    using display_good[OF assms(2,3)] list_all_takeWhile by blast+
  have f: "list_all fits (takeWhile fits ?d)" by (auto simp: list_all_iff dest: set_takeWhileD)
  have "rs = takeWhile fits ?d @ [if list_all fits ?d then [n_done] else [n_error, ''internal'']]"
  proof (cases "list_all fits ?d")
    case all: True
    then have tw: "takeWhile fits ?d = ?d" by (simp add: takeWhile_eq_all_conv list_all_iff)
    show ?thesis unfolding tw using assms(1) True all by (auto simp: serve_def Let_def)
  next
    case False
    then show ?thesis using assms(1) True by (simp add: serve_def Let_def)
  qed
  moreover have "plain_reply [n_done]" "plain_reply [n_error, ''internal'']" by (simp_all add: plain_reply_def no_nul_def)
  ultimately show ?thesis
    using v f plain_reply_ok True by (auto simp: good_replies_def final_reply_def)
next
  case False
  then obtain r where r: "rs = [r]" using serve_single[OF False, of H lg c w] assms(1) by auto
  then have p: "plain_reply r" using serve_plain assms(1) by metis
  have "length r \<le> 2" using p by (auto simp: plain_reply_def)
  moreover have "hd args = n_log \<Longrightarrow> length r = 2" using serve_log[OF assms(1) _ assms(4)] r by auto
  ultimately show ?thesis using plain_reply_ok[OF p] r by (auto simp: good_replies_def final_reply_def)
qed

text \<open>A request answered by one record.\<close>

lemma sync_process_calm:
  assumes "lib_idle s" "args \<noteq> []" "fits args" "rx (peer s) = [RxData (encode r)]" "plain_reply r"
  shows "\<exists>s'. sync_process args wait_done_or_error s = Returns (if r ! 0 = n_done then 0 else - EPROTO, s')
    \<and> sent (peer s') = sent (peer s) @ encode args \<and> reply_fields s' = r \<and> lib_idle s' \<and> \<not> reply_dangling s'"
proof -
  note pr = plain_reply_ok[OF assms(5)]
  have d: "data_only (peer s)" "incoming (rx (peer s)) = stream [r]"
    using assms(4) by (auto simp: data_then_def stream_def encode_def intro: exI[of _ "[encode r]"])
  have "\<exists>v. wait_done_or_error u = Returns (if r ! 0 = n_done then 0 else - EPROTO, v) \<and> listened u v \<and> coming v = []
      \<and> reply_fields v = r \<and> \<not> reply_dangling v \<and> shown v = shown u @ []"
    if u: "slm_inv u" "data_only (peer u)" "coming u = stream [r]" for u
  proof -
    obtain v where "wait_reply True u = Returns (int (length r), v)" "listened u v" "coming v = stream []"
      "reply_fields v = r" "\<not> reply_dangling v" "shown v = shown u"
      using wait_reply_pieces[OF u, of True] pr by auto
    then show ?thesis
      using pr by (auto simp: wait_done_or_error_def raw_wait_done_or_error_def wait_any_reply_def stream_def valid_msg_def)
  qed
  from sync_process_pieces[OF assms(1-3) d this] show ?thesis by blast
qed

section \<open>Properties\<close>

text \<open>
  A call of the library and the session of the daemon that serves it, composed. When the
  bytes the library sends are what the daemon receives, and the bytes the daemon sends back are
  what the library receives, a request the daemon answers by one record makes the call return
  zero exactly when the abstract server answers \<open>done\<close>, and \<open>- EPROTO\<close> when it answers an error;
  the context and the system of the daemon are those of the abstract server.
\<close>

theorem remote_call:
  assumes "lib_idle s" "daemon_idle t" "valid_msg args" "fits args" "list_all is_utf8 args"
    "version (cl t) \<noteq> 0 \<or> hd args \<noteq> ''sec-lsm-manager''"
    "serve H args (server_log t) (cctx (cl t)) (world t) = ([reply], lg, c, w, ok)"
    "rx (chn t) = [RxData (encode args)]" "rx (peer s) = [RxData (encode reply)]"
  shows "\<exists>s' t'. sync_process args wait_done_or_error s = Returns (if reply ! 0 = ''done'' then 0 else - EPROTO, s')
    \<and> sent (peer s') = sent (peer s) @ encode args \<and> reply_fields s' = reply
    \<and> client_process_input H t = Some (if ok then - EAGAIN else - EPROTO, t')
    \<and> sent (chn t') = sent (chn t) @ encode reply \<and> cctx (cl t') = c \<and> world t' = w"
proof -
  have args: "args \<noteq> []" using assms(3) by (simp add: valid_msg_def)
  have d: "data_only (chn t)" "incoming (rx (chn t)) = encode args"
    using assms(8) by (auto simp: data_then_def encode_def intro: exI[of _ "[encode args]"])
  from sync_process_calm[OF assms(1) args assms(4,9) serve_plain[OF assms(7)]]
    daemon_answers[OF assms(2) d assms(3,4,5,6,7)]
  show ?thesis by (auto simp: stream_def)
qed

theorem remote_call_witness:
  "\<exists>s' t'. sec_lsm_manager_set_id (Some ''demo'') (demo_lib [RxData (''done'' @ [LF])]) = Returns (0, s')
     \<and> client_process_input demo_server_host (demo_session [RxData (sent (peer s'))]) = Some (- EAGAIN, t')
     \<and> sent (chn t') = ''done'' @ [LF] \<and> context_id (cctx (cl t')) = ''demo''"
proof -
  let ?args = "[''id'', ''demo'']"
  have e: "encode ?args = ''id demo'' @ [LF]" "encode [''done''] = ''done'' @ [LF]"
    by (simp_all add: encode_def needs_escape_def)
  have u: "list_all is_utf8 ?args" by code_simp
  have c: "fst (context_set_id (context_init (cctx demo_client_mem)) ''demo'') = 0"
    "context_id (snd (context_set_id (context_init (cctx demo_client_mem)) ''demo'')) = ''demo''"
    by (code_simp, code_simp)
  obtain c' where c': "context_set_id (context_init (cctx demo_client_mem)) ''demo'' = (0, c')" "context_id c' = ''demo''"
    using c by (metis prod.collapse)
  let ?t = "demo_session [RxData (encode ?args)]" and ?s = "demo_lib [RxData (encode [''done''])]"
  have sv: "serve demo_server_host ?args (server_log ?t) (cctx (cl ?t)) (world ?t) = ([[''done'']], False, c', demo_os, True)"
    using c'(1) by (simp add: serve_def status_def demo_session_def)
  have d: "daemon_idle ?t"
    using demo_session_ready new_prot_inv by (simp add: daemon_idle_def daemon_listening_def demo_session_def client_is_connected_def)
  have v: "valid_msg ?args" "fits ?args"
    by (simp_all add: valid_msg_def PROT_MAX_FIELDS_def no_nul_def fits_def e PROT_MAX_BUFFER_LENGTH_def)
  from remote_call[OF demo_lib_idle(1)[of "[RxData (encode [''done''])]"] d v u _ sv] obtain s' t' where
    "sync_process ?args wait_done_or_error ?s = Returns (0, s')" "sent (peer s') = encode ?args"
    "client_process_input demo_server_host ?t = Some (- EAGAIN, t')" "sent (chn t') = encode [''done'']"
    "cctx (cl t') = c'"
    by (auto simp: demo_session_def demo_lib_def)
  then show ?thesis using c'(2) by (auto simp: sec_lsm_manager_set_id_def e)
qed

end
