(* ===== verification/Remote_Session.thy ===== *)
theory Remote_Session
  imports Delivery
begin

text \<open>
  A whole session: the library of a client and the session of the daemon that serves it, over a
  connection that carries the bytes in any pieces, for any sequence of requests, those answered by
  many records included.
\<close>

section \<open>The composition\<close>

text \<open>
  How the connection cuts what it carries: the \<open>n\<close>-th transmission of the bytes \<open>x\<close> arrives as the
  pieces \<open>chop n x\<close>.
\<close>

type_synonym cutter = "nat \<Rightarrow> string \<Rightarrow> string list"

definition cutting :: "cutter \<Rightarrow> bool" where
  "cutting chop \<longleftrightarrow> (\<forall>n x. concat (chop n x) = x \<and> [] \<notin> set (chop n x))"

definition arriving :: "string list \<Rightarrow> chan \<Rightarrow> chan" where
  "arriving ps ch = ch\<lparr>rx := map RxData ps\<rparr>"

text \<open>What the daemon and the library receive.\<close>

definition feed :: "string list \<Rightarrow> 'z session \<Rightarrow> 'z session" where
  "feed ps t = t\<lparr>chn := arriving ps (chn t)\<rparr>"

definition hear :: "string list \<Rightarrow> slm \<Rightarrow> slm" where
  "hear ps s = s\<lparr>peer := arriving ps (peer s)\<rparr>"

text \<open>
  The calls of the library for the requests, one after the other: the library receives what the
  daemon has sent for the request, and the daemon what the library sends, otherwise there is no
  result. The result of each call, and both ends.
\<close>

fun converse ::
  "'z wstate host \<Rightarrow> cutter \<Rightarrow> string list list \<Rightarrow> slm \<Rightarrow> 'z session \<Rightarrow> (int list \<times> slm \<times> 'z session) option" where
  "converse H chop [] s t = Some ([], s, t)"
| "converse H chop (args # reqs) s t =
     (case client_process_input H (feed (chop (2 * length reqs) (encode args)) t) of
        None \<Rightarrow> None
      | Some (rc, t') \<Rightarrow>
          (case library_call args
              (hear (chop (2 * length reqs + 1) (drop (length (sent (chn t))) (sent (chn t')))) s) of
             Returns (rc, s') \<Rightarrow>
               if sent (peer s') = sent (peer s) @ encode args
               then map_option (\<lambda>(rcs, p). (rc # rcs, p)) (converse H chop reqs s' t') else None
           | Waits \<Rightarrow> None
           | Aborts \<Rightarrow> None))"

section \<open>The specification\<close>

text \<open>The abstract server over a sequence of requests: the records it answers to each.\<close>

fun serve_all ::
  "'z wstate host \<Rightarrow> string list list \<Rightarrow> bool \<Rightarrow> 'z wstate perm_mgr_itf ctx \<Rightarrow> 'z wstate \<Rightarrow>
     (string list list list \<times> bool \<times> 'z wstate perm_mgr_itf ctx \<times> 'z wstate) option" where
  "serve_all H [] lg c w = Some ([], lg, c, w)"
| "serve_all H (args # reqs) lg c w =
     (case serve H args lg c w of (rs, lg, c, w, ok) \<Rightarrow>
        if ok then map_option (\<lambda>(l, p). (rs # l, p)) (serve_all H reqs lg c w) else None)"

text \<open>Requests that the protocol carries; a hello is not one of them.\<close>

definition sendable :: "string list \<Rightarrow> bool" where
  "sendable args \<longleftrightarrow> valid_msg args \<and> fits args \<and> list_all is_utf8 args \<and> hd args \<noteq> n_sec_lsm_manager"

text \<open>A daemon between two requests whose session holds texts without NUL.\<close>

definition daemon_calm :: "'z session \<Rightarrow> bool" where
  "daemon_calm t \<longleftrightarrow> daemon_idle t \<and> plain_ctx (cctx (cl t))"

lemma arriving_data: "cutting chop \<Longrightarrow> data_only (arriving (chop n x) ch) \<and> incoming (rx (arriving (chop n x) ch)) = x"
  by (auto simp: cutting_def arriving_def data_then_def)

lemma arriving_same [simp]: "sent (arriving ps ch) = sent ch" "tx (arriving ps ch) = tx ch"
  by (simp_all add: arriving_def)

lemma hear_idle: "lib_idle s \<Longrightarrow> lib_idle (hear ps s)" "sent (peer (hear ps s)) = sent (peer s)"
  "peer (hear ps s) = arriving ps (peer s)" "shown (hear ps s) = shown s"
  by (simp_all add: hear_def lib_idle_def slm_inv_def)

lemma feed_idle: "daemon_idle t \<Longrightarrow> daemon_idle (feed ps t)" "sent (chn (feed ps t)) = sent (chn t)"
  "chn (feed ps t) = arriving ps (chn t)" "server_log (feed ps t) = server_log t" "cctx (cl (feed ps t)) = cctx (cl t)"
  "world (feed ps t) = world t"
  by (simp_all add: feed_def daemon_idle_def daemon_listening_def session_ready_def session_inv_def)

text \<open>One request: what the daemon does, and what there is for the library.\<close>

lemma daemon_serves:
  assumes "daemon_calm t" "cutting chop" "sendable args"
    and "serve H args (server_log t) (cctx (cl t)) (world t) = (rs, lg, c, w, True)"
  obtains t' where "client_process_input H (feed (chop n (encode args)) t) = Some (- EAGAIN, t')"
    "sent (chn t') = sent (chn t) @ stream rs" "daemon_calm t'" "cctx (cl t') = c" "world t' = w" "server_log t' = lg"
    "good_replies args rs"
proof -
  note a = assms(3)[unfolded sendable_def]
  have d: "daemon_idle t" "plain_ctx (cctx (cl t))" "ctx_inv (cctx (cl t))"
    using assms(1) by (simp_all add: daemon_calm_def daemon_idle_def daemon_listening_def session_ready_def session_inv_def)
  have ne: "args \<noteq> []" "list_all no_nul args" using a by (auto simp: valid_msg_def list_all_iff)
  note ar = arriving_data[OF assms(2), of n "encode args" "chn t"]
  obtain t' where t': "client_process_input H (feed (chop n (encode args)) t) = Some (- EAGAIN, t')"
    "sent (chn t') = sent (chn t) @ stream rs" "cctx (cl t') = c" "world t' = w" "server_log t' = lg" "daemon_idle t'"
    using daemon_answers[OF feed_idle(1)[OF d(1)], of "chop n (encode args)" args H rs lg c w True] a ar assms(4)
    by (auto simp: feed_idle)
  have "plain_ctx c" using serve_plain_ctx[OF d(2) ne(2), of H "server_log t" "world t"] assms(4) by simp
  then show ?thesis
    using that[OF t'(1,2) _ t'(3-5) serve_good[OF assms(4) d(3,2) ne(1)]] t'(3,6) by (simp add: daemon_calm_def)
qed

lemma converse_one:
  assumes "lib_idle s" "daemon_calm t" "cutting chop" "sendable args"
    and "serve H args (server_log t) (cctx (cl t)) (world t) = (rs, lg, c, w, True)"
  shows "\<exists>s' t'. converse H chop (args # reqs) s t
      = map_option (\<lambda>(rcs, p). (result_of args rs # rcs, p)) (converse H chop reqs s' t')
    \<and> lib_idle s' \<and> daemon_calm t' \<and> cctx (cl t') = c \<and> world t' = w \<and> server_log t' = lg
    \<and> shown s' = shown s @ shown_by args rs"
proof -
  let ?n = "2 * length reqs"
  obtain t' where t': "client_process_input H (feed (chop ?n (encode args)) t) = Some (- EAGAIN, t')"
    "sent (chn t') = sent (chn t) @ stream rs" "daemon_calm t'" "cctx (cl t') = c" "world t' = w" "server_log t' = lg"
    "good_replies args rs"
    using daemon_serves[OF assms(2-5)] by metis
  have a: "args \<noteq> []" "fits args" using assms(4) by (auto simp: sendable_def valid_msg_def)
  let ?s = "hear (chop (?n + 1) (stream rs)) s"
  note ar = arriving_data[OF assms(3), of "?n + 1" "stream rs" "peer s"]
  have h: "data_only (peer ?s)" "incoming (rx (peer ?s)) = stream rs" using ar unfolding hear_idle(3) by blast+
  obtain s' where s': "library_call args ?s = Returns (result_of args rs, s')"
    "sent (peer s') = sent (peer s) @ encode args" "lib_idle s'" "shown s' = shown s @ shown_by args rs"
    using library_call_pieces[OF hear_idle(1)[OF assms(1)] a h t'(7)] by (auto simp: hear_idle)
  have "converse H chop (args # reqs) s t
      = map_option (\<lambda>(rcs, p). (result_of args rs # rcs, p)) (converse H chop reqs s' t')"
    using t'(1,2) s'(1,2) by simp
  then show ?thesis using s'(3,4) t'(3-6) by blast
qed

section \<open>The session\<close>

lemma session_served:
  assumes "lib_idle s" "daemon_calm t" "cutting chop" "list_all sendable reqs"
    and "serve_all H reqs (server_log t) (cctx (cl t)) (world t) = Some (rss, lg, c, w)"
  shows "\<exists>s' t'. converse H chop reqs s t = Some (map2 result_of reqs rss, s', t') \<and> lib_idle s' \<and> daemon_calm t'
    \<and> cctx (cl t') = c \<and> world t' = w \<and> server_log t' = lg \<and> shown s' = shown s @ concat (map2 shown_by reqs rss)"
  using assms
proof (induction reqs arbitrary: s t rss)
  case (Cons args reqs)
  obtain rs lg1 c1 w1 ok where sv: "serve H args (server_log t) (cctx (cl t)) (world t) = (rs, lg1, c1, w1, ok)"
    by (metis prod_cases5)
  obtain l where r: "ok" "serve_all H reqs lg1 c1 w1 = Some (l, lg, c, w)" "rss = rs # l"
    using Cons.prems(5) sv by (auto split: if_splits)
  have sd: "sendable args" "list_all sendable reqs" using Cons.prems(4) by simp_all
  have ok: "serve H args (server_log t) (cctx (cl t)) (world t) = (rs, lg1, c1, w1, True)" using sv r(1) by simp
  obtain s1 t1 where 1: "converse H chop (args # reqs) s t
      = map_option (\<lambda>(rcs, p). (result_of args rs # rcs, p)) (converse H chop reqs s1 t1)"
    "lib_idle s1" "daemon_calm t1" "cctx (cl t1) = c1" "world t1 = w1" "server_log t1 = lg1"
    "shown s1 = shown s @ shown_by args rs"
    using converse_one[OF Cons.prems(1-3) sd(1) ok, of reqs] by blast
  have next_served: "serve_all H reqs (server_log t1) (cctx (cl t1)) (world t1) = Some (l, lg, c, w)"
    using r(2) 1(4-6) by simp
  obtain s' t' where "converse H chop reqs s1 t1 = Some (map2 result_of reqs l, s', t')" "lib_idle s'" "daemon_calm t'"
    "cctx (cl t') = c" "world t' = w" "server_log t' = lg" "shown s' = shown s1 @ concat (map2 shown_by reqs l)"
    using Cons.IH[OF 1(2,3) Cons.prems(3) sd(2) next_served] by blast
  then show ?case using 1(1,7) r(3) by simp
qed simp

text \<open>
  C11: a session implements the abstract server: for any sequence of requests and whatever the pieces
  in which the connection carries the bytes, each call of the library returns what the answer of the
  abstract server says (zero for \<open>done\<close>, the state of the log for \<open>log\<close>, one for \<open>display\<close>,
  \<open>- EPROTO\<close> for an error, \<open>- 1\<close> for an error of \<open>display\<close>), and a \<open>display\<close> gives to the callback
  every item of the context, in order; at the end the context, the system and the flag of the log of
  the daemon are those of the abstract server, and both ends are ready for another request.
\<close>

theorem session_refines_server:
  assumes "lib_idle s" "daemon_calm t" "cutting chop" "list_all sendable reqs"
    and "serve_all H reqs (server_log t) (cctx (cl t)) (world t) = Some (rss, lg, c, w)"
  shows "\<exists>s' t'. converse H chop reqs s t = Some (map2 result_of reqs rss, s', t') \<and> lib_idle s' \<and> daemon_calm t'
    \<and> cctx (cl t') = c \<and> world t' = w \<and> server_log t' = lg \<and> shown s' = shown s @ concat (map2 shown_by reqs rss)"
  using assms by (rule session_served)

text \<open>Every byte on its own.\<close>

definition bytewise :: cutter where
  "bytewise n x = map (\<lambda>c. [c]) x"

lemma bytewise_cutting: "cutting bytewise"
  by (auto simp: cutting_def bytewise_def concat_map_singleton)

lemma demo_session_calm: "daemon_calm (demo_session [])"
proof -
  have "daemon_idle (demo_session [])"
    using demo_session_ready new_prot_inv by (simp add: daemon_idle_def daemon_listening_def demo_session_def client_is_connected_def)
  then show ?thesis
    by (simp add: daemon_calm_def plain_ctx_def demo_session_def context_init_def permission_set_init_def)
qed

lemma demo_served:
  "\<exists>c. serve_all demo_server_host [[''id'', ''demo''], [''display''], [''id'', ''other''], [''log'', ''on''], [''clear'']]
      (server_log (demo_session [])) (cctx (cl (demo_session []))) (world (demo_session []))
    = Some ([[[n_done]], [[n_string, n_id, ''demo''], [n_done]], [[n_error, id_error EEXIST]], [[n_done, n_on]], [[n_done]]],
        True, c, demo_os)"
proof -
  let ?c0 = "context_init (cctx demo_client_mem)"
  let ?c1 = "snd (context_set_id ?c0 ''demo'')"
  have f: "fst (context_set_id ?c0 ''demo'') = 0" "fst (context_set_id ?c1 ''other'') = - EEXIST"
    "display_records ?c1 = [[''string'', ''id'', ''demo'']]" by (code_simp, code_simp, code_simp)
  obtain c1 where c1: "context_set_id ?c0 ''demo'' = (0, c1)" "?c1 = c1" using f(1) by (metis prod.collapse)
  obtain c2 where c2: "context_set_id c1 ''other'' = (- EEXIST, c2)" using f(2) unfolding c1(2) by (metis prod.collapse)
  have fit: "fits [''string'', ''id'', ''demo'']" by code_simp
  show ?thesis using c1(1) c2 f(3)[unfolded c1(2)] fit by (simp add: serve_def status_def demo_session_def)
qed

theorem session_refines_server_witness:
  "\<exists>s' t'. converse demo_server_host bytewise [[''id'', ''demo''], [''display''], [''id'', ''other''], [''log'', ''on''], [''clear'']]
        (demo_lib []) (demo_session [])
      = Some ([0, 1, - EPROTO, 1, 0], s', t') \<and> daemon_calm t' \<and> server_log t' \<and> shown s' = [[''id'', ''demo'']]"
proof -
  let ?reqs = "[[''id'', ''demo''], [''display''], [''id'', ''other''], [''log'', ''on''], [''clear'']]"
  have v: "list_all sendable ?reqs" by code_simp
  obtain c where sv: "serve_all demo_server_host ?reqs (server_log (demo_session [])) (cctx (cl (demo_session [])))
      (world (demo_session []))
    = Some ([[[n_done]], [[n_string, n_id, ''demo''], [n_done]], [[n_error, id_error EEXIST]], [[n_done, n_on]], [[n_done]]],
        True, c, demo_os)"
    using demo_served by blast
  show ?thesis
    using session_refines_server[OF demo_lib_idle(1)[of "[]"] demo_session_calm bytewise_cutting v sv]
    by (auto simp: result_of_def shown_by_def demo_lib_def simp del: converse.simps)
qed

end
