(* ===== verification/Remote_Install.thy ===== *)
theory Remote_Install
  imports Smack_Props Remote_Session
begin

text \<open>
  From the calls of the library to the state of the system: what an application installed over
  the protocol, by a daemon with Cynagora and Smack, leaves in the permission database and in the
  file system. The frames of the file operations and of the MAC come first: they leave the
  rest of the machine as it was.
\<close>

section \<open>Frames\<close>

text \<open>The calls of \<open>World\<close> change the files and the schedule only.\<close>

lemma sys_more [simp]:
  "os.more (snd (sys_lsetxattr p a v w)) = os.more w"
  "os.more (snd (sys_lremovexattr p a w)) = os.more w"
  "os.more (snd (sys_symlink t p w)) = os.more w"
  "os.more (snd (sys_unlink p w)) = os.more w"
  "os.more (snd (sys_remove p w)) = os.more w"
  "os.more (snd (sys_creat x p w)) = os.more w"
  "os.more (snd (sys_stat fo p w)) = os.more w"
  "os.more (snd (sys_open p w)) = os.more w"
  "os.more (snd (sys_malloc w)) = os.more w"
  "os.more (snd (pop_fault w)) = os.more w"
  "os.more (snd (get_path_property p fo w)) = os.more w"
  "os.more (sys_append p txt w) = os.more w"
  by (simp_all add: sys_lsetxattr_def sys_lremovexattr_def sys_symlink_def sys_unlink_def
        sys_remove_def sys_creat_def sys_open_def sys_stat_def sys_malloc_def sys_def pop_fault_def
        get_path_property_def sys_append_def Let_def case_prod_beta
        split: option.split list.split sum.split fkind.split if_split)

lemma xattr_more [simp]:
  "os.more (snd (set_xattr p a v w)) = os.more w"
  "os.more (snd (unset_xattr p a w)) = os.more w"
  "os.more (snd (put_xattr p a u w)) = os.more w"
  by (simp_all add: set_xattr_def unset_xattr_def put_xattr_def Let_def case_prod_beta split: option.split)

lemma path_labels_more [simp]:
  "os.more (snd (smack_set_path_labels p l x tr w)) = os.more w"
  "os.more (snd (unset_path_labels p w)) = os.more w"
  by (simp_all add: smack_set_path_labels_def unset_path_labels_def Let_def case_prod_beta)

lemma label_paths_more [simp]: "os.more (snd (label_paths defs b ps w)) = os.more w"
  by (induction ps arbitrary: w) (simp_all add: Let_def case_prod_beta)

lemma drop_labels_more [simp]: "os.more (snd (drop_labels ps w)) = os.more w"
  by (induction ps arbitrary: w) (simp_all add: case_prod_beta)

lemma plugs_more [simp]:
  "os.more (snd (install_plugs i ps r w)) = os.more w"
  "os.more (snd (uninstall_plugs i ps r w)) = os.more w"
  by (induction ps arbitrary: r w) (simp_all add: case_prod_beta)

lemma read_loop_more [simp]: "os.more (snd (read_loop rest acc sz w)) = os.more w" for w :: "'z wstate"
proof (induction "length rest" arbitrary: rest acc sz w rule: less_induct)
  case less
  let ?chunk = "take (sz - length acc + 1) rest"
  have "os.more (snd (read_loop (drop (length ?chunk) rest) a z v)) = os.more v" if "?chunk \<noteq> []" for a z and v :: "'z wstate"
    using that by (intro less.hyps) (cases rest; simp)
  then show ?case by (subst read_loop.simps) (simp add: Let_def case_prod_beta del: length_take take_Suc)
qed

lemma template_more [simp]:
  "os.more (snd (read_file p w)) = os.more w"
  "os.more (snd (template_process p d c w)) = os.more w"
  by (simp_all add: read_file_def template_process_def Let_def case_prod_beta
        split: sum.split option.split)

text \<open>The state of the permission managers, online and offline, is not touched by the MAC.\<close>

definition manager_state :: "('c, 'm) machine \<Rightarrow> 'c cyn \<times> string" where
  "manager_state w = (cyn_state w, printed w)"

lemma more_manager: "os.more v = os.more w \<Longrightarrow> manager_state v = manager_state w"
  by (cases v, cases w) (simp add: manager_state_def)

lemma manager_files [simp]:
  "manager_state (snd (sys_open p w)) = manager_state w"
  "manager_state (snd (sys_remove p w)) = manager_state w"
  "manager_state (snd (sys_creat x p w)) = manager_state w"
  "manager_state (snd (template_process p d c w)) = manager_state w"
  "manager_state (snd (label_all_paths c b w)) = manager_state w"
  "manager_state (snd (smack_drop_path_labels c w)) = manager_state w"
  "manager_state (snd (install_smack_plugs c w)) = manager_state w"
  "manager_state (snd (uninstall_smack_plugs c w)) = manager_state w"
  by (rule more_manager, simp add: label_all_paths_def smack_drop_path_labels_def install_smack_plugs_def
        uninstall_smack_plugs_def)+

lemma manager_mac [simp]:
  "manager_state (snd (on_mac f w)) = manager_state w"
  "manager_state (snd (accesses_of_file L txt w)) = manager_state w"
  by (simp_all add: on_mac_def accesses_of_file_def manager_state_def case_prod_beta)

lemma manager_rules [simp]:
  "manager_state (snd (remove_load_rules L p w)) = manager_state w"
  "manager_state (snd (create_smack_rules L env c w)) = manager_state w"
  "manager_state (snd (remove_smack_rules L env c w)) = manager_state w"
  by (simp_all add: remove_load_rules_def create_smack_rules_def remove_smack_rules_def remove_file_def
        case_prod_beta Let_def split: sum.split option.split)

lemma smack_keeps_managers:
  "manager_state (snd (force_uninstall_smack L env c w)) = manager_state w"
  "manager_state (snd (smack_install L env c w)) = manager_state w"
  by (simp_all add: force_uninstall_smack_def smack_install_def install_smack_with_id_def
        install_smack_no_id_def install_status_def case_prod_beta Let_def)

section \<open>A MAC that installs\<close>

text \<open>
  What an installation is for the rest of the daemon: the MAC leaves the permission managers alone,
  and a success leaves the marks of the application in the system.
\<close>

locale installing_mac = mac_provider M for M :: "('c, 'm) machine mac_itf" +
  fixes marked :: "('c, 'm) machine perm_mgr_itf ctx \<Rightarrow> ('c, 'm) machine \<Rightarrow> bool"
  assumes keeps_managers: "manager_state (snd (mac_install M c w)) = manager_state w"
    and marks: "ctx_inv c \<Longrightarrow> has_id c \<Longrightarrow> mac_install M c w = (0, w') \<Longrightarrow> marked c w'"

text \<open>The permissions of a label are exactly those of the session.\<close>

definition granted :: "('c \<Rightarrow> (string \<times> string) set) \<Rightarrow> string \<Rightarrow> 'p ctx \<Rightarrow> ('c, 'm) machine \<Rightarrow> bool" where
  "granted rules l c w \<longleftrightarrow> {p. (l, p) \<in> rules (lib (cyn_state w))} = set (permissions (permission_set c))"

definition mac_host :: "'c cynagora_lib \<Rightarrow> ('c, 'm) machine mac_itf \<Rightarrow> ('c, 'm) machine host" where
  "mac_host L M = \<lparr>default_permgr = machine_cynagora L, mac = M\<rparr>"

context installing_mac
begin

lemma install_installs:
  assumes "cynagora_contract L rules draft" "permgr c = None" "ctx_inv c" "has_id c"
    and "action_install (mac_host L M) c w = (rc, w')" "0 \<le> rc"
  shows "granted rules (mac_get_label M (context_id c) w) c w' \<and> marked c w'"
proof -
  let ?H = "mac_host L M" and ?l = "mac_get_label M (context_id c) w"
  have pm: "the_permgr ?H c = machine_cynagora L" "mac ?H = M" by (simp_all add: the_permgr_def assms(2) mac_host_def)
  obtain w1 r2 w2 where 2: "add_permissions (machine_cynagora L) ?l (Some (permission_set c)) True w1 = (r2, w2)"
    "0 \<le> r2" "mac_install M c w2 = (0, w')"
  proof -
    obtain k w1 where k: "check_plug_installable ?H c w = (k, w1)" by fastforce
    obtain r2 w2 where a: "add_permissions (machine_cynagora L) ?l (Some (permission_set c)) True w1 = (r2, w2)"
      by fastforce
    obtain e w3 where m: "mac_install M c w2 = (e, w3)" by fastforce
    have "e \<le> 0" by (rule install_range[OF m])
    then have "0 \<le> r2 \<and> e = 0 \<and> w3 = w'"
      using assms(4-6) k a m by (auto simp: action_install_def check_context_def pm split: if_splits prod.splits)
    then show ?thesis using that a m by simp
  qed
  obtain v where v: "cynagora_set_policies L ?l (Some (permission_set c)) True (cyn_state w1) = (r2, v)" "cyn_state w2 = v"
    using 2(1) by (auto simp: machine_cynagora_def lift_itf_def cynagora_itf_def on_cyn_def split: prod.splits)
  have "rules (lib v) = new_rules ?l (Some (permission_set c)) True (rules (lib (cyn_state w1)))"
    using set_policies_contract[OF assms(1) v(1)] 2(2) by simp
  moreover have "cyn_state w' = v" using keeps_managers[of c w2] 2(3) v(2) by (simp add: manager_state_def)
  ultimately have "granted rules ?l c w'" by (auto simp: new_rules_def granted_def)
  then show ?thesis using marks[OF assms(3,4) 2(3)] by simp
qed

end

section \<open>Requests then install\<close>

lemma serve_all_snoc:
  assumes "serve_all H (reqs @ [args]) lg c w = Some (rss, lg', c', w')"
  obtains rss0 lg0 c0 w0 rs where "serve_all H reqs lg c w = Some (rss0, lg0, c0, w0)"
    "serve H args lg0 c0 w0 = (rs, lg', c', w', True)" "rss = rss0 @ [rs]" "length rss0 = length reqs"
  using assms
proof (induction reqs arbitrary: lg c w rss thesis)
  case Nil
  obtain qs lg1 c1 w1 ok where sv: "serve H args lg c w = (qs, lg1, c1, w1, ok)" by (metis prod_cases5)
  then show ?case using Nil.prems by (auto split: if_splits)
next
  case (Cons a reqs)
  obtain qs lg1 c1 w1 ok where sv: "serve H a lg c w = (qs, lg1, c1, w1, ok)" by (metis prod_cases5)
  obtain l where l: "serve_all H (reqs @ [args]) lg1 c1 w1 = Some (l, lg', c', w')" "rss = qs # l" "ok"
    using Cons.prems(2) sv by (auto split: if_splits)
  show ?case
    by (rule Cons.IH[OF _ l(1)], rule Cons.prems(1)) (use sv l in auto)
qed

lemma context_keeps_permgr:
  "permgr (snd (context_set_id c x)) = permgr c"
  "permgr (fst (snd (context_add_permission c x w))) = permgr c"
  "permgr (fst (snd (context_add_path c x y w))) = permgr c"
  "permgr (fst (snd (context_add_plug c x y z w))) = permgr c"
  "permgr (context_clear c) = permgr c" "permgr (context_raise_error c) = permgr c"
  by (simp_all add: context_set_id_def context_add_permission_def context_add_path_def context_add_plug_def
        context_clear_def context_raise_error_def Let_def case_prod_beta split: option.split)

lemma serve_permgr: "permgr (fst (snd (snd (serve H args lg c w)))) = permgr c"
  by (simp add: serve_def status_def Let_def case_prod_beta context_keeps_permgr split: list.split)

lemma serve_all_permgr: "serve_all H reqs lg c w = Some (rss, lg', c', w') \<Longrightarrow> permgr c' = permgr c"
proof (induction reqs arbitrary: lg c w rss)
  case (Cons a reqs)
  obtain qs lg1 c1 w1 ok where sv: "serve H a lg c w = (qs, lg1, c1, w1, ok)" by (metis prod_cases5)
  then have "permgr c1 = permgr c" using serve_permgr[of H a lg c w] by simp
  then show ?case using Cons sv by (auto split: if_splits)
qed simp

lemma serve_install:
  assumes "serve H [n_install] lg c w = (rs, lg', c', w', True)" "result_of [n_install] rs = 0"
  shows "c' = c \<and> (\<exists>rc. action_install H c w = (rc, w') \<and> 0 \<le> rc)"
  using assms by (auto simp: serve_def status_def result_of_def split: prod.splits if_splits)

context installing_mac
begin

lemma session_installs:
  assumes "lib_idle s" "daemon_calm t" "cutting chop" "permgr (cctx (cl t)) = None" "list_all sendable reqs"
    and "cynagora_contract L rules draft" "H = mac_host L M"
    and "serve_all H (reqs @ [[n_install]]) (server_log t) (cctx (cl t)) (world t) = Some (rss, lg, c, w)"
    and "has_id c"
  shows "\<exists>s' t' rcs. converse H chop (reqs @ [[n_install]]) s t = Some (rcs, s', t')
    \<and> rcs = map2 result_of (reqs @ [[n_install]]) rss \<and> cctx (cl t') = c \<and> world t' = w
    \<and> (last rcs = 0 \<longrightarrow> (\<exists>w0. granted rules (mac_get_label M (context_id c) w0) c w) \<and> marked c w)"
proof -
  obtain rss0 lg0 c0 w0 r where sv: "serve_all H reqs (server_log t) (cctx (cl t)) (world t) = Some (rss0, lg0, c0, w0)"
    "serve H [n_install] lg0 c0 w0 = (r, lg, c, w, True)" "rss = rss0 @ [r]" "length rss0 = length reqs"
    using serve_all_snoc[OF assms(8)] by metis
  obtain s0 t0 where "daemon_calm t0" "cctx (cl t0) = c0"
    using session_served[OF assms(1-3,5) sv(1)] by blast
  then have inv: "ctx_inv c0" by (auto simp: daemon_calm_def daemon_idle_def daemon_listening_def session_ready_def session_inv_def)
  have pm: "permgr c0 = None" using serve_all_permgr[OF sv(1)] assms(4) by simp
  have "list_all sendable (reqs @ [[n_install]])" using assms(5) by (simp, code_simp)
  from session_served[OF assms(1-3) this assms(8)] obtain s' t' where
    run: "converse H chop (reqs @ [[n_install]]) s t = Some (map2 result_of (reqs @ [[n_install]]) rss, s', t')"
    "cctx (cl t') = c" "world t' = w"
    by blast
  have "(\<exists>w0. granted rules (mac_get_label M (context_id c) w0) c w) \<and> marked c w" if rz: "result_of [n_install] r = 0"
  proof -
    obtain rc where "c = c0" "action_install H c0 w0 = (rc, w)" "0 \<le> rc"
      using serve_install[OF sv(2) rz] by blast
    then show ?thesis using install_installs[OF assms(6) pm inv] assms(7,9) by blast
  qed
  then show ?thesis using run sv(3,4) by auto
qed

end

section \<open>The daemon with Cynagora and Smack\<close>

text \<open>The marks of Smack: the labels of the paths and the links of the plugs.\<close>

definition smack_marked :: "'p ctx \<Rightarrow> 'z wstate \<Rightarrow> bool" where
  "smack_marked c w \<longleftrightarrow> (\<forall>i \<in> set (path_set c). labelled (init_path_type_definitions (context_id c)) i w)
     \<and> (\<forall>p \<in> set (plugset c). kinds w (link_of p (context_id c)) = Some (FLink (expdir p)))"

interpretation smack_installs: installing_mac "smack_mac S env :: ('c, 'm) machine mac_itf" smack_marked
proof
  show "manager_state (snd (mac_install (smack_mac S env) c w)) = manager_state w" for c and w :: "('c, 'm) machine"
    by (simp add: smack_mac_def smack_keeps_managers)
  show "smack_marked c w'" if "ctx_inv c" "has_id c" "mac_install (smack_mac S env) c w = (0, w')" for c and w w' :: "('c, 'm) machine"
    using smack_install_effect[OF that(1,2)] that(3) by (simp add: smack_mac_def smack_marked_def)
qed

text \<open>
  C2: what a client gets for a result of zero. After any requests, in whatever pieces they come, when
  the call that asks for the installation returns zero, the application that the session of the daemon
  describes is installed in the system of the daemon: the permissions of its label in the database
  are exactly those of the session, its paths carry the labels of their types and its plugs are links.
\<close>

theorem remote_installation:
  assumes "lib_idle s" "daemon_calm t" "cutting chop" "permgr (cctx (cl t)) = None" "list_all sendable reqs"
    and "cynagora_contract L rules draft" "H = mac_host L (smack_mac S env)"
    and "serve_all H (reqs @ [[n_install]]) (server_log t) (cctx (cl t)) (world t) = Some (rss, lg, c, w)"
    and "has_id c"
  shows "\<exists>s' t' rcs. converse H chop (reqs @ [[n_install]]) s t = Some (rcs, s', t')
    \<and> rcs = map2 result_of (reqs @ [[n_install]]) rss \<and> cctx (cl t') = c \<and> world t' = w
    \<and> (last rcs = 0 \<longrightarrow> granted rules (smack_get_label (context_id c)) c w \<and> smack_marked c w)"
  using smack_installs.session_installs[OF assms] by (simp add: smack_mac_def)

text \<open>The daemon of the example, over the concrete library of the database.\<close>

definition demo_store :: "(cyn_db, int) machine" where
  "demo_store = \<lparr>fs = fs demo_machine, faults = [], cyn_state = \<lparr>handler = True,
     lib = \<lparr>db_rules = [(''App:demo'', ''old'')], db_draft = [], db_faults = []\<rparr>\<rparr>, printed = [], mac_state = 0\<rparr>"

definition demo_blank :: "(cyn_db, int) machine perm_mgr_itf ctx" where
  "demo_blank = \<lparr>id_array = replicate 201 NUL, permission_set = permission_set_init, path_set = [],
     plugset = [], need_id = False, error_flag = False, permgr = None\<rparr>"

abbreviation demo_requests :: "string list list" where
  "demo_requests \<equiv> [[''id'', ''demo''], [''path'', ''/d'', ''data''], [''permission'', ''urn:p'']]"

definition demo_remote :: "(cyn_db, int, unit) machine_ext session" where
  "demo_remote = \<lparr>cl = \<lparr>cprot = new_prot, cctx = context_init demo_blank, version = 0, invalid = False,
     fdin = 4, fdout = 4\<rparr>, chn = \<lparr>rx = [], tx = [], sent = []\<rparr>, server_log = False, plog = [], closed = [], world = demo_store\<rparr>"

abbreviation demo_smack :: "(cyn_db, int) machine host" where
  "demo_smack \<equiv> mac_host db_cynagora (smack_mac sim_smack demo_env)"

lemma demo_remote_calm: "daemon_calm demo_remote"
proof -
  have "daemon_idle demo_remote"
    using new_prot_inv context_init_inv[of demo_blank]
    by (simp add: daemon_idle_def daemon_listening_def session_ready_def session_inv_def demo_remote_def demo_blank_def
        client_is_connected_def)
  then show ?thesis
    by (simp add: daemon_calm_def plain_ctx_def demo_remote_def context_init_def permission_set_init_def)
qed

lemma demo_remote_served:
  "map_option (\<lambda>(rs, lg, c, w). (rs, context_id c, permissions (permission_set c), path_set c))
     (serve_all demo_smack (demo_requests @ [[n_install]]) (server_log demo_remote) (cctx (cl demo_remote))
        (world demo_remote))
   = Some (replicate 4 [[n_done]], ''demo'', [''urn:p''], [\<lparr>path_type = type_data, path = ''/d''\<rparr>])"
  by code_simp

theorem remote_installation_witness:
  "\<exists>s' t'. converse demo_smack bytewise (demo_requests @ [[n_install]]) (demo_lib []) demo_remote
      = Some ([0, 0, 0, 0], s', t')
    \<and> {p. (''App:demo'', p) \<in> set (db_rules (lib (cyn_state (world t'))))} = {''urn:p''}
    \<and> attr_of (world t') ''/d'' ''security.SMACK64'' = Some ''App:demo:Data''"
proof -
  obtain rs lg c w where sv: "serve_all demo_smack (demo_requests @ [[n_install]]) (server_log demo_remote)
      (cctx (cl demo_remote)) (world demo_remote) = Some (rs, lg, c, w)"
    "rs = replicate 4 [[n_done]]" "context_id c = ''demo''" "permissions (permission_set c) = [''urn:p'']"
    "path_set c = [\<lparr>path_type = type_data, path = ''/d''\<rparr>]"
    using demo_remote_served by (fastforce simp del: serve_all.simps)
  have v: "list_all sendable demo_requests" by code_simp
  have pm: "permgr (cctx (cl demo_remote)) = None"
    by (simp add: demo_remote_def context_init_def demo_blank_def)
  have l: "smack_get_label ''demo'' = ''App:demo''"
    "label (init_path_type_definitions ''demo'' type_data) = ''App:demo:Data''" by code_simp+
  have "rd (id_array c) 0 \<noteq> NUL" using sv(3) by (cases "id_array c") (auto simp: context_id_def cstr_def rd_def)
  then have hi: "has_id c" by (simp add: has_id_def)
  have ok: "map2 result_of (demo_requests @ [[n_install]]) rs = [0, 0, 0, 0]"
    by (simp add: sv(2) result_of_def numeral_eq_Suc)
  from remote_installation[OF demo_lib_idle(1)[of "[]"] demo_remote_calm bytewise_cutting pm v db_contract refl sv(1) hi]
  obtain s' t' where "converse demo_smack bytewise (demo_requests @ [[n_install]]) (demo_lib []) demo_remote
      = Some ([0, 0, 0, 0], s', t')"
    "world t' = w" "granted (\<lambda>c. set (db_rules c)) (smack_get_label (context_id c)) c w" "smack_marked c w" unfolding ok by auto
  then show ?thesis using sv(3-5) l
    by (auto simp: granted_def smack_marked_def labelled_def put_value_def simp del: converse.simps)
qed

end
