(* ===== verification/Remote_Selinux.thy ===== *)
theory Remote_Selinux
  imports Selinux_Sim Remote_Install
begin

text \<open>
  The installation over the protocol by a daemon with Cynagora and SELinux. The library
  \<open>libsemanage\<close> and the compilation have their own state; what is relied on is that they leave the
  permission managers alone, the client of Cynagora and the output of the offline mode.
\<close>

section \<open>Libraries apart\<close>

definition semanage_apart :: "('h, 'i, ('c, 'm) machine) semanage_lib \<Rightarrow> bool" where
  "semanage_apart L \<longleftrightarrow>
     (\<forall>w. manager_state (snd (semanage_handle_create L w)) = manager_state w)
     \<and> (\<forall>h n w. manager_state (semanage_set_create_store L h n w) = manager_state w)
     \<and> (\<forall>h w. manager_state (snd (semanage_connect L h w)) = manager_state w)
     \<and> (\<forall>h n w. manager_state (snd (semanage_set_default_priority L h n w)) = manager_state w)
     \<and> (\<forall>h w. manager_state (snd (semanage_is_connected L h w)) = manager_state w)
     \<and> (\<forall>h w. manager_state (snd (semanage_disconnect L h w)) = manager_state w)
     \<and> (\<forall>h w. manager_state (semanage_handle_destroy L h w) = manager_state w)
     \<and> (\<forall>h p w. manager_state (snd (semanage_module_install_file L h p w)) = manager_state w)
     \<and> (\<forall>h w. manager_state (snd (semanage_commit L h w)) = manager_state w)
     \<and> (\<forall>h w. manager_state (snd (semanage_module_list L h w)) = manager_state w)
     \<and> (\<forall>h i w. manager_state (snd (semanage_module_info_get_name L h i w)) = manager_state w)
     \<and> (\<forall>h i w. manager_state (semanage_module_info_destroy L h i w) = manager_state w)"

definition compile_apart :: "('c, 'm) machine selinux_env \<Rightarrow> bool" where
  "compile_apart env \<longleftrightarrow> (\<forall>i w. manager_state (snd (build_module env i w)) = manager_state w)"

text \<open>The operations on files.\<close>

lemma selinux_files_more [simp]:
  "os.more (snd (get_file_informations p fo w)) = os.more w"
  "os.more (snd (remove_file p w)) = os.more w"
  "os.more (snd (create_file p w)) = os.more w"
  "os.more (snd (label_file p l w)) = os.more w"
  "os.more (snd (sys_fputs x p w)) = os.more w"
  "os.more (snd (file_exists p w)) = os.more w"
  by (simp_all add: get_file_informations_def remove_file_def create_file_def label_file_def sys_fputs_def
      file_exists_def case_prod_beta Let_def)

lemma selinux_loops_more [simp]:
  "os.more (snd (put_fc_lines f defs ps w)) = os.more w"
  "os.more (snd (process_paths defs ps w)) = os.more w"
  by (induction ps arbitrary: w) (simp_all add: case_prod_beta Let_def)

lemma selinux_modules_managers [simp]:
  "manager_state (snd (generate_app_module_files m c defs w)) = manager_state w"
  "manager_state (snd (remove_app_module_files m w)) = manager_state w"
  "manager_state (snd (remove_pp_file m w)) = manager_state w"
  "manager_state (snd (check_module_files_exist env c w)) = manager_state w"
  "manager_state (snd (selinux_process_paths c defs w)) = manager_state w"
  by (rule more_manager, simp add: generate_app_module_files_def generate_app_module_fc_def remove_app_module_files_def
      remove_pp_file_def check_module_files_exist_def check_app_module_files_exists_def selinux_process_paths_def
      case_prod_beta Let_def)+

locale apart_semanage =
  fixes L :: "('h, 'i, ('c, 'm) machine) semanage_lib" and env :: "('c, 'm) machine selinux_env"
  assumes apart: "semanage_apart L" and compiles: "compile_apart env"
begin

lemmas calls = apart[unfolded semanage_apart_def]

lemma compile_managers [simp]: "manager_state (snd (launch_compile env i w)) = manager_state w"
  using compiles by (simp add: launch_compile_def compile_apart_def case_prod_beta)

lemma handle_managers [simp]:
  "manager_state (snd (destroy_semanage_handle L h w)) = manager_state w"
  "manager_state (snd (create_failed L h rc w)) = manager_state w"
  "manager_state (snd (create_semanage_handle L w)) = manager_state w"
  "manager_state (snd (install_module L h p w)) = manager_state w"
  using calls
  by (simp_all add: destroy_semanage_handle_def create_failed_def create_semanage_handle_def install_module_def
      case_prod_beta Let_def split: option.split)

lemma lists_managers [simp]:
  "manager_state (free_module_info_list L h infos w) = manager_state w"
  "manager_state (snd (find_module L h n infos w)) = manager_state w"
  using calls by (induction infos arbitrary: w) (simp_all add: case_prod_beta)

lemma policy_managers [simp]: "manager_state (snd (check_module_in_policy L c w)) = manager_state w"
  using calls by (simp add: check_module_in_policy_def check_module_def case_prod_beta split: option.split)

lemma rules_managers [simp]: "manager_state (snd (create_selinux_rules L env c defs w)) = manager_state w"
  by (simp add: create_selinux_rules_def case_prod_beta Let_def split: option.split)

lemma selinux_install_managers: "manager_state (snd (selinux_install L env c w)) = manager_state w"
  by (simp add: selinux_install_def case_prod_beta Let_def)

end

section \<open>The daemon with Cynagora and SELinux\<close>

text \<open>The marks of SELinux: the labels of the paths whose type has one.\<close>

definition selinux_marked :: "'p ctx \<Rightarrow> 'z wstate \<Rightarrow> bool" where
  "selinux_marked c w \<longleftrightarrow> (\<forall>p \<in> set (path_set c). path_type p \<noteq> type_default \<longrightarrow> selinux_labelled (context_id c) p w)"

sublocale apart_semanage \<subseteq> installs: installing_mac "selinux_mac L env" selinux_marked
proof
  show "manager_state (snd (mac_install (selinux_mac L env) c w)) = manager_state w" for c and w :: "('c, 'm) machine"
    by (simp add: selinux_mac_def selinux_install_managers)
  show "selinux_marked c w'" if "ctx_inv c" "has_id c" "mac_install (selinux_mac L env) c w = (0, w')" for c w w'
    using selinux_install_effect[OF that(1), of L env w w'] that(3) by (simp add: selinux_mac_def selinux_marked_def)
qed

context apart_semanage
begin

lemmas remote_installs = installs.session_installs

end

text \<open>The database of modules, and the simulated library with the simulated compilation.\<close>

lemma create_file_managers: "manager_state (snd (create_file p w)) = manager_state w"
  by (rule more_manager) simp

lemma manager_mac_state [simp]: "manager_state (w\<lparr>mac_state := m\<rparr>) = manager_state w"
  by (simp add: manager_state_def)

interpretation db_apart: apart_semanage "db_semanage :: (unit, string, ('c, string list) machine) semanage_lib"
    "\<lparr>env_te_template = te, env_if_template = ifx, env_rules_dir = d,
       build_module = \<lambda>i w. (Exited 0, snd (create_file (''/r/'' @ i @ ''.pp'') w)), stack_id = x, stack_label = l\<rparr>"
  by unfold_locales (simp_all add: semanage_apart_def db_semanage_def compile_apart_def create_file_managers)

lemma sim_calls_managers:
  "manager_state (snd (sim_install_file p w)) = manager_state w" "manager_state (snd (sim_list listing w)) = manager_state w"
  "manager_state (snd (sim_compile i w)) = manager_state w"
  by (rule more_manager, simp add: sim_install_file_def sim_list_def sim_compile_def mkdir_sim_def sys_def case_prod_beta Let_def
      split: list.split)+

interpretation sim_apart: apart_semanage "sim_semanage listing :: (nat, string, 'c sim_state) semanage_lib"
    "\<lparr>env_te_template = te, env_if_template = ifx, env_rules_dir = d,
       build_module = \<lambda>i w. (Exited 0, snd (sim_compile i w)), stack_id = x, stack_label = l\<rparr>"
  by unfold_locales (simp_all add: semanage_apart_def sim_semanage_def compile_apart_def sim_calls_managers)

text \<open>
  C23: what a client gets for a result of zero from a daemon with SELinux. After any requests, in
  whatever pieces they come, when the call that asks for the installation returns zero, the permissions
  of the label of the application in the database are exactly those of the session, and its paths
  carry labels; whatever libsemanage and the compilation do, provided they leave
  the permission managers alone. With an identifier of at most three characters the label of the application is
  \<open>system_u:system_r:<identifier>_t:s0\<close> and those of the paths are the ones of their types; so are, for any
  identifier, those of the public paths and of the plugs. For a longer identifier the other labels
  are certain up to its fourth character only, the fault of the code shown by \<open>selinux_label_wrong\<close>.
\<close>

theorem remote_installation_selinux:
  assumes "lib_idle s" "daemon_calm t" "cutting chop" "permgr (cctx (cl t)) = None" "list_all sendable reqs"
    and "cynagora_contract L rules draft" "semanage_apart S" "compile_apart env" "H = mac_host L (selinux_mac S env)"
    and "serve_all H (reqs @ [[n_install]]) (server_log t) (cctx (cl t)) (world t) = Some (rss, lg, c, w)"
    and "has_id c"
  shows "\<exists>s' t' rcs. converse H chop (reqs @ [[n_install]]) s t = Some (rcs, s', t')
    \<and> rcs = map2 result_of (reqs @ [[n_install]]) rss \<and> cctx (cl t') = c \<and> world t' = w
    \<and> (last rcs = 0 \<longrightarrow>
         (\<exists>label. granted rules label c w
            \<and> (if length (context_id c) \<le> 3 then label = ''system_u:system_r:'' @ underscored (context_id c) @ ''_t:s0''
               else prefix (''system_u:system_r:'' @ underscored (take 4 (context_id c))) label))
         \<and> (\<forall>p \<in> set (path_set c). path_type p \<noteq> type_default \<longrightarrow>
              (if path_type p \<in> {type_plug, type_public} \<or> length (context_id c) \<le> 3
               then attr_of w (path p) ''security.selinux'' = Some (selinux_label_of (context_id c) (path_type p))
               else \<exists>rest. attr_of w (path p) ''security.selinux'' =
                      Some (''system_u:object_r:'' @ underscored (take 4 (context_id c)) @ rest))))"
proof -
  have "apart_semanage S env" using assms(7,8) by unfold_locales
  from apart_semanage.remote_installs[OF this assms(1-6,9-)] obtain s' t' rcs where
    r: "converse H chop (reqs @ [[n_install]]) s t = Some (rcs, s', t')"
    "rcs = map2 result_of (reqs @ [[n_install]]) rss" "cctx (cl t') = c" "world t' = w"
    and i: "last rcs = 0 \<longrightarrow> (\<exists>w0. granted rules (selinux_get_label env (context_id c) w0) c w) \<and> selinux_marked c w"
    by (auto simp: selinux_mac_def)
  have "if length (context_id c) \<le> 3 then selinux_get_label env (context_id c) w0 = ''system_u:system_r:'' @ underscored (context_id c) @ ''_t:s0''
      else prefix (''system_u:system_r:'' @ underscored (take 4 (context_id c))) (selinux_get_label env (context_id c) w0)" for w0
    by (rule selinux_get_label_known[OF context_id_no_nul])
  then show ?thesis using r i unfolding selinux_marked_def selinux_labelled_def by metis
qed

text \<open>The daemon of the example, with the application of the example of the installation.\<close>

definition demo_selinux_store :: "(cyn_db, string list) machine" where
  "demo_selinux_store = \<lparr>fs = fs demo_selinux_machine, faults = [], cyn_state = \<lparr>handler = True,
     lib = \<lparr>db_rules = [(''other'', ''old'')], db_draft = [], db_faults = []\<rparr>\<rparr>, printed = [], mac_state = []\<rparr>"

definition demo_selinux_host_env :: "(cyn_db, string list) machine selinux_env" where
  "demo_selinux_host_env = \<lparr>env_te_template = Some ''/te'', env_if_template = Some ''/if'', env_rules_dir = Some ''/r'',
     build_module = \<lambda>i w. (Exited 0, snd (create_file (''/r/'' @ i @ ''.pp'') w)),
     stack_id = \<lambda>f w n. CHR ''#'', stack_label = \<lambda>w t. ''garbage''\<rparr>"

definition demo_selinux_blank :: "(cyn_db, string list) machine perm_mgr_itf ctx" where
  "demo_selinux_blank = \<lparr>id_array = replicate 201 NUL, permission_set = permission_set_init, path_set = [],
     plugset = [], need_id = False, error_flag = False, permgr = None\<rparr>"

definition demo_selinux_remote :: "(cyn_db, string list, unit) machine_ext session" where
  "demo_selinux_remote = \<lparr>cl = \<lparr>cprot = new_prot, cctx = context_init demo_selinux_blank, version = 0, invalid = False, fdin = 4, fdout = 4\<rparr>,
     chn = \<lparr>rx = [], tx = [], sent = []\<rparr>, server_log = False, plog = [], closed = [], world = demo_selinux_store\<rparr>"

abbreviation demo_selinux_host :: "(cyn_db, string list) machine host" where
  "demo_selinux_host \<equiv> mac_host db_cynagora (selinux_mac db_semanage demo_selinux_host_env)"

lemma demo_selinux_calm: "daemon_calm demo_selinux_remote"
proof -
  have "daemon_idle demo_selinux_remote"
    using new_prot_inv context_init_inv[of demo_selinux_blank]
    by (simp add: daemon_idle_def daemon_listening_def session_ready_def session_inv_def demo_selinux_remote_def
        demo_selinux_blank_def client_is_connected_def)
  then show ?thesis
    by (simp add: daemon_calm_def plain_ctx_def demo_selinux_remote_def context_init_def permission_set_init_def)
qed

abbreviation demo_short_requests :: "string list list" where
  "demo_short_requests \<equiv> [[''id'', ''a-b''], [''path'', ''/d'', ''data''], [''permission'', ''urn:p'']]"

lemma demo_selinux_served:
  "map_option (\<lambda>(rs, lg, c, w). (rs, context_id c, permissions (permission_set c), path_set c))
     (serve_all demo_selinux_host (demo_short_requests @ [[n_install]]) (server_log demo_selinux_remote)
        (cctx (cl demo_selinux_remote)) (world demo_selinux_remote))
   = Some (replicate 4 [[n_done]], ''a-b'', [''urn:p''], [\<lparr>path_type = type_data, path = ''/d''\<rparr>])"
  by code_simp

theorem remote_installation_selinux_witness:
  "\<exists>s' t'. converse demo_selinux_host bytewise (demo_short_requests @ [[n_install]]) (demo_lib []) demo_selinux_remote
      = Some ([0, 0, 0, 0], s', t')
    \<and> {p. (''system_u:system_r:a_b_t:s0'', p) \<in> set (db_rules (lib (cyn_state (world t'))))} = {''urn:p''}
    \<and> attr_of (world t') ''/d'' ''security.selinux'' = Some ''system_u:object_r:a_b_data_t:s0''"
proof -
  obtain rs lg c w where sv: "serve_all demo_selinux_host (demo_short_requests @ [[n_install]]) (server_log demo_selinux_remote)
      (cctx (cl demo_selinux_remote)) (world demo_selinux_remote) = Some (rs, lg, c, w)"
    "rs = replicate 4 [[n_done]]" "context_id c = ''a-b''" "permissions (permission_set c) = [''urn:p'']"
    "path_set c = [\<lparr>path_type = type_data, path = ''/d''\<rparr>]"
    using demo_selinux_served by (fastforce simp del: serve_all.simps)
  have v: "list_all sendable demo_short_requests" by code_simp
  have pm: "permgr (cctx (cl demo_selinux_remote)) = None"
    by (simp add: demo_selinux_remote_def demo_selinux_blank_def context_init_def)
  have l: "selinux_label_of ''a-b'' type_data = ''system_u:object_r:a_b_data_t:s0''" "underscored ''a-b'' = ''a_b''"
    by code_simp+
  have "rd (id_array c) 0 \<noteq> NUL" using sv(3) by (cases "id_array c") (auto simp: context_id_def cstr_def rd_def)
  then have hi: "has_id c" by (simp add: has_id_def)
  have ok: "map2 result_of (demo_short_requests @ [[n_install]]) rs = [0, 0, 0, 0]"
    by (simp add: sv(2) result_of_def numeral_eq_Suc)
  have ap: "semanage_apart (db_semanage :: (unit, string, (cyn_db, string list) machine) semanage_lib)"
    "compile_apart demo_selinux_host_env"
    using db_apart.apart by (auto simp: compile_apart_def demo_selinux_host_env_def create_file_managers)
  from remote_installation_selinux[OF demo_lib_idle(1)[of "[]"] demo_selinux_calm bytewise_cutting pm v db_contract ap refl sv(1) hi]
  obtain s' t' where f: "converse demo_selinux_host bytewise (demo_short_requests @ [[n_install]]) (demo_lib []) demo_selinux_remote
      = Some ([0, 0, 0, 0], s', t')" "world t' = w" "granted (\<lambda>c. set (db_rules c)) ''system_u:system_r:a_b_t:s0'' c w"
    "attr_of w ''/d'' ''security.selinux'' = Some ''system_u:object_r:a_b_data_t:s0''"
    unfolding ok by (auto simp: sv(3,5) l simp del: converse.simps)
  then show ?thesis using sv(4) by (auto simp: granted_def simp del: converse.simps)
qed

end
