(* ===== verification/Session_Stream.thy ===== *)
theory Session_Stream
  imports Remote_Session
begin

text \<open>
  The session of the daemon on a stream of requests: several requests may be on the way at once, cut
  anywhere, and the processing of one event may answer none, one or several of them.
\<close>

section \<open>Requests of the protocol\<close>

definition asked :: "string list \<Rightarrow> bool" where
  "asked args \<longleftrightarrow> (case args of
       [a] \<Rightarrow> a \<in> set [n_clear, n_display, n_install, n_uninstall, n_log]
     | [a, x] \<Rightarrow> a \<in> set [n_id, n_permission] \<or> a = n_log \<and> x \<in> set [n_on, n_off]
     | [a, x, y] \<Rightarrow> a = n_path
     | [a, x, y, z] \<Rightarrow> a = n_plug
     | _ \<Rightarrow> False)"

lemma serve_asked: "snd (snd (snd (snd (serve H args lg c w)))) = asked args"
  by (auto simp: serve_def asked_def status_def Let_def case_prod_beta split: list.split)

lemma serve_all_append:
  "serve_all H (reqs @ reqs2) lg c w = Option.bind (serve_all H reqs lg c w)
     (\<lambda>(l, lg, c, w). map_option (\<lambda>(k, p). (l @ k, p)) (serve_all H reqs2 lg c w))"
proof (induction reqs arbitrary: lg c w)
  case (Cons args reqs)
  obtain rs lg1 c1 w1 ok where "serve H args lg c w = (rs, lg1, c1, w1, ok)" by (metis prod_cases5)
  then show ?case
    using Cons.IH[of lg1 c1 w1] by (cases "serve_all H reqs lg1 c1 w1"; cases "serve_all H reqs2 lg1 c1 w1")
      (auto simp: option.map_comp comp_def case_prod_beta split: option.split)
qed (simp add: option.map_id)

section \<open>Streams\<close>

text \<open>From \<open>t\<close> to \<open>u\<close> the session has answered the first \<open>n\<close> of the requests \<open>ms\<close>.\<close>

definition streamed :: "'z wstate host \<Rightarrow> string list list \<Rightarrow> nat \<Rightarrow> 'z session \<Rightarrow> 'z session \<Rightarrow> bool" where
  "streamed H ms n t u \<longleftrightarrow> n \<le> length ms \<and> daemon_listening u
     \<and> (\<exists>rss. sent (chn u) = sent (chn t) @ concat (map stream rss)
          \<and> serve_all H (take n ms) (server_log t) (cctx (cl t)) (world t) = Some (rss, server_log u, cctx (cl u), world u))"

lemma streamed_none: "daemon_listening u \<Longrightarrow> sent (chn u) = sent (chn t) \<Longrightarrow> server_log u = server_log t \<Longrightarrow>
    cctx (cl u) = cctx (cl t) \<Longrightarrow> world u = world t \<Longrightarrow> streamed H ms 0 t u"
  by (simp add: streamed_def)

lemma streamed_trans:
  assumes "streamed H ms m t u" "streamed H (drop m ms) n u v"
  shows "streamed H ms (m + n) t v"
proof -
  have n: "m + n \<le> length ms" "daemon_listening v" using assms by (auto simp: streamed_def)
  obtain l where l: "sent (chn u) = sent (chn t) @ concat (map stream l)"
    "serve_all H (take m ms) (server_log t) (cctx (cl t)) (world t) = Some (l, server_log u, cctx (cl u), world u)"
    using assms(1) by (auto simp: streamed_def)
  obtain k where k: "sent (chn v) = sent (chn u) @ concat (map stream k)"
    "serve_all H (take n (drop m ms)) (server_log u) (cctx (cl u)) (world u) = Some (k, server_log v, cctx (cl v), world v)"
    using assms(2) by (auto simp: streamed_def)
  have "serve_all H (take (m + n) ms) (server_log t) (cctx (cl t)) (world t) = Some (l @ k, server_log v, cctx (cl v), world v)"
    using l(2) k(2) by (simp add: take_add serve_all_append)
  then show ?thesis using n l(1) k(1) by (auto simp: streamed_def)
qed

lemma pending_stream:
  assumes "daemon_listening t" "unread (cprot (cl t)) @ x = stream ms" "list_all sendable ms" "list_all asked ms"
  shows "\<exists>y n. pending H t = pending H y \<and> streamed H ms n t y \<and> rx (chn y) = rx (chn t)
    \<and> unread (cprot (cl y)) @ x = stream (drop n ms)
    \<and> next_fields False (unread (cprot (cl y))) = (None, unread (cprot (cl y)))"
  using assms
proof (induction ms arbitrary: t)
  case Nil
  then have "unread (cprot (cl t)) = []" by (simp add: stream_def)
  then show ?case
    using Nil streamed_none[of t t H "[]"] next_fields_nil by (intro exI[of _ t] exI[of _ 0]) simp
next
  case (Cons m ms)
  have valid: "list_all valid_msg (m # ms)" using Cons.prems(3) by (auto simp: sendable_def list_all_iff)
  from next_fields_valid[OF Cons.prems(2) valid] show ?case
  proof
    assume "next_fields False (unread (cprot (cl t))) = (None, unread (cprot (cl t)))"
    then show ?thesis
      using Cons.prems streamed_none[of t t H "m # ms"] by (intro exI[of _ t] exI[of _ 0]) simp
  next
    assume "\<exists>m' ms' rest. m # ms = m' # ms' \<and> next_fields False (unread (cprot (cl t))) = (Some m', rest)
      \<and> rest @ x = stream ms'"
    then obtain rest where r: "next_fields False (unread (cprot (cl t))) = (Some m, rest)" "rest @ x = stream ms" by auto
    have m: "m \<noteq> []" "check_utf8 m" "version (cl t) \<noteq> 0 \<or> hd m \<noteq> n_sec_lsm_manager" "asked m"
      using Cons.prems(3,4) by (auto simp: sendable_def valid_msg_def check_utf8_def)
    obtain rs lg c w where sv: "serve H m (server_log t) (cctx (cl t)) (world t) = (rs, lg, c, w, True)"
      using serve_asked[of H m "server_log t" "cctx (cl t)" "world t"] m(4) by (metis prod.collapse)
    obtain y where y: "pending H t = pending H y" "session_ready y" "client_is_connected (cl y)" "tx (chn y) = []"
      "obytes (outbuf (cprot (cl y))) = []" "unread (cprot (cl y)) = rest" "rx (chn y) = rx (chn t)"
      "sent (chn y) = sent (chn t) @ stream rs" "cctx (cl y) = c" "world y = w" "server_log y = lg" "\<not> invalid (cl y)"
      using pending_record[OF Cons.prems(1) r(1) m(1-3) sv] by auto
    then have ly: "daemon_listening y" by (simp add: daemon_listening_def)
    have one: "streamed H (m # ms) 1 t y" using ly sv y(8-11) by (auto simp: streamed_def intro: exI[of _ "[rs]"])
    obtain z n where z: "pending H y = pending H z" "streamed H ms n y z" "rx (chn z) = rx (chn y)"
      "unread (cprot (cl z)) @ x = stream (drop n ms)"
      "next_fields False (unread (cprot (cl z))) = (None, unread (cprot (cl z)))"
      using Cons.IH[OF ly] r(2) y(6) Cons.prems(3,4) by auto
    have "streamed H (m # ms) (1 + n) t z" by (rule streamed_trans[OF one]) (simp add: z(2))
    then show ?thesis using y(1,7) z by (intro exI[of _ z] exI[of _ "1 + n"]) simp
  qed
qed

text \<open>What is left of a stream when no record of it is complete leaves room in the buffer.\<close>

lemma partial_room:
  assumes "next_fields False w = (None, w)" "w @ x = stream ms" "list_all sendable ms"
  shows "length w < PROT_MAX_BUFFER_LENGTH" "x = [] \<Longrightarrow> ms = []"
proof -
  have *: "length w < PROT_MAX_BUFFER_LENGTH \<and> (ms = [] \<or> x \<noteq> [])"
  proof (cases ms)
    case Nil
    then show ?thesis using assms(2) by (simp add: stream_def PROT_MAX_BUFFER_LENGTH_def)
  next
    case (Cons m ns)
    then have m: "w @ x = encode m @ stream ns" "valid_msg m" "fits m"
      using assms(2,3) by (simp_all add: stream_def sendable_def)
    then show ?thesis using next_fields_partial[OF assms(1) m(1,2)] by (simp add: fits_def)
  qed
  then show "length w < PROT_MAX_BUFFER_LENGTH" "x = [] \<Longrightarrow> ms = []" by auto
qed

lemma process_stream:
  assumes "daemon_listening t" "data_then es (chn t)" "es = [] \<or> es = [RxEof]" "unread (cprot (cl t)) @ incoming (rx (chn t)) @ x = stream ms"
    "list_all sendable ms" "list_all asked ms"
  shows "\<exists>u n. client_process_input H t = Some (if es = [] then - EAGAIN else 0, u) \<and> streamed H ms n t u \<and> rx (chn u) = es
    \<and> unread (cprot (cl u)) @ x = stream (drop n ms) \<and> (x = [] \<longrightarrow> n = length ms)
    \<and> next_fields False (unread (cprot (cl u))) = (None, unread (cprot (cl u)))"
  using assms
proof (induction "length (incoming (rx (chn t)))" arbitrary: t ms rule: less_induct)
  case less
  obtain y m where y: "pending H t = pending H y" "streamed H ms m t y" "rx (chn y) = rx (chn t)"
    "unread (cprot (cl y)) @ incoming (rx (chn t)) @ x = stream (drop m ms)"
    "next_fields False (unread (cprot (cl y))) = (None, unread (cprot (cl y)))"
    using pending_stream[OF less.prems(1,4-6)] by blast
  have ly: "daemon_listening y" "m \<le> length ms" using y(2) by (auto simp: streamed_def)
  have sd: "list_all sendable (drop m ms)" "list_all asked (drop m ms)"
    using less.prems(5,6) by (auto simp: list_all_iff dest: in_set_dropD)
  note room = partial_room[OF y(5,4) sd(1)]
  note run = process_pending[OF y(1)]
  show ?case
  proof (cases "incoming (rx (chn t)) = []")
    case True
    then have "rx (chn y) = es" using data_then_none[OF less.prems(2)] y(3) by simp
    then obtain z where z: "client_process_input H y = Some (if es = [] then - EAGAIN else 0, z)" "daemon_listening z" "heard y z"
      "unread (cprot (cl z)) = unread (cprot (cl y))" "rx (chn z) = es"
      using daemon_waits[OF ly(1) y(5) room(1) _ less.prems(3)] by metis
    have "streamed H (drop m ms) 0 y z"
      using streamed_none[OF z(2)] z(3) heard_same[OF z(3)] by (auto simp: heard_def)
    then have "streamed H ms (m + 0) t z" by (rule streamed_trans[OF y(2)])
    moreover have "x = [] \<longrightarrow> m = length ms" using room(2) True ly(2) by auto
    ultimately show ?thesis using run z y(4,5) True by auto
  next
    case False
    have yy: "session_ready y" "\<not> invalid (cl y)" "client_is_connected (cl y)" "data_then es (chn y)" "incoming (rx (chn y)) \<noteq> []"
      using ly(1) y(3) less.prems(2) False by (simp_all add: daemon_listening_def data_then_def)
    obtain u p where u: "client_process_input H y = client_process_input H u" "heard y u" "p \<noteq> []" "data_then es (chn u)"
      "unread (cprot (cl u)) = unread (cprot (cl y)) @ p" "incoming (rx (chn y)) = p @ incoming (rx (chn u))"
      using daemon_reads_piece[OF yy y(5) room(1)] by blast
    have lu: "daemon_listening u"
      using u(2) heard_same[OF u(2)] ly(1) by (simp add: heard_def daemon_listening_def client_is_connected_def)
    have "streamed H (drop m ms) 0 y u"
      using streamed_none[OF lu] u(2) heard_same[OF u(2)] by (auto simp: heard_def)
    then have tu: "streamed H ms m t u" using streamed_trans[OF y(2)] by fastforce
    have sh: "length (incoming (rx (chn u))) < length (incoming (rx (chn t)))" using u(3,6) y(3) by simp
    have un: "unread (cprot (cl u)) @ incoming (rx (chn u)) @ x = stream (drop m ms)"
      using u(5,6) y(3,4) by simp
    obtain v n where v: "client_process_input H u = Some (if es = [] then - EAGAIN else 0, v)" "streamed H (drop m ms) n u v"
      "rx (chn v) = es"
      "unread (cprot (cl v)) @ x = stream (drop n (drop m ms))" "x = [] \<longrightarrow> n = length (drop m ms)"
      "next_fields False (unread (cprot (cl v))) = (None, unread (cprot (cl v)))"
      using less.hyps[OF sh lu u(4) less.prems(3) un sd] by blast
    have "streamed H ms (m + n) t v" by (rule streamed_trans[OF tu v(2)])
    moreover have "x = [] \<longrightarrow> m + n = length ms" using v(5) ly(2) by auto
    ultimately show ?thesis using run u(1) v(1,3,4,6) by (intro exI[of _ v] exI[of _ "m + n"]) (simp add: add.commute)
  qed
qed

end
