(* ===== verification/Server_Sessions.thy ===== *)
theory Server_Sessions
  imports Session_Stream Isolation
begin

text \<open>
  The server with the sessions of several clients at once. Their requests come interleaved, cut
  anywhere and spread over the turns of the serving loop; the server answers as if they came one
  after the other.
\<close>

section \<open>Turns\<close>

text \<open>What a client sends reaches its descriptor, in pieces, and polling reports it.\<close>

definition deliver :: "nat \<Rightarrow> string list \<Rightarrow> 'z server \<Rightarrow> 'z server" where
  "deliver i ps s = set_conn i (\<lambda>x. x\<lparr>cwire := (cwire x)\<lparr>rx := rx (cwire x) @ map RxData ps\<rparr>\<rparr>) s"

fun turns :: "'z wstate host \<Rightarrow> 'z client \<Rightarrow> int \<Rightarrow> (nat \<times> string list) list \<Rightarrow> 'z server \<Rightarrow> 'z server option" where
  "turns H mem sh [] s = Some s"
| "turns H mem sh ((i, ps) # evs) s =
     Option.bind (serve_turn H mem sh (PollClient i EPOLLIN) (deliver i ps s)) (turns H mem sh evs)"

section \<open>The specification\<close>

text \<open>
  The abstract server with several clients: each has its context, the system and the flag of the log
  are shared, and requests are served one at a time.
\<close>

type_synonym 'z contexts = "'z wstate perm_mgr_itf ctx option list"

fun serve_clients ::
  "'z wstate host \<Rightarrow> (nat \<times> string list) list \<Rightarrow> bool \<Rightarrow> 'z contexts \<Rightarrow> 'z wstate \<Rightarrow>
     ((nat \<times> string list list) list \<times> bool \<times> 'z contexts \<times> 'z wstate) option" where
  "serve_clients H [] lg cs w = Some ([], lg, cs, w)"
| "serve_clients H ((i, args) # reqs) lg cs w =
     (case cs ! i of
        None \<Rightarrow> None
      | Some c \<Rightarrow>
          (case serve H args lg c w of (rs, lg, c, w, ok) \<Rightarrow>
             if ok then map_option (\<lambda>(l, p). ((i, rs) # l, p)) (serve_clients H reqs lg (cs[i := Some c]) w)
             else None))"

definition contexts :: "'z server \<Rightarrow> 'z contexts" where
  "contexts s = map (\<lambda>x. map_option cctx (connected x)) (conns s)"

text \<open>What concerns one client.\<close>

definition of_client :: "nat \<Rightarrow> (nat \<times> 'a) list \<Rightarrow> 'a list" where
  "of_client i xs = map snd (filter (\<lambda>(j, _). j = i) xs)"

definition client_bytes :: "nat \<Rightarrow> (nat \<times> string list) list \<Rightarrow> string" where
  "client_bytes i evs = concat (map concat (of_client i evs))"

text \<open>The requests served in each turn, one batch by turn, of the client the turn is about.\<close>

definition in_turn :: "(nat \<times> string list) list \<Rightarrow> string list list list \<Rightarrow> (nat \<times> string list) list" where
  "in_turn evs batches = concat (map2 (\<lambda>(i, ps) ms. map (Pair i) ms) evs batches)"

lemma of_client_simps [simp]:
  "of_client i [] = []" "of_client i ((j, x) # xs) = (if j = i then x # of_client i xs else of_client i xs)"
  "of_client i (xs @ ys) = of_client i xs @ of_client i ys"
  by (simp_all add: of_client_def)

lemma of_client_pairs [simp]: "of_client i (map (Pair j) zs) = (if j = i then zs else [])"
  by (induction zs) auto

lemma client_bytes_simps [simp]:
  "client_bytes i [] = []" "client_bytes i ((j, ps) # evs) = (if j = i then concat ps @ client_bytes i evs else client_bytes i evs)"
  by (simp_all add: client_bytes_def)

lemma serve_clients_all:
  assumes "serve_all H ms lg c w = Some (rss, lg2, c2, w2)" "cs ! i = Some c" "i < length cs"
  shows "serve_clients H (map (Pair i) ms @ reqs) lg cs w
    = map_option (\<lambda>(l, p). (map (Pair i) rss @ l, p)) (serve_clients H reqs lg2 (cs[i := Some c2]) w2)"
  using assms
proof (induction ms arbitrary: lg c w rss cs)
  case Nil
  then have "cs[i := Some c2] = cs" using list_update_id[of cs i] by simp
  then show ?case using Nil by (simp add: option.map_ident)
next
  case (Cons m ms)
  obtain rs lg1 c1 w1 ok where sv: "serve H m lg c w = (rs, lg1, c1, w1, ok)" by (metis prod_cases5)
  obtain l where l: "ok" "serve_all H ms lg1 c1 w1 = Some (l, lg2, c2, w2)" "rss = rs # l"
    using Cons.prems(1) sv by (auto split: if_splits)
  show ?case
    using Cons.IH[OF l(2), of "cs[i := Some c1]"] Cons.prems(2,3) sv l(1,3)
    by (simp add: option.map_comp comp_def case_prod_beta)
qed

section \<open>A server that stays quiet\<close>

text \<open>
  No client is silent for too long at any reading of the clock to come: with a shut-off time, the
  readings are less than that time apart; without, the clock is after 1970.
\<close>

definition readings :: "'z server \<Rightarrow> int set" where
  "readings s = set (now s # clock s)"

definition late :: "int \<Rightarrow> int \<Rightarrow> int" where
  "late sh t = (if sh < 0 then 0 else t - sh)"

definition recent :: "int \<Rightarrow> 'z server \<Rightarrow> bool" where
  "recent sh s \<longleftrightarrow> (\<forall>t \<in> readings s. (\<forall>u \<in> readings s. late sh t < u)
     \<and> (\<forall>i < MAX_CLIENT_COUNT. connected (conns s ! i) \<noteq> None \<longrightarrow> late sh t < lasttime (conns s ! i)))"

text \<open>Between two turns: every client listened to has sent at most a part of a record.\<close>

definition server_calm :: "int \<Rightarrow> 'z server \<Rightarrow> bool" where
  "server_calm sh s \<longleftrightarrow> fds_inv s \<and> listen_inv s \<and> \<not> stopped s \<and> (deaf s \<longrightarrow> full s) \<and> recent sh s
     \<and> (\<forall>i < MAX_CLIENT_COUNT. \<forall>c. connected (conns s ! i) = Some c \<longrightarrow>
          daemon_listening (session_of i c s) \<and> rx (cwire (conns s ! i)) = []
          \<and> next_fields False (unread (cprot c)) = (None, unread (cprot c)))"

lemma sys_time_readings:
  "sys_time s = (t, s') \<Longrightarrow> t \<in> readings s \<and> readings s' \<subseteq> readings s"
  by (auto simp: sys_time_def readings_def split: list.splits)

lemma watch_quiet:
  assumes "fds_inv s" "set is \<subseteq> {..<MAX_CLIENT_COUNT}"
    "\<forall>j \<in> set is. connected (conns s ! j) \<noteq> None \<longrightarrow> trig < lasttime (conns s ! j)"
  shows "watch_clients trig is n s = (n + length (filter (\<lambda>j. connected (conns s ! j) \<noteq> None) is), s)"
  using assms(2,3)
proof (induction "is" arbitrary: n)
  case (Cons j js)
  show ?case
  proof (cases "connected (conns s ! j)")
    case None
    then show ?thesis using Cons by simp
  next
    case (Some c)
    have j: "j < MAX_CLIENT_COUNT" using Cons.prems(1) by simp
    note d = fds_invD[OF assms(1) j Some]
    have "client_is_connected (cl (session_of j c s))" using d by (simp add: session_of_def client_is_connected_def)
    moreover have "put_session j (session_of j c s) s = s" using put_session_id[OF Some] d(8) j by simp
    ultimately show ?thesis using Cons Some by (simp add: Let_def not_le)
  qed
qed simp

section \<open>A turn\<close>

lemma deliver_conns: "i < length (conns s) \<Longrightarrow> conns (deliver i ps s) ! j
    = (if j = i then (conns s ! i)\<lparr>cwire := (cwire (conns s ! i))\<lparr>rx := rx (cwire (conns s ! i)) @ map RxData ps\<rparr>\<rparr>
       else conns s ! j)"
  by (simp add: deliver_def set_conn_def)

lemma deliver_same:
  "length (conns (deliver i ps s)) = length (conns s)" "servfd (deliver i ps s) = servfd s" "pollfd (deliver i ps s) = pollfd s"
  "polled (deliver i ps s) = polled s" "stopped (deliver i ps s) = stopped s" "deaf (deliver i ps s) = deaf s"
  "now (deliver i ps s) = now s" "clock (deliver i ps s) = clock s" "slm_server_log (deliver i ps s) = slm_server_log s"
  "sys_state (deliver i ps s) = sys_state s" "released (deliver i ps s) = released s"
  by (simp_all add: deliver_def set_conn_def)

lemma deliver_inv:
  assumes "fds_inv s" "i < MAX_CLIENT_COUNT"
  shows "fds_inv (deliver i ps s)" "full (deliver i ps s) = full s"
proof -
  have len: "length (conns s) = MAX_CLIENT_COUNT" using fds_inv_base[OF assms(1)] by blast
  note c = deliver_conns[of i s ps] assms(2) len
  have "fds_inv (deliver i ps s) \<and> full (deliver i ps s) = full s"
  proof (rule fds_inv_pointwise[OF assms(1)])
    show "connected (conns (deliver i ps s) ! j) = None \<longleftrightarrow> connected (conns s ! j) = None" for j using c by simp
    show "cfd (conns (deliver i ps s) ! j) = cfd (conns s ! j) \<and> client_ok d \<and> fdin d = cfd (conns s ! j)
        \<and> fdout d = cfd (conns s ! j)"
      if "j < MAX_CLIENT_COUNT" "connected (conns (deliver i ps s) ! j) = Some d" for j d
      using that fds_invD[OF assms(1), of j] c by (auto split: if_splits)
  qed (use len in \<open>simp_all add: deliver_same\<close>)
  then show "fds_inv (deliver i ps s)" "full (deliver i ps s) = full s" by auto
qed

text \<open>The handler of a client that has sent a part of a stream of requests.\<close>

lemma client_event_stream:
  assumes "fds_inv s" "i < MAX_CLIENT_COUNT" "connected (conns s ! i) = Some c" "daemon_listening (session_of i c s)"
    "data_only (cwire (conns s ! i))" "unread (cprot c) @ incoming (rx (cwire (conns s ! i))) @ x = stream ms"
    "list_all sendable ms" "list_all asked ms"
  shows "\<exists>u n s' tm. on_client_event H i EPOLLIN s = Some s' \<and> streamed H ms n (session_of i c s) u
    \<and> unread (cprot (cl u)) @ x = stream (drop n ms) \<and> (x = [] \<longrightarrow> n = length ms)
    \<and> next_fields False (unread (cprot (cl u))) = (None, unread (cprot (cl u)))
    \<and> conns s' = (conns s)[i := (conns s ! i)\<lparr>connected := Some (cl u), cwire := chn u, lasttime := tm\<rparr>] \<and> rx (chn u) = []
    \<and> slm_server_log s' = server_log u \<and> sys_state s' = world u \<and> tm \<in> readings s \<and> readings s' \<subseteq> readings s
    \<and> fds_inv s' \<and> stopped s' = stopped s \<and> deaf s' = deaf s \<and> polled s' = polled s \<and> servfd s' = servfd s"
proof -
  have len: "i < length (conns s)" using fds_inv_base[OF assms(1)] assms(2) by simp
  obtain u n where u: "client_process_input H (session_of i c s) = Some (- EAGAIN, u)" "streamed H ms n (session_of i c s) u"
    "rx (chn u) = []" "unread (cprot (cl u)) @ x = stream (drop n ms)" "x = [] \<longrightarrow> n = length ms"
    "next_fields False (unread (cprot (cl u))) = (None, unread (cprot (cl u)))"
    using process_stream[OF assms(4), of "[]" x ms H] assms(5-8) by (auto simp: session_of_def)
  let ?v = "put_session i u s"
  obtain tm w where tm: "sys_time ?v = (tm, w)" by fastforce
  let ?s' = "set_conn i (lasttime_update (\<lambda>_. tm)) w"
  have run: "on_client_event H i EPOLLIN s = Some ?s'" using assms(3) u(1) tm by (simp add: on_client_event_def)
  have ok: "client_ok (cl u)" using u(2) by (simp add: streamed_def daemon_listening_def session_ready_client)
  have k: "fdin (cl u) = fdin c" "fdout (cl u) = fdout c" "closed u = released s"
    using process_link[OF u(1)] by (simp_all add: session_of_def)
  note v = put_session_inv[OF assms(1-3) ok k]
  note st = sys_time_same[OF tm] sys_time_readings[OF tm]
  have w: "fds_inv w" "conns w = conns ?v" "polled w = polled s" "servfd w = servfd s"
    using v st(1) same_slots_inv[of ?v w] by (auto simp: same_slots_def put_session_def)
  have wl: "slm_server_log w = server_log u" "sys_state w = world u" "stopped w = stopped s" "deaf w = deaf s"
    using tm by (auto simp: sys_time_def put_session_def split: list.splits)
  have rd: "readings ?v = readings s" "readings ?s' = readings w" by (simp_all add: readings_def put_session_def set_conn_def)
  have "conns ?s' = (conns s)[i := (conns s ! i)\<lparr>connected := Some (cl u), cwire := chn u, lasttime := tm\<rparr>]"
    using len w(2) by (simp add: set_conn_def put_session_def)
  moreover have "fds_inv ?s'" using set_lasttime_inv[OF w(1) assms(2)] by blast
  ultimately show ?thesis
    using run u(2-6) w(3,4) wl st(2) rd by (intro exI[of _ u] exI[of _ n] exI[of _ ?s'] exI[of _ tm]) (simp add: set_conn_def)
qed

lemma listening_slot:
  "daemon_listening (session_of i c s) \<longleftrightarrow> client_ok c \<and> \<not> invalid c \<and> client_is_connected c
     \<and> tx (cwire (conns s ! i)) = [] \<and> obytes (outbuf (cprot c)) = []"
  by (simp add: daemon_listening_def session_ready_client session_of_def)

lemma streamed_start: "streamed H ms n t u \<Longrightarrow> sent (chn t') = sent (chn t) \<Longrightarrow> server_log t' = server_log t \<Longrightarrow>
    cctx (cl t') = cctx (cl t) \<Longrightarrow> world t' = world t \<Longrightarrow> streamed H ms n t' u"
  by (simp add: streamed_def)

lemma turn_passes:
  assumes "on_client_event H i EPOLLIN d = Some e" "fds_inv e" "deaf e \<longrightarrow> full e"
    and quiet: "\<And>t j. t \<in> readings e \<Longrightarrow> j < MAX_CLIENT_COUNT \<Longrightarrow> connected (conns e ! j) \<noteq> None \<Longrightarrow> late sh t < lasttime (conns e ! j)"
  shows "\<exists>e2. serve_turn H mem sh (PollClient i EPOLLIN) d = Some e2 \<and> same_slots e e2 \<and> stopped e2 = stopped e
    \<and> deaf e2 = deaf e \<and> readings e2 \<subseteq> readings e \<and> slm_server_log e2 = slm_server_log e \<and> sys_state e2 = sys_state e"
proof -
  have p: "pollitem_wait_dispatch H mem (PollClient i EPOLLIN) d = Some ((1, 0), e)"
    using assms(1) by (simp add: pollitem_wait_dispatch_def)
  obtain t e2 where t: "(if sh < 0 then (0, e) else (case sys_time e of (t, s) \<Rightarrow> (t - sh, s))) = (late sh t, e2)"
    "t \<in> readings e" "readings e2 \<subseteq> readings e" "same_slots e e2" "stopped e2 = stopped e" "deaf e2 = deaf e"
    "slm_server_log e2 = slm_server_log e" "sys_state e2 = sys_state e"
  proof (cases "sh < 0")
    case True
    then show ?thesis using that[of "now e" e] by (simp add: late_def readings_def same_slots_def)
  next
    case False
    obtain t e2 where st: "sys_time e = (t, e2)" by fastforce
    then have "slm_server_log e2 = slm_server_log e" "sys_state e2 = sys_state e"
      by (auto simp: sys_time_def split: list.splits)
    then show ?thesis
      using that[of t e2] False st sys_time_same[OF st] sys_time_readings[OF st] by (simp add: late_def)
  qed
  have i2: "fds_inv e2" "full e2 = full e" using same_slots_inv[OF t(4)] assms(2) by auto
  have c2: "conns e2 = conns e" using t(4) by (simp add: same_slots_def)
  let ?k = "length (filter (\<lambda>j. connected (conns e2 ! j) \<noteq> None) [0..<MAX_CLIENT_COUNT])"
  have w: "watch_clients (late sh t) [0..<MAX_CLIENT_COUNT] 0 e2 = (?k, e2)"
    using watch_quiet[OF i2(1), of "[0..<MAX_CLIENT_COUNT]" "late sh t" 0] quiet[OF t(2)] c2 by (auto simp: subset_iff)
  have "\<not> (deaf e2 \<and> ?k < MAX_CLIENT_COUNT)" using count_full[of e2] i2(2) t(6) assms(3) by simp
  then have "serve_turn H mem sh (PollClient i EPOLLIN) d = Some e2"
    unfolding serve_turn_def p by (simp only: bind.simps prod.case t(1) w) simp
  then show ?thesis using t by blast
qed

lemma client_turn:
  assumes "server_calm sh s" "i < MAX_CLIENT_COUNT" "connected (conns s ! i) = Some c" "[] \<notin> set ps"
    "unread (cprot c) @ concat ps @ x = stream ms" "list_all sendable ms" "list_all asked ms"
  shows "\<exists>s' u n. serve_turn H mem sh (PollClient i EPOLLIN) (deliver i ps s) = Some s' \<and> server_calm sh s'
    \<and> streamed H ms n (session_of i c s) u \<and> unread (cprot (cl u)) @ x = stream (drop n ms) \<and> (x = [] \<longrightarrow> n = length ms)
    \<and> contexts s' = (contexts s)[i := Some (cctx (cl u))] \<and> slm_server_log s' = server_log u \<and> sys_state s' = world u
    \<and> (\<forall>j < MAX_CLIENT_COUNT. connected (conns s' ! j) = (if j = i then Some (cl u) else connected (conns s ! j))
         \<and> cwire (conns s' ! j) = (if j = i then chn u else cwire (conns s ! j)))"
proof -
  let ?d = "deliver i ps s"
  have s: "fds_inv s" "listen_inv s" "\<not> stopped s" "deaf s \<longrightarrow> full s" "recent sh s"
    and each: "\<And>j d. j < MAX_CLIENT_COUNT \<Longrightarrow> connected (conns s ! j) = Some d \<Longrightarrow>
          daemon_listening (session_of j d s) \<and> rx (cwire (conns s ! j)) = []
          \<and> next_fields False (unread (cprot d)) = (None, unread (cprot d))"
    using assms(1) by (auto simp: server_calm_def)
  have len: "length (conns s) = MAX_CLIENT_COUNT" using fds_inv_base[OF s(1)] by blast
  have il: "i < length (conns s)" using len assms(2) by simp
  note dc = deliver_conns[OF il, of ps]
  have di: "fds_inv ?d" "full ?d = full s" using deliver_inv[OF s(1) assms(2)] by auto
  have cd: "connected (conns ?d ! i) = Some c" "rx (cwire (conns ?d ! i)) = map RxData ps" "daemon_listening (session_of i c ?d)"
    "sent (cwire (conns ?d ! i)) = sent (cwire (conns s ! i))"
    using assms(3) each[OF assms(2,3)] by (simp_all add: dc listening_slot)
  have dt: "data_only (cwire (conns ?d ! i))" "incoming (rx (cwire (conns ?d ! i))) = concat ps"
    using assms(4) cd(2) by (auto simp: data_then_def)
  obtain u n e tm where u: "on_client_event H i EPOLLIN ?d = Some e" "streamed H ms n (session_of i c ?d) u"
    "unread (cprot (cl u)) @ x = stream (drop n ms)" "x = [] \<longrightarrow> n = length ms"
    "next_fields False (unread (cprot (cl u))) = (None, unread (cprot (cl u)))"
    "conns e = (conns ?d)[i := (conns ?d ! i)\<lparr>connected := Some (cl u), cwire := chn u, lasttime := tm\<rparr>]" "rx (chn u) = []"
    "slm_server_log e = server_log u" "sys_state e = world u" "tm \<in> readings ?d" "readings e \<subseteq> readings ?d"
    "fds_inv e" "stopped e = stopped ?d" "deaf e = deaf ?d" "polled e = polled ?d" "servfd e = servfd ?d"
    using client_event_stream[OF di(1) assms(2) cd(1,3) dt(1), of x ms H] assms(5-7) dt(2) by metis
  have rd: "readings ?d = readings s" by (simp add: readings_def deliver_same)
  have ce: "connected (conns e ! j) = (if j = i then Some (cl u) else connected (conns s ! j))
      \<and> cwire (conns e ! j) = (if j = i then chn u else cwire (conns s ! j))
      \<and> lasttime (conns e ! j) = (if j = i then tm else lasttime (conns s ! j))" for j
    using il by (simp add: u(6) dc deliver_same)
  have fe: "full e = full s" using assms(3) by (auto simp: full_def ce)
  have quiet: "late sh t < lasttime (conns e ! j)"
    if "t \<in> readings e" "j < MAX_CLIENT_COUNT" "connected (conns e ! j) \<noteq> None" for t j
  proof -
    have "t \<in> readings s" "tm \<in> readings s" using that(1) u(10,11) rd by auto
    then show ?thesis using s(5) that(2,3) by (auto simp: recent_def ce split: if_splits)
  qed
  obtain e2 where e2: "serve_turn H mem sh (PollClient i EPOLLIN) ?d = Some e2" "same_slots e e2" "stopped e2 = stopped e"
    "deaf e2 = deaf e" "readings e2 \<subseteq> readings e" "slm_server_log e2 = slm_server_log e" "sys_state e2 = sys_state e"
    using turn_passes[OF u(1,12) _ quiet, of mem] s(4) fe u(14) by (auto simp: deliver_same)
  have c2: "conns e2 = conns e" "fds_inv e2" "full e2 = full s" "polled e2 = polled s" "servfd e2 = servfd s"
    using e2(2) same_slots_inv[OF e2(2)] u(12,15,16) fe by (auto simp: same_slots_def deliver_same)
  have "recent sh e2"
    using s(5) quiet e2(5) u(11) rd unfolding recent_def c2(1) by blast
  moreover have "listen_inv e2"
    using s(2,3) c2(3-5) e2(3,4) u(13,14) by (simp add: listen_inv_def deliver_same)
  moreover have lu: "daemon_listening u" using u(2) by (simp add: streamed_def)
  have "daemon_listening (session_of j d e2) \<and> rx (cwire (conns e2 ! j)) = []
      \<and> next_fields False (unread (cprot d)) = (None, unread (cprot d))"
    if "j < MAX_CLIENT_COUNT" "connected (conns e2 ! j) = Some d" for j d
  proof (cases "j = i")
    case True
    then show ?thesis
      using that lu u(5,7) ce[of i] by (simp add: c2(1) listening_slot daemon_listening_def session_ready_client session_of_def)
  next
    case False
    then show ?thesis using that each[OF that(1), of d] ce[of j] by (simp add: c2(1) listening_slot)
  qed
  ultimately have "server_calm sh e2"
    using s(3,4) c2(2,3) e2(3,4) u(13,14) by (simp add: server_calm_def deliver_same)
  moreover have "contexts e2 = (contexts s)[i := Some (cctx (cl u))]"
    using len ce by (simp add: contexts_def list_eq_iff_nth_eq nth_list_update c2(1) u(6) deliver_same)
  moreover have "streamed H ms n (session_of i c s) u"
    using streamed_start[OF u(2), of "session_of i c s"] cd(4) by (simp add: session_of_def deliver_same)
  ultimately show ?thesis using e2(1,6,7) u(3,4,8,9) ce c2(1) by auto
qed

section \<open>The sessions\<close>

lemma contexts_nth: "i < length (conns s) \<Longrightarrow> contexts s ! i = map_option cctx (connected (conns s ! i))"
  by (simp add: contexts_def)

lemma turns_served:
  assumes "server_calm sh s"
    "\<forall>(i, ps) \<in> set evs. i < MAX_CLIENT_COUNT \<and> connected (conns s ! i) \<noteq> None \<and> [] \<notin> set ps"
    "\<And>i c. i < MAX_CLIENT_COUNT \<Longrightarrow> connected (conns s ! i) = Some c \<Longrightarrow>
       unread (cprot c) @ client_bytes i evs @ left i = stream (msgs i)"
    "\<And>i. list_all sendable (msgs i) \<and> list_all asked (msgs i)"
  shows "\<exists>s' batches answers. turns H mem sh evs s = Some s' \<and> server_calm sh s' \<and> length batches = length evs
    \<and> serve_clients H (in_turn evs batches) (slm_server_log s) (contexts s) (sys_state s)
        = Some (answers, slm_server_log s', contexts s', sys_state s')
    \<and> (\<forall>i < MAX_CLIENT_COUNT. connected (conns s ! i) \<noteq> None \<longrightarrow>
         (\<exists>n \<le> length (msgs i). of_client i (in_turn evs batches) = take n (msgs i) \<and> (left i = [] \<longrightarrow> n = length (msgs i)))
         \<and> sent (cwire (conns s' ! i)) = sent (cwire (conns s ! i)) @ concat (map stream (of_client i answers)))"
  using assms
proof (induction evs arbitrary: s msgs)
  case Nil
  have "msgs i = []" if "i < MAX_CLIENT_COUNT" "connected (conns s ! i) = Some c" "left i = []" for i c
  proof -
    have "next_fields False (unread (cprot c)) = (None, unread (cprot c))"
      using Nil.prems(1) that(1,2) by (auto simp: server_calm_def)
    then show ?thesis using partial_room(2)[of "unread (cprot c)" "[]"] Nil.prems(3)[OF that(1,2)] Nil.prems(4) that(3) by simp
  qed
  then show ?case using Nil.prems(1) by (intro exI[of _ s] exI[of _ "[]"]) (auto simp: in_turn_def)
next
  case (Cons ev evs)
  obtain i ps where ev: "ev = (i, ps)" by fastforce
  have i: "i < MAX_CLIENT_COUNT" "[] \<notin> set ps" and "connected (conns s ! i) \<noteq> None" using Cons.prems(2) ev by auto
  then obtain c where c: "connected (conns s ! i) = Some c" by auto
  have "unread (cprot c) @ concat ps @ (client_bytes i evs @ left i) = stream (msgs i)" using Cons.prems(3)[OF i(1) c] ev by simp
  then obtain u n t where t: "serve_turn H mem sh (PollClient i EPOLLIN) (deliver i ps s) = Some t" "server_calm sh t"
    "streamed H (msgs i) n (session_of i c s) u" "unread (cprot (cl u)) @ (client_bytes i evs @ left i) = stream (drop n (msgs i))"
    "contexts t = (contexts s)[i := Some (cctx (cl u))]" "slm_server_log t = server_log u" "sys_state t = world u"
    "\<forall>j < MAX_CLIENT_COUNT. connected (conns t ! j) = (if j = i then Some (cl u) else connected (conns s ! j))
         \<and> cwire (conns t ! j) = (if j = i then chn u else cwire (conns s ! j))"
    using client_turn[OF Cons.prems(1) i(1) c i(2), of "client_bytes i evs @ left i" "msgs i" H mem] Cons.prems(4) by blast
  let ?msgs = "msgs(i := drop n (msgs i))"
  have evs: "\<forall>(j, ps) \<in> set evs. j < MAX_CLIENT_COUNT \<and> connected (conns t ! j) \<noteq> None \<and> [] \<notin> set ps"
    using Cons.prems(2) t(8) by auto
  have un: "unread (cprot d) @ client_bytes j evs @ left j = stream (?msgs j)"
    if "j < MAX_CLIENT_COUNT" "connected (conns t ! j) = Some d" for j d
    using that t(4,8) Cons.prems(3)[OF that(1), of d] ev by (cases "j = i") auto
  have sd: "list_all sendable (?msgs j) \<and> list_all asked (?msgs j)" for j
    using Cons.prems(4)[of j] by (auto simp: list_all_iff dest: in_set_dropD)
  obtain s' batches answers where s': "turns H mem sh evs t = Some s'" "server_calm sh s'"
    "serve_clients H (in_turn evs batches) (slm_server_log t) (contexts t) (sys_state t) = Some (answers, slm_server_log s', contexts s', sys_state s')"
    "\<And>j. j < MAX_CLIENT_COUNT \<Longrightarrow> connected (conns t ! j) \<noteq> None \<Longrightarrow>
         (\<exists>n \<le> length (?msgs j). of_client j (in_turn evs batches) = take n (?msgs j) \<and> (left j = [] \<longrightarrow> n = length (?msgs j)))
         \<and> sent (cwire (conns s' ! j)) = sent (cwire (conns t ! j)) @ concat (map stream (of_client j answers))"
    "length batches = length evs"
    using Cons.IH[OF t(2) evs un sd] by blast
  obtain rss where rss: "sent (chn u) = sent (cwire (conns s ! i)) @ concat (map stream rss)" "n \<le> length (msgs i)"
    "serve_all H (take n (msgs i)) (slm_server_log s) (cctx c) (sys_state s) = Some (rss, server_log u, cctx (cl u), world u)"
    using t(3) by (auto simp: streamed_def session_of_def)
  have len: "i < length (conns s)" using Cons.prems(1) i(1) fds_inv_base[of s] by (simp add: server_calm_def)
  have ci: "contexts s ! i = Some (cctx c)" "i < length (contexts s)" using len c by (simp_all add: contexts_def)
  let ?batches = "take n (msgs i) # batches"
  let ?sched = "in_turn (ev # evs) ?batches" and ?answers = "map (Pair i) rss @ answers"
  have sched: "?sched = map (Pair i) (take n (msgs i)) @ in_turn evs batches" using ev by (simp add: in_turn_def)
  have "serve_clients H ?sched (slm_server_log s) (contexts s) (sys_state s)
      = Some (?answers, slm_server_log s', contexts s', sys_state s')"
    using serve_clients_all[OF rss(3) ci, of "in_turn evs batches"] s'(3) t(5-7) by (simp add: sched)
  moreover have "turns H mem sh (ev # evs) s = Some s'" using t(1) s'(1) ev by simp
  moreover have "(\<exists>k \<le> length (msgs j). of_client j ?sched = take k (msgs j) \<and> (left j = [] \<longrightarrow> k = length (msgs j)))
      \<and> sent (cwire (conns s' ! j)) = sent (cwire (conns s ! j)) @ concat (map stream (of_client j ?answers))"
    if "j < MAX_CLIENT_COUNT" "connected (conns s ! j) \<noteq> None" for j
  proof (cases "j = i")
    case True
    have "connected (conns t ! i) \<noteq> None" using t(8) i(1) by simp
    from s'(4)[OF i(1) this] obtain k where k: "k \<le> length (drop n (msgs i))" "of_client i (in_turn evs batches) = take k (drop n (msgs i))"
      "left i = [] \<longrightarrow> k = length (drop n (msgs i))"
      "sent (cwire (conns s' ! i)) = sent (cwire (conns t ! i)) @ concat (map stream (of_client i answers))" by auto
    have "of_client i ?sched = take (n + k) (msgs i)" using k(2) by (simp add: take_add sched)
    then show ?thesis using k rss(1,2) t(8) i(1) True by (intro conjI exI[of _ "n + k"]) auto
  next
    case False
    then show ?thesis using s'(4)[OF that(1)] t(8) that by (simp add: sched)
  qed
  moreover have "length ?batches = length (ev # evs)" using s'(5) by simp
  ultimately show ?case using s'(2) by (intro exI[of _ s'] exI[of _ ?batches] exI[of _ ?answers]) blast
qed

text \<open>
  C3: the clients of a server are served as if one request came after the other. Whatever the
  interleaving of their bytes, over the turns of the serving loop and in any pieces, requests cut
  or several at a time: each turn serves a batch of requests of the client it is about, which
  together are the first requests of each client, in order, all of them when all their bytes have
  come; the abstract server that serves these requests one at a time, turn by turn, gives the final
  contexts, system and flag of the log, and each client has been sent exactly the replies of the
  abstract server to its own requests, in order.
\<close>

theorem clients_serialised:
  assumes "server_calm sh s"
    "\<forall>(i, ps) \<in> set evs. i < 3 \<and> connected (conns s ! i) \<noteq> None \<and> [] \<notin> set ps"
    "\<And>i c. i < 3 \<Longrightarrow> connected (conns s ! i) = Some c \<Longrightarrow> unread (cprot c) @ client_bytes i evs @ left i = stream (msgs i)"
    "\<And>i. list_all sendable (msgs i) \<and> list_all asked (msgs i)"
  shows "\<exists>s' batches answers. turns H mem sh evs s = Some s' \<and> server_calm sh s' \<and> length batches = length evs
    \<and> serve_clients H (in_turn evs batches) (slm_server_log s) (contexts s) (sys_state s)
        = Some (answers, slm_server_log s', contexts s', sys_state s')
    \<and> (\<forall>i < 3. connected (conns s ! i) \<noteq> None \<longrightarrow>
         (\<exists>n \<le> length (msgs i). of_client i (in_turn evs batches) = take n (msgs i) \<and> (left i = [] \<longrightarrow> n = length (msgs i)))
         \<and> sent (cwire (conns s' ! i)) = sent (cwire (conns s ! i)) @ concat (map stream (of_client i answers)))"
  using assms by (rule turns_served)

text \<open>Two clients of a server, and their requests in four turns.\<close>

definition demo_slot :: "int \<Rightarrow> unit conn" where
  "demo_slot fd = \<lparr>connected = Some ((cl (demo_session []))\<lparr>fdin := fd, fdout := fd\<rparr>), cfd = fd, lasttime = 1000,
     cwire = \<lparr>rx = [], tx = [], sent = []\<rparr>\<rparr>"

definition demo_shared :: "unit server" where
  "demo_shared = demo_server\<lparr>conns := [demo_slot 5, demo_slot 6, conns demo_server ! 2], now := 1001,
     clock := [1002, 1002, 1003, 1003, 1004, 1004, 1005, 1005], polled := [4 \<mapsto> EPOLLIN, 5 \<mapsto> EPOLLIN, 6 \<mapsto> EPOLLIN]\<rparr>"

lemma demo_shared_calm: "server_calm 10 demo_shared"
proof -
  have slots: "conns demo_shared = [demo_slot 5, demo_slot 6, \<lparr>connected = None, cfd = 0, lasttime = 0, cwire = \<lparr>rx = [], tx = [], sent = []\<rparr>\<rparr>]"
    "servfd demo_shared = 4" "pollfd demo_shared = 3" "polled demo_shared = [4 \<mapsto> EPOLLIN, 5 \<mapsto> EPOLLIN, 6 \<mapsto> EPOLLIN]"
    "\<not> stopped demo_shared" "\<not> deaf demo_shared" "readings demo_shared = {1001, 1002, 1003, 1004, 1005}"
    by (auto simp: demo_shared_def demo_server_eq demo_start_def readings_def nth_Cons' numeral_3_eq_3)
  have ok: "client_ok (cl (demo_session []))" using demo_session_ready(1) by (simp add: session_ready_client)
  then have each: "client_ok ((cl (demo_session []))\<lparr>fdin := fd, fdout := fd\<rparr>)" for fd by (simp add: client_ok_def)
  have "{i. i < MAX_CLIENT_COUNT \<and> connected (conns demo_shared ! i) \<noteq> None} = {0, 1}"
    by (auto simp: slots demo_slot_def less_Suc_eq numeral_3_eq_3)
  then have used: "{cfd (conns demo_shared ! i) | i. i < MAX_CLIENT_COUNT \<and> connected (conns demo_shared ! i) \<noteq> None} = {5, 6}"
    by (simp add: setcompr_eq_image slots demo_slot_def)
  have "dom (polled demo_shared) = insert (servfd demo_shared)
      {cfd (conns demo_shared ! i) | i. i < MAX_CLIENT_COUNT \<and> connected (conns demo_shared ! i) \<noteq> None}"
    unfolding used by (auto simp: slots)
  then have "fds_inv demo_shared"
    using each by (intro fds_invI) (auto simp: slots demo_slot_def less_Suc_eq numeral_3_eq_3)
  moreover have "\<not> full demo_shared" by (auto simp: full_def slots intro: exI[of _ 2])
  moreover have "recent 10 demo_shared"
    by (auto simp: recent_def slots late_def demo_slot_def less_Suc_eq numeral_3_eq_3)
  ultimately show ?thesis
    using each new_prot_inv next_fields_nil
    by (auto simp: server_calm_def listen_inv_def listening_slot slots demo_slot_def demo_session_def client_is_connected_def
        less_Suc_eq numeral_3_eq_3)
qed

definition demo_asked :: "nat \<Rightarrow> string list list" where
  "demo_asked i = (if i = 0 then [[''id'', ''demo''], [''clear'']] else if i = 1 then [[''id'', ''other''], [''log'']] else [])"

definition demo_turns :: "(nat \<times> string list) list" where
  "demo_turns = [(0, [''id de'']), (1, [''id ot'', ''her'' @ [LF] @ ''lo'']), (0, [''mo'' @ [LF] @ ''clear'' @ [LF]]), (1, [''g'', [LF]])]"

theorem clients_serialised_witness:
  "\<exists>s batches answers. turns demo_server_host demo_client_mem 10 demo_turns demo_shared = Some s
     \<and> serve_clients demo_server_host (in_turn demo_turns batches) False (contexts demo_shared) demo_os
         = Some (answers, slm_server_log s, contexts s, sys_state s)
     \<and> of_client 0 (in_turn demo_turns batches) = [[''id'', ''demo''], [''clear'']]
     \<and> of_client 1 (in_turn demo_turns batches) = [[''id'', ''other''], [''log'']]
     \<and> sent (cwire (conns s ! 1)) = concat (map stream (of_client 1 answers))"
proof -
  have slots: "conns demo_shared = [demo_slot 5, demo_slot 6, conns demo_server ! 2]"
    "connected (conns demo_server ! 2) = None"
    by (simp_all add: demo_shared_def demo_server_eq demo_start_def nth_Cons' numeral_3_eq_3)
  have turns_ok: "\<forall>(i, ps) \<in> set demo_turns. i < 3 \<and> connected (conns demo_shared ! i) \<noteq> None \<and> [] \<notin> set ps"
    by (simp add: demo_turns_def slots demo_slot_def)
  have streams: "client_bytes 0 demo_turns = stream (demo_asked 0)" "client_bytes 1 demo_turns = stream (demo_asked 1)"
    by (code_simp, code_simp)
  have un: "unread (cprot c) @ client_bytes i demo_turns @ [] = stream (demo_asked i)"
    if "i < 3" "connected (conns demo_shared ! i) = Some c" for i c
  proof -
    have "i = 0 \<or> i = 1" using that by (auto simp: slots less_Suc_eq numeral_3_eq_3)
    then show ?thesis using that streams new_prot_inv by (auto simp: slots demo_slot_def demo_session_def)
  qed
  have "list_all sendable (demo_asked i) \<and> list_all asked (demo_asked i)" for i
  proof -
    have "list_all sendable (demo_asked 0) \<and> list_all asked (demo_asked 0)"
      "list_all sendable (demo_asked 1) \<and> list_all asked (demo_asked 1)"
      by (code_simp, code_simp)
    then show ?thesis by (auto simp: demo_asked_def)
  qed
  from clients_serialised[OF demo_shared_calm turns_ok un this, of demo_server_host demo_client_mem]
  obtain s batches answers where s: "turns demo_server_host demo_client_mem 10 demo_turns demo_shared = Some s"
    "serve_clients demo_server_host (in_turn demo_turns batches) (slm_server_log demo_shared) (contexts demo_shared) (sys_state demo_shared)
      = Some (answers, slm_server_log s, contexts s, sys_state s)"
    "\<And>i. i < 3 \<Longrightarrow> connected (conns demo_shared ! i) \<noteq> None \<Longrightarrow>
       of_client i (in_turn demo_turns batches) = demo_asked i
       \<and> sent (cwire (conns s ! i)) = sent (cwire (conns demo_shared ! i)) @ concat (map stream (of_client i answers))"
    by auto
  have "slm_server_log demo_shared = False" "sys_state demo_shared = demo_os"
    by (simp_all add: demo_shared_def demo_server_eq demo_start_def)
  then show ?thesis
    using s(1,2) s(3)[of 0] s(3)[of 1] by (auto simp: slots demo_slot_def demo_asked_def)
qed

end
