(* ===== verification/Cmd.thy ===== *)
theory Cmd
  imports Manager_Lib
begin

text \<open>
  \<open>src/main-sec-lsm-manager-cmd.c\<close>: the command line client. The state is the handler of the
  library, the echo flag, the status of the last command, what was printed and whether the next
  allocations of messages succeed. A command returns the count of arguments used, or exits. The
  loop over the arguments of a line may run for ever: then its value is \<open>None\<close>. What
  \<open>getopt_long\<close> gives and the bytes of the standard input are arguments.
\<close>

section \<open>State\<close>

datatype cmd_out =
    OutEcho "string list"
  | OutOk "string option"
  | OutError string string
  | OutUnexpected string int
  | OutNotEnough
  | OutBadArgument string
  | OutBadSwitch string
  | OutHelp string
  | OutUnknown string
  | OutTitle
  | OutRecord "string list"
  | OutEndTitle
  | OutUsage
  | OutVersion
  | OutInitFailed int
  | OutInitOk

record cmd =
  manager :: slm
  echo :: bool
  last_status :: int
  printed :: "cmd_out list"
  mem_oks :: "bool list"

definition emit :: "cmd_out \<Rightarrow> cmd \<Rightarrow> cmd" where
  "emit x c = c\<lparr>printed := printed c @ [x]\<rparr>"

definition ISSEP :: "string \<Rightarrow> bool" where
  "ISSEP x \<longleftrightarrow> x = '';''"

text \<open>What is left at an exit, and the status.\<close>

definition cmd_exit :: "cmd \<Rightarrow> cmd" where
  "cmd_exit c = c\<lparr>manager := sec_lsm_manager_destroy (sec_lsm_manager_disconnect (manager c))\<rparr>"

definition echo_args :: "string list \<Rightarrow> cmd \<Rightarrow> cmd" where
  "echo_args av c = (if echo c \<and> av \<noteq> [] then emit (OutEcho av) c else c)"

section \<open>Commands\<close>

fun plink_loop :: "nat \<Rightarrow> string list \<Rightarrow> nat" where
  "plink_loop 0 av = 0"
| "plink_loop (Suc n) [] = 0"
| "plink_loop (Suc n) (a # av) = (if ISSEP a then 0 else Suc (plink_loop n av))"

definition plink :: "string list \<Rightarrow> nat \<Rightarrow> cmd \<Rightarrow> nat \<times> cmd" where
  "plink av maxi c = (let r = plink_loop maxi av in (r, echo_args (take r av) c))"

definition pop_mem :: "cmd \<Rightarrow> bool \<times> cmd" where
  "pop_mem c = (case mem_oks c of [] \<Rightarrow> (True, c) | b # bs \<Rightarrow> (b, c\<lparr>mem_oks := bs\<rparr>))"

definition show_status :: "nat \<Rightarrow> string \<Rightarrow> int \<Rightarrow> string option \<Rightarrow> cmd \<Rightarrow> (nat \<times> cmd) run" where
  "show_status used_count oper rc extra c =
     (let c = c\<lparr>last_status := rc\<rparr>
      in if rc \<ge> 0 then Returns (used_count, emit (OutOk extra) c)
         else if rc = - EPROTO then
           case pop_mem c of (ok, c) \<Rightarrow>
             (case sec_lsm_manager_error_message ok (manager c) of
                None \<Rightarrow> Aborts
              | Some (rc, m) \<Rightarrow> Returns (used_count,
                  emit (OutError oper (case m of Some (n, t) \<Rightarrow> t | None \<Rightarrow> ''***unrecoverable error***'')) c))
         else Returns (used_count, emit (OutUnexpected oper (- rc)) c))"

definition not_enough :: "nat \<Rightarrow> cmd \<Rightarrow> (nat \<times> cmd) run" where
  "not_enough used_count c = Returns (used_count, (emit OutNotEnough c)\<lparr>last_status := - EINVAL\<rparr>)"

definition bad_argument :: "string \<Rightarrow> nat \<Rightarrow> cmd \<Rightarrow> (nat \<times> cmd) run" where
  "bad_argument a used_count c = Returns (used_count, (emit (OutBadArgument a) c)\<lparr>last_status := - EINVAL\<rparr>)"

definition call_status :: "nat \<Rightarrow> string \<Rightarrow> (slm \<Rightarrow> (int \<times> slm) run) \<Rightarrow> cmd \<Rightarrow> (nat \<times> cmd) run" where
  "call_status used_count oper call c =
     run_bind (call (manager c)) (\<lambda>(rc, m). show_status used_count oper rc None (c\<lparr>manager := m\<rparr>))"

definition do_clear :: "string list \<Rightarrow> cmd \<Rightarrow> (nat \<times> cmd) run" where
  "do_clear av c = (case plink av 1 c of (n, c) \<Rightarrow>
     if n < 1 then not_enough n c else call_status n ''clear'' sec_lsm_manager_clear c)"

text \<open>The lines of the records that the library passed to the callback.\<close>

definition display_callback :: "string list list \<Rightarrow> cmd \<Rightarrow> cmd" where
  "display_callback recs c = (if recs = [] then c
     else c\<lparr>printed := printed c @ [OutTitle] @ map (\<lambda>fields. OutRecord (take 4 fields)) recs @ [OutEndTitle]\<rparr>)"

definition do_display :: "string list \<Rightarrow> cmd \<Rightarrow> (nat \<times> cmd) run" where
  "do_display av c = (case plink av 1 c of (n, c) \<Rightarrow>
     if n < 1 then not_enough n c
     else run_bind (sec_lsm_manager_display (manager c)) (\<lambda>(rc, m).
       show_status n ''display'' rc None
         (display_callback (drop (length (shown (manager c))) (shown m)) (c\<lparr>manager := m\<rparr>))))"

definition do_id :: "string list \<Rightarrow> cmd \<Rightarrow> (nat \<times> cmd) run" where
  "do_id av c = (case plink av 2 c of (n, c) \<Rightarrow>
     if n < 2 then not_enough n c
     else if length (av ! 1) \<le> 0 then bad_argument (av ! 1) n c
     else call_status n ''id'' (sec_lsm_manager_set_id (Some (av ! 1))) c)"

definition do_path :: "string list \<Rightarrow> cmd \<Rightarrow> (nat \<times> cmd) run" where
  "do_path av c = (case plink av 3 c of (n, c) \<Rightarrow>
     if n < 3 then not_enough n c
     else if length (av ! 1) \<le> 0 then bad_argument (av ! 1) n c
     else call_status n ''path'' (sec_lsm_manager_add_path (Some (av ! 1)) (Some (av ! 2))) c)"

definition do_plug :: "string list \<Rightarrow> cmd \<Rightarrow> (nat \<times> cmd) run" where
  "do_plug av c = (case plink av 4 c of (n, c) \<Rightarrow>
     if n < 4 then not_enough n c
     else if length (av ! 1) \<le> 0 then bad_argument (av ! 1) n c
     else call_status n ''plug'' (sec_lsm_manager_add_plug (Some (av ! 1)) (Some (av ! 2)) (Some (av ! 3))) c)"

definition do_permission :: "string list \<Rightarrow> cmd \<Rightarrow> (nat \<times> cmd) run" where
  "do_permission av c = (case plink av 2 c of (n, c) \<Rightarrow>
     if n < 2 then not_enough n c
     else if length (av ! 1) \<le> 0 then bad_argument (av ! 1) n c
     else call_status n ''permission'' (sec_lsm_manager_add_permission (Some (av ! 1))) c)"

definition do_install :: "string list \<Rightarrow> cmd \<Rightarrow> (nat \<times> cmd) run" where
  "do_install av c = (case plink av 1 c of (n, c) \<Rightarrow>
     if n < 1 then not_enough n c else call_status n ''install'' sec_lsm_manager_install c)"

definition do_uninstall :: "string list \<Rightarrow> cmd \<Rightarrow> (nat \<times> cmd) run" where
  "do_uninstall av c = (case plink av 1 c of (n, c) \<Rightarrow>
     if n < 1 then not_enough n c else call_status n ''uninstall'' sec_lsm_manager_uninstall c)"

definition do_reset :: "string list \<Rightarrow> cmd \<Rightarrow> (nat \<times> cmd) run" where
  "do_reset av c = (case plink av 1 c of (n, c) \<Rightarrow>
     if n < 1 then not_enough n c
     else show_status n ''reset'' 0 None (c\<lparr>manager := sec_lsm_manager_disconnect (manager c)\<rparr>))"

definition do_log :: "string list \<Rightarrow> cmd \<Rightarrow> (nat \<times> cmd) run" where
  "do_log av c = (case plink av 2 c of (n, c) \<Rightarrow>
     let on = n > 1 \<and> av ! 1 = ''on''; off = n > 1 \<and> av ! 1 = ''off''
     in if n > 1 \<and> \<not> on \<and> \<not> off then Returns (n, emit (OutBadSwitch (av ! 1)) c)
        else run_bind (sec_lsm_manager_log on off (manager c)) (\<lambda>(rc, m).
          show_status n ''log'' rc (Some (if rc = 1 then ''on'' else ''off'')) (c\<lparr>manager := m\<rparr>)))"

definition help_topics :: "string list" where
  "help_topics = [''log'', ''quit'', ''help'', ''clear'', ''display'', ''id'', ''path'', ''plug'', ''permission'',
     ''install'', ''uninstall'', ''reset'']"

definition do_help :: "string list \<Rightarrow> cmd \<Rightarrow> (nat \<times> cmd) run" where
  "do_help av c =
     (let topic = length av > 1 \<and> av ! 1 \<in> set help_topics; rc = (if topic then 2 else 1)
      in Returns (rc, emit (OutHelp (if topic then av ! 1 else '''')) (echo_args (take rc av) c)))"

text \<open>The arguments used, or \<open>None\<close> for an exit with status zero.\<close>

definition used :: "(nat \<times> cmd) run \<Rightarrow> (nat option \<times> cmd) run" where
  "used r = run_bind r (\<lambda>(n, c). Returns (Some n, c))"

definition do_any :: "string list \<Rightarrow> cmd \<Rightarrow> (nat option \<times> cmd) run" where
  "do_any av c =
     (let av = dropWhile ISSEP av
      in if av = [] then Returns (Some 0, c)
         else if av ! 0 = ''log'' then used (do_log av c)
         else if av ! 0 = ''clear'' then used (do_clear av c)
         else if av ! 0 = ''display'' then used (do_display av c)
         else if av ! 0 = ''id'' then used (do_id av c)
         else if av ! 0 = ''path'' then used (do_path av c)
         else if av ! 0 = ''plug'' then used (do_plug av c)
         else if av ! 0 = ''permission'' then used (do_permission av c)
         else if av ! 0 = ''install'' then used (do_install av c)
         else if av ! 0 = ''uninstall'' then used (do_uninstall av c)
         else if av ! 0 = ''reset'' then used (do_reset av c)
         else if av ! 0 = ''quit'' then Returns (None, cmd_exit (echo_args (take 1 av) c))
         else if av ! 0 = ''help'' \<or> av ! 0 = ''?'' then used (do_help av c)
         else Returns (Some 1, emit (OutUnknown (av ! 0)) c))"

text \<open>The status of an exit, or \<open>None\<close> when every argument has been used.\<close>

partial_function (option) do_all :: "string list \<Rightarrow> bool \<Rightarrow> cmd \<Rightarrow> (int option \<times> cmd) run option" where
  "do_all av quit c =
     (if av = [] then Some (Returns (None, c))
      else case do_any av (c\<lparr>last_status := 0\<rparr>) of
        Waits \<Rightarrow> Some Waits
      | Aborts \<Rightarrow> Some Aborts
      | Returns (r, c) \<Rightarrow>
          (case r of
             None \<Rightarrow> Some (Returns (Some 0, c))
           | Some rc \<Rightarrow>
               if quit \<and> (rc \<le> 0 \<or> last_status c < 0) then Some (Returns (Some 1, cmd_exit c))
               else do_all (drop rc av) quit c))"

section \<open>The program\<close>

text \<open>The tokens that successive calls of \<open>strtok\<close> give.\<close>

fun strtok_all :: "string \<Rightarrow> string \<Rightarrow> string list" where
  "strtok_all cur [] = (if cur = [] then [] else [cur])"
| "strtok_all cur (x # s) =
     (if x = SPACE \<or> x = CHR 0x09 then (if cur = [] then [] else [cur]) @ strtok_all [] s
      else strtok_all (cur @ [x]) s)"

abbreviation (input) str_size :: nat where "str_size \<equiv> 40"
abbreviation (input) buffer_size :: nat where "buffer_size \<equiv> 4000"

text \<open>
  The loop over the lines of the buffer; the array of tokens has \<open>str_size\<close> places, the last
  one for the final \<open>NULL\<close>.
\<close>

function cmd_lines :: "string \<Rightarrow> cmd \<Rightarrow> (int option \<times> string \<times> cmd) run option" where
  "cmd_lines buffer c =
     (if LF \<notin> set buffer then Some (Returns (None, buffer, c))
      else
        let line = takeWhile (\<lambda>x. x \<noteq> LF) buffer; rest = drop (length line + 1) buffer; av = strtok_all [] (cstr line)
        in if length av \<ge> str_size then Some Aborts
           else case do_all av False c of
             None \<Rightarrow> None
           | Some Waits \<Rightarrow> Some Waits
           | Some Aborts \<Rightarrow> Some Aborts
           | Some (Returns (Some k, c)) \<Rightarrow> Some (Returns (Some k, rest, c))
           | Some (Returns (None, c)) \<Rightarrow> cmd_lines rest c)"
  by pat_completeness auto
termination by (relation "measure (\<lambda>(buffer, c). length buffer)") (auto simp: in_set_conv_decomp)

declare cmd_lines.simps [simp del]

text \<open>
  What the next call of \<open>read\<close> can give is the error or the bytes at the head of the list; a call
  with no room gives nothing. At the end of the input the program exits.
\<close>

function cmd_read :: "(int + string) list \<Rightarrow> string \<Rightarrow> cmd \<Rightarrow> (int \<times> cmd) run option" where
  "cmd_read [] buffer c = Some (Returns (0, cmd_exit c))"
| "cmd_read (Inl e # input) buffer c = cmd_read input buffer c"
| "cmd_read (Inr d # input) buffer c =
     (let space = buffer_size - length buffer
      in if space = 0 \<or> d = [] then Some (Returns (0, cmd_exit c))
         else case cmd_lines (buffer @ take space d) c of
           None \<Rightarrow> None
         | Some Waits \<Rightarrow> Some Waits
         | Some Aborts \<Rightarrow> Some Aborts
         | Some (Returns (Some k, rest, c)) \<Rightarrow> Some (Returns (k, c))
         | Some (Returns (None, rest, c)) \<Rightarrow>
             cmd_read (if length d \<le> space then input else Inr (drop space d) # input) rest c)"
  by pat_completeness auto
termination
  by (relation "measure (\<lambda>(input, b, c). \<Sum>x\<leftarrow>input. Suc (case x of Inl e \<Rightarrow> 0 | Inr d \<Rightarrow> length d))") auto

datatype cmd_opt = Opt_Echo | Opt_Help | Opt_Keep_Going | Opt_Socket string | Opt_Version | Opt_Other

record cmd_opts =
  o_echo :: bool
  o_help :: bool
  o_version :: bool
  o_keep_going :: bool
  o_error :: bool
  o_socket :: "string option"

fun cmd_scan :: "cmd_opt list \<Rightarrow> cmd_opts \<Rightarrow> cmd_opts" where
  "cmd_scan [] f = f"
| "cmd_scan (x # xs) f = cmd_scan xs (case x of
     Opt_Echo \<Rightarrow> f\<lparr>o_echo := True\<rparr>
   | Opt_Help \<Rightarrow> f\<lparr>o_help := True\<rparr>
   | Opt_Keep_Going \<Rightarrow> f\<lparr>o_keep_going := True\<rparr>
   | Opt_Socket v \<Rightarrow> f\<lparr>o_socket := Some v\<rparr>
   | Opt_Version \<Rightarrow> f\<lparr>o_version := True\<rparr>
   | Opt_Other \<Rightarrow> f\<lparr>o_error := True\<rparr>)"

text \<open>\<open>create\<close> is the call of \<open>sec_lsm_manager_create\<close> with the socket given.\<close>

definition cmd_main ::
  "cmd_opt list \<Rightarrow> string list \<Rightarrow> (int + string) list \<Rightarrow> (string option \<Rightarrow> int \<times> slm option) \<Rightarrow> cmd \<Rightarrow> (int \<times> cmd) run option" where
  "cmd_main opts av input create c =
     (let f = cmd_scan opts \<lparr>o_echo = False, o_help = False, o_version = False, o_keep_going = False, o_error = False, o_socket = None\<rparr>;
          c = c\<lparr>echo := o_echo f, last_status := 0\<rparr>
      in if o_help f then Some (Returns (0, emit OutUsage c))
         else if o_version f then Some (Returns (0, emit OutVersion c))
         else if o_error f then Some (Returns (1, c))
         else case create (o_socket f) of
           (rc, None) \<Rightarrow> Some (Returns (1, emit (OutInitFailed (- rc)) c))
         | (rc, Some m) \<Rightarrow>
             if rc < 0 then Some (Returns (1, emit (OutInitFailed (- rc)) c))
             else
               let c = emit OutInitOk (c\<lparr>manager := m\<rparr>)
               in if av \<noteq> [] then
                    (case do_all av (\<not> o_keep_going f) c of
                       None \<Rightarrow> None
                     | Some Waits \<Rightarrow> Some Waits
                     | Some Aborts \<Rightarrow> Some Aborts
                     | Some (Returns (Some k, c)) \<Rightarrow> Some (Returns (k, c))
                     | Some (Returns (None, c)) \<Rightarrow> Some (Returns (0, cmd_exit c)))
                  else cmd_read input [] c)"

end
