(* ===== verification/Cmd_Props.thy ===== *)
theory Cmd_Props
  imports Cmd
begin

text \<open>
  The command line client: the cutting of arguments into commands, the reading of commands by
  lines whatever the pieces in which they come, and what a separator does.
\<close>

section \<open>Commands of a line\<close>

text \<open>The count of arguments of the command at the head.\<close>

definition cmd_arity :: "string list \<Rightarrow> nat" where
  "cmd_arity av =
     (if av = [] then 0
      else if av ! 0 \<in> {''help'', ''?''} then (if length av > 1 \<and> av ! 1 \<in> set help_topics then 2 else 1)
      else min (length av)
        (if av ! 0 \<in> {''log'', ''id'', ''permission''} then 2 else if av ! 0 = ''path'' then 3
         else if av ! 0 = ''plug'' then 4 else 1))"

lemma cmd_arity_pos: "av \<noteq> [] \<Longrightarrow> 0 < cmd_arity av" and cmd_arity_le: "cmd_arity av \<le> length av"
  by (auto simp: cmd_arity_def Suc_le_eq)

function commands :: "string list \<Rightarrow> string list list" where
  "commands av = (if av = [] then [] else take (cmd_arity av) av # commands (drop (cmd_arity av) av))"
  by pat_completeness auto
termination by (relation "measure length") (auto simp: cmd_arity_pos)

declare commands.simps [simp del]

lemma concat_commands: "concat (commands av) = av"
  by (induction av rule: commands.induct) (subst commands.simps, simp)

text \<open>Execution of commands one after the other; with \<open>quit\<close>, up to the first that fails.\<close>

fun run_commands :: "bool \<Rightarrow> string list list \<Rightarrow> cmd \<Rightarrow> (int option \<times> cmd) run" where
  "run_commands quit [] c = Returns (None, c)"
| "run_commands quit (x # xs) c =
     run_bind (do_any x (c\<lparr>last_status := 0\<rparr>)) (\<lambda>(r, c).
       case r of
         None \<Rightarrow> Returns (Some 0, c)
       | Some _ \<Rightarrow> if quit \<and> last_status c < 0 then Returns (Some 1, cmd_exit c) else run_commands quit xs c)"

definition plain :: "string list \<Rightarrow> bool" where
  "plain av \<longleftrightarrow> (\<forall>a\<in>set av. \<not> ISSEP a)"

lemma plain_take_drop: "plain av \<Longrightarrow> plain (take n av) \<and> plain (drop n av)"
  by (auto simp: plain_def dest: in_set_takeD in_set_dropD)

lemma plain_dropWhile: "plain av \<Longrightarrow> dropWhile ISSEP av = av"
  by (cases av) (auto simp: plain_def)

lemma plink_loop_plain: "plain av \<Longrightarrow> plink_loop m av = min (length av) m"
  by (induction m av rule: plink_loop.induct) (auto simp: plain_def)

text \<open>A command looks at its own arguments only.\<close>

definition uses :: "nat \<Rightarrow> (nat \<times> cmd) run \<Rightarrow> bool" where
  "uses k r \<longleftrightarrow> (\<forall>n c. r = Returns (n, c) \<longrightarrow> n = k)"

lemma uses_show_status: "uses n (show_status n x rc e c)"
  by (auto simp: uses_def show_status_def Let_def split: if_splits prod.splits option.splits)

lemma uses_bind_status: "uses n (run_bind r (\<lambda>(rc, m). show_status n x rc (e rc) (f rc m)))"
proof (cases r)
  case (Returns z)
  then show ?thesis by (cases z) (simp add: uses_show_status)
qed (simp_all add: uses_def)

lemma uses_simps [simp]: "uses n (not_enough n c)" "uses n (bad_argument a n c)" "uses n (call_status n x f c)"
  "uses n (Returns (n, c))"
  using uses_bind_status[of n "f (manager c)" x "\<lambda>_. None" "\<lambda>_ m. c\<lparr>manager := m\<rparr>"]
  by (simp_all add: uses_def not_enough_def bad_argument_def call_status_def)

lemmas do_defs = do_log_def do_clear_def do_display_def do_id_def do_path_def do_plug_def do_permission_def
  do_install_def do_uninstall_def do_reset_def

lemma plink_plain: "plain av \<Longrightarrow> plink av m c = (min (length av) m, echo_args (take m av) c)"
  by (simp add: plink_def Let_def plink_loop_plain min_def)

lemma do_cut:
  assumes "plain av"
  shows "do_log (take 2 av) c = do_log av c" "do_clear (take 1 av) c = do_clear av c"
    "do_display (take 1 av) c = do_display av c" "do_id (take 2 av) c = do_id av c"
    "do_path (take 3 av) c = do_path av c" "do_plug (take 4 av) c = do_plug av c"
    "do_permission (take 2 av) c = do_permission av c" "do_install (take 1 av) c = do_install av c"
    "do_uninstall (take 1 av) c = do_uninstall av c" "do_reset (take 1 av) c = do_reset av c"
  using plain_take_drop[OF assms] assms
  by (simp_all add: do_defs plink_plain split: prod.split)

lemma do_uses:
  assumes "plain av" "av \<noteq> []"
  shows "uses (min (length av) 2) (do_log av c)" "uses (Suc 0) (do_clear av c)"
    "uses (Suc 0) (do_display av c)" "uses (min (length av) 2) (do_id av c)"
    "uses (min (length av) 3) (do_path av c)" "uses (min (length av) 4) (do_plug av c)"
    "uses (min (length av) 2) (do_permission av c)" "uses (Suc 0) (do_install av c)"
    "uses (Suc 0) (do_uninstall av c)" "uses (Suc 0) (do_reset av c)"
    "uses (if length av > 1 \<and> av ! 1 \<in> set help_topics then 2 else 1) (do_help av c)"
proof -
  have 1: "min (length av) (Suc 0) = Suc 0" using assms(2) by (cases av) simp_all
  show "uses (Suc 0) (do_clear av c)" "uses (Suc 0) (do_display av c)" "uses (Suc 0) (do_install av c)"
    "uses (Suc 0) (do_uninstall av c)" "uses (Suc 0) (do_reset av c)"
    using assms 1 by (simp_all add: do_defs plink_plain Let_def uses_bind_status uses_show_status)
qed (use assms in \<open>simp_all add: do_defs do_help_def plink_plain Let_def uses_bind_status uses_show_status\<close>)

definition uses_opt :: "nat \<Rightarrow> (nat option \<times> cmd) run \<Rightarrow> bool" where
  "uses_opt k r \<longleftrightarrow> (\<forall>n c. r = Returns (Some n, c) \<longrightarrow> n = k)"

lemma uses_opt_used: "uses k r \<Longrightarrow> uses_opt k (used r)"
  by (cases r) (auto simp: uses_def uses_opt_def used_def)

lemma uses_opt_returns [simp]: "uses_opt k (Returns (None, c))" "uses_opt k (Returns (Some n, c)) \<longleftrightarrow> n = k"
  by (auto simp: uses_opt_def)

lemma do_any_cut:
  assumes "plain av"
  shows "do_any (take (cmd_arity av) av) c = do_any av c" and "uses_opt (cmd_arity av) (do_any av c)"
proof -
  show "do_any (take (cmd_arity av) av) c = do_any av c"
    using assms plain_take_drop[OF assms]
    by (auto simp: do_any_def cmd_arity_def plain_dropWhile do_cut[unfolded One_nat_def] do_help_def min_def)
  show "uses_opt (cmd_arity av) (do_any av c)"
  proof (cases "av = []")
    case False
    have "min (length av) (Suc 0) = Suc 0" using False by (cases av) simp_all
    then show ?thesis
      using False assms uses_opt_used[OF do_uses(11)[OF assms False, of c]]
      by (simp add: do_any_def cmd_arity_def plain_dropWhile uses_opt_used do_uses)
  qed (simp add: do_any_def cmd_arity_def)
qed


lemma do_all_plain_step:
  assumes "plain av" "av \<noteq> []"
  shows "do_all av quit c =
    (case do_any (take (cmd_arity av) av) (c\<lparr>last_status := 0\<rparr>) of
        Waits \<Rightarrow> Some Waits
      | Aborts \<Rightarrow> Some Aborts
      | Returns (r, c) \<Rightarrow>
          (case r of
             None \<Rightarrow> Some (Returns (Some 0, c))
           | Some _ \<Rightarrow>
               if quit \<and> last_status c < 0 then Some (Returns (Some 1, cmd_exit c))
               else do_all (drop (cmd_arity av) av) quit c))"
proof -
  have "n = cmd_arity av" if "do_any av (c\<lparr>last_status := 0\<rparr>) = Returns (Some n, d)" for n d
    using do_any_cut(2)[OF assms(1)] that unfolding uses_opt_def by blast
  then show ?thesis
    using cmd_arity_pos[OF assms(2)] assms(2) do_any_cut(1)[OF assms(1)]
    by (subst do_all.simps) (auto split: run.split option.split)
qed

text \<open>
  C37: a line without separator is cut into commands, each with at most the arguments it takes, and
  the commands are run one after the other; the loop always ends. With \<open>quit\<close> it exits at the
  first command that fails.
\<close>

theorem line_runs_commands:
  "plain av \<Longrightarrow> do_all av quit c = Some (run_commands quit (commands av) c)"
proof (induction av arbitrary: c rule: commands.induct)
  case (1 av)
  show ?case
  proof (cases "av = []")
    case True
    then show ?thesis by (simp add: do_all.simps commands.simps)
  next
    case False
    have "do_all (drop (cmd_arity av) av) quit d = Some (run_commands quit (commands (drop (cmd_arity av) av)) d)" for d
      using 1 False plain_take_drop by blast
    then show ?thesis
      unfolding do_all_plain_step[OF "1.prems" False] commands.simps[of av]
      using False by (auto split: run.split option.split)
  qed
qed

theorem line_runs_commands_witness:
  "plain [''help'', ''log'', ''make'', ''id''] \<and>
   (\<forall>d. let c = d\<lparr>echo := False\<rparr> in do_all [''help'', ''log'', ''make'', ''id''] True c =
     Some (Returns (Some 1, cmd_exit (c\<lparr>
       printed := printed d @ [OutHelp ''log'', OutUnknown ''make'', OutNotEnough], last_status := - EINVAL\<rparr>))))"
proof -
  have p: "plain [''help'', ''log'', ''make'', ''id'']" by (simp add: plain_def ISSEP_def)
  have c: "commands [''help'', ''log'', ''make'', ''id''] = [[''help'', ''log''], [''make''], [''id'']]"
    by (simp add: commands.simps cmd_arity_def help_topics_def)
  show ?thesis
    using p line_runs_commands[OF p, of True]
    by (simp add: c Let_def do_any_def ISSEP_def do_help_def help_topics_def used_def emit_def echo_args_def do_id_def
        plink_def numeral_2_eq_2 not_enough_def)
qed

section \<open>Separators\<close>

lemma separator_facts:
  assumes "plain av" and "av \<noteq> []" and "do_any av (c\<lparr>last_status := 0\<rparr>) = Returns (Some n, d)"
    and "\<not> (quit \<and> last_status d < 0)"
  shows "do_all ('';'' # av) quit c = do_all (av ! (n - 1) # drop n av) quit d"
    and "do_all ['';''] False c = None" and "do_all ['';''] True c = Some (Returns (Some 1, cmd_exit (c\<lparr>last_status := 0\<rparr>)))"
proof -
  have n: "n = cmd_arity av" using do_any_cut(2)[OF assms(1)] assms(3) unfolding uses_opt_def by blast
  have pos: "n > 0" "n - 1 < length av" using n cmd_arity_pos[OF assms(2)] cmd_arity_le[of av] by simp_all
  have "do_any ('';'' # av) (c\<lparr>last_status := 0\<rparr>) = Returns (Some n, d)"
    using assms(3) by (simp add: do_any_def ISSEP_def)
  moreover have "drop n ('';'' # av) = av ! (n - 1) # drop n av"
    using pos by (cases n) (simp_all add: Cons_nth_drop_Suc)
  ultimately show "do_all ('';'' # av) quit c = do_all (av ! (n - 1) # drop n av) quit d"
    using assms(4) pos by (subst do_all.simps) auto
  have sep: "do_any ['';''] e = Returns (Some 0, e)" for e by (simp add: do_any_def ISSEP_def)
  show "do_all ['';''] True c = Some (Returns (Some 1, cmd_exit (c\<lparr>last_status := 0\<rparr>)))"
    by (subst do_all.simps) (simp add: sep)
  have "a = ['';''] \<longrightarrow> q" if "do_all a q e = Some r" for a q e r
  proof (rule do_all.raw_induct[OF _ that, of "\<lambda>a q e r. a = ['';''] \<longrightarrow> q"], intro impI, rule ccontr)
    fix f :: "string list \<Rightarrow> bool \<Rightarrow> cmd \<Rightarrow> (int option \<times> cmd) run option" and a q e r
    assume ih: "\<And>a q e r. f a q e = Some r \<Longrightarrow> a = ['';''] \<longrightarrow> q"
      and run: "(if a = [] then Some (Returns (None, e))
      else case do_any a (e\<lparr>last_status := 0\<rparr>) of
        Returns (None, c) \<Rightarrow> Some (Returns (Some 0, c))
      | Returns (Some rc, c) \<Rightarrow>
          if q \<and> (rc \<le> 0 \<or> last_status c < 0) then Some (Returns (Some 1, cmd_exit c)) else f (drop rc a) q c
      | Waits \<Rightarrow> Some Waits | Aborts \<Rightarrow> Some Aborts) = Some r"
      and l: "a = ['';'']" "\<not> q"
    have "f a q (e\<lparr>last_status := 0\<rparr>) = Some r" using run l by (simp add: sep)
    then show False using ih l by blast
  qed
  then show "do_all ['';''] False c = None" by (metis not_None_eq)
qed


text \<open>
  Separators before a command are skipped but not counted among the arguments used. So the
  last argument of the command is taken again as the name of a command, and with a line made of
  separators only the loop never ends unless it has to quit.
\<close>

theorem separators_not_counted:
  assumes "plain av" and "av \<noteq> []" and "do_any av (c\<lparr>last_status := 0\<rparr>) = Returns (Some n, d)"
    and "\<not> (quit \<and> last_status d < 0)"
  shows "do_all ('';'' # av) quit c = do_all (av ! (n - 1) # drop n av) quit d \<and> do_all ['';''] False c = None"
  using separator_facts[OF assms] by blast

theorem separators_not_counted_witness:
  "\<forall>d. let c = d\<lparr>echo := False, last_status := 0\<rparr> in
     do_all ['';'', ''help'', ''log''] False c = do_all [''log''] False (c\<lparr>printed := printed d @ [OutHelp ''log'']\<rparr>) \<and>
     do_all ['';''] False c = None"
proof -
  have p: "plain [''help'', ''log'']" by (simp add: plain_def ISSEP_def)
  have a: "do_any [''help'', ''log''] (d\<lparr>echo := False, last_status := 0\<rparr>) =
      Returns (Some 2, d\<lparr>echo := False, last_status := 0, printed := printed d @ [OutHelp ''log'']\<rparr>)" for d
    by (simp add: do_any_def ISSEP_def do_help_def help_topics_def used_def emit_def echo_args_def)
  show ?thesis
    using separators_not_counted[OF p, of "_\<lparr>echo := False, last_status := 0\<rparr>" 2 _ False] a by (simp add: Let_def)
qed

section \<open>Reading commands\<close>

text \<open>The end of a text after its last newline.\<close>

definition rest_of :: "string \<Rightarrow> string" where
  "rest_of s = rev (takeWhile (\<lambda>x. x \<noteq> LF) (rev s))"

lemma rest_of_line [simp]: "LF \<notin> set s \<Longrightarrow> rest_of s = s"
proof -
  assume "LF \<notin> set s"
  then have "takeWhile (\<lambda>x. x \<noteq> LF) (rev s) = rev s" by (subst takeWhile_eq_all_conv) auto
  then show ?thesis unfolding rest_of_def by (simp only: rev_rev_ident)
qed

lemma rest_of_append: "rest_of (a @ b) = (if LF \<in> set b then rest_of b else rest_of a @ b)"
  by (auto simp: rest_of_def takeWhile_append)

lemma rest_of_newline: "rest_of (u @ [LF]) = []"
  by (simp add: rest_of_def)

lemma rest_of_no_newline: "LF \<notin> set (rest_of s)"
  by (auto simp: rest_of_def dest: set_takeWhileD)

lemma first_line:
  assumes "LF \<in> set a"
  shows "takeWhile (\<lambda>x. x \<noteq> LF) (a @ b) = takeWhile (\<lambda>x. x \<noteq> LF) a"
    and "drop (length (takeWhile (\<lambda>x. x \<noteq> LF) a) + 1) (a @ b) = drop (length (takeWhile (\<lambda>x. x \<noteq> LF) a) + 1) a @ b"
    and "rest_of (drop (length (takeWhile (\<lambda>x. x \<noteq> LF) a) + 1) a) = rest_of a"
proof -
  obtain u v where a: "a = u @ LF # v" "LF \<notin> set u" using split_list_first[OF assms] by blast
  have t: "takeWhile (\<lambda>x. x \<noteq> LF) (u @ LF # w) = u" for w
    using a(2) by (subst takeWhile_append2) auto
  show "takeWhile (\<lambda>x. x \<noteq> LF) (a @ b) = takeWhile (\<lambda>x. x \<noteq> LF) a" using t[of v] t[of "v @ b"] a(1) by simp
  show "drop (length (takeWhile (\<lambda>x. x \<noteq> LF) a) + 1) (a @ b) = drop (length (takeWhile (\<lambda>x. x \<noteq> LF) a) + 1) a @ b"
    using t[of v] a(1) by simp
  show "rest_of (drop (length (takeWhile (\<lambda>x. x \<noteq> LF) a) + 1) a) = rest_of a"
    using t[of v] a(1) rest_of_append[of "u @ [LF]" v] rest_of_newline[of u] by simp
qed

text \<open>What the lines of a buffer leave is continued by what comes next.\<close>

lemma cmd_lines_append:
  "cmd_lines (a @ b) c = (case cmd_lines a c of
       None \<Rightarrow> None
     | Some Waits \<Rightarrow> Some Waits
     | Some Aborts \<Rightarrow> Some Aborts
     | Some (Returns (Some k, rest, d)) \<Rightarrow> Some (Returns (Some k, rest @ b, d))
     | Some (Returns (None, rest, d)) \<Rightarrow> cmd_lines (rest @ b) d)"
proof (induction a c rule: cmd_lines.induct)
  case (1 a c)
  show ?case
  proof (cases "LF \<in> set a")
    case False
    then show ?thesis by (simp add: cmd_lines.simps[of a])
  next
    case True
    note f = first_line(1,2)[OF True]
    let ?l = "takeWhile (\<lambda>x. x \<noteq> LF) a"
    have rec: "cmd_lines (drop (length ?l + 1) a @ b) d = (case cmd_lines (drop (length ?l + 1) a) d of
       None \<Rightarrow> None
     | Some Waits \<Rightarrow> Some Waits
     | Some Aborts \<Rightarrow> Some Aborts
     | Some (Returns (Some k, rest, d)) \<Rightarrow> Some (Returns (Some k, rest @ b, d))
     | Some (Returns (None, rest, d)) \<Rightarrow> cmd_lines (rest @ b) d)"
      if "do_all (strtok_all [] (cstr ?l)) False c = Some (Returns (None, d))" "length (strtok_all [] (cstr ?l)) < str_size" for d
      using 1[OF _ refl refl refl _ that(1) refl refl refl] True that(2) by simp
    show ?thesis
      using True rec unfolding cmd_lines.simps[of "a @ b"] cmd_lines.simps[of a] f Let_def
      by (auto split: option.split run.split)
  qed
qed

lemma cmd_lines_rest:
  "cmd_lines a c = Some (Returns (None, rest, d)) \<Longrightarrow> rest = rest_of a"
proof (induction a c rule: cmd_lines.induct)
  case (1 a c)
  show ?case
  proof (cases "LF \<in> set a")
    case False
    then show ?thesis using "1.prems" by (simp add: cmd_lines.simps[of a])
  next
    case True
    let ?l = "takeWhile (\<lambda>x. x \<noteq> LF) a"
    obtain e where e: "do_all (strtok_all [] (cstr ?l)) False c = Some (Returns (None, e))"
      "cmd_lines (drop (length ?l + 1) a) e = Some (Returns (None, rest, d))" "length (strtok_all [] (cstr ?l)) < str_size"
      using "1.prems" True by (subst (asm) cmd_lines.simps) (auto simp: Let_def split: if_splits option.splits run.splits)
    have "rest = rest_of (drop (length ?l + 1) a)"
      using "1.IH"[OF _ refl refl refl _ e(1) refl refl refl e(2)] True e(3) by simp
    then show ?thesis using first_line(3)[OF True] by simp
  qed
qed

definition bytes_of :: "(int + string) list \<Rightarrow> string" where
  "bytes_of input = concat (map (case_sum (\<lambda>e. []) id) input)"

lemma bytes_of_simps [simp]: "bytes_of [] = []" "bytes_of (Inl e # i) = bytes_of i" "bytes_of (Inr d # i) = d @ bytes_of i"
  by (simp_all add: bytes_of_def)

text \<open>The lines of a whole text, then the end of the program.\<close>

definition run_text :: "string \<Rightarrow> cmd \<Rightarrow> (int \<times> cmd) run option" where
  "run_text s c = (case cmd_lines s c of
       None \<Rightarrow> None
     | Some Waits \<Rightarrow> Some Waits
     | Some Aborts \<Rightarrow> Some Aborts
     | Some (Returns (Some k, rest, c)) \<Rightarrow> Some (Returns (k, c))
     | Some (Returns (None, rest, c)) \<Rightarrow> Some (Returns (0, cmd_exit c)))"

text \<open>No line is longer than the buffer.\<close>

definition lines_fit :: "string \<Rightarrow> bool" where
  "lines_fit s \<longleftrightarrow> (\<forall>n\<in>{..length s}. length (rest_of (take n s)) < buffer_size)"


lemma cmd_read_lines:
  assumes "\<forall>x\<in>set input. x \<noteq> Inr []" "LF \<notin> set buffer"
    and "\<forall>n. length (rest_of (buffer @ take n (bytes_of input))) < buffer_size"
  shows "cmd_read input buffer c = run_text (buffer @ bytes_of input) c"
  using assms
proof (induction input buffer c rule: cmd_read.induct)
  case (1 buffer c)
  then show ?case by (simp add: run_text_def cmd_lines.simps)
next
  case (2 e input buffer c)
  then show ?case by simp
next
  case (3 d input buffer c)
  define space where "space = buffer_size - length buffer"
  have space: "space > 0" using "3.prems"(3)[rule_format, of 0] "3.prems"(2) by (simp add: space_def)
  have d: "d \<noteq> []" using "3.prems"(1) by auto
  let ?i = "if length d \<le> space then input else Inr (drop space d) # input"
  have b: "take space d @ bytes_of ?i = d @ bytes_of input" by simp
  have "cmd_read ?i rest e = run_text (rest @ bytes_of ?i) e"
    if r: "cmd_lines (buffer @ take space d) c = Some (Returns (None, rest, e))" for rest e
  proof (rule "3.IH"[OF space_def _ r refl refl refl refl])
    have rest: "rest = rest_of (buffer @ take space d)" using cmd_lines_rest[OF r] .
    show "\<not> (space = 0 \<or> d = [])" using space d by simp
    show "\<forall>x\<in>set ?i. x \<noteq> Inr []" using "3.prems"(1) by auto
    show "LF \<notin> set rest" using rest rest_of_no_newline by simp
    show "\<forall>n. length (rest_of (rest @ take n (bytes_of ?i))) < buffer_size"
    proof
      fix n
      have "buffer @ take (length (take space d) + n) (bytes_of (Inr d # input)) = (buffer @ take space d) @ take n (bytes_of ?i)"
        by (metis (no_types, lifting) append.assoc b bytes_of_simps(3) take_add append_eq_conv_conj)
      then show "length (rest_of (rest @ take n (bytes_of ?i))) < buffer_size"
        using "3.prems"(3)[rule_format, of "length (take space d) + n"] rest_of_no_newline
        by (simp add: rest rest_of_append split: if_splits)
    qed
  qed
  then have "cmd_read (Inr d # input) buffer c = run_text ((buffer @ take space d) @ bytes_of ?i) c"
    using space d unfolding run_text_def cmd_lines_append[of "buffer @ take space d"] cmd_read.simps Let_def space_def[symmetric]
    by (auto split: option.split run.split)
  then show ?case using b by (metis append.assoc bytes_of_simps(3))
qed

text \<open>
  C38: the commands run do not depend on the pieces in which the standard input comes, nor on
  reads that fail: the effect is that of its complete lines one after the other, then an exit with
  status zero, provided that no line is longer than the buffer.
\<close>

theorem input_runs_lines:
  assumes "\<forall>x\<in>set input. x \<noteq> Inr []" and "lines_fit (bytes_of input)"
  shows "cmd_read input [] c = run_text (bytes_of input) c"
proof -
  have "length (rest_of (take n (bytes_of input))) < buffer_size" for n
    using assms(2) unfolding lines_fit_def by (metis atMost_iff nat_le_linear order_refl take_all)
  then show ?thesis using cmd_read_lines[of input "[]"] assms(1) by simp
qed

theorem input_runs_lines_witness:
  "let input = [Inr ''he'', Inl 4, Inr (''lp'' @ [LF] @ ''help'')] in
     (\<forall>x\<in>set input. x \<noteq> Inr []) \<and> lines_fit (bytes_of input) \<and>
     (\<forall>d. cmd_read input [] (d\<lparr>echo := False\<rparr>) =
       Some (Returns (0, cmd_exit (d\<lparr>echo := False, last_status := 0, printed := printed d @ [OutHelp '''']\<rparr>))))"
proof -
  let ?i = "[Inr ''he'', Inl (4::int), Inr (''lp'' @ [LF] @ ''help'')]"
  have h: "\<forall>x\<in>set ?i. x \<noteq> Inr []" by simp
  have f: "lines_fit (bytes_of ?i)" unfolding lines_fit_def by (auto simp: rest_of_def atMost_Suc le_Suc_eq)
  have a: "do_all [''help''] False (d\<lparr>echo := False\<rparr>) =
      Some (Returns (None, d\<lparr>echo := False, last_status := 0, printed := printed d @ [OutHelp '''']\<rparr>))" for d
    by (simp add: do_all.simps do_any_def ISSEP_def do_help_def used_def emit_def echo_args_def)
  have t: "run_text (bytes_of ?i) (d\<lparr>echo := False\<rparr>) =
      Some (Returns (0, cmd_exit (d\<lparr>echo := False, last_status := 0, printed := printed d @ [OutHelp '''']\<rparr>)))" for d
    by (simp add: run_text_def cmd_lines.simps Let_def cstr_def a)
  show ?thesis
    using h f input_runs_lines[OF h f] t by (simp add: Let_def del: cmd_read.simps)
qed

end
