(* ===== verification/Remote_Cmd.thy ===== *)
theory Remote_Cmd
  imports Cmd_Props Remote_Session
begin

text \<open>
  The command line client with the daemon: the commands that are requests, typed one after the other,
  and the lines printed for them.
\<close>

section \<open>Commands that are requests\<close>

text \<open>Their arguments are the fields of the request.\<close>

definition request_line :: "string list \<Rightarrow> bool" where
  "request_line av \<longleftrightarrow> plain av \<and>
     (case av of
        [a] \<Rightarrow> a \<in> {n_clear, n_install, n_uninstall, n_display, n_log}
      | [a, x] \<Rightarrow> a \<in> {n_id, n_permission} \<and> x \<noteq> [] \<or> a = n_log \<and> x \<in> {n_on, n_off}
      | [a, x, y] \<Rightarrow> a = n_path \<and> x \<noteq> []
      | [a, x, y, z] \<Rightarrow> a = n_plug \<and> x \<noteq> []
      | _ \<Rightarrow> False)"

lemma request_line_cases:
  assumes "request_line av"
  obtains (one) a where "av = [a]" "a \<in> {n_clear, n_install, n_uninstall}" "plain [a]"
  | (two) a x where "av = [a, x]" "a \<in> {n_id, n_permission}" "x \<noteq> []" "plain [a, x]"
  | (three) x y where "av = [n_path, x, y]" "x \<noteq> []" "plain [n_path, x, y]"
  | (four) x y z where "av = [n_plug, x, y, z]" "x \<noteq> []" "plain [n_plug, x, y, z]"
  | (display) "av = [n_display]"
  | (log) "av = [n_log] \<or> av = [n_log, n_on] \<or> av = [n_log, n_off]"
  using assms by (auto simp: request_line_def split: list.splits)

lemma do_any_named:
  assumes "plain av" "av \<noteq> []"
  shows "av ! 0 = n_clear \<Longrightarrow> do_any av c = used (do_clear av c)"
    "av ! 0 = n_install \<Longrightarrow> do_any av c = used (do_install av c)"
    "av ! 0 = n_uninstall \<Longrightarrow> do_any av c = used (do_uninstall av c)"
    "av ! 0 = n_id \<Longrightarrow> do_any av c = used (do_id av c)"
    "av ! 0 = n_permission \<Longrightarrow> do_any av c = used (do_permission av c)"
    "av ! 0 = n_path \<Longrightarrow> do_any av c = used (do_path av c)"
    "av ! 0 = n_plug \<Longrightarrow> do_any av c = used (do_plug av c)"
    "av ! 0 = n_display \<Longrightarrow> do_any av c = used (do_display av c)"
    "av ! 0 = n_log \<Longrightarrow> do_any av c = used (do_log av c)"
  unfolding do_any_def Let_def plain_dropWhile[OF assms(1)] using assms(2) by simp_all

text \<open>What a command does once the library has returned.\<close>

definition extra_of :: "string list \<Rightarrow> int \<Rightarrow> string option" where
  "extra_of av rc = (if hd av = n_log then Some (if rc = 1 then n_on else n_off) else None)"

definition called :: "string list \<Rightarrow> cmd \<Rightarrow> slm \<Rightarrow> cmd" where
  "called av c m = (if av = [n_display] then display_callback (drop (length (shown (manager c))) (shown m)) (c\<lparr>manager := m\<rparr>)
     else c\<lparr>manager := m\<rparr>)"

definition requesting :: "string list \<Rightarrow> cmd \<Rightarrow> (nat \<times> cmd) run" where
  "requesting av c = run_bind (library_call av (manager c)) (\<lambda>(rc, m).
     show_status (length av) (hd av) rc (extra_of av rc) (called av c m))"

lemmas requesting_defs = requesting_def call_status_def library_calls extra_of_def called_def

lemma do_any_request:
  assumes "request_line av"
  shows "do_any av c = used (requesting av (echo_args av c))"
  using assms
proof (cases rule: request_line_cases)
  case (one a)
  then consider "a = n_clear" | "a = n_install" | "a = n_uninstall" by blast
  then show ?thesis
    using one do_any_named(1-3)[OF one(3)]
    by cases (simp_all add: do_clear_def do_install_def do_uninstall_def plink_plain requesting_defs)
next
  case (two a x)
  then consider "a = n_id" | "a = n_permission" by blast
  then show ?thesis
    using two do_any_named(4,5)[OF two(4)]
    by cases (simp_all add: do_id_def do_permission_def plink_plain requesting_defs)
next
  case (three x y)
  then show ?thesis
    using do_any_named(6)[OF three(3)] by (simp add: do_path_def plink_plain requesting_defs)
next
  case (four x y z)
  then show ?thesis
    using do_any_named(7)[OF four(3)] by (simp add: do_plug_def plink_plain requesting_defs)
next
  case display
  have p: "plain [n_display]" using assms display by (simp add: request_line_def)
  show ?thesis
    using do_any_named(8)[OF p] p by (simp add: display do_display_def plink_plain requesting_defs)
next
  case log
  have p: "plain av" "av \<noteq> []" "av ! 0 = n_log" using assms log by (auto simp: request_line_def)
  show ?thesis
    unfolding do_any_named(9)[OF p]
    using log p(1) by (elim disjE) (simp_all add: do_log_def plink_plain requesting_defs)
qed

section \<open>The lines printed\<close>

text \<open>The last line, then all of them.\<close>

definition verdict :: "string list \<Rightarrow> string list \<Rightarrow> cmd_out" where
  "verdict av z =
     (if z ! 0 = n_error then (if av = [n_display] then OutUnexpected n_display 1 else OutError (hd av) (z ! 1))
      else OutOk (if hd av = n_log then Some (z ! 1) else None))"

definition answer :: "bool \<Rightarrow> string list \<Rightarrow> string list list \<Rightarrow> cmd_out list" where
  "answer ech av rs = (if ech then [OutEcho av] else [])
     @ (if shown_by av rs = [] then [] else [OutTitle] @ map (\<lambda>q. OutRecord (take 4 q)) (shown_by av rs) @ [OutEndTitle])
     @ [verdict av (last rs)]"

lemma show_verdict:
  assumes "reply_fields m = last rs" "\<not> reply_dangling m" "manager c = m" "mem_oks c = []"
    "serve H av lg x w = (rs, lg', x', w', True)" "av \<noteq> []" "good_replies av rs"
  shows "\<exists>c'. show_status n (hd av) (result_of av rs) (extra_of av (result_of av rs)) c = Returns (n, c')
    \<and> printed c' = printed c @ [verdict av (last rs)] \<and> manager c' = m \<and> echo c' = echo c \<and> mem_oks c' = []
    \<and> last_status c' = result_of av rs"
proof (cases "last rs ! 0 = n_error")
  case False
  then have d: "last rs ! 0 = n_done" using assms(7) by (simp add: good_replies_def final_reply_def)
  have "hd av = n_log \<Longrightarrow> last rs = [n_done, n_on] \<or> last rs = [n_done, n_off]" using serve_log[OF assms(5) _ assms(6)] by auto
  then have "extra_of av (result_of av rs) = (if hd av = n_log then Some (last rs ! 1) else None)"
    using d by (cases "av = [n_display]") (auto simp: extra_of_def result_of_def Let_def)
  moreover have "result_of av rs \<ge> 0" using d by (simp add: result_of_def Let_def)
  ultimately show ?thesis using d assms(3,4) by (simp add: show_status_def emit_def verdict_def)
next
  case e: True
  show ?thesis
  proof (cases "av = [n_display]")
    case True
    then show ?thesis using e assms(3,4) by (simp add: show_status_def emit_def verdict_def result_of_def)
  next
    case False
    then obtain r where r: "rs = [r]" using serve_single[OF False, of H lg x w] assms(5) by auto
    then have "plain_reply r" using serve_plain assms(5) by metis
    then obtain t where t: "r = [n_error, t]" using e r by (auto simp: plain_reply_def)
    have "length (reply_fields m) = 2" using assms(1) r t by simp
    then have "reply_count m = 2" by (simp add: reply_fields_def)
    then have "sec_lsm_manager_error_message True m = Some (0, Some (length t + 1, t))"
      using assms(1,2) r t by (simp add: sec_lsm_manager_error_message_def)
    then show ?thesis
      using r t False assms(3,4) by (simp add: show_status_def pop_mem_def emit_def verdict_def result_of_def)
  qed
qed

section \<open>Commands typed one after the other\<close>

text \<open>
  For each command the daemon receives the request, and the library receives what the daemon has sent
  for it; there is a result when the library sends the request and the command uses its arguments.
\<close>

fun typed ::
  "'z wstate host \<Rightarrow> cutter \<Rightarrow> string list list \<Rightarrow> cmd \<Rightarrow> 'z session \<Rightarrow> (cmd \<times> 'z session) option" where
  "typed H chop [] c t = Some (c, t)"
| "typed H chop (av # avs) c t =
     (case client_process_input H (feed (chop (2 * length avs) (encode av)) t) of
        None \<Rightarrow> None
      | Some (rc, t') \<Rightarrow>
          (case do_any av (c\<lparr>last_status := 0, manager :=
                 hear (chop (2 * length avs + 1) (drop (length (sent (chn t))) (sent (chn t')))) (manager c)\<rparr>) of
             Returns (Some n, c') \<Rightarrow>
               if n = length av \<and> sent (peer (manager c')) = sent (peer (manager c)) @ encode av
               then typed H chop avs c' t' else None
           | _ \<Rightarrow> None))"

declare typed.simps(2) [simp del]

lemma echo_args_same:
  assumes "av \<noteq> []"
  shows "manager (echo_args av c) = manager c" "mem_oks (echo_args av c) = mem_oks c" "echo (echo_args av c) = echo c"
    "printed (echo_args av c) = printed c @ (if echo c then [OutEcho av] else [])"
  using assms by (simp_all add: echo_args_def emit_def)

lemma called_same:
  assumes "shown m = shown (manager c) @ shown_by av rs"
  shows "manager (called av c m) = m" "mem_oks (called av c m) = mem_oks c" "echo (called av c m) = echo c"
    "printed (called av c m) = printed c @ (if shown_by av rs = [] then []
       else [OutTitle] @ map (\<lambda>q. OutRecord (take 4 q)) (shown_by av rs) @ [OutEndTitle])"
  using assms by (simp_all add: called_def display_callback_def shown_by_def)

lemma typed_one:
  assumes "lib_idle (manager c)" "daemon_calm t" "cutting chop" "request_line av" "sendable av" "mem_oks c = []"
    and "serve H av (server_log t) (cctx (cl t)) (world t) = (rs, lg, cx, w, True)"
  shows "\<exists>c' t'. typed H chop (av # avs) c t = typed H chop avs c' t' \<and> lib_idle (manager c') \<and> daemon_calm t'
    \<and> mem_oks c' = [] \<and> echo c' = echo c \<and> last_status c' = result_of av rs
    \<and> printed c' = printed c @ answer (echo c) av rs \<and> cctx (cl t') = cx \<and> world t' = w \<and> server_log t' = lg
    \<and> good_replies av rs"
proof -
  let ?n = "2 * length avs"
  obtain t' where t': "client_process_input H (feed (chop ?n (encode av)) t) = Some (- EAGAIN, t')"
    "sent (chn t') = sent (chn t) @ stream rs" "daemon_calm t'" "cctx (cl t') = cx" "world t' = w" "server_log t' = lg"
    "good_replies av rs"
    using daemon_serves[OF assms(2,3,5,7)] by metis
  have ne: "av \<noteq> []" "fits av" using assms(5) by (auto simp: sendable_def valid_msg_def)
  let ?m = "hear (chop (?n + 1) (stream rs)) (manager c)"
  note ar = arriving_data[OF assms(3), of "?n + 1" "stream rs" "peer (manager c)"]
  have h: "data_only (peer ?m)" "incoming (rx (peer ?m)) = stream rs" using ar unfolding hear_idle(3) by blast+
  obtain m where m: "library_call av ?m = Returns (result_of av rs, m)"
    "sent (peer m) = sent (peer (manager c)) @ encode av" "reply_fields m = last rs" "lib_idle m" "\<not> reply_dangling m"
    "shown m = shown (manager c) @ shown_by av rs"
    using library_call_pieces[OF hear_idle(1)[OF assms(1)] ne h t'(7)] by (auto simp: hear_idle)
  let ?c = "echo_args av (c\<lparr>last_status := 0, manager := ?m\<rparr>)"
  note e = echo_args_same[OF ne(1), of "c\<lparr>last_status := 0, manager := ?m\<rparr>"]
  have sh: "shown m = shown (manager ?c) @ shown_by av rs" using m(6) e(1) by (simp add: hear_idle)
  note d = called_same[OF sh]
  obtain c' where c': "show_status (length av) (hd av) (result_of av rs) (extra_of av (result_of av rs)) (called av ?c m)
      = Returns (length av, c')"
    "printed c' = printed (called av ?c m) @ [verdict av (last rs)]" "manager c' = m" "echo c' = echo (called av ?c m)"
    "mem_oks c' = []" "last_status c' = result_of av rs"
    using show_verdict[OF m(3,5) d(1) _ assms(7) ne(1) t'(7)] d(2) e(2) assms(6) by auto
  have "requesting av ?c = Returns (length av, c')" using m(1) c'(1) e(1) by (simp add: requesting_def)
  then have "do_any av (c\<lparr>last_status := 0, manager := ?m\<rparr>) = Returns (Some (length av), c')"
    unfolding do_any_request[OF assms(4)] by (simp add: used_def)
  then have "typed H chop (av # avs) c t = typed H chop avs c' t'" using t'(1,2) m(2) c'(3) by (simp add: typed.simps(2))
  moreover have "printed c' = printed c @ answer (echo c) av rs" using c'(2) d(4) e(4) by (simp add: answer_def)
  moreover have "echo c' = echo c" using c'(4) d(3) e(3) by simp
  ultimately show ?thesis using t'(3-7) m(4) c'(3,5,6) by blast
qed

lemma typed_served:
  assumes "lib_idle (manager c)" "daemon_calm t" "cutting chop" "list_all request_line avs" "list_all sendable avs"
    "mem_oks c = []" and "serve_all H avs (server_log t) (cctx (cl t)) (world t) = Some (rss, lg, cx, w)"
  shows "\<exists>c' t'. typed H chop avs c t = Some (c', t') \<and> printed c' = printed c @ concat (map2 (answer (echo c)) avs rss)
    \<and> cctx (cl t') = cx \<and> world t' = w \<and> server_log t' = lg \<and> list_all2 good_replies avs rss"
  using assms
proof (induction avs arbitrary: c t rss)
  case (Cons av avs)
  obtain rs lg1 c1 w1 ok where sv: "serve H av (server_log t) (cctx (cl t)) (world t) = (rs, lg1, c1, w1, ok)"
    by (metis prod_cases5)
  obtain l where r: "ok" "serve_all H avs lg1 c1 w1 = Some (l, lg, cx, w)" "rss = rs # l"
    using Cons.prems(7) sv by (auto split: if_splits)
  have ok: "serve H av (server_log t) (cctx (cl t)) (world t) = (rs, lg1, c1, w1, True)" using sv r(1) by simp
  have ln: "request_line av" "sendable av" using Cons.prems(4,5) by simp_all
  obtain d t1 where 1: "typed H chop (av # avs) c t = typed H chop avs d t1" "lib_idle (manager d)" "daemon_calm t1"
    "mem_oks d = []" "echo d = echo c" "printed d = printed c @ answer (echo c) av rs"
    "cctx (cl t1) = c1" "world t1 = w1" "server_log t1 = lg1" "good_replies av rs"
    using typed_one[OF Cons.prems(1-3) ln Cons.prems(6) ok, of avs] by blast
  have served_next: "serve_all H avs (server_log t1) (cctx (cl t1)) (world t1) = Some (l, lg, cx, w)"
    using r(2) 1(7-9) by simp
  obtain c' t' where "typed H chop avs d t1 = Some (c', t')" "printed c' = printed d @ concat (map2 (answer (echo d)) avs l)"
    "cctx (cl t') = cx" "world t' = w" "server_log t' = lg" "list_all2 good_replies avs l"
    using Cons.IH[OF 1(2,3) Cons.prems(3) _ _ 1(4) served_next] Cons.prems(4,5) by auto
  then show ?case using 1(1,5,6,10) r(3) by auto
qed simp

text \<open>
  What the user of the command line sees. For requests typed one after the other, the client
  prints for each, after its echo when that is asked, the records of a display between their two
  rules, then that it succeeded, with the state of the log for \<open>log\<close>, or the name of the command and
  the text of the error the daemon gave (for \<open>display\<close>, an unexpected error); at the end the context
  and the system of the daemon are those of the abstract server.
\<close>

theorem commands_served:
  assumes "lib_idle (manager c)" "daemon_calm t" "cutting chop" "list_all request_line avs" "list_all sendable avs"
    "mem_oks c = []" and "serve_all H avs (server_log t) (cctx (cl t)) (world t) = Some (rss, lg, cx, w)"
  shows "\<exists>c' t'. typed H chop avs c t = Some (c', t') \<and> printed c' = printed c @ concat (map2 (answer (echo c)) avs rss)
    \<and> cctx (cl t') = cx \<and> world t' = w \<and> server_log t' = lg"
  using typed_served[OF assms] by blast

theorem commands_served_witness:
  "\<exists>c' t'. typed demo_server_host bytewise [[''id'', ''demo''], [''display''], [''id'', ''other''], [''log'', ''on''], [''clear'']]
      \<lparr>manager = demo_lib [], echo = False, last_status = 0, printed = [], mem_oks = []\<rparr> (demo_session []) = Some (c', t')
    \<and> printed c' = [OutOk None, OutTitle, OutRecord [''id'', ''demo''], OutEndTitle, OutOk None,
         OutError ''id'' ''already-set'', OutOk (Some ''on''), OutOk None]"
proof -
  let ?reqs = "[[''id'', ''demo''], [''display''], [''id'', ''other''], [''log'', ''on''], [''clear'']]"
  have v: "list_all request_line ?reqs" "list_all sendable ?reqs" by (code_simp, code_simp)
  have t: "id_error EEXIST = ''already-set''" by code_simp
  obtain c w where sv: "serve_all demo_server_host ?reqs (server_log (demo_session [])) (cctx (cl (demo_session [])))
      (world (demo_session []))
    = Some ([[[n_done]], [[n_string, n_id, ''demo''], [n_done]], [[n_error, id_error EEXIST]], [[n_done, n_on]], [[n_done]]],
        True, c, w)"
    using demo_served by blast
  show ?thesis
    using commands_served[OF _ demo_session_calm bytewise_cutting v _ sv,
        of "\<lparr>manager = demo_lib [], echo = False, last_status = 0, printed = [], mem_oks = []\<rparr>"]
      demo_lib_idle(1)[of "[]"] by (auto simp: answer_def shown_by_def verdict_def t)
qed

end
