(* ===== verification/Logging.thy ===== *)
theory Logging
  imports Prelude
begin

text \<open>
  \<open>src/log.c\<close> and the formats of \<open>printf\<close> it relies on: what is written on the two standard
  streams. A format whose conversions do not match the arguments is undefined in C: its text is
  \<open>None\<close>. The text of a pointer is chosen by the C library, so a pointer is given by its text.
\<close>

section \<open>Formats\<close>

datatype parg = PStr string | PInt int | PChr char | PPtr string

fun dec_nat :: "nat \<Rightarrow> string" where
  "dec_nat n = (if n < 10 then [char_of (48 + n)] else dec_nat (n div 10) @ [char_of (48 + n mod 10)])"

declare dec_nat.simps [simp del]

definition dec_int :: "int \<Rightarrow> string" where
  "dec_int i = (if i < 0 then CHR ''-'' # dec_nat (nat (- i)) else dec_nat (nat i))"

text \<open>The conversions the program uses.\<close>

definition conversion :: "char \<Rightarrow> parg \<Rightarrow> string option" where
  "conversion k a =
     (case a of
        PStr t \<Rightarrow> if k = CHR ''s'' then Some t else None
      | PInt i \<Rightarrow> if k = CHR ''d'' then Some (dec_int i) else None
      | PChr x \<Rightarrow> if k = CHR ''c'' then Some [x] else None
      | PPtr t \<Rightarrow> if k = CHR ''p'' then Some t else None)"

text \<open>The arguments left over are not used; an \<open>l\<close> is the length of what follows.\<close>

fun vformat :: "string \<Rightarrow> parg list \<Rightarrow> string option" where
  "vformat [] args = Some []"
| "vformat (x # f) args =
     (if x \<noteq> CHR ''%'' then map_option ((#) x) (vformat f args)
      else case f of
        [] \<Rightarrow> None
      | k # g \<Rightarrow>
          if k = CHR ''%'' then map_option ((#) k) (vformat g args)
          else if k = CHR ''l'' then vformat (x # g) args
          else case args of
            [] \<Rightarrow> None
          | a # rest \<Rightarrow> Option.bind (conversion k a) (\<lambda>t. map_option ((@) t) (vformat g rest)))"

section \<open>The streams\<close>

record streams =
  std_out :: string
  std_err :: string

definition print_out :: "string \<Rightarrow> streams \<Rightarrow> streams" where
  "print_out t s = s\<lparr>std_out := std_out s @ t\<rparr>"

definition print_err :: "string \<Rightarrow> streams \<Rightarrow> streams" where
  "print_err t s = s\<lparr>std_err := std_err s @ t\<rparr>"

definition printf_out :: "string \<Rightarrow> parg list \<Rightarrow> streams \<Rightarrow> streams option" where
  "printf_out f args s = map_option (\<lambda>t. print_out t s) (vformat f args)"

definition printf_err :: "string \<Rightarrow> parg list \<Rightarrow> streams \<Rightarrow> streams option" where
  "printf_err f args s = map_option (\<lambda>t. print_err t s) (vformat f args)"

text \<open>\<open>puts\<close> ends the line.\<close>

definition puts :: "string \<Rightarrow> streams \<Rightarrow> streams" where
  "puts t = print_out (t @ [LF])"

section \<open>The functions of \<open>log.c\<close>\<close>

definition log_function :: "string \<Rightarrow> parg list \<Rightarrow> streams \<Rightarrow> streams option" where
  "log_function msg args s =
     (let s = print_out ''>> '' s
      in map_option (print_out [LF]) (printf_out msg args s))"

text \<open>\<open>debug\<close> tells whether the program is compiled with \<open>DEBUG_MODE\<close>.\<close>

definition debug_function :: "bool \<Rightarrow> string \<Rightarrow> parg list \<Rightarrow> streams \<Rightarrow> streams option" where
  "debug_function debug msg args s =
     (if debug then
        let s = print_out ''[DEBUG] '' s
        in map_option (print_out [LF]) (printf_out msg args s)
      else Some s)"

definition error_function :: "string \<Rightarrow> int \<Rightarrow> string \<Rightarrow> parg list \<Rightarrow> streams \<Rightarrow> streams option" where
  "error_function file line msg args s =
     Option.bind (printf_err ''[%s:%d] error : '' [PStr file, PInt line] s)
       (\<lambda>s. map_option (print_err [LF]) (printf_err msg args s))"

text \<open>What they append: one line each, on one stream, when the arguments match the format.\<close>

lemma print_same [simp]:
  "std_out (print_out t s) = std_out s @ t" "std_err (print_out t s) = std_err s"
  "std_err (print_err t s) = std_err s @ t" "std_out (print_err t s) = std_out s"
  by (simp_all add: print_out_def print_err_def)

lemma log_function_appends:
  "log_function msg args s = Some t \<longleftrightarrow> (\<exists>x. vformat msg args = Some x \<and> t = print_out (''>> '' @ x @ [LF]) s)"
  by (auto simp: log_function_def printf_out_def Let_def print_out_def)

lemma error_function_appends:
  "error_function file line msg args s = Some t \<longleftrightarrow>
     (\<exists>x. vformat msg args = Some x \<and> t = print_err (''['' @ file @ '':'' @ dec_int line @ ''] error : '' @ x @ [LF]) s)"
  by (auto simp: error_function_def printf_err_def print_err_def conversion_def)

section \<open>Numbers\<close>

text \<open>The text of a number tells the number.\<close>

definition digit_of :: "char \<Rightarrow> nat" where
  "digit_of x = of_char x - 48"

definition number_of :: "string \<Rightarrow> nat" where
  "number_of ds = foldl (\<lambda>n x. 10 * n + digit_of x) 0 ds"

lemma digit_of_char: "n < 10 \<Longrightarrow> digit_of (char_of (48 + n)) = n"
  by (simp add: digit_of_def)

lemma number_dec_nat: "number_of (dec_nat n) = n"
proof (induction n rule: dec_nat.induct)
  case (1 n)
  show ?case
  proof (cases "n < 10")
    case True
    then show ?thesis by (subst dec_nat.simps) (simp add: number_of_def digit_of_char)
  next
    case False
    have "number_of (dec_nat n) = 10 * number_of (dec_nat (n div 10)) + n mod 10"
      using False by (subst dec_nat.simps) (simp add: number_of_def digit_of_char)
    then show ?thesis using "1.IH"[OF False] by simp
  qed
qed

section \<open>The log of the protocol\<close>

text \<open>
  The text \<open>dolog_protocol\<close> of \<open>client.c\<close> prints for a record: the address of the client, the
  direction and the fields.
\<close>

definition protocol_line :: "string \<Rightarrow> bool \<times> string list \<Rightarrow> string option" where
  "protocol_line addr r =
     (case r of (c2s, record) \<Rightarrow>
        let d = (if c2s then CHR ''>'' else CHR ''<'')
        in Option.bind (vformat ''%p%c%c%s'' [PPtr addr, PChr d, PChr d, PStr ''server''])
          (\<lambda>t. Some (t @ concat (map (\<lambda>f. the (vformat '' %s'' [PStr f])) record) @ [LF])))"

lemma protocol_line_text:
  "protocol_line addr (c2s, record)
     = Some (addr @ (if c2s then ''>>'' else ''<<'') @ ''server'' @ concat (map (\<lambda>f. SPACE # f) record) @ [LF])"
  by (simp add: protocol_line_def conversion_def Let_def)

definition protocol_text :: "string \<Rightarrow> (bool \<times> string list) list \<Rightarrow> string" where
  "protocol_text addr l = concat (map (\<lambda>r. the (protocol_line addr r)) l)"

text \<open>The lines of a text.\<close>

fun text_lines :: "string \<Rightarrow> string list" where
  "text_lines [] = []"
| "text_lines (x # t) =
     (if x = LF then [] # text_lines t
      else case text_lines t of [] \<Rightarrow> [[x]] | l # ls \<Rightarrow> (x # l) # ls)"

lemma text_lines_line: "LF \<notin> set l \<Longrightarrow> text_lines (l @ LF # t) = l # text_lines t"
  by (induction l) auto

lemma text_lines_lines: "\<forall>l \<in> set ls. LF \<notin> set l \<Longrightarrow> text_lines (concat (map (\<lambda>l. l @ [LF]) ls)) = ls"
  by (induction ls) (auto simp: text_lines_line)

end
