(* ===== verification/Cmd_Output.thy ===== *)
theory Cmd_Output
  imports Cmd_Props Logging
begin

text \<open>
  What the command line client prints (\<open>src/main-sec-lsm-manager-cmd.c\<close>): the texts of its help and
  the bytes that each of its outputs puts on the standard streams.
\<close>

section \<open>Texts\<close>

definition lined :: "string list \<Rightarrow> string" where
  "lined ls = concat (map (\<lambda>l. l @ [LF]) ls)"

definition helptxt :: string where
  "helptxt = lined
    ['''',
     ''usage: sec-lsm-manager-cmd [options]... [action [arguments]]...'',
     '''',
     ''otpions:'',
     ''    -s, --socket xxx      set the base xxx for sockets'',
     ''    -e, --echo            print the evaluated command'',
     ''    -h, --help            print this help and exit'',
     ''    -v, --version         print the version and exit'',
     ''    -k, --keep-going      don't stop on error if actions given'',
     '''',
     ''When action is given, sec-lsm-manager-cmd performs the action and exits.'',
     ''Otherwise sec-lsm-manager-cmd continuously read its input to get the actions.'',
     ''For a list of actions type 'sec-lsm-manager-cmd help'.'',
     '''']"

definition help_log_text :: string where
  "help_log_text = lined
    ['''',
     ''Command: log [on|off]'',
     '''',
     ''With the 'on' or 'off' arguments, set the logging state to what required.'',
     ''In all cases, prints the logging state.'',
     '''',
     ''Examples:'',
     '''',
     ''  log on                  activates the logging'',
     '''']"

definition help_clear_text :: string where
  "help_clear_text = lined
    ['''',
     ''Command: clear'',
     '''',
     ''Clear the actual handle of application'',
     '''']"

definition help_display_text :: string where
  "help_display_text = lined
    ['''',
     ''Command: display'',
     '''',
     ''Display current state'',
     '''']"

definition help_id_text :: string where
  "help_id_text = lined
    ['''',
     ''Command: id app_id'',
     '''',
     ''Set the id of the application'',
     '''',
     ''Example : id agl-service-can-low-level'',
     '''']"

definition help_path_text :: string where
  "help_path_text = lined
    ['''',
     ''Command: path path path_type'',
     '''',
     ''Add a path for the application'',
     '''',
     ''Path type value :'',
     ''   - conf'',
     ''   - data'',
     ''   - exec'',
     ''   - http'',
     ''   - icon'',
     ''   - id'',
     ''   - lib'',
     ''   - plug'',
     ''   - public'',
     '''',
     ''Example : path /tmp/file data'',
     '''']"

definition help_plug_text :: string where
  "help_plug_text = lined
    ['''',
     ''Command: plug exported-path import-id import-path'',
     '''',
     ''Setup a plug export'',
     '''',
     ''Example : plug /tmp/file data /tmp/file'',
     '''']"

definition help_permission_text :: string where
  "help_permission_text = lined
    ['''',
     ''Command: permission permission'',
     '''',
     ''Add a permission for the application'',
     '''',
     ''Example : permission urn:redpesk:permission::partner:scope-platform'',
     '''']"

definition help_install_text :: string where
  "help_install_text = lined
    ['''',
     ''Command: install'',
     '''',
     ''Install application'',
     ''WARNING : You need to set id before'',
     '''']"

definition help_uninstall_text :: string where
  "help_uninstall_text = lined
    ['''',
     ''Command: uninstall'',
     '''',
     ''Uninstall application'',
     ''WARNING : You need to set id before'',
     '''']"

definition help_general_text :: string where
  "help_general_text = lined
    ['''',
     ''Type 'help command' to get help on the command'',
     ''Example 'help log' to get help on log'',
     '''',
     ''Commands are: log, clear, display, id, path, plug, permission,'',
     ''              install, uninstall, quit, reset, help'',
     '''']"

definition help_reset_text :: string where
  "help_reset_text = lined
    ['''',
     ''Command: reset'',
     '''',
     ''Reset the connection with the server'',
     ''It automatically clear any context'',
     '''']"

definition help_quit_text :: string where
  "help_quit_text = lined
    ['''',
     ''Command: quit'',
     '''',
     ''Quit the program'',
     '''']"

definition help_help_text :: string where
  "help_help_text = lined
    ['''',
     ''Command: help [command]'',
     '''',
     ''Gives help on the command.'',
     '''',
     ''Available commands: log, clear, display, id, path, permission,'',
     ''                    install, uninstall, quit, reset, help'',
     '''']"

text \<open>The text of \<open>do_help\<close> for a topic, empty for none.\<close>

definition help_of :: "string \<Rightarrow> string" where
  "help_of topic =
     (if topic = ''log'' then help_log_text
      else if topic = ''quit'' then help_quit_text
      else if topic = ''help'' then help_help_text
      else if topic = ''clear'' then help_clear_text
      else if topic = ''display'' then help_display_text
      else if topic = ''id'' then help_id_text
      else if topic = ''path'' then help_path_text
      else if topic = ''plug'' then help_plug_text
      else if topic = ''permission'' then help_permission_text
      else if topic = ''install'' then help_install_text
      else if topic = ''uninstall'' then help_uninstall_text
      else if topic = ''reset'' then help_reset_text
      else help_general_text)"

section \<open>Printing\<close>

text \<open>
  What the C library and the compilation give: the text of an errno, the line of the source where an
  error is reported, the version.
\<close>

record printing =
  strerror :: "int \<Rightarrow> string"
  line_of :: "cmd_out \<Rightarrow> int"
  the_version :: string

definition cmd_error :: "printing \<Rightarrow> cmd_out \<Rightarrow> string \<Rightarrow> parg list \<Rightarrow> streams \<Rightarrow> streams option" where
  "cmd_error env x = error_function ''main-sec-lsm-manager-cmd.c'' (line_of env x)"

definition print_echo :: "string list \<Rightarrow> streams \<Rightarrow> streams option" where
  "print_echo av s =
     (case av of
        [] \<Rightarrow> Some s
      | a # rest \<Rightarrow>
          Option.bind (printf_out ''%s'' [PStr a] s) (\<lambda>s.
            Option.bind (foldl (\<lambda>r b. Option.bind r (printf_out '' %s'' [PStr b])) (Some s) rest) (\<lambda>s.
              printf_out [LF] [] s)))"

text \<open>The format starts in a constant text so as to have as many conversions as there are fields.\<close>

definition show_fields :: "string list \<Rightarrow> streams \<Rightarrow> streams option" where
  "show_fields record =
     (let n = min 4 (length record)
      in printf_out (drop (12 - 3 * n) (''%s %s %s %s'' @ [LF])) (map PStr (take n record)))"

definition show_out :: "printing \<Rightarrow> cmd_out \<Rightarrow> streams \<Rightarrow> streams option" where
  "show_out env x =
     (case x of
        OutEcho av \<Rightarrow> print_echo av
      | OutOk None \<Rightarrow> log_function ''ok'' []
      | OutOk (Some extra) \<Rightarrow> log_function ''ok %s'' [PStr extra]
      | OutError oper message \<Rightarrow> log_function ''%s, error: %s'' [PStr oper, PStr message]
      | OutUnexpected oper e \<Rightarrow> cmd_error env x ''%s, unexpected error: %s'' [PStr oper, PStr (strerror env e)]
      | OutNotEnough \<Rightarrow> cmd_error env x ''not enough arguments'' []
      | OutBadArgument a \<Rightarrow> cmd_error env x ''bad argument %s'' [PStr a]
      | OutBadSwitch a \<Rightarrow> printf_err (''bad argument '%s'' @ [CHR 0x27, LF]) [PStr a]
      | OutHelp topic \<Rightarrow> printf_out ''%s'' [PStr (help_of topic)]
      | OutUnknown a \<Rightarrow> printf_err (''unknown command '%s' (try help)'' @ [LF]) [PStr a]
      | OutTitle \<Rightarrow> Some \<circ> puts ''################## SECURE APP ##################''
      | OutRecord record \<Rightarrow> show_fields record
      | OutEndTitle \<Rightarrow> Some \<circ> puts ''################################################''
      | OutUsage \<Rightarrow> Some \<circ> puts helptxt
      | OutVersion \<Rightarrow> Some \<circ> puts (''sec-lsm-manager-cmd version '' @ the_version env)
      | OutInitFailed e \<Rightarrow> cmd_error env x ''initialization failed : %d %s'' [PInt e, PStr (strerror env e)]
      | OutInitOk \<Rightarrow> log_function ''initialization success'' [])"

fun show_all :: "printing \<Rightarrow> cmd_out list \<Rightarrow> streams \<Rightarrow> streams option" where
  "show_all env [] s = Some s"
| "show_all env (x # xs) s = Option.bind (show_out env x s) (show_all env xs)"

section \<open>Formats\<close>

lemma show_simps:
  "printf_out ''%s'' [PStr t] s = Some (print_out t s)"
  "printf_out '' %s'' [PStr t] s = Some (print_out (SPACE # t) s)"
  "printf_out [LF] [] s = Some (print_out [LF] s)"
  by (simp_all add: printf_out_def conversion_def)

lemma print_out_out [simp]: "print_out u (print_out t s) = print_out (t @ u) s"
  by (simp add: print_out_def)

lemma echo_loop:
  "foldl (\<lambda>r b. Option.bind r (printf_out '' %s'' [PStr b])) (Some s) rest
     = Some (print_out (concat (map (\<lambda>b. SPACE # b) rest)) s)"
  by (induction rest arbitrary: s) (simp_all add: show_simps print_out_def)

text \<open>Words on a line.\<close>

fun spaced :: "string list \<Rightarrow> string" where
  "spaced [] = []"
| "spaced [a] = a"
| "spaced (a # b # r) = a @ SPACE # spaced (b # r)"

lemma spaced_Cons: "spaced (a # r) = a @ concat (map (\<lambda>b. SPACE # b) r)"
  by (induction r arbitrary: a) simp_all

lemma echo_text: "av \<noteq> [] \<Longrightarrow> print_echo av s = Some (print_out (spaced av @ [LF]) s)"
  by (cases av) (simp_all add: print_echo_def show_simps echo_loop spaced_Cons)

lemma fields_text: "record \<noteq> [] \<Longrightarrow> show_fields record s = Some (print_out (spaced (take 4 record) @ [LF]) s)"
proof -
  assume "record \<noteq> []"
  then consider a where "record = [a]" | a b where "record = [a, b]" | a b d where "record = [a, b, d]"
    | a b d e r where "record = a # b # d # e # r"
    by (metis list.exhaust)
  then show ?thesis
    by cases (simp_all add: show_fields_def printf_out_def conversion_def Let_def)
qed

section \<open>The help and the commands\<close>

text \<open>The words of a text, separated by spaces, commas and ends of lines; those after a word.\<close>

fun words_of :: "string \<Rightarrow> string \<Rightarrow> string list" where
  "words_of cur [] = (if cur = [] then [] else [cur])"
| "words_of cur (x # t) =
     (if x = SPACE \<or> x = CHR '','' \<or> x = LF then (if cur = [] then [] else [cur]) @ words_of [] t
      else words_of (cur @ [x]) t)"

definition words_after :: "string \<Rightarrow> string \<Rightarrow> string list" where
  "words_after w t = tl (dropWhile (\<lambda>x. x \<noteq> w) (words_of [] t))"

lemma listed_commands: "words_after ''are:'' help_general_text
    = [''log'', ''clear'', ''display'', ''id'', ''path'', ''plug'', ''permission'', ''install'', ''uninstall'', ''quit'', ''reset'', ''help'']"
  by code_simp

lemma listed_in_help: "words_after ''commands:'' help_help_text
    = [''log'', ''clear'', ''display'', ''id'', ''path'', ''permission'', ''install'', ''uninstall'', ''quit'', ''reset'', ''help'']"
  by code_simp

text \<open>The list of the help on help lacks a command, and the list of the types of paths a type.\<close>

lemma help_lacks_plug:
  "set (words_after ''commands:'' help_help_text) = set (words_after ''are:'' help_general_text) - {''plug''}"
  unfolding listed_commands listed_in_help by auto

lemma help_path_types:
  "path_type_get x \<noteq> type_unset \<longleftrightarrow>
     x = ''default'' \<or> x \<in> set (takeWhile (\<lambda>v. v \<noteq> ''Example'') (words_after '':'' help_path_text)) - {''-''}"
proof -
  have "words_after '':'' help_path_text = [''-'', ''conf'', ''-'', ''data'', ''-'', ''exec'', ''-'', ''http'', ''-'', ''icon'',
      ''-'', ''id'', ''-'', ''lib'', ''-'', ''plug'', ''-'', ''public'', ''Example'', '':'', ''path'', ''/tmp/file'', ''data'']"
    by code_simp
  then show ?thesis by (auto simp: path_type_get_eval)
qed

lemma help_of_topic:
  "w \<in> set (words_after ''are:'' help_general_text) \<Longrightarrow> w \<in> set help_topics \<and> hd (words_after ''Command:'' (help_of w)) = w"
proof -
  have "list_all (\<lambda>w. w \<in> set help_topics \<and> hd (words_after ''Command:'' (help_of w)) = w)
      (words_after ''are:'' help_general_text)"
    unfolding listed_commands by code_simp
  then show "w \<in> set (words_after ''are:'' help_general_text) \<Longrightarrow> ?thesis" by (auto simp: list_all_iff)
qed

text \<open>A command never ends by telling that it is unknown.\<close>

definition known_end :: "('a \<times> cmd) run \<Rightarrow> bool" where
  "known_end r \<longleftrightarrow> (case r of Returns (n, c) \<Rightarrow> printed c \<noteq> [] \<and> (\<forall>w. last (printed c) \<noteq> OutUnknown w) | _ \<Rightarrow> True)"

lemma known_end_status: "known_end (show_status n oper rc extra c)"
  by (auto simp: known_end_def show_status_def emit_def pop_mem_def Let_def
      split: run.splits prod.splits option.splits list.splits if_splits)

lemma known_end_bind: "(\<And>x. known_end (f x)) \<Longrightarrow> known_end (run_bind r f)"
  by (cases r) (simp_all add: known_end_def)

lemma known_end_call: "known_end (call_status n oper call c)"
  unfolding call_status_def by (rule known_end_bind) (simp add: known_end_status split: prod.split)

lemma known_end_args: "known_end (not_enough n c)" "known_end (bad_argument a n c)"
  by (simp_all add: known_end_def not_enough_def bad_argument_def emit_def)

lemma known_end_commands:
  "known_end (do_clear av c)" "known_end (do_id av c)" "known_end (do_path av c)" "known_end (do_plug av c)"
  "known_end (do_permission av c)" "known_end (do_install av c)" "known_end (do_uninstall av c)" "known_end (do_reset av c)"
  "known_end (do_help av c)" "known_end (do_display av c)" "known_end (do_log av c)"
  by (simp_all add: do_clear_def do_id_def do_path_def do_plug_def do_permission_def do_install_def do_uninstall_def
      do_reset_def do_help_def do_display_def do_log_def known_end_call known_end_args known_end_status known_end_bind
      case_prod_beta Let_def) (simp_all add: known_end_def emit_def)

lemma known_not_unknown: "known_end r \<Longrightarrow> used r \<noteq> Returns (k, emit (OutUnknown w) c)"
  by (cases r) (auto simp: known_end_def used_def emit_def)

lemma unknown_command:
  assumes "w \<noteq> '';''"
  shows "do_any (w # av) c = Returns (Some 1, emit (OutUnknown w) c)
    \<longleftrightarrow> w \<notin> set (words_after ''are:'' help_general_text) \<and> w \<noteq> ''?''"
  unfolding listed_commands
  using assms known_not_unknown[OF known_end_commands(1)] known_not_unknown[OF known_end_commands(2)]
    known_not_unknown[OF known_end_commands(3)] known_not_unknown[OF known_end_commands(4)]
    known_not_unknown[OF known_end_commands(5)] known_not_unknown[OF known_end_commands(6)]
    known_not_unknown[OF known_end_commands(7)] known_not_unknown[OF known_end_commands(8)]
    known_not_unknown[OF known_end_commands(9)] known_not_unknown[OF known_end_commands(10)]
    known_not_unknown[OF known_end_commands(11)]
  by (simp add: do_any_def ISSEP_def Let_def)

text \<open>
  The help tells the commands there are: a word is answered that it is unknown exactly when the
  general help does not list it, \<open>?\<close> apart, and for every command it lists there is a help on that
  command.
\<close>

theorem help_tells_commands:
  assumes "w \<noteq> '';''"
  shows "(do_any (w # av) c = Returns (Some 1, emit (OutUnknown w) c)
      \<longleftrightarrow> w \<notin> set (words_after ''are:'' help_general_text) \<and> w \<noteq> ''?'')
    \<and> (w \<in> set (words_after ''are:'' help_general_text) \<longrightarrow>
        w \<in> set help_topics \<and> hd (words_after ''Command:'' (help_of w)) = w)"
  using unknown_command[OF assms] help_of_topic by blast

theorem help_tells_commands_witness:
  "do_any [''remove''] c = Returns (Some 1, emit (OutUnknown ''remove'') c) \<and> hd (words_after ''Command:'' (help_of ''plug'')) = ''plug''"
proof -
  have "''remove'' \<notin> set (words_after ''are:'' help_general_text)" "''plug'' \<in> set (words_after ''are:'' help_general_text)"
    by (simp_all add: listed_commands)
  then show ?thesis using help_tells_commands[of "''remove''" "[]" c] help_tells_commands[of "''plug''" "[]" c] by simp
qed

end
