(* ===== verification/Terminal.thy ===== *)
theory Terminal
  imports Remote_Cmd Cmd_Output
begin

text \<open>
  What a user of the command line client reads on the terminal for the requests typed: the bytes of
  the standard streams, through the client, the library and the daemon; and that the help tells
  which commands there are.
\<close>

section \<open>The text of an answer\<close>

definition verdict_text :: "string list \<Rightarrow> string list \<Rightarrow> string" where
  "verdict_text av z =
     (if z ! 0 = n_error then (if av = [n_display] then [] else ''>> '' @ hd av @ '', error: '' @ z ! 1 @ [LF])
      else if hd av = n_log then ''>> ok '' @ z ! 1 @ [LF] else ''>> ok'' @ [LF])"

definition verdict_err :: "printing \<Rightarrow> string list \<Rightarrow> string list \<Rightarrow> string" where
  "verdict_err env av z =
     (if av = [n_display] \<and> z ! 0 = n_error
      then ''[main-sec-lsm-manager-cmd.c:'' @ dec_int (line_of env (OutUnexpected n_display 1))
        @ ''] error : display, unexpected error: '' @ strerror env 1 @ [LF]
      else [])"

definition records_text :: "string list list \<Rightarrow> string" where
  "records_text qs = (if qs = [] then []
     else lined ([''################## SECURE APP ##################''] @ map (\<lambda>q. spaced (take 4 q)) qs
       @ [''################################################'']))"

definition answer_text :: "bool \<Rightarrow> string list \<Rightarrow> string list list \<Rightarrow> string" where
  "answer_text ech av rs =
     (if ech then spaced av @ [LF] else []) @ records_text (shown_by av rs) @ verdict_text av (last rs)"

definition printed_to :: "string \<Rightarrow> string \<Rightarrow> streams \<Rightarrow> streams" where
  "printed_to u v s = print_err v (print_out u s)"

lemma printed_to_simps:
  "printed_to u v (printed_to x y s) = printed_to (x @ u) (y @ v) s" "printed_to [] [] s = s"
  "print_out u s = printed_to u [] s" "print_err v s = printed_to [] v s"
  by (simp_all add: printed_to_def print_out_def print_err_def)

lemma show_all_append: "show_all env (xs @ ys) s = Option.bind (show_all env xs s) (show_all env ys)"
proof (induction xs arbitrary: s)
  case (Cons x xs)
  then show ?case by (cases "show_out env x s") simp_all
qed simp

lemma show_verdict_text: "show_out env (verdict av z) s = Some (printed_to (verdict_text av z) (verdict_err env av z) s)"
  by (simp add: show_out_def verdict_def verdict_text_def verdict_err_def cmd_error_def log_function_def
      error_function_def printf_out_def printf_err_def conversion_def printed_to_simps Let_def)

lemma show_records: "[] \<notin> set qs \<Longrightarrow> show_all env (map (\<lambda>q. OutRecord (take 4 q)) qs) s
    = Some (printed_to (lined (map (\<lambda>q. spaced (take 4 q)) qs)) [] s)"
proof (induction qs arbitrary: s)
  case (Cons q qs)
  have "show_fields (take 4 q) s = Some (print_out (spaced (take 4 q) @ [LF]) s)"
    using fields_text[of "take 4 q" s] Cons.prems by auto
  then show ?case
    using Cons by (simp add: show_out_def printed_to_simps lined_def)
qed (simp add: lined_def printed_to_simps)

lemma show_answer:
  assumes "av \<noteq> []" "good_replies av rs"
  shows "show_all env (answer ech av rs) s
    = Some (printed_to (answer_text ech av rs) (verdict_err env av (last rs)) s)"
proof -
  have e: "show_all env (if ech then [OutEcho av] else []) u = Some (printed_to (if ech then spaced av @ [LF] else []) [] u)" for u
    using echo_text[OF assms(1)] by (simp add: show_out_def printed_to_simps)
  have ne: "[] \<notin> set (shown_by av rs)"
  proof
    assume "[] \<in> set (shown_by av rs)"
    then obtain q where q: "q \<in> set (butlast rs)" "tl q = []" by (auto simp: shown_by_def split: if_splits)
    then have "2 < length q" using assms(2) by (auto simp: good_replies_def list_all_iff)
    then show False using q(2) by (cases q) simp_all
  qed
  have r: "show_all env (if shown_by av rs = [] then []
      else [OutTitle] @ map (\<lambda>q. OutRecord (take 4 q)) (shown_by av rs) @ [OutEndTitle]) u
    = Some (printed_to (records_text (shown_by av rs)) [] u)" for u
    using show_records[OF ne]
    by (simp add: show_all_append show_out_def puts_def records_text_def lined_def printed_to_simps)
  show ?thesis
    unfolding answer_def show_all_append e bind_simps r by (simp add: show_verdict_text printed_to_simps answer_text_def)
qed

lemma show_answers:
  assumes "list_all2 (\<lambda>av rs. av \<noteq> [] \<and> good_replies av rs) avs rss"
  shows "show_all env (concat (map2 (answer ech) avs rss)) s
    = Some (printed_to (concat (map2 (answer_text ech) avs rss))
        (concat (map2 (\<lambda>av rs. verdict_err env av (last rs)) avs rss)) s)"
  using assms
  by (induction arbitrary: s rule: list_all2_induct) (simp_all add: show_all_append show_answer printed_to_simps)

section \<open>The terminal\<close>

text \<open>
  C12: what the user of the command line client reads. For requests typed one after the other, whatever
  the pieces in which the bytes travel, the client prints on its standard output, for each: the
  command when the echo is asked; for \<open>display\<close> the items of the session, one by line, between two
  rules; then \<open>ok\<close>, with the state of the log for \<open>log\<close>, or the name of the command and the text of
  the error the daemon gave. Only an error of \<open>display\<close> is told on the standard error, as unexpected.
  At the end the context and the system of the daemon are those of the abstract server.
\<close>

theorem terminal_served:
  assumes "lib_idle (manager c)" "daemon_calm t" "cutting chop" "list_all request_line avs" "list_all sendable avs"
    "mem_oks c = []" "printed c = []"
    and "serve_all H avs (server_log t) (cctx (cl t)) (world t) = Some (rss, lg, cx, w)"
  shows "\<exists>c' t' u. typed H chop avs c t = Some (c', t') \<and> show_all env (printed c') s = Some u
    \<and> std_out u = std_out s @ concat (map2 (answer_text (echo c)) avs rss)
    \<and> std_err u = std_err s @ concat (map2 (\<lambda>av rs. verdict_err env av (last rs)) avs rss)
    \<and> cctx (cl t') = cx \<and> world t' = w \<and> server_log t' = lg"
proof -
  obtain c' t' where c': "typed H chop avs c t = Some (c', t')" "printed c' = concat (map2 (answer (echo c)) avs rss)"
    "cctx (cl t') = cx" "world t' = w" "server_log t' = lg" "list_all2 good_replies avs rss"
    using typed_served[OF assms(1-6,8)] assms(7) by auto
  have "list_all2 (\<lambda>av rs. av \<noteq> [] \<and> good_replies av rs) avs rss"
    using c'(6) assms(5) by (auto simp: list_all2_conv_all_nth list_all_length sendable_def valid_msg_def)
  then have "show_all env (printed c') s = Some (printed_to (concat (map2 (answer_text (echo c)) avs rss))
      (concat (map2 (\<lambda>av rs. verdict_err env av (last rs)) avs rss)) s)"
    unfolding c'(2) by (rule show_answers)
  then show ?thesis using c' by (auto simp: printed_to_def)
qed

definition demo_printing :: printing where
  "demo_printing = \<lparr>strerror = (\<lambda>e. ''Operation not permitted''), line_of = (\<lambda>x. 228), the_version = ''2''\<rparr>"

definition demo_cmd :: cmd where
  "demo_cmd = \<lparr>manager = demo_lib [], echo = True, last_status = 0, printed = [], mem_oks = []\<rparr>"

theorem terminal_served_witness:
  "\<exists>c' t' u. typed demo_server_host bytewise [[''id'', ''demo''], [''display''], [''id'', ''other''], [''log'', ''on''], [''clear'']]
      demo_cmd (demo_session []) = Some (c', t') \<and> show_all demo_printing (printed c') \<lparr>std_out = [], std_err = []\<rparr> = Some u
    \<and> std_out u = lined [''id demo'', ''>> ok'', ''display'', ''################## SECURE APP ##################'', ''id demo'',
         ''################################################'', ''>> ok'', ''id other'', ''>> id, error: already-set'',
         ''log on'', ''>> ok on'', ''clear'', ''>> ok'']
    \<and> std_err u = []"
proof -
  let ?reqs = "[[''id'', ''demo''], [''display''], [''id'', ''other''], [''log'', ''on''], [''clear'']]"
  have v: "list_all request_line ?reqs" "list_all sendable ?reqs" by (code_simp, code_simp)
  have t: "id_error EEXIST = ''already-set''" by code_simp
  obtain c where sv: "serve_all demo_server_host ?reqs (server_log (demo_session [])) (cctx (cl (demo_session [])))
      (world (demo_session []))
    = Some ([[[n_done]], [[n_string, n_id, ''demo''], [n_done]], [[n_error, id_error EEXIST]], [[n_done, n_on]], [[n_done]]],
        True, c, demo_os)"
    using demo_served by blast
  have c: "lib_idle (manager demo_cmd)" "mem_oks demo_cmd = []" "printed demo_cmd = []"
    using demo_lib_idle(1) by (simp_all add: demo_cmd_def)
  from terminal_served[OF c(1) demo_session_calm bytewise_cutting v c(2,3) sv, of demo_printing "\<lparr>std_out = [], std_err = []\<rparr>"]
  show ?thesis
    by (auto simp: answer_text_def shown_by_def verdict_text_def verdict_err_def records_text_def lined_def demo_cmd_def t)
qed

end
