(* ===== verification/Protocol_Log.thy ===== *)
theory Protocol_Log
  imports Client_Props Logging
begin

text \<open>
  The log of the protocol that the daemon prints when it is asked (\<open>dolog_protocol\<close> of
  \<open>src/protocol/client.c\<close>): what it tells of an exchange, and the lines a client can have it print.
\<close>

lemma request_logged:
  assumes "session_inv s" "tx (chn s) = []" "args \<noteq> []" "check_utf8 args"
    "version (cl s) \<noteq> 0 \<or> hd args \<noteq> n_sec_lsm_manager" "list_all fits (display_records (cctx (cl s)))"
    "serve H args (server_log s) (cctx (cl s)) (world s) = (rs, lg, c, w, ok)"
  shows "server_log (onrequest H args s) = lg \<and> plog (onrequest H args s) = plog s @ exchange_log (server_log s) args rs"
  using request_serves[OF assms(1-5), of H] assms(6,7) dolog_exchange[of args s rs] by (simp add: served_def)

text \<open>What a record is on a line.\<close>

definition told :: "string \<Rightarrow> bool \<times> string list \<Rightarrow> string" where
  "told addr r = addr @ (if fst r then ''>>'' else ''<<'') @ ''server'' @ concat (map (\<lambda>f. SPACE # f) (snd r))"

lemma protocol_text_lines: "protocol_text addr l = concat (map (\<lambda>x. x @ [LF]) (map (told addr) l))"
  by (induction l) (auto simp: protocol_text_def told_def protocol_line_text)

lemma told_one_line:
  assumes "LF \<notin> set addr" "list_all (\<lambda>f. LF \<notin> set f) (snd r)"
  shows "LF \<notin> set (told addr r)"
  using assms by (auto simp: told_def list_all_iff)

lemma protocol_lines:
  assumes "LF \<notin> set addr" "list_all (\<lambda>r. list_all (\<lambda>f. LF \<notin> set f) (snd r)) l"
  shows "text_lines (protocol_text addr l) = map (told addr) l"
proof -
  have "\<forall>x \<in> set (map (told addr) l). LF \<notin> set x" using assms told_one_line by (auto simp: list_all_iff)
  then show ?thesis unfolding protocol_text_lines by (rule text_lines_lines)
qed

text \<open>Whether the log is on after a request of the protocol.\<close>

lemma serve_log_flag:
  "serve H args lg c w = (rs, lg', c', w', ok) \<Longrightarrow>
     lg' = (if args = [n_log, n_on] then True else if args = [n_log, n_off] then False else lg)"
  by (auto simp: serve_def status_def Let_def split: list.splits if_splits prod.splits)

text \<open>
  C39: what the log of the protocol tells. When it is on, handling a request adds to it the request,
  then its replies, in order, one record by line when no field holds an end of line; when it is off,
  nothing. The request that turns it on is not told and the one that turns it off is, with its reply;
  no other request changes its state.
\<close>

theorem protocol_log_tells:
  assumes "session_inv s" "tx (chn s) = []" "args \<noteq> []" "check_utf8 args"
    "version (cl s) \<noteq> 0 \<or> hd args \<noteq> n_sec_lsm_manager" "list_all fits (display_records (cctx (cl s)))"
    "serve H args (server_log s) (cctx (cl s)) (world s) = (rs, lg, c, w, ok)" "t = onrequest H args s"
    "LF \<notin> set addr" "list_all (list_all (\<lambda>f. LF \<notin> set f)) (args # rs)"
  shows "\<exists>l. plog t = plog s @ l
    \<and> text_lines (protocol_text addr l) = (if server_log s then map (told addr) ((True, args) # map (Pair False) rs) else [])
    \<and> server_log t = (if args = [n_log, n_on] then True else if args = [n_log, n_off] then False else server_log s)"
proof -
  let ?l = "exchange_log (server_log s) args rs"
  have "list_all (\<lambda>r. list_all (\<lambda>f. LF \<notin> set f) (snd r)) ?l"
    using assms(10) by (auto simp: exchange_log_def list_all_iff)
  then have "text_lines (protocol_text addr ?l) = map (told addr) ?l" by (rule protocol_lines[OF assms(9)])
  then show ?thesis
    using request_logged[OF assms(1-7)] serve_log_flag[OF assms(7)] assms(8)
    by (intro exI[of _ ?l]) (simp add: exchange_log_def)
qed

theorem protocol_log_tells_witness:
  "text_lines (protocol_text ''0x5581'' (plog (onrequest demo_server_host [''log'', ''off''] ((demo_session [])\<lparr>server_log := True\<rparr>))))
     = [''0x5581>>server log off'', ''0x5581<<server done off'']"
proof -
  let ?s = "(demo_session [])\<lparr>server_log := True\<rparr>"
  have s: "session_inv ?s" "tx (chn ?s) = []" "plog ?s = []"
    using demo_session_ready by (simp_all add: session_inv_def demo_session_def)
  have u: "check_utf8 [''log'', ''off'']" by code_simp
  have d: "list_all fits (display_records (cctx (cl ?s)))" by code_simp
  have sv: "serve demo_server_host [''log'', ''off''] (server_log ?s) (cctx (cl ?s)) (world ?s)
      = ([[''done'', ''off'']], False, cctx (cl ?s), world ?s, True)"
    by (simp add: serve_def)
  have n: "LF \<notin> set ''0x5581''" "list_all (list_all (\<lambda>f. LF \<notin> set f)) [[''log'', ''off''], [''done'', ''off'']]" by simp_all
  obtain l where "plog (onrequest demo_server_host [''log'', ''off''] ?s) = l"
    "text_lines (protocol_text ''0x5581'' l) = map (told ''0x5581'') [(True, [''log'', ''off'']), (False, [''done'', ''off''])]"
    using protocol_log_tells[OF s(1,2) _ u _ d sv refl n] s(3) by auto
  then show ?thesis by (simp add: told_def)
qed

text \<open>
  The fields are printed as they are: an end of line in a field, that the protocol carries escaped,
  ends the line of the log, and what follows is a line of its own, that tells what the client likes.
\<close>

lemma log_line_forged:
  "text_lines (protocol_text addr [(True, [n_id, x @ LF # y])])
     = text_lines (told addr (True, [n_id, x]) @ [LF]) @ text_lines (y @ [LF])"
proof -
  have split: "text_lines (u @ LF # v) = text_lines (u @ [LF]) @ text_lines v" for u v
  proof (induction u)
    case (Cons a u)
    have "text_lines (u @ [LF]) \<noteq> []" by (cases u) (simp_all split: list.split)
    then obtain l ls where "text_lines (u @ [LF]) = l # ls" by (metis list.exhaust)
    then show ?case using Cons by (auto split: list.splits)
  qed simp
  have "protocol_text addr [(True, [n_id, x @ LF # y])] = told addr (True, [n_id, x]) @ LF # y @ [LF]"
    by (simp add: protocol_text_lines told_def)
  then show ?thesis using split[of "told addr (True, [n_id, x])" "y @ [LF]"] by simp
qed

lemma log_line_forged_example:
  "text_lines (protocol_text ''0x5581'' [(True, [''id'', ''x'' @ LF # ''0x5582>>server uninstall''])])
     = [''0x5581>>server id x'', ''0x5582>>server uninstall'']"
  using log_line_forged[of "''0x5581''" "''x''" "''0x5582>>server uninstall''"] by (simp add: told_def)

end
