(* ===== verification/Sim_Libs.thy ===== *)
theory Sim_Libs
  imports Smack Perm_Mgr Logging
begin

text \<open>
  \<open>src/simulation/cynagora/cynagora.c\<close> and \<open>src/simulation/smack/smack.c\<close> in full: the libraries
  the tests are linked with tell their calls on the standard error and agree to everything, or to the
  clients whose name does not start with a dash. The first is an instance of the interface the permission
  manager is modelled over. The text of a pointer is given.
\<close>

section \<open>State\<close>

record sim_lib =
  said :: streams
  mallocs :: "bool list"
  ptr :: int
  addr :: string
  here :: "string \<times> int" \<comment> \<open>\<open>__FILE__\<close> and \<open>__LINE__\<close> of the only error\<close>

text \<open>The formats match their arguments: see \<open>say_defined\<close>.\<close>

definition say :: "string \<Rightarrow> parg list \<Rightarrow> sim_lib \<Rightarrow> sim_lib" where
  "say f args s = s\<lparr>said := the (printf_err (f @ [LF]) args (said s))\<rparr>"

definition pop_malloc :: "sim_lib \<Rightarrow> bool \<times> sim_lib" where
  "pop_malloc s = (case mallocs s of [] \<Rightarrow> (True, s) | b # bs \<Rightarrow> (b, s\<lparr>mallocs := bs\<rparr>))"

definition key_args :: "cynagora_key \<Rightarrow> parg list" where
  "key_args key = [PStr (client key), PStr (session key), PStr (user key), PStr (permission key)]"

section \<open>\<open>cynagora.c\<close>\<close>

definition simc_create :: "int \<Rightarrow> int \<Rightarrow> string option \<Rightarrow> sim_lib \<Rightarrow> int \<times> sim_lib" where
  "simc_create ty cache_size socketspec s =
     (let s = say ''cynagora_create(%d, %d, %s)'' [PInt ty, PInt cache_size,
            PStr (case socketspec of Some t \<Rightarrow> t | None \<Rightarrow> ''NULL'')] s
      in case pop_malloc s of (ok, s) \<Rightarrow>
        if \<not> ok then
          (- ENOMEM, s\<lparr>said := the (error_function (fst (here s)) (snd (here s)) ''malloc cynagora_t failed'' [] (said s))\<rparr>)
        else (0, s))"

definition simc_disconnect :: "sim_lib \<Rightarrow> sim_lib" where
  "simc_disconnect s = say ''cynagora_disconnect(%p)'' [PPtr (addr s)] s"

definition simc_destroy :: "sim_lib \<Rightarrow> sim_lib" where
  "simc_destroy s = say ''cynagora_destroy(%p)'' [PPtr (addr s)] s"

definition simc_async_setup :: "string \<Rightarrow> sim_lib \<Rightarrow> int \<times> sim_lib" where
  "simc_async_setup closure s = (0, say ''cynagora_async_setup(%p,%p)'' [PPtr (addr s), PPtr closure] s)"

definition simc_async_process :: "sim_lib \<Rightarrow> int \<times> sim_lib" where
  "simc_async_process s = (0, say ''cynagora_async_process(%p)'' [PPtr (addr s)] s)"

definition simc_cache_resize :: "int \<Rightarrow> sim_lib \<Rightarrow> int \<times> sim_lib" where
  "simc_cache_resize sz s = (0, say ''cynagora_cache_resize(%p, %d)'' [PPtr (addr s), PInt sz] s)"

definition simc_cache_clear :: "sim_lib \<Rightarrow> sim_lib" where
  "simc_cache_clear s = say ''cynagora_cache_clear(%p)'' [PPtr (addr s)] s"

definition simc_cache_check :: "cynagora_key \<Rightarrow> sim_lib \<Rightarrow> int \<times> sim_lib" where
  "simc_cache_check key s = (sim_check key, say ''cynagora_cache_check(%p ,(%s,%s,%s,%s))'' (PPtr (addr s) # key_args key) s)"

definition simc_check :: "cynagora_key \<Rightarrow> bool \<Rightarrow> sim_lib \<Rightarrow> int \<times> sim_lib" where
  "simc_check key force s = (sim_check key,
     say ''cynagora_check(%p ,(%s,%s,%s,%s), %d)'' (PPtr (addr s) # key_args key @ [PInt (of_bool force)]) s)"

definition simc_test :: "cynagora_key \<Rightarrow> bool \<Rightarrow> sim_lib \<Rightarrow> int \<times> sim_lib" where
  "simc_test key force s = (sim_check key,
     say ''cynagora_test(%p ,(%s,%s,%s,%s), %d)'' (PPtr (addr s) # key_args key @ [PInt (of_bool force)]) s)"

text \<open>The callback is never called.\<close>

definition simc_async_check :: "cynagora_key \<Rightarrow> bool \<Rightarrow> bool \<Rightarrow> string \<Rightarrow> sim_lib \<Rightarrow> int \<times> sim_lib" where
  "simc_async_check key force simple closure s = (sim_check key,
     say ''cynagora_async_check(%p ,(%s,%s,%s,%s), %d, %d, %p)''
       (PPtr (addr s) # key_args key @ [PInt (of_bool force), PInt (of_bool simple), PPtr closure]) s)"

definition simc_get :: "cynagora_key \<Rightarrow> sim_lib \<Rightarrow> int \<times> (cynagora_key \<times> cynagora_value) list \<times> sim_lib" where
  "simc_get key s = (fst (sim_get key ()), fst (snd (sim_get key ())),
     say ''cynagora_get(%p, %s,%s,%s,%s)'' (PPtr (addr s) # key_args key) s)"

definition simc_log :: "int \<Rightarrow> int \<Rightarrow> sim_lib \<Rightarrow> int \<times> sim_lib" where
  "simc_log on off s = (0, say ''cynagora_log(%p, %d, %d)'' [PPtr (addr s), PInt on, PInt off] s)"

definition simc_enter :: "sim_lib \<Rightarrow> int \<times> sim_lib" where
  "simc_enter s = (0, say ''cynagora_enter(%p)'' [PPtr (addr s)] s)"

definition simc_leave :: "bool \<Rightarrow> sim_lib \<Rightarrow> int \<times> sim_lib" where
  "simc_leave commit s = (0, say ''cynagora_leave(%p, %d)'' [PPtr (addr s), PInt (of_bool commit)] s)"

definition simc_set :: "cynagora_key \<Rightarrow> cynagora_value \<Rightarrow> sim_lib \<Rightarrow> int \<times> sim_lib" where
  "simc_set key v s = (0, say ''cynagora_set(%p ,(%s,%s,%s,%s), (%s, %ld))''
     (PPtr (addr s) # key_args key @ [PStr (cvalue v), PInt (expire v)]) s)"

definition simc_drop :: "cynagora_key \<Rightarrow> sim_lib \<Rightarrow> int \<times> sim_lib" where
  "simc_drop key s = (0, say ''cynagora_drop(%p ,(%s,%s,%s,%s))'' (PPtr (addr s) # key_args key) s)"

text \<open>The calls of \<open>cynagora-interface.c\<close>: an administrator without cache nor specification.\<close>

definition talking_cynagora :: "sim_lib cynagora_lib" where
  "talking_cynagora = \<lparr>cynagora_create = simc_create 1 1 None, cynagora_enter = simc_enter, cynagora_leave = simc_leave,
     cynagora_set = simc_set, cynagora_drop = simc_drop, cynagora_check = simc_check, cynagora_get = simc_get\<rparr>"

interpretation talking: cynagora_ranges talking_cynagora
  by unfold_locales (auto simp: talking_cynagora_def simc_create_def simc_enter_def simc_leave_def simc_set_def simc_drop_def
      simc_check_def simc_get_def sim_check_def sim_get_def Let_def split: prod.splits if_splits)

section \<open>\<open>smack.c\<close>\<close>

definition SMACK_LABEL_LEN :: nat where "SMACK_LABEL_LEN = 255"

definition sims_label_length :: "string \<Rightarrow> sim_lib \<Rightarrow> int \<times> sim_lib" where
  "sims_label_length lbl s =
     (let s = say ''smack_label_length(%s)'' [PStr lbl] s; len = length lbl
      in (if len \<ge> SMACK_LABEL_LEN then - 1 else int len, s))"

definition sims_smackfs_path :: "sim_lib \<Rightarrow> string \<times> sim_lib" where
  "sims_smackfs_path s = (''/sys/fs/smackfs'', say ''smack_smackfs_path()'' [] s)"

definition sims_accesses_new :: "sim_lib \<Rightarrow> (int \<times> int) \<times> sim_lib" where
  "sims_accesses_new s =
     (let s = say ''smack_accesses_new()'' [] s; s = s\<lparr>ptr := ptr s + 1\<rparr> in ((0, ptr s), s))"

definition sims_accesses_add :: "string \<Rightarrow> string \<Rightarrow> string \<Rightarrow> string \<Rightarrow> sim_lib \<Rightarrow> int \<times> sim_lib" where
  "sims_accesses_add h subject object access_type s =
     (0, say ''smack_accesses_add(%p,%s,%s,%s)'' [PPtr h, PStr subject, PStr object, PStr access_type] s)"

definition sims_accesses_apply :: "string \<Rightarrow> sim_lib \<Rightarrow> int \<times> sim_lib" where
  "sims_accesses_apply h s = (0, say ''smack_accesses_apply(%p)'' [PPtr h] s)"

definition sims_accesses_save :: "string \<Rightarrow> int \<Rightarrow> sim_lib \<Rightarrow> int \<times> sim_lib" where
  "sims_accesses_save h fd s = (0, say ''smack_accesses_save(%p,%d)'' [PPtr h, PInt fd] s)"

definition sims_accesses_add_from_file :: "string \<Rightarrow> int \<Rightarrow> sim_lib \<Rightarrow> int \<times> sim_lib" where
  "sims_accesses_add_from_file h fd s = (0, say ''smack_accesses_add_from_file(%p,%d)'' [PPtr h, PInt fd] s)"

definition sims_accesses_clear :: "string \<Rightarrow> sim_lib \<Rightarrow> int \<times> sim_lib" where
  "sims_accesses_clear h s = (0, say ''smack_accesses_clear(%p)'' [PPtr h] s)"

text \<open>It tells the name of another function.\<close>

definition sims_accesses_free :: "string \<Rightarrow> sim_lib \<Rightarrow> sim_lib" where
  "sims_accesses_free h s = say ''smack_smackfs_path(%p)'' [PPtr h] s"

section \<open>What is told\<close>

text \<open>Every format matches its arguments.\<close>

lemma say_defined:
  "vformat (''cynagora_create(%d, %d, %s)'' @ [LF]) [PInt ty, PInt cache_size,
            PStr x] \<noteq> None"
  "vformat (''cynagora_disconnect(%p)'' @ [LF]) [PPtr (addr s)] \<noteq> None"
  "vformat (''cynagora_destroy(%p)'' @ [LF]) [PPtr (addr s)] \<noteq> None"
  "vformat (''cynagora_async_setup(%p,%p)'' @ [LF]) [PPtr (addr s), PPtr closure] \<noteq> None"
  "vformat (''cynagora_async_process(%p)'' @ [LF]) [PPtr (addr s)] \<noteq> None"
  "vformat (''cynagora_cache_resize(%p, %d)'' @ [LF]) [PPtr (addr s), PInt sz] \<noteq> None"
  "vformat (''cynagora_cache_clear(%p)'' @ [LF]) [PPtr (addr s)] \<noteq> None"
  "vformat (''cynagora_cache_check(%p ,(%s,%s,%s,%s))'' @ [LF]) (PPtr (addr s) # key_args key) \<noteq> None"
  "vformat (''cynagora_check(%p ,(%s,%s,%s,%s), %d)'' @ [LF]) (PPtr (addr s) # key_args key @ [PInt (of_bool force)]) \<noteq> None"
  "vformat (''cynagora_test(%p ,(%s,%s,%s,%s), %d)'' @ [LF]) (PPtr (addr s) # key_args key @ [PInt (of_bool force)]) \<noteq> None"
  "vformat (''cynagora_async_check(%p ,(%s,%s,%s,%s), %d, %d, %p)'' @ [LF]) (PPtr (addr s) # key_args key @ [PInt (of_bool force), PInt (of_bool simple), PPtr closure]) \<noteq> None"
  "vformat (''cynagora_get(%p, %s,%s,%s,%s)'' @ [LF]) (PPtr (addr s) # key_args key) \<noteq> None"
  "vformat (''cynagora_log(%p, %d, %d)'' @ [LF]) [PPtr (addr s), PInt on, PInt off] \<noteq> None"
  "vformat (''cynagora_enter(%p)'' @ [LF]) [PPtr (addr s)] \<noteq> None"
  "vformat (''cynagora_leave(%p, %d)'' @ [LF]) [PPtr (addr s), PInt (of_bool commit)] \<noteq> None"
  "vformat (''cynagora_set(%p ,(%s,%s,%s,%s), (%s, %ld))'' @ [LF]) (PPtr (addr s) # key_args key @ [PStr (cvalue v), PInt (expire v)]) \<noteq> None"
  "vformat (''cynagora_drop(%p ,(%s,%s,%s,%s))'' @ [LF]) (PPtr (addr s) # key_args key) \<noteq> None"
  "vformat (''smack_label_length(%s)'' @ [LF]) [PStr lbl] \<noteq> None"
  "vformat (''smack_smackfs_path()'' @ [LF]) [] \<noteq> None"
  "vformat (''smack_accesses_new()'' @ [LF]) [] \<noteq> None"
  "vformat (''smack_accesses_add(%p,%s,%s,%s)'' @ [LF]) [PPtr h, PStr subject, PStr object, PStr access_type] \<noteq> None"
  "vformat (''smack_accesses_apply(%p)'' @ [LF]) [PPtr h] \<noteq> None"
  "vformat (''smack_accesses_save(%p,%d)'' @ [LF]) [PPtr h, PInt fd] \<noteq> None"
  "vformat (''smack_accesses_add_from_file(%p,%d)'' @ [LF]) [PPtr h, PInt fd] \<noteq> None"
  "vformat (''smack_accesses_clear(%p)'' @ [LF]) [PPtr h] \<noteq> None"
  "vformat (''smack_smackfs_path(%p)'' @ [LF]) [PPtr h] \<noteq> None"
  by (simp_all add: key_args_def conversion_def)

lemma said_is:
  "vformat (f @ [LF]) args = Some t \<Longrightarrow> said (say f args s) = print_err t (said s)"
  by (simp add: say_def printf_err_def)

lemma told_check: "std_err (said (snd (simc_check key force s))) = std_err (said s)
    @ ''cynagora_check('' @ addr s @ '' ,('' @ client key @ '','' @ session key @ '','' @ user key @ '','' @ permission key @ ''), ''
    @ dec_int (of_bool force) @ '')'' @ [LF]"
  by (simp add: simc_check_def say_def printf_err_def key_args_def conversion_def)

end
