(* ===== verification/Socket_Info.thy ===== *)
theory Socket_Info
  imports Prelude "HOL-Library.Word"
begin

text \<open>
  \<open>src/protocol/socket-info.c\<close>: what is known of the peer of a local socket. The function has no
  caller. What the kernel gives, the success of each \<open>strdup\<close> and the choice of the security module
  at compilation are arguments.
\<close>

record socket_info =
  si_uid :: "32 word"
  si_uid_str :: "string option"
  si_pid :: int
  si_label :: "string option"

definition strdup :: "bool \<Rightarrow> string \<Rightarrow> string option" where
  "strdup ok t = (if ok then Some t else None)"

definition socket_info_get ::
  "bool \<Rightarrow> (int + 32 word \<times> int) \<Rightarrow> bool \<Rightarrow> bool \<Rightarrow> socket_info \<Rightarrow> int \<times> socket_info" where
  "socket_info_get with_selinux peercred ok_label ok_uid i =
     (case peercred of
        Inl e \<Rightarrow> (- e, i)
      | Inr (u, p) \<Rightarrow>
          let i = i\<lparr>si_label := strdup ok_label (if with_selinux then ''LABELSOCKETSELINUX'' else ''LABELSOCKET'')\<rparr>;
              i = i\<lparr>si_uid := u, si_pid := p\<rparr>;
              i = i\<lparr>si_uid_str := strdup ok_uid []\<rparr>
          in if si_uid_str i = None then (- EINVAL, i) else (0, i))"

text \<open>
  Zero means that the identifiers are those of the peer; but the label, whose copy is not checked, is a
  NULL pointer when the memory is exhausted. With \<open>- EINVAL\<close> the label has been allocated.
\<close>

lemma socket_info_zero:
  "socket_info_get sl cred ok_label ok_uid i = (0, j) \<Longrightarrow> \<forall>e. cred = Inl e \<longrightarrow> e > 0 \<Longrightarrow>
     cred = Inr (si_uid j, si_pid j) \<and> si_uid_str j = Some [] \<and> (si_label j = None \<longleftrightarrow> \<not> ok_label)"
  by (auto simp: socket_info_get_def strdup_def Let_def split: sum.splits if_splits)

lemma socket_info_failure:
  "socket_info_get sl cred ok_label ok_uid i = (rc, j) \<Longrightarrow> \<forall>e. cred = Inl e \<longrightarrow> e > 0 \<Longrightarrow> rc \<noteq> 0 \<Longrightarrow>
     (\<exists>e. cred = Inl e \<and> rc = - e \<and> j = i) \<or> rc = - EINVAL \<and> \<not> ok_uid \<and> (ok_label \<longrightarrow> si_label j \<noteq> None)"
  by (auto simp: socket_info_get_def strdup_def Let_def split: sum.splits if_splits)

end
