(* ===== verification/Repo_Tests.thy ===== *)
theory Repo_Tests
  imports Remote_Install Selinux_Props
begin

text \<open>
  The assertions of \<open>src/tests\<close>, evaluated on the model: what the tests of the repository expect of
  the program holds of its definitions. The two assertions that the program does not satisfy
  (\<open>test-selinux.c\<close>) are at the end, with what the code does instead.
\<close>

section \<open>\<open>test-utils.c\<close>\<close>

definition std_gives :: "string \<Rightarrow> string \<Rightarrow> bool" where
  "std_gives p q \<longleftrightarrow> (case path_std (replicate 64 NUL) p of (n, buf) \<Rightarrow> cstr buf = q \<and> n = length q)"

abbreviation (input) suess :: string where
  "suess \<equiv> ''/s'' @ [CHR 0xC3, CHR 0xBC, CHR 0xC3, CHR 0x9F]"

lemma test_path_std:
  "list_all (\<lambda>(p, q). std_gives p q)
     [('''', ''.''), (''.'', ''.''), (''..'', ''.''), (''relative/path/..'', ''relative''), (''/.'', ''/''),
      (''/..'', ''/''), (''//pouet'', ''/pouet''), (''/../../pouet'', ''/pouet''),
      (''/////a///./b/..//////c//.'', ''/a/c''), (''/pouet/...'', ''/pouet/...''),
      (suess @ ''/unicode/..'', suess), (''./toto'', ''toto'')]"
  by code_simp

text \<open>A file that exists or not, is executable or not, is a directory or not.\<close>

definition looks :: "inode option \<Rightarrow> bool \<times> bool \<times> bool" where
  "looks i = fst (get_file_informations ''/t'' True \<lparr>fs = Map.empty(''/t'' := i), faults = []\<rparr>)"

lemma test_file_informations:
  "looks None = (False, False, False)"
  "looks (Some \<lparr>kind = FReg, xbit = False, content = [], xattrs = Map.empty\<rparr>) = (True, False, False)"
  "looks (Some \<lparr>kind = FReg, xbit = True, content = [], xattrs = Map.empty\<rparr>) = (True, True, False)"
  "looks (Some \<lparr>kind = FDir, xbit = x, content = [], xattrs = Map.empty\<rparr>) = (True, False, True)"
  by (simp_all add: looks_def get_file_informations_def get_path_property_nil find_inode_def eval_nat_numeral)

lemma test_remove_file:
  "fs w p \<noteq> None \<Longrightarrow> faults w = [] \<Longrightarrow>
     fst (remove_file p w) = 0 \<and> fst (remove_file p (snd (remove_file p w))) < 0"
  by (auto simp: remove_file_def sys_remove_def sys_nil)

section \<open>\<open>test-paths.c\<close>, \<open>test-permissions.c\<close>, \<open>test-plugs.c\<close>\<close>

definition no_files :: os where
  "no_files = \<lparr>fs = Map.empty, faults = []\<rparr>"

lemma test_path_set_add:
  "fst (path_set_add [] ''/test'' number_path_type no_files) = - EINVAL"
  "fst (path_set_add [] [] type_data no_files) = - EINVAL"
  "path_set_add [] ''/test'' type_data no_files = (0, [\<lparr>path_type = type_data, path = ''/test''\<rparr>], no_files)"
  "path_set_add s ''/test_slash/'' type_lib no_files = (0, s @ [\<lparr>path_type = type_lib, path = ''/test_slash/''\<rparr>], no_files)"
  "path_set_add s ''//'' type_data no_files = (0, s @ [\<lparr>path_type = type_data, path = ''//''\<rparr>], no_files)"
  by (simp_all add: path_set_add_def path_type_valid_iff sys_malloc_nil no_files_def)

lemma test_path_types:
  "filter path_type_is_valid all_path_types = butlast (tl all_path_types)"
  "map path_type_get [''default'', ''conf'', ''data'', ''exec'', ''http'', ''icon'', ''id'', ''lib'', ''public'']
     = [type_default, type_conf, type_data, type_exec, type_http, type_icon, type_id, type_lib, type_public]"
  "map path_type_get [''no'', ''co'', ''dat'', ''exe'', ''htt'', ''ico'', ''ip'', ''li'', ''pub'', ''zzzz'']
     = replicate 10 type_unset"
  "path_type_name type_unset = ''<unset>'' \<and> path_type_name number_path_type = ''invalid''"
  by (code_simp, code_simp, code_simp, simp)

lemma test_permission_set_add:
  "fst (permission_set_add permission_set_init ''perm'' no_files) = 0"
  "permissions (fst (snd (permission_set_add permission_set_init ''perm'' no_files))) = [''perm'']"
  "fst (permission_set_add \<lparr>permissions = [''perm''], slots = 8\<rparr> ''m'' no_files) < 0"
  "fst (permission_set_add \<lparr>permissions = [''perm''], slots = 8\<rparr> [] no_files) < 0"
  by code_simp+

lemma test_plugset_add:
  "(case plugset_add plugset_init ''/tmp/a'' ''xb'' ''/tmp/c'' no_files of (rc1, s, w) \<Rightarrow>
      case plugset_add s ''/tmp/u'' ''xv'' ''/tmp/w'' w of (rc2, s, w) \<Rightarrow> (rc1, rc2, s, plugset_clear s))
   = (0, 0, [\<lparr>expdir = ''/tmp/u'', impid = ''xv'', impdir = ''/tmp/w''\<rparr>,
             \<lparr>expdir = ''/tmp/a'', impid = ''xb'', impdir = ''/tmp/c''\<rparr>], [])"
  by code_simp

section \<open>\<open>test-context.c\<close>\<close>

definition tmp_files :: os where
  "tmp_files = \<lparr>fs = [''/tmp'' \<mapsto> demo_dir], faults = []\<rparr>"

abbreviation (input) fresh :: "nat ctx" where
  "fresh \<equiv> context_init demo_mem"

lemma test_context_set_id:
  "(case context_set_id fresh ''id'' of (rc, c) \<Rightarrow> (rc, context_id c, fst (context_set_id c ''id2''))) = (0, ''id'', - EEXIST)"
  "map (\<lambda>x. fst (context_set_id fresh x)) [''i'', [], ''id?bad/name''] = replicate 3 (- EINVAL)"
  "fst (context_set_id (context_raise_error fresh) ''id3'') = - ENOTRECOVERABLE"
  by code_simp+

lemma test_context_add_permission:
  "(case context_add_permission fresh ''perm'' no_files of (rc, c, w) \<Rightarrow>
      (rc, permissions (permission_set c), fst (context_add_permission c ''perm'' w),
       fst (context_add_permission (context_raise_error c) ''perm2'' w)))
   = (0, [''perm''], - EEXIST, - ENOTRECOVERABLE)"
  by code_simp

lemma test_context_add_path:
  "(case context_add_path fresh ''/tmp'' ''conf'' tmp_files of (rc, c, w) \<Rightarrow>
      (rc, path_set c, fst (context_add_path c ''/tmp3'' ''<unset>'' w),
       fst (context_add_path c ''/tmp'' ''data'' w), fst (context_add_path c ''/tmp'' ''conf'' w),
       fst (context_add_path (context_raise_error c) ''/tmp2'' ''conf'' w)))
   = (0, [\<lparr>path_type = type_conf, path = ''/tmp''\<rparr>], - EINVAL, - EEXIST, - EEXIST, - ENOTRECOVERABLE)"
  by code_simp

section \<open>\<open>test-prot.c\<close>\<close>

text \<open>The table \<open>data\<close>: what is written for the fields, and what is read from it.\<close>

definition prot_data :: "(string \<times> string list) list" where
  "prot_data =
     [(''first second third forth fifth'', [''first'', ''second'', ''third'', ''forth'', ''fifth'']),
      ('' second third  fifth'', ['''', ''second'', ''third'', '''', ''fifth'']),
      ([CHR 0x5C] @ ''  sec'' @ [CHR 0x5C] @ ''ond th'' @ [CHR 0x5C, LF] @ ''ird '' @ [CHR 0x5C] @ ''  fi''
         @ [CHR 0x5C] @ '' fth'' @ [CHR 0x5C, CHR 0x5C],
       ['' '', ''sec'' @ [CHR 0x5C] @ ''ond'', ''th'' @ [LF] @ ''ird'', '' '', ''fi fth'' @ [CHR 0x5C]])]"

lemma test_prot_write: "list_all (\<lambda>(txt, fields). encode fields = txt @ [LF]) prot_data"
  by code_simp

lemma test_prot_read: "list_all (\<lambda>(txt, fields). next_record (txt @ [LF]) = Some (fields, [])) prot_data"
  by code_simp

section \<open>\<open>test-smack-label.c\<close>, \<open>test-smack.c\<close>\<close>

lemma test_init_path_type_definitions:
  "map (\<lambda>t. label (init_path_type_definitions ''testid'' t))
     [type_conf, type_data, type_exec, type_http, type_icon, type_id, type_lib, type_public]
   = [''App:testid:Conf'', ''App:testid:Data'', ''App:testid:Exec'', ''App:testid:Http'', ''App:testid:Icon'',
      ''App:testid'', ''App:testid:Lib'', ''System:Shared'']"
  "filter (\<lambda>t. is_executable (init_path_type_definitions ''testid'' t)) all_path_types = [type_exec]"
  "filter (\<lambda>t. is_transmute (init_path_type_definitions ''testid'' t)) all_path_types
     = [type_data, type_http, type_id, type_lib, type_public]"
  by code_simp+

text \<open>The directories and the files of \<open>test_smack_install\<close>, created by \<open>create_file\<close>: executable.\<close>

definition smack_test_machine :: "(unit, int) machine" where
  "smack_test_machine =
     (let dir = demo_dir; reg = \<lparr>kind = FReg, xbit = True, content = [], xattrs = Map.empty\<rparr>
      in \<lparr>fs = [''/t/data'' \<mapsto> dir, ''/t/data/f'' \<mapsto> reg, ''/t/exec'' \<mapsto> dir, ''/t/exec/f'' \<mapsto> reg,
            ''/t/id'' \<mapsto> dir, ''/t/id/f'' \<mapsto> reg, ''/t/public'' \<mapsto> dir, ''/t/public/f'' \<mapsto> reg,
            ''/tpl'' \<mapsto> reg, ''/rules'' \<mapsto> dir],
          faults = [], cyn_state = \<lparr>handler = False, lib = ()\<rparr>, printed = [], mac_state = 0\<rparr>)"

definition smack_test_env :: smack_env where
  "smack_test_env = \<lparr>env_template_file = Some ''/tpl'', env_policy_dir = Some ''/rules''\<rparr>"

text \<open>\<open>context_add_path\<close> for each of them, the permissions and the identifier.\<close>

definition smack_test_ops :: "ctx_op list" where
  "smack_test_ops = map (\<lambda>(p, t). AddPath p t)
     [(''/t/data/'', ''data''), (''/t/data/f'', ''data''), (''/t/exec/'', ''exec''), (''/t/exec/f'', ''exec''),
      (''/t/id/'', ''id''), (''/t/id/f'', ''id''), (''/t/public/'', ''public''), (''/t/public/f'', ''public'')]
     @ [AddPermission ''perm1'', AddPermission ''perm2'', SetId ''testid'']"

definition smack_test_marks :: "('c, int) machine \<Rightarrow> (string \<times> string \<times> string) list \<Rightarrow> bool" where
  "smack_test_marks w ms \<longleftrightarrow> list_all (\<lambda>(p, a, v). attr_of w p a = Some v) ms"

lemma test_smack_install:
  "(case ctx_run smack_test_ops fresh smack_test_machine of (c, w) \<Rightarrow>
      case smack_install sim_smack smack_test_env c w of (rc, w1) \<Rightarrow>
        (rc, fst (fst (get_file_informations (snd (get_smack_rule_path smack_test_env (context_id c))) True w1)),
         smack_test_marks w1
          [(''/t/data'', ''security.SMACK64'', ''App:testid:Data''), (''/t/data'', ''security.SMACK64TRANSMUTE'', ''TRUE''),
           (''/t/data/f'', ''security.SMACK64'', ''App:testid:Data''), (''/t/exec'', ''security.SMACK64'', ''App:testid:Exec''),
           (''/t/exec/f'', ''security.SMACK64'', ''App:testid:Exec''), (''/t/exec/f'', ''security.SMACK64EXEC'', ''App:testid''),
           (''/t/id'', ''security.SMACK64'', ''App:testid''), (''/t/id'', ''security.SMACK64TRANSMUTE'', ''TRUE''),
           (''/t/id/f'', ''security.SMACK64'', ''App:testid''), (''/t/public'', ''security.SMACK64'', ''System:Shared''),
           (''/t/public'', ''security.SMACK64TRANSMUTE'', ''TRUE''), (''/t/public/f'', ''security.SMACK64'', ''System:Shared'')],
         fst (smack_uninstall sim_smack smack_test_env c w1)))
   = (0, True, True, 0)"
  by code_simp

section \<open>\<open>test-cynagora.c\<close>\<close>

text \<open>Over the library of the example, a database of rules.\<close>

lemma test_cynagora:
  "(let s = \<lparr>handler = False, lib = \<lparr>db_rules = [], db_draft = [], db_faults = []\<rparr>\<rparr>;
        ps = Some \<lparr>permissions = [''perm1'', ''perm2''], slots = 8\<rparr>;
        (rc1, s) = cynagora_set_policies db_cynagora ''testid'' ps False s;
        (rc2, got, s, w) = cynagora_get_policies db_cynagora ''testid'' s no_files;
        (rc3, s) = cynagora_drop_policies db_cynagora ''testid'' s;
        (rc4, left, s, w) = cynagora_get_policies db_cynagora ''testid'' s w
    in (rc1, rc2, rc3, rc4, set (permissions got) = {''perm1'', ''perm2''}, permissions left)) = (0, 0, 0, 0, True, [])"
  by code_simp

section \<open>What the tests of SELinux expect\<close>

text \<open>
  \<open>test_selinux_process_paths\<close> expects \<open>- ENOENT\<close> for the path \<open>bad_path\<close>, and labels with the
  whole identifier. The path is refused because it is not absolute, before the file is looked
  for; and only four characters of the identifier go to the labels, followed by what the
  array held.
\<close>

lemma test_selinux_bad_path: "fst (context_add_path fresh ''bad_path'' ''id'' no_files) = - EINVAL"
  by code_simp

lemma test_selinux_label:
  "object_label (trfid ''testid-binding'' (replicate 201 NUL) @ ''_t'') = ''system_u:object_r:test_t''"
  by code_simp

end
