(* ===== verification/Ensure_Dir.thy ===== *)
theory Ensure_Dir
  imports Prelude
begin

text \<open>
  \<open>ensure_directory\<close> of \<open>src/main-sec-lsm-managerd.c\<close>, which makes the directory of the
  sockets and those above it. The file system is the tree below the root, or below the working
  directory for a relative path: names lead to directories, to files or to symbolic links that
  lead nowhere, and the names \<open>.\<close> and \<open>..\<close> are not resolved. The loop may run for ever: then its
  value is \<open>None\<close>.
\<close>

section \<open>Directories\<close>

datatype dnode = DNDir int int | DNFile | DNDangling

record dirs =
  nodes :: "string list \<rightharpoonup> dnode"
  dir_faults :: "int list"
  dir_uid :: int
  dir_gid :: int

text \<open>The names of a path: those that are complete and the one that is read.\<close>

definition name_step :: "string list \<times> string \<Rightarrow> char \<Rightarrow> string list \<times> string" where
  "name_step d x = (if x = SLASH then (fst d @ (if snd d = [] then [] else [snd d]), []) else (fst d, snd d @ [x]))"

definition scan_names :: "string \<Rightarrow> string list \<times> string" where
  "scan_names p = foldl name_step ([], []) p"

definition names :: "string \<Rightarrow> string list" where
  "names p = fst (name_step (scan_names p) SLASH)"

text \<open>
  The walk to a name, given by the names from the last one up: zero, or the error met before the
  last name.
\<close>

fun walk :: "(string list \<rightharpoonup> dnode) \<Rightarrow> string list \<Rightarrow> int" where
  "walk t [] = 0"
| "walk t (x # rs) =
     (if walk t rs \<noteq> 0 then walk t rs
      else case t (rev rs) of
        None \<Rightarrow> ENOENT
      | Some (DNDir u g) \<Rightarrow> 0
      | Some DNFile \<Rightarrow> ENOTDIR
      | Some DNDangling \<Rightarrow> ENOENT)"

definition dir_fault :: "dirs \<Rightarrow> int \<times> dirs" where
  "dir_fault w = (case dir_faults w of [] \<Rightarrow> (0, w) | e # es \<Rightarrow> (max 0 e, w\<lparr>dir_faults := es\<rparr>))"

text \<open>
  \<open>mkdir\<close>: zero or the value of \<open>errno\<close>. A directory that could be made may be refused for another
  reason than a name that is missing or present.
\<close>

definition sys_mkdir :: "string \<Rightarrow> dirs \<Rightarrow> int \<times> dirs" where
  "sys_mkdir p w =
     (let k = names p; e = walk (nodes w) (rev k)
      in if p = [] then (ENOENT, w)
         else if e \<noteq> 0 then (e, w)
         else if nodes w k \<noteq> None then (EEXIST, w)
         else case dir_fault w of (e, w) \<Rightarrow>
           if e > 0 then (if e = ENOENT \<or> e = EEXIST then EACCES else e, w)
           else (0, w\<lparr>nodes := (nodes w)(k \<mapsto> DNDir (dir_uid w) (dir_gid w))\<rparr>))"

text \<open>\<open>stat\<close>: the node reached or the value of \<open>errno\<close>.\<close>

definition dir_stat :: "string \<Rightarrow> dirs \<Rightarrow> int + dnode" where
  "dir_stat p w =
     (let k = names p; e = walk (nodes w) (rev k)
      in if p = [] then Inl ENOENT
         else if e \<noteq> 0 then Inl e
         else case nodes w k of None \<Rightarrow> Inl ENOENT | Some DNDangling \<Rightarrow> Inl ENOENT | Some n \<Rightarrow> Inr n)"

text \<open>\<open>chown\<close> of a directory; an identifier that is not positive is left as it is.\<close>

definition sys_chown :: "string \<Rightarrow> int \<Rightarrow> int \<Rightarrow> dirs \<Rightarrow> int \<times> dirs" where
  "sys_chown p uid gid w =
     (case dir_fault w of (e, w) \<Rightarrow>
        if e > 0 then (- 1, w)
        else (0, case nodes w (names p) of
                 Some (DNDir u g) \<Rightarrow> w\<lparr>nodes := (nodes w)(names p \<mapsto>
                   DNDir (if uid < 0 then u else uid) (if gid < 0 then g else gid))\<rparr>
               | _ \<Rightarrow> w))"

section \<open>Making directories\<close>

text \<open>
  \<open>enddir\<close>: the loops over slashes and over the characters of a name. \<open>i\<close> is the position of the
  text that remains, \<open>c\<close> and \<open>r\<close> are the variables of the code.
\<close>

fun end_slashes :: "string \<Rightarrow> nat \<Rightarrow> nat option \<Rightarrow> nat option \<Rightarrow> nat option"
  and end_name :: "string \<Rightarrow> nat \<Rightarrow> nat option \<Rightarrow> nat option" where
  "end_slashes [] i c r = r"
| "end_slashes (x # s) i c r = (if x = SLASH then end_slashes s (i + 1) c r else end_name s (i + 1) c)"
| "end_name [] i r = r"
| "end_name (x # s) i r = (if x = SLASH then end_slashes s (i + 1) (Some i) r else end_name s (i + 1) r)"

definition enddir :: "string \<Rightarrow> nat option" where
  "enddir p = end_slashes p 0 None None"

definition set_owner :: "string \<Rightarrow> int \<Rightarrow> int \<Rightarrow> dirs \<Rightarrow> int \<times> dirs" where
  "set_owner p uid gid w =
     (case dir_stat p w of
        Inl e \<Rightarrow> (- 1, w)
      | Inr DNFile \<Rightarrow> (- 1, w)
      | Inr DNDangling \<Rightarrow> (- 1, w)
      | Inr (DNDir u g) \<Rightarrow>
          if uid \<noteq> u \<and> uid \<ge> 0 \<or> gid \<noteq> g \<and> gid \<ge> 0 then
            (case sys_chown p uid gid w of (rc, w) \<Rightarrow> if rc < 0 then (- 1, w) else (0, w))
          else (0, w))"

text \<open>The path is cut in its memory by NULs, which are slashes again on the way down.\<close>

partial_function (option) ensuredir :: "nat \<Rightarrow> int \<Rightarrow> int \<Rightarrow> nat \<Rightarrow> string \<Rightarrow> dirs \<Rightarrow> (int \<times> dirs) option" where
  "ensuredir len uid gid n mem w =
     (let mem = mem[n := NUL]; p = cstr mem
      in case sys_mkdir p w of (e, w) \<Rightarrow>
        if e = 0 \<or> e = EEXIST then
          if n = len then Some (set_owner p uid gid w)
          else let mem = mem[n := SLASH] in ensuredir len uid gid (length (cstr mem)) mem w
        else if e = ENOENT then
          (case enddir p of None \<Rightarrow> Some (- 1, w) | Some n \<Rightarrow> ensuredir len uid gid n mem w)
        else Some (- 1, w))"

definition ensure_directory :: "string \<Rightarrow> int \<Rightarrow> int \<Rightarrow> dirs \<Rightarrow> (int \<times> dirs) option" where
  "ensure_directory path uid gid w =
     (if int (length path) > INT_MAX then Some (- 1, w)
      else ensuredir (length path) uid gid (length path) (path @ [NUL]) w)"

section \<open>Names and positions\<close>

lemma scan_names_Nil [simp]: "scan_names [] = ([], [])"
  by (simp add: scan_names_def)

lemma scan_names_snoc: "scan_names (q @ [x]) = name_step (scan_names q) x"
  by (simp add: scan_names_def)

lemma names_Nil [simp]: "names [] = []"
  by (simp add: names_def name_step_def)

text \<open>After a slash, or at the start, no name is being read.\<close>

abbreviation between :: "string \<Rightarrow> bool" where "between q \<equiv> snd (scan_names q) = []"

lemma names_slash [simp]: "names (q @ [SLASH]) = names q" "between (q @ [SLASH])"
  by (simp_all add: names_def scan_names_snoc name_step_def)

lemma names_char:
  assumes "x \<noteq> SLASH"
  shows "\<not> between (q @ [x])" "fst (scan_names (q @ [x])) = fst (scan_names q)"
    "butlast (names (q @ [x])) = fst (scan_names q)" "names (q @ [x]) \<noteq> []"
  using assms by (simp_all add: names_def scan_names_snoc name_step_def butlast_append)

lemma names_between: "between q \<Longrightarrow> names q = fst (scan_names q)"
  by (simp add: names_def name_step_def)

lemma names_within: "\<not> between q \<Longrightarrow> butlast (names q) = fst (scan_names q)"
  by (simp add: names_def name_step_def butlast_append)

text \<open>A position that ends the directory part of a path.\<close>

definition cut_at :: "string \<Rightarrow> nat option \<Rightarrow> string list \<Rightarrow> bool" where
  "cut_at q c k \<longleftrightarrow> (case c of
     None \<Rightarrow> k = []
   | Some n \<Rightarrow> k \<noteq> [] \<and> n < length q \<and> q ! n = SLASH \<and> take n q \<noteq> [] \<and> names (take n q) = k)"

lemma cut_at_snoc: "cut_at q c k \<Longrightarrow> cut_at (q @ [x]) c k"
  by (auto simp: cut_at_def nth_append split: option.splits)

lemma enddir_loops:
  "between q \<Longrightarrow> cut_at q c (names q) \<Longrightarrow> cut_at q r (butlast (names q)) \<Longrightarrow>
     cut_at (q @ s) (end_slashes s (length q) c r) (butlast (names (q @ s)))"
  "\<not> between q \<Longrightarrow> cut_at q r (butlast (names q)) \<Longrightarrow>
     cut_at (q @ s) (end_name s (length q) r) (butlast (names (q @ s)))"
proof (induction s "length q" c r and s "length q" r arbitrary: q and q rule: end_slashes_end_name.induct)
  case (2 x s c r)
  show ?case
  proof (cases "x = SLASH")
    case True
    then show ?thesis using "2.hyps"(1)[of "q @ [x]"] "2.prems" cut_at_snoc by simp
  next
    case False
    then show ?thesis
      using "2.hyps"(2)[of "q @ [x]"] "2.prems" cut_at_snoc[of q c _ x] by (simp add: names_char names_between)
  qed
next
  case (4 x s r)
  show ?case
  proof (cases "x = SLASH")
    case True
    have "names q \<noteq> []" "q \<noteq> []" using "4.prems"(1) by (auto simp: names_def name_step_def)
    then have "cut_at (q @ [x]) (Some (length q)) (names (q @ [x]))" using True by (simp add: cut_at_def)
    then show ?thesis using True "4.hyps"(1)[of "q @ [x]"] "4.prems" cut_at_snoc by simp
  next
    case False
    then show ?thesis
      using "4.hyps"(2)[of "q @ [x]"] "4.prems" cut_at_snoc[of q r _ x] by (simp add: names_char names_within)
  qed
qed simp_all

lemma enddir_cut: "cut_at p (enddir p) (butlast (names p))"
  using enddir_loops(1)[of "[]" None None p] by (simp add: enddir_def cut_at_def)

section \<open>The memory of the path\<close>

text \<open>The path with NULs at some positions.\<close>

definition cutmem :: "string \<Rightarrow> nat set \<Rightarrow> string" where
  "cutmem p K = map (\<lambda>i. if i \<in> K \<or> i \<ge> length p then NUL else p ! i) [0..<length p + 1]"

lemma cutmem_start: "p @ [NUL] = cutmem p {length p}"
  by (rule nth_equalityI) (auto simp: cutmem_def nth_append)

lemma cutmem_nul: "n \<le> length p \<Longrightarrow> (cutmem p K)[n := NUL] = cutmem p (insert n K)"
  by (rule nth_equalityI) (auto simp: cutmem_def nth_list_update simp del: upt_Suc)

lemma cutmem_slash:
  "n < length p \<Longrightarrow> p ! n = SLASH \<Longrightarrow> n \<notin> K \<Longrightarrow> (cutmem p (insert n K))[n := SLASH] = cutmem p K"
  by (rule nth_equalityI) (auto simp: cutmem_def nth_list_update simp del: upt_Suc)

lemma cutmem_cstr:
  assumes "no_nul p" "n \<in> K" "n \<le> length p" "\<forall>k\<in>K. n \<le> k"
  shows "cstr (cutmem p K) = take n p"
proof -
  have "takeWhile (\<lambda>x. x \<noteq> NUL) (cutmem p K) = take n (cutmem p K)"
  proof (rule takeWhile_eq_take_P_nth)
    fix i assume i: "i < n" "i < length (cutmem p K)"
    moreover from i have "i \<notin> K" using assms(4) by force
    moreover from i have "p ! i \<noteq> NUL" using assms(1,3) nth_mem[of i p] unfolding no_nul_def by fastforce
    ultimately show "cutmem p K ! i \<noteq> NUL" using assms(3) by (simp add: cutmem_def del: upt_Suc)
  next
    assume "n < length (cutmem p K)"
    then show "\<not> cutmem p K ! n \<noteq> NUL" using assms(2) by (simp add: cutmem_def del: upt_Suc)
  qed
  also have "take n (cutmem p K) = take n p"
    using assms(3,4) by (intro nth_equalityI) (auto simp: cutmem_def simp del: upt_Suc)
  finally show ?thesis by (simp add: cstr_def)
qed

section \<open>Correctness\<close>

text \<open>The root is a directory and what exists is in directories; no link of the path is dangling.\<close>

definition tree :: "string list \<Rightarrow> dirs \<Rightarrow> bool" where
  "tree k w \<longleftrightarrow> (\<exists>u g. nodes w [] = Some (DNDir u g)) \<and> (\<forall>j. nodes w (take j k) \<noteq> Some DNDangling)"

text \<open>Nothing prevents the making of the directories.\<close>

definition makeable :: "string list \<Rightarrow> dirs \<Rightarrow> bool" where
  "makeable k w \<longleftrightarrow> dir_faults w = [] \<and> (\<forall>j. nodes w (take j k) \<noteq> Some DNFile)"

definition dir_owned :: "string list \<Rightarrow> int \<Rightarrow> int \<Rightarrow> dirs \<Rightarrow> bool" where
  "dir_owned k uid gid w \<longleftrightarrow> (\<exists>u g. nodes w k = Some (DNDir u g) \<and> (uid \<ge> 0 \<longrightarrow> u = uid) \<and> (gid \<ge> 0 \<longrightarrow> g = gid))"

text \<open>The result of the making of the directory of names \<open>k\<close>.\<close>

definition ensured :: "string list \<Rightarrow> int \<Rightarrow> int \<Rightarrow> bool \<Rightarrow> (int \<times> dirs) option \<Rightarrow> bool" where
  "ensured k uid gid good r \<longleftrightarrow> (\<exists>rc w. r = Some (rc, w) \<and> (rc = 0 \<and> dir_owned k uid gid w \<or> rc = - 1 \<and> \<not> good))"

lemma dir_fault_cases:
  assumes "dir_fault w = (e, v)"
  shows "nodes v = nodes w" "dir_faults w = [] \<Longrightarrow> e = 0 \<and> v = w" "e \<ge> 0"
  using assms by (auto simp: dir_fault_def split: list.splits)

lemma set_owner_ensured:
  assumes "tree (names p) w" "p \<noteq> []" "makeable (names p) w \<Longrightarrow> dir_stat p w \<noteq> Inl ENOENT \<and> walk (nodes w) (rev (names p)) = 0"
  shows "ensured (names p) uid gid (makeable (names p) w) (Some (set_owner p uid gid w))"
proof (cases "dir_stat p w")
  case (Inl e)
  then have "\<not> makeable (names p) w" using assms(3) by (auto simp: dir_stat_def Let_def split: if_splits option.splits dnode.splits)
  then show ?thesis using Inl by (simp add: set_owner_def ensured_def)
next
  case (Inr n)
  then have n: "nodes w (names p) = Some n" "n \<noteq> DNDangling"
    by (auto simp: dir_stat_def Let_def split: if_splits option.splits dnode.splits)
  show ?thesis
  proof (cases n)
    case (DNDir u g)
    obtain e v where f: "dir_fault w = (e, v)" by fastforce
    note fc = dir_fault_cases[OF f]
    show ?thesis
      using Inr n DNDir f fc(1,3)
      by (cases "e > 0") (auto simp: set_owner_def ensured_def sys_chown_def dir_owned_def makeable_def dest: fc(2))
  next
    case DNFile
    then have "\<not> makeable (names p) w" using n by (auto simp: makeable_def intro: exI[of _ "length (names p)"])
    then show ?thesis using Inr DNFile by (simp add: set_owner_def ensured_def)
  qed (use n in simp)
qed

lemma walk_range: "walk t rs = 0 \<or> walk t rs = ENOENT \<or> walk t rs = ENOTDIR"
  by (induction rs) (auto split: option.split dnode.split)

lemma walk_notdir: "walk t rs = ENOTDIR \<Longrightarrow> \<exists>j. t (take j (rev rs)) = Some DNFile"
proof (induction rs)
  case (Cons x rs)
  show ?case
  proof (cases "walk t rs = 0")
    case True
    then have "t (take (length rs) (rev (x # rs))) = Some DNFile" using Cons.prems by (auto split: option.splits dnode.splits)
    then show ?thesis ..
  next
    case False
    then obtain j where j: "t (take j (rev rs)) = Some DNFile" using Cons by auto
    have "take j (rev rs) = take (min j (length rs)) (rev (x # rs))" by (cases "j \<le> length rs") simp_all
    then show ?thesis using j by metis
  qed
qed simp

lemma walk_upd: "length rs \<le> length j \<Longrightarrow> walk (t(j \<mapsto> d)) rs = walk t rs"
  by (induction rs) auto

lemma take_take_ex: "\<exists>i. take j (take l k) = take i k"
  by (metis take_take)

text \<open>What a call of \<open>mkdir\<close> on a part of the path does, by the walk to it.\<close>

lemma sys_mkdir_step:
  assumes t: "tree k w" and q: "q \<noteq> []" "names q = take l k" and m: "sys_mkdir q w = (e, v)"
    and e0: "walk (nodes w) (rev (names q)) \<noteq> ENOENT"
  shows "e \<noteq> ENOENT" and "tree k v" and "makeable k w \<Longrightarrow> makeable k v \<and> (e = 0 \<or> e = EEXIST)"
    and "e = 0 \<or> e = EEXIST \<Longrightarrow> walk (nodes v) (rev (names q)) = 0 \<and> nodes v (names q) \<noteq> None"
proof -
  obtain f u where f: "dir_fault w = (f, u)" by fastforce
  note fc = dir_fault_cases[OF f]
  consider (bad) "walk (nodes w) (rev (names q)) = ENOTDIR" "e = ENOTDIR" "v = w"
    | (exists) "walk (nodes w) (rev (names q)) = 0" "nodes w (names q) \<noteq> None" "e = EEXIST" "v = w"
    | (fault) "walk (nodes w) (rev (names q)) = 0" "f > 0" "e \<noteq> 0" "e \<noteq> ENOENT" "e \<noteq> EEXIST" "v = u"
    | (made) "walk (nodes w) (rev (names q)) = 0" "nodes w (names q) = None" "e = 0"
        "v = u\<lparr>nodes := (nodes u)(names q \<mapsto> DNDir (dir_uid u) (dir_gid u))\<rparr>"
    using m q(1) e0 f fc(3) walk_range[of "nodes w" "rev (names q)"]
    by (auto simp: sys_mkdir_def Let_def split: if_splits)
  note cases = this
  have nofile: "walk (nodes w) (rev (names q)) \<noteq> ENOTDIR" if g: "makeable k w"
    using walk_notdir[of "nodes w" "rev (names q)"] g take_take_ex[of _ l k] unfolding makeable_def q(2)
    by (metis rev_rev_ident)
  show "e \<noteq> ENOENT" using cases by cases simp_all
  show "tree k v" using cases t fc(1) by cases (auto simp: tree_def)
  show "makeable k v \<and> (e = 0 \<or> e = EEXIST)" if "makeable k w"
    using cases nofile[OF that] that fc(2) by cases (auto simp: makeable_def)
  show "walk (nodes v) (rev (names q)) = 0 \<and> nodes v (names q) \<noteq> None" if "e = 0 \<or> e = EEXIST"
    using cases that fc(1) by cases (auto simp: walk_upd)
qed

text \<open>The positions where the path is cut, from the one in use to the end of the path.\<close>

fun chain :: "string \<Rightarrow> nat list \<Rightarrow> bool" where
  "chain p [] \<longleftrightarrow> False"
| "chain p [n] \<longleftrightarrow> n = length p"
| "chain p (a # b # ks) \<longleftrightarrow> a < b \<and> p ! a = SLASH \<and> take a p \<noteq> [] \<and> names (take b p) \<noteq> []
     \<and> names (take a p) = butlast (names (take b p)) \<and> chain p (b # ks)"

lemma chain_bounds: "chain p (n # ks) \<Longrightarrow> n \<le> length p \<and> (\<forall>k\<in>set ks. n < k) \<and> (ks = [] \<longleftrightarrow> n = length p)"
proof (induction p "n # ks" arbitrary: n ks rule: chain.induct)
  case (3 p a b ks)
  then show ?case by (auto simp: less_le_trans)
qed simp

lemma chain_prefix: "chain p (n # ks) \<Longrightarrow> \<exists>j. names (take n p) = take j (names p)"
proof (induction p "n # ks" arbitrary: n ks rule: chain.induct)
  case (2 p n)
  then show ?case by (metis chain.simps(2) order_refl take_all)
next
  case (3 p a b ks)
  then obtain j where "names (take b p) = take j (names p)" by auto
  then show ?case using "3.prems" by (metis butlast_conv_take chain.simps(3) take_take)
qed

lemma chain_nonempty: "chain p (n # ks) \<Longrightarrow> p \<noteq> [] \<Longrightarrow> take n p \<noteq> []"
  by (cases ks) auto

lemma chain_cstr: "chain p (n # ks) \<Longrightarrow> no_nul p \<Longrightarrow> cstr (cutmem p (set (n # ks))) = take n p"
  using chain_bounds[of p n ks] by (intro cutmem_cstr) auto

lemma ensured_mono: "ensured k u g b r \<Longrightarrow> (b' \<Longrightarrow> b) \<Longrightarrow> ensured k u g b' r"
  by (auto simp: ensured_def)

text \<open>Once a part of the path can be walked to, the loop goes down to its end.\<close>

lemma ensuredir_down:
  assumes "chain p (n # ks)" "insert n K = set (n # ks)" "no_nul p" "p \<noteq> []"
    and "tree (names p) w" "walk (nodes w) (rev (names (take n p))) \<noteq> ENOENT"
  shows "ensured (names p) uid gid (makeable (names p) w) (ensuredir (length p) uid gid n (cutmem p K) w)"
  using assms
proof (induction ks arbitrary: n K w)
  case Nil
  have n: "n = length p" using Nil.prems(1) by simp
  obtain e v where m: "sys_mkdir p w = (e, v)" by fastforce
  have l: "names p = take (length (names p)) (names p)" by simp
  note step = sys_mkdir_step[OF Nil.prems(5,4) l m] 
  have w0: "walk (nodes w) (rev (names p)) \<noteq> ENOENT" using Nil.prems(6) n by simp
  have "(cutmem p K)[n := NUL] = cutmem p (set [n])" using cutmem_nul[of n p K] n unfolding Nil.prems(2) by simp
  then have c: "cstr ((cutmem p K)[n := NUL]) = p" using chain_cstr[OF Nil.prems(1,3)] n by simp
  have "ensuredir (length p) uid gid n (cutmem p K) w = Some (if e = 0 \<or> e = EEXIST then set_owner p uid gid v else (- 1, v))"
    using m n c step(1)[OF w0] by (subst ensuredir.simps) (simp add: Let_def)
  moreover have "ensured (names p) uid gid (makeable (names p) w) (Some (set_owner p uid gid v))" if "e = 0 \<or> e = EEXIST"
  proof (rule ensured_mono[OF set_owner_ensured])
    show "tree (names p) v" "p \<noteq> []" using step(2)[OF w0] Nil.prems(4) by simp_all
    show "makeable (names p) v" if "makeable (names p) w" using step(3)[OF w0 that] by simp
    have s: "walk (nodes v) (rev (names p)) = 0" "nodes v (names p) \<noteq> None" using step(4)[OF w0 that] by simp_all
    moreover have "nodes v (names p) \<noteq> Some DNDangling" using step(2)[OF w0] l unfolding tree_def by metis
    ultimately show "dir_stat p v \<noteq> Inl ENOENT \<and> walk (nodes v) (rev (names p)) = 0"
      using Nil.prems(4) by (auto simp: dir_stat_def split: option.split dnode.split)
  qed
  ultimately show ?case using step(3)[OF w0] by (auto simp: ensured_def)
next
  case (Cons b ks)
  note ch = Cons.prems(1)
  obtain j where j: "names (take n p) = take j (names p)" using chain_prefix[OF ch] by blast
  have q: "take n p \<noteq> []" using chain_nonempty[OF ch Cons.prems(4)] .
  obtain e v where m: "sys_mkdir (take n p) w = (e, v)" by fastforce
  note step = sys_mkdir_step[OF Cons.prems(5) q j m Cons.prems(6)]
  have n: "n < length p" "n \<notin> set (b # ks)" "n \<noteq> length p" using chain_bounds[OF ch] by auto
  have mem: "(cutmem p K)[n := NUL] = cutmem p (set (n # b # ks))"
    using cutmem_nul[of n p K] n(1) Cons.prems(2) by simp
  have mem': "(cutmem p (set (n # b # ks)))[n := SLASH] = cutmem p (set (b # ks))"
    using cutmem_slash[of n p "set (b # ks)"] n ch by simp
  have ch': "chain p (b # ks)" using ch by simp
  have run: "ensuredir (length p) uid gid n (cutmem p K) w =
      (if e = 0 \<or> e = EEXIST then ensuredir (length p) uid gid b (cutmem p (set (b # ks))) v else Some (- 1, v))"
    using m n(3) step(1) chain_cstr[OF ch Cons.prems(3)] chain_cstr[OF ch' Cons.prems(3)] chain_bounds[OF ch']
    by (subst ensuredir.simps) (simp add: Let_def mem mem' del: list.set)
  show ?case
  proof (cases "e = 0 \<or> e = EEXIST")
    case False
    then show ?thesis using run step(3) by (auto simp: ensured_def)
  next
    case True
    note s = step(4)[OF True]
    have "nodes v (names (take n p)) \<noteq> Some DNDangling" using step(2) j unfolding tree_def by metis
    moreover have r: "rev (names (take b p)) = last (names (take b p)) # rev (names (take n p))"
      using ch by (cases "names (take b p)" rule: rev_cases) simp_all
    ultimately have "walk (nodes v) (rev (names (take b p))) \<noteq> ENOENT"
      using s unfolding r by (auto split: option.split dnode.split)
    then have "ensured (names p) uid gid (makeable (names p) v) (ensuredir (length p) uid gid b (cutmem p (set (b # ks))) v)"
      using Cons.IH[OF ch' _ Cons.prems(3,4) step(2)] by (simp add: insert_absorb)
    then show ?thesis using run True step(3) by (auto intro: ensured_mono)
  qed
qed

text \<open>From any position, up to a part that exists and then down.\<close>

lemma ensuredir_up:
  assumes "chain p (n # ks)" "insert n K = set (n # ks)" "no_nul p" "p \<noteq> []" "tree (names p) w"
  shows "ensured (names p) uid gid (makeable (names p) w) (ensuredir (length p) uid gid n (cutmem p K) w)"
  using assms(1,2)
proof (induction n arbitrary: ks K rule: less_induct)
  case (less n)
  note ch = less.prems(1)
  show ?case
  proof (cases "walk (nodes w) (rev (names (take n p))) = ENOENT")
    case False
    then show ?thesis using ensuredir_down[OF less.prems assms(3-5)] by simp
  next
    case True
    have q: "take n p \<noteq> []" using chain_nonempty[OF ch assms(4)] .
    have m: "sys_mkdir (take n p) w = (ENOENT, w)" using True by (simp add: sys_mkdir_def Let_def)
    have mem: "(cutmem p K)[n := NUL] = cutmem p (set (n # ks))"
      using cutmem_nul[of n p K] chain_bounds[OF ch] unfolding less.prems(2) by simp
    have run: "ensuredir (length p) uid gid n (cutmem p K) w = (case enddir (take n p) of None \<Rightarrow> Some (- 1, w)
        | Some m \<Rightarrow> ensuredir (length p) uid gid m (cutmem p (set (n # ks))) w)"
      using m chain_cstr[OF ch assms(3)] by (subst ensuredir.simps) (simp add: Let_def mem del: list.set)
    have deep: "butlast (names (take n p)) \<noteq> []"
    proof
      assume "butlast (names (take n p)) = []"
      then have "rev (names (take n p)) = [] \<or> (\<exists>x. rev (names (take n p)) = [x])"
        by (metis append_butlast_last_id append_Nil rev_singleton_conv rev_is_Nil_conv)
      then have "walk (nodes w) (rev (names (take n p))) = 0" using assms(5) by (auto simp: tree_def)
      then show False using True by simp
    qed
    note cut = enddir_cut[of "take n p"]
    obtain m where e: "enddir (take n p) = Some m" using cut deep by (cases "enddir (take n p)") (auto simp: cut_at_def)
    have mn: "m < n" "m < length p" and sl: "p ! m = SLASH" and ne: "take m p \<noteq> []"
      and nm: "names (take m p) = butlast (names (take n p))"
      using cut e by (auto simp: cut_at_def min_def split: if_splits)
    have "chain p (m # n # ks)" using ch mn sl ne nm deep by auto
    then show ?thesis using less.IH[OF mn(1), of "n # ks" "set (n # ks)"] run e by simp
  qed
qed

text \<open>
  C36: \<open>ensure_directory\<close> always returns when no link of the path is dangling. When it returns
  zero the path is a directory that belongs to the user and group asked for; when nothing stands
  in the way, no file in the place of a directory and no failure of the system, it returns zero.
\<close>

theorem ensure_directory_makes:
  assumes "no_nul path" and "int (length path) \<le> INT_MAX" and "tree (names path) w"
  shows "ensured (names path) uid gid (path \<noteq> [] \<and> makeable (names path) w) (ensure_directory path uid gid w)"
proof (cases "path = []")
  case True
  then show ?thesis
    by (simp add: ensure_directory_def ensuredir.simps[of 0] sys_mkdir_def cstr_def enddir_def ensured_def)
next
  case False
  have "ensured (names path) uid gid (makeable (names path) w)
      (ensuredir (length path) uid gid (length path) (cutmem path {length path}) w)"
    using ensuredir_up[of path "length path" "[]" "{length path}"] assms False by simp
  then show ?thesis using assms(2) False by (simp add: ensure_directory_def cutmem_start)
qed

theorem ensure_directory_makes_witness:
  "let w = \<lparr>nodes = [[] \<mapsto> DNDir 0 0, [''run''] \<mapsto> DNDir 0 0], dir_faults = [], dir_uid = 0, dir_gid = 0\<rparr>;
       p = ''/run/slm//sock''
   in no_nul p \<and> int (length p) \<le> INT_MAX \<and> tree (names p) w \<and> makeable (names p) w \<and>
      names p = [''run'', ''slm'', ''sock''] \<and>
      (\<exists>v. ensure_directory p 1000 (- 1) w = Some (0, v) \<and> dir_owned [''run'', ''slm'', ''sock''] 1000 (- 1) v)"
proof -
  let ?w = "\<lparr>nodes = [[] \<mapsto> DNDir 0 0, [''run''] \<mapsto> DNDir 0 0], dir_faults = [], dir_uid = 0, dir_gid = 0\<rparr>"
  have n: "names ''/run/slm//sock'' = [''run'', ''slm'', ''sock'']" by (simp add: names_def scan_names_def name_step_def)
  have h: "no_nul ''/run/slm//sock''" "int (length ''/run/slm//sock'') \<le> INT_MAX" by (simp_all add: no_nul_def)
  have t: "tree (names ''/run/slm//sock'') ?w" "makeable (names ''/run/slm//sock'') ?w"
    by (simp_all add: n tree_def makeable_def)
  show ?thesis
    using ensure_directory_makes[OF h t(1), of 1000 "- 1"] h t n by (auto simp: ensured_def Let_def)
qed

text \<open>
  With a dangling link in the place of a directory the loop runs for ever: the link exists, what
  is below it can not be made.
\<close>

lemma dangling_link_loops:
  assumes w: "nodes w [] = Some (DNDir u g)" "nodes w [''l''] = Some DNDangling"
  shows "ensure_directory ''/l/d'' uid gid w = None"
proof -
  let ?m = "''/l/d'' @ [NUL]"
  have n: "names ''/l/d'' = [''l'', ''d'']" "names ''/l'' = [''l'']" by (simp_all add: names_def scan_names_def name_step_def)
  have mk: "sys_mkdir ''/l/d'' w = (ENOENT, w)" "sys_mkdir ''/l'' w = (EEXIST, w)"
    using w by (simp_all add: sys_mkdir_def n)
  have ed: "enddir ''/l/d'' = Some 2" by (simp add: enddir_def)
  have "\<not> ((n = 4 \<or> n = 2) \<and> mem = ?m \<and> len = 4 \<and> v = w)" if "ensuredir len uid gid n mem v = Some r" for len n mem v r
  proof (rule ensuredir.raw_induct[OF _ that, of "\<lambda>len _ _ n mem v r. \<not> ((n = 4 \<or> n = 2) \<and> mem = ?m \<and> len = 4 \<and> v = w)"], rule notI, goal_cases)
    case (1 f len i j n mem v r)
    then have at: "n = 4 \<or> n = 2" "mem = ?m" "len = 4" "v = w" by simp_all
    have "f 4 i j (6 - n) ?m w = Some r"
      using 1(2) at mk ed by (auto simp: cstr_def numeral_eq_Suc)
    then show False using 1(1)[of 4 i j "6 - n" ?m w r] at(1) by auto
  qed
  then have "ensuredir 4 uid gid 4 ?m w = None" by (metis not_None_eq)
  then show ?thesis by (simp add: ensure_directory_def numeral_eq_Suc)
qed

end
