(* ===== verification/Socket.thy ===== *)
theory Socket
  imports Prelude
begin

text \<open>
  \<open>src/protocol/socket.c\<close>: opening of a socket by its specification. The state is what the kernel
  keeps: the failures to come, the next descriptor, the descriptors open, and the calls that had
  an effect, in order. The resolver of names and the sockets of systemd are parameters. A call
  that fails returns \<open>- 1\<close> and sets \<open>errno\<close>, which is part of the state.
\<close>

section \<open>The kernel\<close>

text \<open>The bytes of a local address; an address of the resolver.\<close>

datatype 'a sockaddr = LocalAddr string | InetAddr 'a

datatype 'a net_call =
    NetBind int "'a sockaddr"
  | NetConnect int "'a sockaddr"
  | NetUnlink string
  | NetCloexec int
  | NetNonblock int
  | NetReuse int
  | NetListen int int

record 'a net =
  net_faults :: "int list"
  net_errno :: int
  next_fd :: int
  open_fds :: "int list"
  calls :: "'a net_call list"

text \<open>The error of the next call, zero when it succeeds.\<close>

definition net_fault :: "'a net \<Rightarrow> int \<times> 'a net" where
  "net_fault w = (case net_faults w of
     [] \<Rightarrow> (0, w)
   | e # es \<Rightarrow> if e > 0 then (e, w\<lparr>net_faults := es, net_errno := e\<rparr>) else (0, w\<lparr>net_faults := es\<rparr>))"

definition net_socket :: "'a net \<Rightarrow> int \<times> 'a net" where
  "net_socket w = (case net_fault w of (e, w) \<Rightarrow>
     if e > 0 then (- 1, w) else (next_fd w, w\<lparr>next_fd := next_fd w + 1, open_fds := next_fd w # open_fds w\<rparr>))"

definition net_do :: "'a net_call \<Rightarrow> 'a net \<Rightarrow> int \<times> 'a net" where
  "net_do c w = (case net_fault w of (e, w) \<Rightarrow> if e > 0 then (- 1, w) else (0, w\<lparr>calls := calls w @ [c]\<rparr>))"

definition net_close :: "int \<Rightarrow> 'a net \<Rightarrow> 'a net" where
  "net_close fd w = w\<lparr>open_fds := removeAll fd (open_fds w)\<rparr>"

text \<open>A server binds its socket, a client connects it.\<close>

definition attach :: "int \<Rightarrow> int \<Rightarrow> 'a sockaddr \<Rightarrow> 'a net_call" where
  "attach srv fd a = (if srv \<noteq> 0 then NetBind fd a else NetConnect fd a)"

text \<open>A call whose result is ignored.\<close>

definition net_try :: "'a net_call \<Rightarrow> 'a net \<Rightarrow> 'a net" where
  "net_try c w = snd (net_do c w)"

definition net_fail :: "int \<Rightarrow> 'a net \<Rightarrow> int \<times> 'a net" where
  "net_fail e w = (- 1, w\<lparr>net_errno := e\<rparr>)"

section \<open>Kinds of specifications\<close>

datatype sock_type = Type_Inet | Type_Systemd | Type_Unix

record entry =
  entry_prefix :: string
  entry_type :: sock_type
  noreuseaddr :: bool
  nolisten :: bool

definition entries :: "entry list" where
  "entries =
     [\<lparr>entry_prefix = ''unix:'', entry_type = Type_Unix, noreuseaddr = False, nolisten = False\<rparr>,
      \<lparr>entry_prefix = ''tcp:'', entry_type = Type_Inet, noreuseaddr = False, nolisten = False\<rparr>,
      \<lparr>entry_prefix = ''sd:'', entry_type = Type_Systemd, noreuseaddr = True, nolisten = True\<rparr>]"

text \<open>From the last entry down; the first one without prefix when none fits.\<close>

fun get_entry_loop :: "string \<Rightarrow> nat \<Rightarrow> entry \<times> nat" where
  "get_entry_loop uri 0 = (entries ! 0, 0)"
| "get_entry_loop uri (Suc i) =
     (let l = length (entry_prefix (entries ! i))
      in if take l uri = entry_prefix (entries ! i) then (entries ! i, l) else get_entry_loop uri i)"

definition get_entry :: "string \<Rightarrow> entry \<times> nat" where
  "get_entry uri = get_entry_loop uri (length entries)"

section \<open>Opening\<close>

abbreviation (input) sizeof_sun_path :: nat where "sizeof_sun_path \<equiv> 108"

text \<open>The path with its final NUL, or with a NUL first and no final one for an abstract socket.\<close>

definition unix_addr :: "string \<Rightarrow> string" where
  "unix_addr spec = (if rd spec 0 = CHR ''@'' then NUL # tl spec else spec @ [NUL])"

definition open_unix :: "string \<Rightarrow> int \<Rightarrow> 'a net \<Rightarrow> int \<times> 'a net" where
  "open_unix spec srv w =
     (if length spec \<ge> sizeof_sun_path then net_fail ENAMETOOLONG w
      else case net_socket w of (fd, w) \<Rightarrow>
        if fd < 0 then (fd, w)
        else
          let w = (if srv \<noteq> 0 \<and> rd spec 0 \<noteq> CHR ''@'' then net_try (NetUnlink spec) w else w)
          in case net_do (attach srv fd (LocalAddr (unix_addr spec))) w of (rc, w) \<Rightarrow>
            if rc < 0 then (rc, net_close fd w) else (fd, w))"

text \<open>The loop over the addresses.\<close>

fun open_addrs :: "int \<Rightarrow> 'a list \<Rightarrow> 'a net \<Rightarrow> int \<times> 'a net" where
  "open_addrs srv [] w = (- 1, w)"
| "open_addrs srv (a # as) w =
     (case net_socket w of (fd, w) \<Rightarrow>
        if fd \<ge> 0 then
          (case net_do (attach srv fd (InetAddr a)) w of (rc, w) \<Rightarrow>
             if rc = 0 then (fd, w) else open_addrs srv as (net_close fd w))
        else open_addrs srv as w)"

text \<open>
  The host is before the first colon, the service after it, up to the first slash. \<open>resolver\<close> is
  \<open>getaddrinfo\<close>.
\<close>

definition open_tcp :: "(string \<Rightarrow> string \<Rightarrow> 'a list option) \<Rightarrow> string \<Rightarrow> int \<Rightarrow> 'a net \<Rightarrow> int \<times> 'a net" where
  "open_tcp resolver spec srv w =
     (let host = takeWhile (\<lambda>c. c \<noteq> CHR '':'') spec; tail = takeWhile (\<lambda>c. c \<noteq> CHR ''/'') spec
      in if length host = length spec \<or> length tail < length host then net_fail EINVAL w
         else case resolver host (drop (length host + 1) tail) of
           None \<Rightarrow> net_fail EINVAL w
         | Some as \<Rightarrow> open_addrs srv as w)"

abbreviation (input) SD_LISTEN_FDS_START :: int where "SD_LISTEN_FDS_START \<equiv> 3"

definition is_digit :: "char \<Rightarrow> bool" where
  "is_digit c \<longleftrightarrow> (48::int) \<le> of_char c \<and> of_char c \<le> (57::int)"

text \<open>\<open>atoi\<close> on a text that starts with a digit, for the numbers of an \<open>int\<close>.\<close>

fun atoi_loop :: "int \<Rightarrow> string \<Rightarrow> int" where
  "atoi_loop v [] = v"
| "atoi_loop v (c # s) = (if is_digit c then atoi_loop (10 * v + (of_char c - 48)) s else v)"

text \<open>The last socket of that name.\<close>

fun named_fd :: "string \<Rightarrow> string list \<Rightarrow> int \<Rightarrow> int \<Rightarrow> int" where
  "named_fd spec [] c fd = fd"
| "named_fd spec (n # ns) c fd = named_fd spec ns (c + 1) (if n = spec then SD_LISTEN_FDS_START + c else fd)"

text \<open>\<open>names\<close> is what \<open>sd_listen_fds_with_names\<close> gives: an error, or the names of the sockets.\<close>

definition open_systemd :: "(int + string list) \<Rightarrow> string \<Rightarrow> 'a net \<Rightarrow> int \<times> 'a net" where
  "open_systemd names spec w =
     (case (case names of Inl e \<Rightarrow> (- 1, w\<lparr>net_errno := e\<rparr>) | Inr ns \<Rightarrow> (named_fd spec ns 0 (- 1), w)) of (fd, w) \<Rightarrow>
        if fd < 0 \<and> is_digit (rd spec 0) then (SD_LISTEN_FDS_START + atoi_loop 0 spec, w) else (fd, w))"

definition socket_open ::
  "(string \<Rightarrow> string \<Rightarrow> 'a list option) \<Rightarrow> (int + string list) \<Rightarrow> string \<Rightarrow> int \<Rightarrow> 'a net \<Rightarrow> int \<times> 'a net" where
  "socket_open resolver names uri srv w =
     (case get_entry uri of (e, offset) \<Rightarrow>
      case (case entry_type e of
              Type_Unix \<Rightarrow> open_unix (drop offset uri) srv w
            | Type_Inet \<Rightarrow> open_tcp resolver (drop offset uri) srv w
            | Type_Systemd \<Rightarrow> (if srv \<noteq> 0 then open_systemd names (drop offset uri) w else net_fail EINVAL w)) of (fd, w) \<Rightarrow>
        if fd < 0 then (- 1, w)
        else
          let w = net_try (NetNonblock fd) (net_try (NetCloexec fd) w);
              w = (if srv \<noteq> 0 \<and> \<not> noreuseaddr e then net_try (NetReuse fd) w else w);
              w = (if srv \<noteq> 0 \<and> \<not> nolisten e then net_try (NetListen fd srv) w else w)
          in (fd, w))"

section \<open>What an opening leaves\<close>

text \<open>Descriptors of the process are numbered below the next one.\<close>

definition net_ok :: "'a net \<Rightarrow> bool" where
  "net_ok w \<longleftrightarrow> 0 \<le> next_fd w \<and> (\<forall>fd\<in>set (open_fds w). fd < next_fd w)"

text \<open>
  The contract of an opening: on success one more descriptor is open, and among the calls done one
  has attached it to an address that satisfies \<open>P\<close>, by \<open>bind\<close> for a server and \<open>connect\<close> for a client;
  on failure the descriptors are those of before.
\<close>

definition opened :: "int \<Rightarrow> ('a sockaddr \<Rightarrow> bool) \<Rightarrow> 'a net \<Rightarrow> int \<times> 'a net \<Rightarrow> bool" where
  "opened srv P w r \<longleftrightarrow>
     net_ok (snd r) \<and> (\<exists>new. calls (snd r) = calls w @ new \<and>
     (if fst r < 0 then fst r = - 1 \<and> open_fds (snd r) = open_fds w
      else fst r \<notin> set (open_fds w) \<and> open_fds (snd r) = fst r # open_fds w \<and>
        (\<exists>a. P a \<and> (if srv \<noteq> 0 then NetBind (fst r) a else NetConnect (fst r) a) \<in> set new)))"

lemma net_fault_frame:
  assumes "net_fault w = (e, w')"
  shows "open_fds w' = open_fds w" "next_fd w' = next_fd w" "calls w' = calls w" "net_ok w' = net_ok w"
  using assms by (auto simp: net_fault_def net_ok_def split: list.splits if_splits)

lemma net_do_cases:
  assumes "net_do c w = (rc, w')"
  obtains "rc = - 1" "calls w' = calls w" | "rc = 0" "calls w' = calls w @ [c]"
  using assms by (auto simp: net_do_def net_fault_def split: list.splits if_splits)

lemma net_do_frame:
  assumes "net_do c w = (rc, w')"
  shows "open_fds w' = open_fds w" "next_fd w' = next_fd w" "net_ok w' = net_ok w"
  using assms by (auto simp: net_do_def net_fault_def net_ok_def split: list.splits if_splits)

lemma net_try_frame [simp]:
  "open_fds (net_try c w) = open_fds w" "next_fd (net_try c w) = next_fd w" "net_ok (net_try c w) = net_ok w"
  using net_do_frame[of c w] by (metis net_try_def prod.collapse)+

lemma net_try_calls: "\<exists>more. calls (net_try c w) = calls w @ more"
  by (cases "net_do c w") (auto simp: net_try_def elim: net_do_cases)

lemma net_socket_cases:
  assumes "net_socket w = (fd, w')" and "net_ok w"
  obtains "fd = - 1" "open_fds w' = open_fds w" "net_ok w'" "calls w' = calls w"
  | "0 \<le> fd" "fd \<notin> set (open_fds w)" "open_fds w' = fd # open_fds w" "net_ok w'" "calls w' = calls w"
proof (cases "net_fault w")
  case (Pair e v)
  note frame = net_fault_frame[OF Pair]
  show ?thesis
  proof (cases "e > 0")
    case True
    then show ?thesis using that(1) assms Pair frame by (auto simp: net_socket_def)
  next
    case False
    then have "fd = next_fd w" "w' = v\<lparr>next_fd := next_fd v + 1, open_fds := next_fd v # open_fds v\<rparr>"
      using assms(1) Pair frame by (auto simp: net_socket_def)
    then show ?thesis using that(2) assms(2) frame by (force simp: net_ok_def)
  qed
qed

text \<open>A fresh descriptor whose attachment failed is closed again.\<close>

lemma net_close_fresh:
  assumes "open_fds w' = fd # open_fds w" "fd \<notin> set (open_fds w)" "net_ok w'"
  shows "open_fds (net_close fd w') = open_fds w" "net_ok (net_close fd w')" "calls (net_close fd w') = calls w'"
  using assms by (auto simp: net_close_def net_ok_def removeAll_id)

lemma open_unix_opened:
  fixes w :: "'a net"
  assumes "net_ok w"
  shows "opened srv (\<lambda>a. a = LocalAddr (if \<exists>n. spec = CHR ''@'' # n then NUL # tl spec else spec @ [NUL])) w (open_unix spec srv w)"
proof (cases "length spec \<ge> 108")
  case True
  then show ?thesis using assms by (simp add: open_unix_def net_fail_def opened_def net_ok_def)
next
  case False
  obtain fd v where s: "net_socket w = (fd, v)" by fastforce
  define u where "u = (if srv \<noteq> 0 \<and> rd spec 0 \<noteq> CHR ''@'' then net_try (NetUnlink spec) v else v)"
  have ua: "unix_addr spec = (if \<exists>n. spec = CHR ''@'' # n then NUL # tl spec else spec @ [NUL])"
    by (cases spec) (auto simp: unix_addr_def rd_def)
  define c where "c = attach srv fd (LocalAddr (unix_addr spec) :: 'a sockaddr)"
  obtain rc x where d: "net_do c u = (rc, x)" by fastforce
  have u: "open_fds u = open_fds v" "net_ok u = net_ok v" by (simp_all add: u_def)
  have "\<exists>mu. calls u = calls v @ mu" using net_try_calls[of "NetUnlink spec" v] by (simp add: u_def)
  then obtain mu where mu: "calls u = calls v @ mu" by blast
  note f = net_do_frame[OF d]
  have e: "open_unix spec srv w = (if fd < 0 then (fd, v) else if rc < 0 then (rc, net_close fd x) else (fd, x))"
    using False s d by (simp add: open_unix_def c_def u_def Let_def)
  show ?thesis
    using s assms
  proof (cases rule: net_socket_cases)
    case 1
    then show ?thesis by (simp add: e opened_def)
  next
    case 2
    have x: "open_fds x = fd # open_fds w" "net_ok x" using 2 f u by simp_all
    note close = net_close_fresh[OF x(1) 2(2) x(2)]
    show ?thesis
      using d by (cases rule: net_do_cases) (use 2 x close mu ua in \<open>auto simp: e opened_def c_def attach_def\<close>)
  qed
qed

lemma opened_mono:
  assumes "opened srv P w r" and "\<And>a. P a \<Longrightarrow> Q a"
  shows "opened srv Q w r"
  using assms unfolding opened_def by metis

lemma open_addrs_opened:
  "net_ok w \<Longrightarrow> opened srv (\<lambda>a. a \<in> InetAddr ` set as) w (open_addrs srv as w)"
proof (induction as arbitrary: w)
  case Nil
  then show ?case by (simp add: opened_def)
next
  case (Cons a as)
  obtain fd v where s: "net_socket w = (fd, v)" by fastforce
  let ?c = "attach srv fd (InetAddr a)"
  obtain rc x where d: "net_do ?c v = (rc, x)" by fastforce
  have rec: "opened srv (\<lambda>b. b \<in> InetAddr ` set (a # as)) w (open_addrs srv as y)"
    if y: "open_fds y = open_fds w" "net_ok y" "calls y = calls w" for y
  proof -
    have "opened srv (\<lambda>b. b \<in> InetAddr ` set (a # as)) y (open_addrs srv as y)"
      using opened_mono[OF Cons.IH[OF y(2)]] by simp
    then show ?thesis unfolding opened_def y(1,3) .
  qed
  have e: "open_addrs srv (a # as) w = (if fd \<ge> 0 then if rc = 0 then (fd, x) else open_addrs srv as (net_close fd x)
      else open_addrs srv as v)"
    using s d by simp
  show ?case
    using s Cons.prems
  proof (cases rule: net_socket_cases)
    case 1
    then show ?thesis unfolding e using rec by simp
  next
    case 2
    have x: "open_fds x = fd # open_fds w" "net_ok x" using 2 net_do_frame[OF d] by simp_all
    show ?thesis
      using d
    proof (cases rule: net_do_cases)
      case c: 1
      then show ?thesis
        using 2 rec[OF net_close_fresh(1,2)[OF x(1) 2(2) x(2)]] net_close_fresh(3)[OF x(1) 2(2) x(2)] unfolding e by simp
    next
      case c: 2
      then show ?thesis using 2 x unfolding e by (auto simp: opened_def attach_def)
    qed
  qed
qed

text \<open>The addresses of a host and a service, given as \<open>host:service\<close>, what follows a slash being ignored.\<close>

definition tcp_addr :: "(string \<Rightarrow> string \<Rightarrow> 'a list option) \<Rightarrow> string \<Rightarrow> 'a sockaddr \<Rightarrow> bool" where
  "tcp_addr resolver spec a \<longleftrightarrow> (\<exists>host service rest as. spec = host @ CHR '':'' # service @ rest
     \<and> CHR '':'' \<notin> set host \<and> CHR ''/'' \<notin> set host \<and> CHR ''/'' \<notin> set service \<and> (rest = [] \<or> hd rest = CHR ''/'')
     \<and> resolver host service = Some as \<and> a \<in> InetAddr ` set as)"

lemma takeWhile_shorter: "x \<in> set xs \<Longrightarrow> \<not> P x \<Longrightarrow> length (takeWhile P xs) < length xs"
  by (induction xs) auto

lemma open_tcp_opened:
  assumes "net_ok w"
  shows "opened srv (tcp_addr resolver spec) w (open_tcp resolver spec srv w)"
proof -
  let ?host = "takeWhile (\<lambda>c. c \<noteq> CHR '':'') spec" and ?tail = "takeWhile (\<lambda>c. c \<noteq> CHR ''/'') spec"
  have named: "tcp_addr resolver spec a"
    if "length ?host \<noteq> length spec" "\<not> length ?tail < length ?host"
      "resolver ?host (drop (length ?host + 1) ?tail) = Some as" "a \<in> InetAddr ` set as" for as a
  proof -
    have "?host \<noteq> spec" using that(1) by metis
    then have "dropWhile (\<lambda>c. c \<noteq> CHR '':'') spec \<noteq> []" by (metis append_Nil2 takeWhile_dropWhile_id)
    then obtain x u where xu: "dropWhile (\<lambda>c. c \<noteq> CHR '':'') spec = x # u" by (cases "dropWhile (\<lambda>c. c \<noteq> CHR '':'') spec") auto
    then have "x = CHR '':''" using hd_dropWhile[of "\<lambda>c. c \<noteq> CHR '':''" spec] by simp
    then have u: "dropWhile (\<lambda>c. c \<noteq> CHR '':'') spec = CHR '':'' # u" using xu by simp
    then have sp: "spec = ?host @ CHR '':'' # u" by (metis takeWhile_dropWhile_id)
    have noc: "CHR '':'' \<notin> set ?host" by (auto dest: set_takeWhileD)
    have nos: "CHR ''/'' \<notin> set ?host"
    proof
      assume a: "CHR ''/'' \<in> set ?host"
      then have "length (takeWhile (\<lambda>c. c \<noteq> CHR ''/'') ?host) < length ?host"
        by (rule takeWhile_shorter) simp
      moreover have "?tail = takeWhile (\<lambda>c. c \<noteq> CHR ''/'') ?host" by (subst sp) (use a in auto)
      ultimately show False using that(2) by simp
    qed
    let ?s = "takeWhile (\<lambda>c. c \<noteq> CHR ''/'') u" and ?r = "dropWhile (\<lambda>c. c \<noteq> CHR ''/'') u"
    have t: "?tail = ?host @ CHR '':'' # ?s" by (subst sp, subst takeWhile_append2) (use nos in auto)
    have "resolver ?host ?s = Some as" using that(3) unfolding t by simp
    moreover have "spec = ?host @ CHR '':'' # ?s @ ?r" using sp by simp
    moreover have "?r = [] \<or> hd ?r = CHR ''/''" using hd_dropWhile[of "\<lambda>c. c \<noteq> CHR ''/''" u] by blast
    moreover have "CHR ''/'' \<notin> set ?s" by (auto dest: set_takeWhileD)
    ultimately show ?thesis using noc nos that(4) unfolding tcp_addr_def by blast
  qed
  have fail: "opened srv P w (net_fail EINVAL w)" for P :: "'a sockaddr \<Rightarrow> bool"
    using assms by (simp add: net_fail_def opened_def net_ok_def)
  show ?thesis
    using assms fail named by (auto simp: open_tcp_def Let_def split: option.splits intro!: opened_mono[OF open_addrs_opened])
qed

text \<open>The setting up of an opened socket changes neither descriptors nor attachment.\<close>

lemma opened_try:
  "opened srv P w (fd, v) \<Longrightarrow> fd \<ge> 0 \<Longrightarrow> opened srv P w (fd, net_try c v)"
proof -
  assume o: "opened srv P w (fd, v)" and fd: "fd \<ge> 0"
  obtain more where "calls (net_try c v) = calls v @ more" using net_try_calls by blast
  moreover obtain new a where "calls v = calls w @ new" "P a"
    "(if srv \<noteq> 0 then NetBind fd a else NetConnect fd a) \<in> set new"
    using o fd by (cases "srv = 0") (auto simp: opened_def)
  ultimately have "calls (net_try c v) = calls w @ (new @ more)"
    "\<exists>a. P a \<and> (if srv \<noteq> 0 then NetBind fd a else NetConnect fd a) \<in> set (new @ more)"
    by auto
  then show ?thesis using o fd unfolding opened_def by (auto simp del: append_assoc)
qed

text \<open>
  The addresses that a specification names: those of the host and the service after \<open>tcp:\<close>; the
  path after \<open>unix:\<close> or without prefix, with its final NUL, or the abstract name after \<open>@\<close>.
\<close>

definition spec_addr :: "(string \<Rightarrow> string \<Rightarrow> 'a list option) \<Rightarrow> string \<Rightarrow> 'a sockaddr \<Rightarrow> bool" where
  "spec_addr resolver uri a \<longleftrightarrow>
     (if prefix ''tcp:'' uri then tcp_addr resolver (drop 4 uri) a
      else \<exists>p. (if prefix ''unix:'' uri then uri = ''unix:'' @ p else uri = p)
        \<and> a = LocalAddr (if \<exists>n. p = CHR ''@'' # n then NUL # tl p else p @ [NUL]))"

lemma take_prefix: "take (length p) uri = p \<longleftrightarrow> prefix p uri"
  by (metis append_eq_conv_conj append_take_drop_id prefix_def)

lemma spec_addr_eq:
  "spec_addr resolver uri a \<longleftrightarrow>
     (if take 4 uri = ''tcp:'' then tcp_addr resolver (drop 4 uri) a
      else a = LocalAddr (let p = (if take 5 uri = ''unix:'' then drop 5 uri else uri)
        in if \<exists>n. p = CHR ''@'' # n then NUL # tl p else p @ [NUL]))"
proof -
  have t: "take 4 uri = ''tcp:'' \<longleftrightarrow> prefix ''tcp:'' uri" "take 5 uri = ''unix:'' \<longleftrightarrow> prefix ''unix:'' uri"
    using take_prefix[of "''tcp:''" uri] take_prefix[of "''unix:''" uri] by (simp_all add: numeral_eq_Suc)
  have u: "uri = ''unix:'' @ p \<longleftrightarrow> p = drop 5 uri" if "prefix ''unix:'' uri" for p
    using that by (auto simp: prefix_def)
  show ?thesis
  proof (cases "prefix ''unix:'' uri")
    case True
    then show ?thesis using True by (simp only: spec_addr_def t Let_def if_True u simp_thms ex_simps)
  next
    case False
    then show ?thesis using False by (simp only: spec_addr_def t Let_def if_False simp_thms)
  qed
qed

lemma get_entry_eq:
  "get_entry uri =
     (if take 3 uri = ''sd:'' then (entries ! 2, 3)
      else if take 4 uri = ''tcp:'' then (entries ! 1, 4)
      else if take 5 uri = ''unix:'' then (entries ! 0, 5) else (entries ! 0, 0))"
  by (simp add: get_entry_def entries_def numeral_eq_Suc)

text \<open>
  C35: \<open>socket_open\<close>, for a \<open>unix:\<close>, a \<open>tcp:\<close> or an unprefixed specification: when it returns a
  descriptor, this one is new, is the only one opened and was bound (server) or connected (client)
  to an address that the specification names: one that the resolver gives for the host before the
  first colon and the service between it and the first slash, or the local address of the path, of
  the abstract name when it starts with \<open>@\<close>; when it returns \<open>- 1\<close>, after any failure of the
  system, every descriptor that it opened has been closed.
\<close>

theorem socket_open_attached:
  assumes "net_ok w" and "take 3 uri \<noteq> ''sd:''"
  shows "opened srv (spec_addr resolver uri) w (socket_open resolver names uri srv w)"
proof -
  define e where "e = (if take 4 uri = ''tcp:'' then entries ! 1 else entries ! 0)"
  define r where "r = (if take 4 uri = ''tcp:'' then open_tcp resolver (drop 4 uri) srv w
      else open_unix (if take 5 uri = ''unix:'' then drop 5 uri else uri) srv w)"
  define finish where "finish = (\<lambda>fd v. let v = net_try (NetNonblock fd) (net_try (NetCloexec fd) v);
              v = (if srv \<noteq> 0 \<and> \<not> noreuseaddr e then net_try (NetReuse fd) v else v)
          in if srv \<noteq> 0 \<and> \<not> nolisten e then net_try (NetListen fd srv) v else (v :: 'a net))"
  have o: "opened srv (spec_addr resolver uri) w r"
    using opened_mono[OF open_tcp_opened[OF assms(1)]] opened_mono[OF open_unix_opened[OF assms(1)]]
    by (simp add: r_def spec_addr_eq Let_def)
  have "socket_open resolver names uri srv w = (if fst r < 0 then (- 1, snd r) else (fst r, finish (fst r) (snd r)))"
    using assms(2)
    by (simp add: socket_open_def get_entry_eq entries_def r_def e_def finish_def Let_def split: prod.split)
  moreover have "opened srv P w (fd, finish fd v)" if "opened srv P w (fd, v)" "fd \<ge> 0" for P fd v
    using that by (cases "srv = 0") (simp_all add: finish_def Let_def opened_try)
  ultimately show ?thesis
    using o by (cases "fst r < 0") (simp_all add: opened_def[of _ _ _ "(- 1, snd r)"] opened_def[of _ _ _ r])
qed

definition demo_net :: "nat net" where
  "demo_net = \<lparr>net_faults = [0, 2, 0, 0, 0, 22], net_errno = 0, next_fd = 5, open_fds = [2, 1, 0], calls = []\<rparr>"

definition demo_resolver :: "string \<Rightarrow> string \<Rightarrow> nat list option" where
  "demo_resolver host service = (if host = ''host'' \<and> service = ''80'' then Some [7] else None)"

text \<open>A server on a path, with an old file that is not there, and a client of a host.\<close>

theorem socket_open_attached_witness:
  "(let r = socket_open demo_resolver (Inr []) ''/run/slm'' 8 demo_net
    in opened 8 (spec_addr demo_resolver ''/run/slm'') demo_net r \<and> fst r = 5 \<and>
       NetBind 5 (LocalAddr (''/run/slm'' @ [NUL])) \<in> set (calls (snd r)))
   \<and> (let r = socket_open demo_resolver (Inr []) ''tcp:host:80/x'' 0 (demo_net\<lparr>net_faults := []\<rparr>)
    in opened 0 (spec_addr demo_resolver ''tcp:host:80/x'') (demo_net\<lparr>net_faults := []\<rparr>) r \<and> fst r = 5 \<and>
       NetConnect 5 (InetAddr 7) \<in> set (calls (snd r)))"
proof -
  have ok: "net_ok demo_net" "net_ok (demo_net\<lparr>net_faults := []\<rparr>)" by (simp_all add: net_ok_def demo_net_def)
  have calls: "fst (socket_open demo_resolver (Inr []) ''/run/slm'' 8 demo_net) = 5"
    "NetBind 5 (LocalAddr (''/run/slm'' @ [NUL])) \<in> set (calls (snd (socket_open demo_resolver (Inr []) ''/run/slm'' 8 demo_net)))"
    "fst (socket_open demo_resolver (Inr []) ''tcp:host:80/x'' 0 (demo_net\<lparr>net_faults := []\<rparr>)) = 5"
    "NetConnect 5 (InetAddr 7) \<in> set (calls (snd (socket_open demo_resolver (Inr []) ''tcp:host:80/x'' 0 (demo_net\<lparr>net_faults := []\<rparr>))))"
    by code_simp+
  show ?thesis
    using socket_open_attached[OF ok(1), of "''/run/slm''" 8 demo_resolver "Inr []"]
      socket_open_attached[OF ok(2), of "''tcp:host:80/x''" 0 demo_resolver "Inr []"] calls
    by (simp add: Let_def)
qed

end
