(* ===== verification/Daemon.thy ===== *)
theory Daemon
  imports Ensure_Dir Server Socket
begin

text \<open>
  \<open>src/main-sec-lsm-managerd.c\<close>: the start of the daemon. The results of \<open>getopt_long\<close>, the
  databases of users and groups and the sockets passed by systemd are arguments. The state is
  the directories, the failures to come of the calls that change privileges and the calls done,
  in order. A start ends by an exit with a status or by the serving of requests.
\<close>

section \<open>State\<close>

datatype priv_call =
    Keepcaps bool
  | Setgroups "32 word list"
  | Setgid "32 word"
  | Setuid "32 word"
  | Capset
  | Ambient nat

record proc =
  pdirs :: dirs
  priv_faults :: "bool list"
  priv_calls :: "priv_call list"

definition priv :: "priv_call \<Rightarrow> proc \<Rightarrow> bool \<times> proc" where
  "priv c d = (case priv_faults d of
     True # r \<Rightarrow> (False, d\<lparr>priv_faults := r\<rparr>)
   | r \<Rightarrow> (True, d\<lparr>priv_faults := drop 1 r, priv_calls := priv_calls d @ [c]\<rparr>))"

section \<open>Options\<close>

datatype daemon_opt =
    Opt_Group string
  | Opt_Groups string
  | Opt_DHelp
  | Opt_Keepgoing
  | Opt_Log
  | Opt_Makesockdir
  | Opt_Offline
  | Opt_Ownsockdir
  | Opt_Shutoff string
  | Opt_Socketdir string
  | Opt_User string
  | Opt_DVersion
  | Opt_Unknown

record daemon_opts =
  makesockdir :: bool
  ownsockdir :: bool
  flog :: bool
  keepgoing :: bool
  dhelp :: bool
  dversion :: bool
  derror :: bool
  offli :: bool
  shutoff :: "string option"
  socketdir :: "string option"
  user :: "string option"
  group :: "string option"
  groups :: "string option"

definition no_opts :: daemon_opts where
  "no_opts = \<lparr>makesockdir = False, ownsockdir = False, flog = False, keepgoing = False, dhelp = False, dversion = False,
     derror = False, offli = False, shutoff = None, socketdir = None, user = None, group = None, groups = None\<rparr>"

definition set_opt :: "daemon_opt \<Rightarrow> daemon_opts \<Rightarrow> daemon_opts" where
  "set_opt x f = (case x of
     Opt_Group v \<Rightarrow> f\<lparr>group := Some v\<rparr>
   | Opt_Groups v \<Rightarrow> f\<lparr>groups := Some v\<rparr>
   | Opt_DHelp \<Rightarrow> f\<lparr>dhelp := True\<rparr>
   | Opt_Keepgoing \<Rightarrow> f\<lparr>keepgoing := True\<rparr>
   | Opt_Log \<Rightarrow> f\<lparr>flog := True\<rparr>
   | Opt_Makesockdir \<Rightarrow> f\<lparr>makesockdir := True\<rparr>
   | Opt_Offline \<Rightarrow> f\<lparr>offli := True\<rparr>
   | Opt_Ownsockdir \<Rightarrow> f\<lparr>ownsockdir := True\<rparr>
   | Opt_Shutoff v \<Rightarrow> f\<lparr>shutoff := Some v\<rparr>
   | Opt_Socketdir v \<Rightarrow> f\<lparr>socketdir := Some v\<rparr>
   | Opt_User v \<Rightarrow> f\<lparr>user := Some v\<rparr>
   | Opt_DVersion \<Rightarrow> f\<lparr>dversion := True\<rparr>
   | Opt_Unknown \<Rightarrow> f\<lparr>derror := True\<rparr>)"

text \<open>The number written by a text, or \<open>- 1\<close>.\<close>

fun isid_loop :: "string \<Rightarrow> int \<Rightarrow> int" where
  "isid_loop [] v = (if v \<le> INT_MAX then v else - 1)"
| "isid_loop (x # s) v =
     (if v < INT_MAX then if \<not> is_digit x then - 1 else isid_loop s (10 * v + (of_char x - 48))
      else if v \<le> INT_MAX then v else - 1)"

definition isid :: "string \<Rightarrow> int" where
  "isid s = isid_loop s 0"

abbreviation (input) SHUTOFF_TIME :: int where "SHUTOFF_TIME \<equiv> 180"

text \<open>The shut-off time, or \<open>None\<close> when it is refused.\<close>

definition shutoff_time :: "string option \<Rightarrow> int option" where
  "shutoff_time sh = (case sh of
     None \<Rightarrow> Some SHUTOFF_TIME
   | Some t \<Rightarrow>
       if t = ''never'' then Some (- 1)
       else
         let soff = isid (if rd t 0 = CHR ''-'' then tl t else t)
         in if soff < 0 then None else if rd t 0 = CHR ''-'' then Some (- 1) else Some soff)"

abbreviation (input) SYSTEMD_NAME :: string where "SYSTEMD_NAME \<equiv> ''sec-lsm-manager''"

text \<open>\<open>socks\<close> is what \<open>sd_listen_fds_with_names\<close> gives, \<open>dup_ok\<close> and \<open>print_ok\<close> tell
  whether the allocations succeed.\<close>

definition socket_spec :: "(int + string list) \<Rightarrow> bool \<Rightarrow> bool \<Rightarrow> string \<Rightarrow> string option" where
  "socket_spec socks dup_ok print_ok dir =
     (if (case socks of Inl e \<Rightarrow> False | Inr ns \<Rightarrow> SYSTEMD_NAME \<in> set ns) \<and> dup_ok then Some (''sd:'' @ SYSTEMD_NAME)
      else if print_ok then Some (''unix:'' @ dir @ ''/'' @ ''sec-lsm-manager.socket'') else None)"

text \<open>The number of a group given by its number or by its name, converted as the code does.\<close>

definition group_id :: "(string \<Rightarrow> 32 word option) \<Rightarrow> string \<Rightarrow> int option" where
  "group_id getgrnam g = (if isid g < 0 then map_option sint (getgrnam g) else Some (isid g))"

text \<open>The user and its group, then the group.\<close>

definition user_ids :: "(string \<Rightarrow> (32 word \<times> 32 word) option) \<Rightarrow> string option \<Rightarrow> (int \<times> int) option" where
  "user_ids getpwnam u = (case u of
     None \<Rightarrow> Some (- 1, - 1)
   | Some u \<Rightarrow> if isid u < 0 then map_option (\<lambda>(a, b). (sint a, sint b)) (getpwnam u) else Some (isid u, - 1))"

definition main_gid :: "(string \<Rightarrow> 32 word option) \<Rightarrow> string option \<Rightarrow> int \<Rightarrow> int option" where
  "main_gid getgrnam g gid = (case g of None \<Rightarrow> Some gid | Some g \<Rightarrow> group_id getgrnam g)"

abbreviation (input) SUPL_GROUPS_MAX :: nat where "SUPL_GROUPS_MAX \<equiv> 10"

definition group_delim :: "char \<Rightarrow> bool" where
  "group_delim x \<longleftrightarrow> x = CHR '','' \<or> x = SPACE"

text \<open>The loop over the supplementary groups: what remains starts with no delimiter.\<close>

function groups_loop :: "(string \<Rightarrow> 32 word option) \<Rightarrow> string \<Rightarrow> 32 word list \<Rightarrow> 32 word list option" where
  "groups_loop getgrnam curg gids =
     (if curg = [] \<or> length gids \<ge> SUPL_GROUPS_MAX then Some gids
      else
        let cur = takeWhile (\<lambda>x. \<not> group_delim x) curg;
            nxtg = drop (length cur + 1) curg
        in case group_id getgrnam cur of
             None \<Rightarrow> None
           | Some g \<Rightarrow> groups_loop getgrnam (dropWhile group_delim nxtg) (gids @ [word_of_int g]))"
  by pat_completeness auto
termination
proof (relation "measure (\<lambda>(f, s, g). length s)")
  fix f curg cur nxtg :: string and h :: "string \<Rightarrow> 32 word option" and gids :: "32 word list" and g :: int
  assume "\<not> (curg = [] \<or> SUPL_GROUPS_MAX \<le> length gids)" "nxtg = drop (length cur + 1) curg"
  moreover have "length (dropWhile group_delim nxtg) \<le> length nxtg" by (rule length_dropWhile_le)
  ultimately show "((h, dropWhile group_delim nxtg, gids @ [word_of_int g]), h, curg, gids) \<in> measure (\<lambda>(f, s, g). length s)"
    by (cases curg) (auto intro: le_less_trans)
qed simp

declare groups_loop.simps [simp del]

definition supl_groups :: "(string \<Rightarrow> 32 word option) \<Rightarrow> string option \<Rightarrow> 32 word list option" where
  "supl_groups getgrnam gs = (case gs of None \<Rightarrow> Some [] | Some s \<Rightarrow> groups_loop getgrnam (dropWhile group_delim s) [])"

section \<open>Privileges\<close>

abbreviation (input) CAP_COUNT :: nat where "CAP_COUNT \<equiv> 7"

text \<open>A call that has to succeed unless the daemon keeps going: whether to go on.\<close>

definition must :: "bool \<Rightarrow> priv_call \<Rightarrow> proc \<Rightarrow> bool \<times> proc" where
  "must keep c d = (case priv c d of (ok, d) \<Rightarrow> (ok \<or> keep, d))"

fun must_all :: "bool \<Rightarrow> priv_call list \<Rightarrow> proc \<Rightarrow> bool \<times> proc" where
  "must_all keep [] d = (True, d)"
| "must_all keep (c # cs) d = (case must keep c d of (go, d) \<Rightarrow> if go then must_all keep cs d else (False, d))"

definition drop_privileges :: "bool \<Rightarrow> 32 word list option \<Rightarrow> int \<Rightarrow> int \<Rightarrow> proc \<Rightarrow> bool \<times> proc" where
  "drop_privileges keep gids gid uid d =
     (let d = snd (priv (Keepcaps True) d)
      in case must_all keep
           ((case gids of None \<Rightarrow> [] | Some gs \<Rightarrow> [Setgroups gs])
            @ (if gid \<ge> 0 then [Setgid (word_of_int gid)] else [])
            @ (if uid \<ge> 0 then [Setuid (word_of_int uid)] else [])
            @ [Capset] @ map Ambient [0..<CAP_COUNT]) d of (go, d) \<Rightarrow>
         if go then (True, snd (priv (Keepcaps False) d)) else (False, d))"

section \<open>Start\<close>

abbreviation (input) EXIT_FAILURE :: int where "EXIT_FAILURE \<equiv> 1"

text \<open>What the daemon then serves.\<close>

record launch =
  l_socket :: string
  l_shutoff :: int
  l_log :: bool
  l_offline :: bool

datatype start = Exits int | Starts launch

record environ =
  getpwnam :: "string \<Rightarrow> (32 word \<times> 32 word) option"
  getgrnam :: "string \<Rightarrow> 32 word option"
  passed :: "int + string list"
  dup_ok :: bool
  print_ok :: bool

text \<open>From the options to the privileges; \<open>None\<close> when the making of the directory does not end.\<close>

definition daemon_start :: "environ \<Rightarrow> daemon_opt list \<Rightarrow> proc \<Rightarrow> (start \<times> proc) option" where
  "daemon_start env opts d =
     (let f = fold set_opt opts no_opts
      in if dhelp f then Some (Exits 0, d)
         else if dversion f then Some (Exits 0, d)
         else if derror f then Some (Exits EXIT_FAILURE, d)
         else
           let dir = (case socketdir f of None \<Rightarrow> ''/run'' | Some s \<Rightarrow> s)
           in case shutoff_time (shutoff f) of
                None \<Rightarrow> Some (Exits EXIT_FAILURE, d)
              | Some soff \<Rightarrow>
             (case socket_spec (passed env) (dup_ok env) (print_ok env) dir of
                None \<Rightarrow> Some (Exits EXIT_FAILURE, d)
              | Some spec \<Rightarrow>
             (case user_ids (getpwnam env) (user f) of
                None \<Rightarrow> Some (Exits EXIT_FAILURE, d)
              | Some (uid, gid) \<Rightarrow>
             (case main_gid (getgrnam env) (group f) gid of
                None \<Rightarrow> Some (Exits EXIT_FAILURE, d)
              | Some gid \<Rightarrow>
             (case supl_groups (getgrnam env) (groups f) of
                None \<Rightarrow> Some (Exits EXIT_FAILURE, d)
              | Some gids \<Rightarrow>
                  Option.bind
                    (if makesockdir f \<and> rd dir 0 \<noteq> CHR ''@'' then
                       ensure_directory dir (if ownsockdir f then uid else - 1) (if ownsockdir f then gid else - 1) (pdirs d)
                     else Some (0, pdirs d))
                    (\<lambda>(rc, w).
                       let d = d\<lparr>pdirs := w\<rparr>
                       in if rc < 0 then Some (Exits EXIT_FAILURE, d)
                          else case drop_privileges (keepgoing f) (map_option (\<lambda>_. gids) (groups f)) gid uid d of (go, d) \<Rightarrow>
                            if \<not> go then Some (Exits EXIT_FAILURE, d)
                            else Some (Starts \<lparr>l_socket = spec, l_shutoff = soff, l_log = flog f, l_offline = offli f\<rparr>, d)))))))"

text \<open>
  The service: the server is created on the socket of the specification and serves. \<open>sock\<close> is the
  opening of the socket; \<open>None\<close> for the status when the server still waits.
\<close>

definition daemon_serve ::
  "'z wstate host \<Rightarrow> 'z client \<Rightarrow> int + int \<Rightarrow> (string \<Rightarrow> int + int) \<Rightarrow> poll_result list \<Rightarrow> launch \<Rightarrow> 'z server \<Rightarrow>
     (int option \<times> 'z server) option" where
  "daemon_serve H mem epfd sock rs l s =
     (case sec_lsm_manager_server_create epfd (sock (l_socket l)) (s\<lparr>slm_server_log := l_log l\<rparr>) of
        (rc, None, s) \<Rightarrow> Some (Some EXIT_FAILURE, s)
      | (rc, Some srv, s) \<Rightarrow>
          if rc < 0 then Some (Some EXIT_FAILURE, s)
          else map_option (\<lambda>(st, s). (map_option (\<lambda>rc. if rc \<noteq> 0 then EXIT_FAILURE else 0) st, s))
            (sec_lsm_manager_server_serve H mem (l_shutoff l) rs srv))"

end
