(* ===== verification/Daemon_Props.thy ===== *)
theory Daemon_Props
  imports Daemon Server_Props
begin

text \<open>
  The start of the daemon: the numbers and lists of groups it accepts, the privileges it has
  when it starts to serve.
\<close>

section \<open>Numbers\<close>

text \<open>The number that digits write.\<close>

definition num_step :: "int \<Rightarrow> char \<Rightarrow> int" where
  "num_step v x = 10 * v + (of_char x - 48)"

definition num :: "string \<Rightarrow> int" where
  "num s = foldl num_step 0 s"

lemma num_step_ge: "is_digit x \<Longrightarrow> v \<ge> 0 \<Longrightarrow> v \<le> num_step v x"
  by (simp add: num_step_def is_digit_def)

lemma foldl_num_ge: "list_all is_digit s \<Longrightarrow> v \<ge> 0 \<Longrightarrow> v \<le> foldl num_step v s"
proof (induction s arbitrary: v)
  case (Cons x s)
  have "v \<le> num_step v x" using num_step_ge[of x v] Cons.prems by simp
  also have "\<dots> \<le> foldl num_step (num_step v x) s" using Cons \<open>v \<le> num_step v x\<close> by simp
  finally show ?case by simp
qed simp

lemma isid_loop_iff:
  "0 \<le> v \<Longrightarrow> n \<ge> 0 \<Longrightarrow> isid_loop s v = n \<longleftrightarrow>
     (\<exists>p r. s = p @ r \<and> list_all is_digit p \<and> foldl num_step v p = n \<and> n \<le> INT_MAX \<and> (r = [] \<or> n = INT_MAX))"
proof (induction s v rule: isid_loop.induct)
  case (1 v)
  then show ?case by auto
next
  case (2 x s v)
  show ?case
  proof (cases "v < INT_MAX")
    case False
    have big: "foldl num_step v p \<ge> INT_MAX" if "list_all is_digit p" for p
      using foldl_num_ge[OF that "2.prems"(1)] False by simp
    show ?thesis
    proof
      assume "isid_loop (x # s) v = n"
      then have "v = n" "n = INT_MAX" using False "2.prems"(2) by (auto split: if_splits)
      then show "\<exists>p r. x # s = p @ r \<and> list_all is_digit p \<and> foldl num_step v p = n \<and> n \<le> INT_MAX \<and> (r = [] \<or> n = INT_MAX)"
        by (intro exI[of _ "[]"] exI[of _ "x # s"]) simp
    next
      assume "\<exists>p r. x # s = p @ r \<and> list_all is_digit p \<and> foldl num_step v p = n \<and> n \<le> INT_MAX \<and> (r = [] \<or> n = INT_MAX)"
      then obtain p where "list_all is_digit p" "foldl num_step v p = n" "n \<le> INT_MAX" by blast
      then have "n = INT_MAX" "v = INT_MAX" using big[of p] foldl_num_ge[of p v] "2.prems"(1) False by auto
      then show "isid_loop (x # s) v = n" by simp
    qed
  next
    case True
    show ?thesis
    proof (cases "is_digit x")
      case False
      show ?thesis
      proof
        assume "isid_loop (x # s) v = n"
        then show "\<exists>p r. x # s = p @ r \<and> list_all is_digit p \<and> foldl num_step v p = n \<and> n \<le> INT_MAX \<and> (r = [] \<or> n = INT_MAX)"
          using True False "2.prems"(2) by simp
      next
        assume "\<exists>p r. x # s = p @ r \<and> list_all is_digit p \<and> foldl num_step v p = n \<and> n \<le> INT_MAX \<and> (r = [] \<or> n = INT_MAX)"
        then obtain p r where "x # s = p @ r" "list_all is_digit p" "foldl num_step v p = n" "r = [] \<or> n = INT_MAX" by blast
        then show "isid_loop (x # s) v = n" using True False by (cases p) auto
      qed
    next
      case d: True
      have "isid_loop (x # s) v = isid_loop s (num_step v x)" using True d by (simp add: num_step_def)
      moreover have "0 \<le> num_step v x" using num_step_ge[OF d "2.prems"(1)] "2.prems"(1) by simp
      ultimately have ih: "isid_loop (x # s) v = n \<longleftrightarrow>
          (\<exists>p r. s = p @ r \<and> list_all is_digit p \<and> foldl num_step (num_step v x) p = n \<and> n \<le> INT_MAX \<and> (r = [] \<or> n = INT_MAX))"
        using "2.IH"[unfolded num_step_def[symmetric]] True d "2.prems"(2) by simp
      show ?thesis
        unfolding ih
      proof
        assume "\<exists>p r. s = p @ r \<and> list_all is_digit p \<and> foldl num_step (num_step v x) p = n \<and> n \<le> INT_MAX \<and> (r = [] \<or> n = INT_MAX)"
        then obtain p r where "s = p @ r" "list_all is_digit p" "foldl num_step (num_step v x) p = n" "n \<le> INT_MAX" "r = [] \<or> n = INT_MAX"
          by blast
        then show "\<exists>p r. x # s = p @ r \<and> list_all is_digit p \<and> foldl num_step v p = n \<and> n \<le> INT_MAX \<and> (r = [] \<or> n = INT_MAX)"
          using d by (intro exI[of _ "x # p"] exI[of _ r]) simp
      next
        assume "\<exists>p r. x # s = p @ r \<and> list_all is_digit p \<and> foldl num_step v p = n \<and> n \<le> INT_MAX \<and> (r = [] \<or> n = INT_MAX)"
        then obtain p r where pr: "x # s = p @ r" "list_all is_digit p" "foldl num_step v p = n" "n \<le> INT_MAX" "r = [] \<or> n = INT_MAX"
          by blast
        then have "p \<noteq> []" using True by auto
        then obtain q where "p = x # q" using pr(1) by (cases p) auto
        then show "\<exists>p r. s = p @ r \<and> list_all is_digit p \<and> foldl num_step (num_step v x) p = n \<and> n \<le> INT_MAX \<and> (r = [] \<or> n = INT_MAX)"
          using pr by auto
      qed
    qed
  qed
qed

text \<open>
  C40: \<open>isid\<close> gives a number exactly for the texts made of digits that write it, when it fits an
  \<open>int\<close>; the empty text writes zero. One number is given for other texts too: once
  the digits read write \<open>INT_MAX\<close>, what follows is ignored.
\<close>

theorem isid_number:
  assumes "n \<ge> 0"
  shows "isid s = n \<longleftrightarrow>
    n \<le> INT_MAX \<and> (\<exists>p r. s = p @ r \<and> list_all is_digit p \<and> num p = n \<and> (r = [] \<or> n = INT_MAX))"
  using isid_loop_iff[of 0 n s] assms unfolding isid_def num_def by auto

theorem isid_number_witness:
  "isid ''1000'' = 1000 \<and> isid '''' = 0 \<and> isid ''2147483647x'' = INT_MAX \<and> \<not> isid ''1x'' = 1"
proof -
  have "isid ''1000'' = 1000" "isid '''' = 0"
    using isid_number[of 1000 "''1000''"] isid_number[of 0 "''''"] by (auto simp: num_def num_step_def is_digit_def)
  moreover have "isid ''2147483647x'' = INT_MAX"
    by (subst isid_number, simp, intro conjI exI[of _ "''2147483647''"] exI[of _ "''x''"])
      (simp_all add: num_def num_step_def is_digit_def)
  ultimately show ?thesis by (simp add: isid_def is_digit_def)
qed

section \<open>Groups\<close>

text \<open>The words of a list of groups.\<close>

fun group_words :: "string \<Rightarrow> string \<Rightarrow> string list" where
  "group_words cur [] = (if cur = [] then [] else [cur])"
| "group_words cur (x # s) =
     (if group_delim x then (if cur = [] then [] else [cur]) @ group_words [] s else group_words (cur @ [x]) s)"

lemma group_words_delims: "group_words [] (dropWhile group_delim s) = group_words [] s"
  by (induction s) auto

lemma group_words_word:
  assumes "\<forall>x\<in>set w. \<not> group_delim x" "cur @ w \<noteq> []" "s = [] \<or> group_delim (hd s)"
  shows "group_words cur (w @ s) = (cur @ w) # group_words [] (drop 1 s)"
  using assms
proof (induction w arbitrary: cur)
  case Nil
  then show ?case by (cases s) auto
next
  case (Cons x w)
  then show ?case by simp
qed

lemma group_words_head:
  assumes "s \<noteq> []" "\<not> group_delim (hd s)"
  shows "group_words [] s = takeWhile (\<lambda>x. \<not> group_delim x) s
    # group_words [] (dropWhile group_delim (drop (length (takeWhile (\<lambda>x. \<not> group_delim x) s) + 1) s))"
proof -
  let ?w = "takeWhile (\<lambda>x. \<not> group_delim x) s" and ?r = "dropWhile (\<lambda>x. \<not> group_delim x) s"
  have r: "?r = [] \<or> group_delim (hd ?r)" using hd_dropWhile[of "\<lambda>x. \<not> group_delim x" s] by blast
  have "?w \<noteq> []" using assms by (cases s) auto
  then have "group_words [] (?w @ ?r) = ?w # group_words [] (drop 1 ?r)"
    using group_words_word[of ?w "[]" ?r] r by (auto dest: set_takeWhileD)
  moreover have "drop 1 ?r = drop (length ?w + 1) s" by (simp add: dropWhile_eq_drop)
  ultimately show ?thesis by (simp add: group_words_delims)
qed

lemma groups_loop_words:
  "(s = [] \<or> \<not> group_delim (hd s)) \<Longrightarrow> length gids \<le> SUPL_GROUPS_MAX \<Longrightarrow>
   groups_loop h s gids = map_option (\<lambda>gs. gids @ map word_of_int gs)
     (those (map (group_id h) (take (SUPL_GROUPS_MAX - length gids) (group_words [] s))))"
proof (induction h s gids rule: groups_loop.induct)
  case (1 h s gids)
  show ?case
  proof (cases "s = [] \<or> length gids \<ge> SUPL_GROUPS_MAX")
    case True
    then show ?thesis by (subst groups_loop.simps) auto
  next
    case False
    let ?w = "takeWhile (\<lambda>x. \<not> group_delim x) s"
    let ?r = "dropWhile group_delim (drop (length ?w + 1) s)"
    have w: "group_words [] s = ?w # group_words [] ?r" using group_words_head[of s] False "1.prems"(1) by blast
    obtain k where k: "SUPL_GROUPS_MAX - length gids = Suc k" "SUPL_GROUPS_MAX - Suc (length gids) = k"
      using False by (metis Suc_diff_Suc diff_Suc_Suc not_le)
    have r: "?r = [] \<or> \<not> group_delim (hd ?r)" using hd_dropWhile[of group_delim] by blast
    show ?thesis
    proof (cases "group_id h ?w")
      case None
      then show ?thesis using False w k by (subst groups_loop.simps) (simp add: Let_def)
    next
      case (Some g)
      have "groups_loop h ?r (gids @ [word_of_int g]) = map_option (\<lambda>gs. (gids @ [word_of_int g]) @ map word_of_int gs)
          (those (map (group_id h) (take k (group_words [] ?r))))"
        using "1.IH"[OF False refl refl Some r] False k by simp
      then show ?thesis
        using False w k Some by (subst groups_loop.simps) (simp add: Let_def option.map_comp comp_def)
    qed
  qed
qed

text \<open>
  The supplementary groups are those of the words of the list, in order, up to the tenth; the
  daemon does not start when one of these is not known.
\<close>

theorem supl_groups_words:
  "supl_groups h (Some s) =
     map_option (map word_of_int) (those (map (group_id h) (take SUPL_GROUPS_MAX (group_words [] s))))"
proof -
  have r: "dropWhile group_delim s = [] \<or> \<not> group_delim (hd (dropWhile group_delim s))"
    using hd_dropWhile[of group_delim s] by blast
  show ?thesis
    using groups_loop_words[OF r, of "[]" h] by (simp add: supl_groups_def group_words_delims id_def[symmetric] option.map_id)
qed

section \<open>Privileges\<close>

text \<open>The calls that change privileges: all but the flag that keeps capabilities.\<close>

definition changes :: "priv_call list \<Rightarrow> priv_call list" where
  "changes cs = filter (\<lambda>c. \<forall>b\<in>{False, True}. c \<noteq> Keepcaps b) cs"

lemma changes_simps [simp]: "changes [] = []" "changes (a @ b) = changes a @ changes b" "changes (Setgroups g # a) = Setgroups g # changes a"
  "changes (Setgid i # a) = Setgid i # changes a" "changes (Setuid i # a) = Setuid i # changes a"
  "changes (Capset # a) = Capset # changes a" "changes (Keepcaps e # a) = changes a"
  "changes (map Ambient l) = map Ambient l"
  by (auto simp: changes_def filter_map comp_def)

lemma priv_cases:
  assumes "priv c d = (ok, v)"
  shows "priv_calls v = priv_calls d @ (if ok then [c] else [])"
  using assms by (auto simp: priv_def split: list.splits bool.splits)

lemma priv_keepcaps [simp]: "changes (priv_calls (snd (priv (Keepcaps b) d))) = changes (priv_calls d)"
  using priv_cases[of "Keepcaps b" d] by (cases "priv (Keepcaps b) d") auto

lemma must_all_calls: "must_all False cs d = (True, v) \<Longrightarrow> priv_calls v = priv_calls d @ cs"
proof (induction cs arbitrary: d)
  case (Cons c cs)
  obtain ok u where p: "priv c d = (ok, u)" by fastforce
  then have ok: "ok" "must_all False cs u = (True, v)" using Cons.prems by (auto simp: must_def split: if_splits)
  show ?case using Cons.IH[OF ok(2)] priv_cases[OF p] ok(1) by simp
qed simp

lemma drop_privileges_calls:
  assumes "drop_privileges False gids gid uid d = (True, v)"
  shows "changes (priv_calls v) = changes (priv_calls d)
    @ (case gids of None \<Rightarrow> [] | Some gs \<Rightarrow> [Setgroups gs])
    @ (if gid \<ge> 0 then [Setgid (word_of_int gid)] else [])
    @ (if uid \<ge> 0 then [Setuid (word_of_int uid)] else []) @ [Capset] @ map Ambient [0..<CAP_COUNT]"
proof -
  let ?cs = "(case gids of None \<Rightarrow> [] | Some gs \<Rightarrow> [Setgroups gs])
    @ (if gid \<ge> 0 then [Setgid (word_of_int gid)] else [])
    @ (if uid \<ge> 0 then [Setuid (word_of_int uid)] else []) @ [Capset] @ map Ambient [0..<CAP_COUNT]"
  obtain u where "must_all False ?cs (snd (priv (Keepcaps True) d)) = (True, u)" "v = snd (priv (Keepcaps False) u)"
    using assms by (auto simp: drop_privileges_def Let_def split: prod.splits if_splits)
  then have "changes (priv_calls v) = changes (priv_calls d) @ changes ?cs" using must_all_calls by simp
  also have "changes ?cs = ?cs" by (simp split: option.split)
  finally show ?thesis .
qed

lemma start_privileges:
  assumes "daemon_start env opts d = Some (Starts l, v)" and "f = fold set_opt opts no_opts" and "\<not> keepgoing f"
  shows "\<exists>uid pgid gid gids.
    user_ids (getpwnam env) (user f) = Some (uid, pgid) \<and> main_gid (getgrnam env) (group f) pgid = Some gid \<and>
    supl_groups (getgrnam env) (groups f) = Some gids \<and>
    changes (priv_calls v) = changes (priv_calls d)
      @ (if groups f = None then [] else [Setgroups gids])
      @ (if gid \<ge> 0 then [Setgid (word_of_int gid)] else [])
      @ (if uid \<ge> 0 then [Setuid (word_of_int uid)] else []) @ [Capset] @ map Ambient [0..<7]"
proof -
  obtain uid pgid gid gids e where r: "user_ids (getpwnam env) (user f) = Some (uid, pgid)"
      "main_gid (getgrnam env) (group f) pgid = Some gid" "supl_groups (getgrnam env) (groups f) = Some gids"
      "drop_privileges False (map_option (\<lambda>_. gids) (groups f)) gid uid e = (True, v)" "priv_calls e = priv_calls d"
    using assms(1,3)
    by (fastforce simp: daemon_start_def Let_def assms(2)[symmetric] Option.bind_eq_Some_conv
        split: if_splits option.splits prod.splits)
  show ?thesis
    using r(1-3,5) drop_privileges_calls[OF r(4)]
    by (intro exI[of _ uid] exI[of _ pgid] exI[of _ gid] exI[of _ gids] conjI) (auto split: option.splits)
qed

text \<open>
  What the options ask: the number that a text writes or that the database gives for it; the group
  of the options, or else the one of a user found in the database.
\<close>

definition stands_for :: "(string \<Rightarrow> 32 word option) \<Rightarrow> string \<Rightarrow> 32 word \<Rightarrow> bool" where
  "stands_for db t n \<longleftrightarrow> (if isid t \<ge> 0 then n = word_of_int (isid t) else db t = Some n)"

definition asked_user :: "environ \<Rightarrow> daemon_opts \<Rightarrow> 32 word option \<Rightarrow> bool" where
  "asked_user env f uid \<longleftrightarrow> (case user f of
     None \<Rightarrow> uid = None
   | Some t \<Rightarrow> \<exists>n. uid = Some n \<and> stands_for (\<lambda>t. map_option fst (getpwnam env t)) t n)"

definition asked_group :: "environ \<Rightarrow> daemon_opts \<Rightarrow> 32 word option \<Rightarrow> bool" where
  "asked_group env f gid \<longleftrightarrow> (case (group f, user f) of
     (Some t, _) \<Rightarrow> \<exists>n. gid = Some n \<and> stands_for (getgrnam env) t n
   | (None, Some t) \<Rightarrow> gid = (if isid t \<ge> 0 then None else map_option snd (getpwnam env t))
   | (None, None) \<Rightarrow> gid = None)"

definition asked_groups :: "environ \<Rightarrow> daemon_opts \<Rightarrow> 32 word list option \<Rightarrow> bool" where
  "asked_groups env f gids \<longleftrightarrow> (case groups f of
     None \<Rightarrow> gids = None
   | Some s \<Rightarrow> \<exists>gs. gids = Some gs \<and> list_all2 (stands_for (getgrnam env)) (group_words [] s) gs)"

lemma sint_small: "w < 0x80000000 \<Longrightarrow> 0 \<le> sint w" for w :: "32 word"
proof -
  assume "w < 0x80000000"
  then have "uint w < 2 ^ 31" by (simp add: word_less_def)
  moreover have "- (2 ^ 31) \<le> uint w" by (rule order_trans[OF _ uint_ge_0]) simp
  ultimately have "sint w = uint w" by (simp add: sint_uint signed_take_bit_int_eq_self)
  then show ?thesis by simp
qed

text \<open>The databases give no number that is negative for the code.\<close>

definition small_ids :: "environ \<Rightarrow> bool" where
  "small_ids env \<longleftrightarrow> (\<forall>t a b. getpwnam env t = Some (a, b) \<longrightarrow> a < 0x80000000 \<and> b < 0x80000000)
     \<and> (\<forall>t g. getgrnam env t = Some g \<longrightarrow> g < 0x80000000)"

definition given_id :: "int \<Rightarrow> 32 word option" where
  "given_id i = (if i \<ge> 0 then Some (word_of_int i) else None)"

lemma user_asked:
  assumes "small_ids env" "user_ids (getpwnam env) (user f) = Some (uid, pgid)"
  shows "asked_user env f (given_id uid)"
proof (cases "user f")
  case (Some t)
  show ?thesis
  proof (cases "isid t < 0")
    case True
    then obtain a b where p: "getpwnam env t = Some (a, b)" "uid = sint a" using assms(2) Some by (auto simp: user_ids_def)
    then have "0 \<le> sint a" using assms(1) sint_small by (auto simp: small_ids_def)
    then show ?thesis using Some True p by (simp add: asked_user_def given_id_def stands_for_def)
  qed (use assms(2) Some in \<open>auto simp: user_ids_def asked_user_def given_id_def stands_for_def\<close>)
qed (use assms(2) in \<open>auto simp: user_ids_def asked_user_def given_id_def\<close>)

lemma group_asked:
  assumes "small_ids env" "group_id (getgrnam env) t = Some g"
  shows "stands_for (getgrnam env) t (word_of_int g) \<and> 0 \<le> g"
proof (cases "isid t < 0")
  case True
  then obtain a where p: "getgrnam env t = Some a" "g = sint a" using assms(2) by (auto simp: group_id_def)
  then have "0 \<le> sint a" using assms(1) sint_small by (auto simp: small_ids_def)
  then show ?thesis using True p by (simp add: stands_for_def)
qed (use assms(2) in \<open>auto simp: group_id_def stands_for_def\<close>)

lemma main_group_asked:
  assumes "small_ids env" "user_ids (getpwnam env) (user f) = Some (uid, pgid)" "main_gid (getgrnam env) (group f) pgid = Some gid"
  shows "asked_group env f (given_id gid)"
proof (cases "group f")
  case (Some t)
  then show ?thesis using assms(3) group_asked[OF assms(1), of t gid] by (simp add: main_gid_def asked_group_def given_id_def)
next
  case g: None
  then have gid: "gid = pgid" using assms(3) by (simp add: main_gid_def)
  show ?thesis
  proof (cases "user f")
    case None
    then show ?thesis using g gid assms(2) by (auto simp: user_ids_def asked_group_def given_id_def)
  next
    case (Some t)
    show ?thesis
    proof (cases "isid t < 0")
      case True
      then obtain a b where p: "getpwnam env t = Some (a, b)" "pgid = sint b" using assms(2) Some by (auto simp: user_ids_def)
      then have "0 \<le> sint b" using assms(1) sint_small by (auto simp: small_ids_def)
      then show ?thesis using g gid Some True p by (simp add: asked_group_def given_id_def)
    qed (use g gid Some assms(2) in \<open>auto simp: user_ids_def asked_group_def given_id_def\<close>)
  qed
qed

lemma groups_asked:
  assumes "small_ids env" "supl_groups (getgrnam env) (groups f) = Some gids"
    and "\<And>s. groups f = Some s \<Longrightarrow> length (group_words [] s) \<le> SUPL_GROUPS_MAX"
  shows "asked_groups env f (map_option (\<lambda>_. gids) (groups f))"
proof (cases "groups f")
  case (Some s)
  obtain gs where gs: "those (map (group_id (getgrnam env)) (group_words [] s)) = Some gs" "gids = map word_of_int gs"
    using assms(2) assms(3)[OF Some] supl_groups_words[of "getgrnam env" s] by (auto simp: Some)
  have "list_all2 (stands_for (getgrnam env)) ws (map word_of_int gs)"
    if "those (map (group_id (getgrnam env)) ws) = Some gs" for ws gs
    using that
  proof (induction ws arbitrary: gs)
    case (Cons w ws)
    then show ?case using group_asked[OF assms(1)] by (auto split: option.splits)
  qed simp
  then show ?thesis using gs by (simp add: Some asked_groups_def)
qed (simp add: asked_groups_def)

text \<open>
  C16: when the daemon starts to serve, unless it was told to keep going, every change of
  privileges that was asked has been done with success, in this order: the supplementary groups,
  the group, the user, the capabilities. The user, the group and the groups are those of the options, by
  number or by the databases, the group of the option before that of the user. It takes databases
  whose numbers are below \<open>2\<^sup>3\<^sup>1\<close> and at most ten supplementary groups: without that the daemon can
  serve with the user it was started with (\<open>high_user_not_set\<close>), and with the first ten
  groups only (\<open>supl_groups_words\<close>).
\<close>

theorem privileges_dropped:
  assumes "daemon_start env opts d = Some (Starts l, v)" and "f = fold set_opt opts no_opts" and "\<not> keepgoing f"
    and "\<forall>t a b. getpwnam env t = Some (a, b) \<longrightarrow> a < 0x80000000 \<and> b < 0x80000000"
    and "\<forall>t g. getgrnam env t = Some g \<longrightarrow> g < 0x80000000"
    and "\<forall>s. groups f = Some s \<longrightarrow> length (group_words [] s) \<le> 10"
  shows "\<exists>uid gid gids. asked_user env f uid \<and> asked_group env f gid \<and> asked_groups env f gids
    \<and> changes (priv_calls v) = changes (priv_calls d)
        @ (case gids of None \<Rightarrow> [] | Some gs \<Rightarrow> [Setgroups gs])
        @ (case gid of None \<Rightarrow> [] | Some g \<Rightarrow> [Setgid g])
        @ (case uid of None \<Rightarrow> [] | Some u \<Rightarrow> [Setuid u]) @ [Capset] @ map Ambient [0..<7]"
proof -
  obtain uid pgid gid gids where r: "user_ids (getpwnam env) (user f) = Some (uid, pgid)"
      "main_gid (getgrnam env) (group f) pgid = Some gid" "supl_groups (getgrnam env) (groups f) = Some gids"
    and c: "changes (priv_calls v) = changes (priv_calls d) @ (if groups f = None then [] else [Setgroups gids])
      @ (if gid \<ge> 0 then [Setgid (word_of_int gid)] else [])
      @ (if uid \<ge> 0 then [Setuid (word_of_int uid)] else []) @ [Capset] @ map Ambient [0..<7]"
    using start_privileges[OF assms(1-3)] by blast
  have small: "small_ids env" using assms(4,5) by (simp add: small_ids_def)
  show ?thesis
    by (intro exI[of _ "given_id uid"] exI[of _ "given_id gid"] exI[of _ "map_option (\<lambda>_. gids) (groups f)"] conjI
        user_asked[OF small r(1)] main_group_asked[OF small r(1,2)] groups_asked[OF small r(3)])
      (use assms(6) c in \<open>auto simp: given_id_def split: option.split\<close>)
qed

theorem privileges_dropped_witness:
  "let env = \<lparr>getpwnam = [''slm'' \<mapsto> (990, 985)], getgrnam = [''audit'' \<mapsto> 30], passed = Inr [], dup_ok = True, print_ok = True\<rparr>;
       d = \<lparr>pdirs = \<lparr>nodes = Map.empty, dir_faults = [], dir_uid = 0, dir_gid = 0\<rparr>, priv_faults = [], priv_calls = []\<rparr>
   in \<exists>l v. daemon_start env [Opt_User ''slm'', Opt_Groups ''audit,12''] d = Some (Starts l, v) \<and>
      l_socket l = ''unix:/run/sec-lsm-manager.socket'' \<and>
      changes (priv_calls v) = [Setgroups [30, 12], Setgid 985, Setuid 990, Capset] @ map Ambient [0..<7]"
proof -
  let ?env = "\<lparr>getpwnam = [''slm'' \<mapsto> (990, 985)], getgrnam = [''audit'' \<mapsto> 30], passed = Inr [], dup_ok = True, print_ok = True\<rparr>"
  let ?d = "\<lparr>pdirs = \<lparr>nodes = Map.empty, dir_faults = [], dir_uid = 0, dir_gid = 0\<rparr>, priv_faults = [], priv_calls = []\<rparr>"
  let ?opts = "[Opt_User ''slm'', Opt_Groups ''audit,12'']"
  have i: "isid ''slm'' = - 1" "isid ''audit'' = - 1" "isid ''12'' = 12" by (simp_all add: isid_def is_digit_def)
  have g: "supl_groups (getgrnam ?env) (Some ''audit,12'') = Some [30, 12]"
    by (simp add: supl_groups_def groups_loop.simps group_delim_def Let_def group_id_def i)
  have u: "user_ids (getpwnam ?env) (Some ''slm'') = Some (990, 985)" by (simp add: user_ids_def i)
  have s: "\<exists>l v. daemon_start ?env ?opts ?d = Some (Starts l, v) \<and> l_socket l = ''unix:/run/sec-lsm-manager.socket''"
    using g u by (simp add: daemon_start_def set_opt_def no_opts_def shutoff_time_def socket_spec_def main_gid_def
        drop_privileges_def must_def priv_def upt_conv_Cons Let_def)
  then obtain l v where r: "daemon_start ?env ?opts ?d = Some (Starts l, v)" "l_socket l = ''unix:/run/sec-lsm-manager.socket''" by blast
  show ?thesis
  proof -
    have f: "fold set_opt ?opts no_opts = no_opts\<lparr>user := Some ''slm'', groups := Some ''audit,12''\<rparr>"
      by (simp add: set_opt_def)
    have w: "group_words [] ''audit,12'' = [''audit'', ''12'']" by (simp add: group_delim_def)
    let ?f = "no_opts\<lparr>user := Some ''slm'', groups := Some ''audit,12''\<rparr>"
    have h: "\<not> keepgoing ?f" "\<forall>t a b. getpwnam ?env t = Some (a, b) \<longrightarrow> a < 0x80000000 \<and> b < 0x80000000"
      "\<forall>t g. getgrnam ?env t = Some g \<longrightarrow> g < 0x80000000" "\<forall>s. groups ?f = Some s \<longrightarrow> length (group_words [] s) \<le> 10"
      by (simp_all add: no_opts_def w)
    from privileges_dropped[OF r(1) f[symmetric] h] obtain uid gid gids where a: "asked_user ?env ?f uid"
        "asked_group ?env ?f gid" "asked_groups ?env ?f gids"
        "changes (priv_calls v) = changes (priv_calls ?d)
          @ (case gids of None \<Rightarrow> [] | Some gs \<Rightarrow> [Setgroups gs]) @ (case gid of None \<Rightarrow> [] | Some g \<Rightarrow> [Setgid g])
          @ (case uid of None \<Rightarrow> [] | Some u \<Rightarrow> [Setuid u]) @ [Capset] @ map Ambient [0..<7]"
      by blast
    have "uid = Some 990" using a(1) i by (simp add: asked_user_def no_opts_def stands_for_def)
    moreover have "gid = Some 985" using a(2) i by (simp add: asked_group_def no_opts_def)
    moreover have "gids = Some [30, 12]"
      using a(3) i by (auto simp: asked_groups_def no_opts_def w list_all2_Cons1 stands_for_def simp del: group_words.simps)
    ultimately show ?thesis using a(4) r by (auto simp: Let_def)
  qed
qed

text \<open>
  The numbers of users are unsigned: one from \<open>2\<^sup>3\<^sup>1\<close> up, found by its name, is negative for the
  code, and the daemon serves with the user it was started with.
\<close>

lemma high_user_not_set:
  assumes "daemon_start env opts d = Some (Starts l, v)" "\<not> keepgoing (fold set_opt opts no_opts)"
    and "user (fold set_opt opts no_opts) = Some n" "isid n < 0" "getpwnam env n = Some (w, g)" "sint w < 0"
    and "Setuid w \<notin> set (priv_calls d)"
  shows "Setuid w \<notin> set (priv_calls v)"
proof -
  have in_changes: "Setuid w \<in> set cs \<longleftrightarrow> Setuid w \<in> set (changes cs)" for cs by (auto simp: changes_def)
  obtain uid pgid gid gids where "user_ids (getpwnam env) (Some n) = Some (uid, pgid)"
      and c: "changes (priv_calls v) = changes (priv_calls d)
      @ (if groups (fold set_opt opts no_opts) = None then [] else [Setgroups gids])
      @ (if gid \<ge> 0 then [Setgid (word_of_int gid)] else [])
      @ (if uid \<ge> 0 then [Setuid (word_of_int uid)] else []) @ [Capset] @ map Ambient [0..<7]"
    using start_privileges[OF assms(1) refl assms(2)] assms(3) by auto
  then have "uid < 0" using assms(4-6) by (simp add: user_ids_def)
  then show ?thesis using c assms(7) in_changes[of "priv_calls v"] in_changes[of "priv_calls d"] by auto
qed

end
