(* ===== verification/Offline.thy ===== *)
theory Offline
  imports Session_Stream Remote_Install Isolation
begin

text \<open>
  The offline mode of the daemon (\<open>src/offline.c\<close>): one session on the standard input, whose replies are
  thrown away and whose permissions are printed on the standard output instead of being set.
\<close>

section \<open>The session\<close>

lemma ctx_inv_permgr: "ctx_inv (c\<lparr>permgr := x\<rparr>) = ctx_inv c"
  by (simp add: ctx_inv_def ctx_sets_inv_def ctx_unique_def ctx_texts_def wants_id_def has_id_def)

lemma client_create_facts:
  assumes "client_create mem fin fout w = (0, Some c, w')"
  shows "cctx c = context_init (cctx mem)" "os.more w' = os.more w"
proof -
  have m: "sys_malloc v = (b, v') \<Longrightarrow> os.more v' = os.more v" for v v' :: "'a wstate" and b
    using sys_more(9)[of v] by simp
  show "cctx c = context_init (cctx mem)" "os.more w' = os.more w"
    using assms by (auto simp: client_create_def prot_create_def context_create_def split: if_splits prod.splits dest!: m)
qed

lemma offline_listening:
  assumes "client_create mem 0 fdo w = (0, Some c, w0)" "client_mem mem" "tx ch = []" "0 \<le> fdo"
  shows "daemon_listening \<lparr>cl = snd (client_set_permission_manager itf c), chn = ch, server_log = lg, plog = [], closed = [],
      world = w0\<rparr>"
    and "unread (cprot (snd (client_set_permission_manager itf c))) = []"
    and "cctx (snd (client_set_permission_manager itf c)) = (context_init (cctx mem))\<lparr>permgr := itf\<rparr>"
    and "os.more w0 = os.more w"
proof -
  have m: "length (id_array (cctx mem)) = 201" "length (bcontent (inbuf (cprot mem))) = PROT_MAX_BUFFER_LENGTH"
    "length (bcontent (outbuf (cprot mem))) = PROT_MAX_BUFFER_LENGTH"
    using assms(2) by (auto simp: client_mem_def)
  note c = client_create_facts[OF assms(1)]
  note r = client_create_ready[OF assms(1) m, where ch = ch and b = lg and pl = "[]" and cs = "[]"]
  note n = client_create_newcomer[OF assms(1,2)]
  let ?c = "snd (client_set_permission_manager itf c)"
  have d: "cprot ?c = cprot c" "version ?c = version c" "invalid ?c = invalid c" "fdin ?c = fdin c" "fdout ?c = fdout c"
    "cctx ?c = (cctx c)\<lparr>permgr := itf\<rparr>"
    by (simp_all add: client_set_permission_manager_def context_set_permission_manager_def)
  show "daemon_listening \<lparr>cl = ?c, chn = ch, server_log = lg, plog = [], closed = [], world = w0\<rparr>"
    using r n d assms(3,4)
    by (simp add: daemon_listening_def session_ready_def session_inv_def client_is_connected_def newcomer_def ctx_inv_permgr)
  show "unread (cprot ?c) = []" using n d by (simp add: newcomer_def)
  show "cctx ?c = (context_init (cctx mem))\<lparr>permgr := itf\<rparr>" using c(1) d by simp
  show "os.more w0 = os.more w" by (rule c(2))
qed

lemma offline_stream:
  assumes "client_mem mem" "0 \<le> fdo" "client_create mem 0 fdo w = (0, Some c, w0)" "rx ch = map RxData ps @ [RxEof]"
    "[] \<notin> set ps" "tx ch = []" "concat ps = stream ms" "list_all sendable ms" "list_all asked ms"
  shows "\<exists>s rss. offline H itf lg mem ch fdo w = Some (0, Some s) \<and> sent (chn s) = sent ch @ concat (map stream rss)
    \<and> serve_all H ms lg ((context_init (cctx mem))\<lparr>permgr := Some itf\<rparr>) w0 = Some (rss, server_log s, cctx (cl s), world s)"
proof -
  let ?c = "snd (client_set_permission_manager (Some itf) c)"
  let ?t = "\<lparr>cl = ?c, chn = ch, server_log = lg, plog = [], closed = [], world = w0\<rparr>"
  note l = offline_listening(2,3)[OF assms(3,1,6,2), of "Some itf"]
  note t = offline_listening(1)[OF assms(3,1,6,2), of "Some itf" lg]
  have "data_then [RxEof] (chn ?t)" using assms(4,5) by (auto simp: data_then_def)
  moreover have "unread (cprot (cl ?t)) @ incoming (rx (chn ?t)) @ [] = stream ms" using l(1) assms(4,7) by simp
  ultimately obtain u n where u: "client_process_input H ?t = Some (0, u)" "streamed H ms n ?t u" "n = length ms"
    using process_stream[OF t, of "[RxEof]" "[]" ms H] assms(8,9) by auto
  have "offline_loop H ?t = Some (0, u)" using u(1) by (subst offline_loop.simps) simp
  then have "offline H itf lg mem ch fdo w = Some (0, Some u)" using assms(2,3) by (simp add: offline_def Let_def)
  then show ?thesis using u(2,3) l(2) by (auto simp: streamed_def)
qed

section \<open>What is printed\<close>

lemma offline_checks:
  "permgr c = Some machine_offline \<Longrightarrow> snd (check_plugs H c ps rc w) = w" for w :: "('c, 'm) machine"
proof (induction H c ps rc w rule: check_plugs.induct)
  case (2 H c p ps rc w)
  have "check_permission (the_permgr H c) l perm_public_plug w = (1, w)" for l
    using 2(2) by (simp add: the_permgr_def machine_offline_def lift_itf_def on_printed_def offline_itf_def offline_check_def)
  then show ?case using "2.IH" 2(2) by (simp add: Let_def)
qed simp

text \<open>The rules of the permissions of a session, one by line, for any client and user.\<close>

definition offline_text :: "string \<Rightarrow> 'p ctx \<Rightarrow> string" where
  "offline_text l c = concat (map (\<lambda>p. l @ '' * * '' @ p @ '' yes forever'' @ [LF]) (permissions (permission_set c)))"

lemma offline_add_text:
  "snd (offline_add l (Some ps) b t) = t @ concat (map (\<lambda>p. l @ '' * * '' @ p @ '' yes forever'' @ [LF]) (permissions ps))"
proof -
  have "foldl (\<lambda>s p. s @ offline_line l p) t xs = t @ concat (map (\<lambda>p. l @ '' * * '' @ p @ '' yes forever'' @ [LF]) xs)" for xs
    by (induction xs arbitrary: t) (simp_all add: offline_line_def)
  then show ?thesis by (simp add: offline_add_def)
qed

context installing_mac
begin

lemma offline_install:
  assumes "permgr c = Some machine_offline" "ctx_inv c" "has_id c" "mac H = M"
    and "action_install H c w = (rc, w')" "0 \<le> rc"
  shows "printed w' = printed w @ offline_text (mac_get_label M (context_id c) w) c \<and> marked c w'"
proof -
  let ?l = "mac_get_label M (context_id c) w"
  obtain k where k: "check_plug_installable H c w = (k, w)"
    using offline_checks[OF assms(1), of H "plugset c" 0 w] by (metis check_plug_installable_def prod.collapse)
  let ?w = "w\<lparr>printed := printed w @ offline_text ?l c\<rparr>"
  have a: "add_permissions (the_permgr H c) ?l (Some (permission_set c)) True w = (0, ?w)"
    using offline_add_text[of ?l "permission_set c" True "printed w"] assms(1)
    by (simp add: the_permgr_def machine_offline_def lift_itf_def on_printed_def offline_itf_def offline_text_def
        offline_add_def)
  obtain e w3 where m: "mac_install M c ?w = (e, w3)" by fastforce
  have "e \<le> 0" by (rule install_range[OF m])
  then have "e = 0 \<and> w3 = w'"
    using assms(3-6) k a m by (auto simp: action_install_def check_context_def split: if_splits prod.splits)
  then show ?thesis using marks[OF assms(2,3)] keeps_managers[of c ?w] m by (auto simp: manager_state_def)
qed

end

text \<open>The other requests leave the permission managers alone.\<close>

lemma checks_more [simp]:
  "os.more (snd (check_path_exists p fo w)) = os.more w" "os.more (snd (check_directory_exists p fo w)) = os.more w"
  by (simp_all add: check_path_exists_def check_directory_exists_def Let_def case_prod_beta)

lemma context_more [simp]:
  "os.more (snd (snd (context_add_permission c x w))) = os.more w"
  "os.more (snd (snd (context_add_path c x y w))) = os.more w"
  "os.more (snd (snd (context_add_plug c x y z w))) = os.more w"
  by (simp_all add: context_add_permission_def context_add_path_def context_add_plug_def permission_set_add_def
      path_set_add_def plugset_add_def Let_def case_prod_beta split: option.split)

lemma serve_quiet:
  assumes "args \<noteq> [n_install]" "args \<noteq> [n_uninstall]"
  shows "os.more (fst (snd (snd (snd (serve H args lg c w))))) = os.more w"
  using assms by (simp add: serve_def status_def Let_def case_prod_beta split: list.split)

lemma ctx_inv_ops:
  assumes "ctx_inv c"
  shows "ctx_inv (snd (context_set_id c x))" "ctx_inv (fst (snd (context_add_permission c x w)))"
    "ctx_inv (fst (snd (context_add_path c x y w)))" "ctx_inv (fst (snd (context_add_plug c x y z w)))"
    "ctx_inv (context_clear c)" "ctx_inv (context_raise_error c)"
  using assms context_set_id_inv context_add_permission_inv context_add_path_inv context_add_plug_inv context_clear_inv
    context_raise_error_inv
  by (metis prod.collapse)+

lemma serve_ctx_inv: "ctx_inv c \<Longrightarrow> ctx_inv (fst (snd (snd (serve H args lg c w))))"
  by (simp add: serve_def status_def Let_def case_prod_beta ctx_inv_ops split: list.split)

lemma serve_all_ctx_inv: "serve_all H reqs lg c w = Some (rss, lg', c', w') \<Longrightarrow> ctx_inv c \<Longrightarrow> ctx_inv c'"
proof (induction reqs arbitrary: lg c w rss)
  case (Cons a reqs)
  obtain qs lg1 c1 w1 ok where sv: "serve H a lg c w = (qs, lg1, c1, w1, ok)" by (metis prod_cases5)
  then have "ctx_inv c1" using serve_ctx_inv[of c H a lg w] Cons.prems(2) by simp
  then show ?case using Cons sv by (auto split: if_splits)
qed simp

lemma serve_all_quiet:
  "serve_all H reqs lg c w = Some (rss, lg', c', w') \<Longrightarrow> [n_install] \<notin> set reqs \<Longrightarrow> [n_uninstall] \<notin> set reqs \<Longrightarrow>
     os.more w' = os.more w"
proof (induction reqs arbitrary: lg c w rss)
  case (Cons a reqs)
  obtain qs lg1 c1 w1 ok where sv: "serve H a lg c w = (qs, lg1, c1, w1, ok)" by (metis prod_cases5)
  then have "os.more w1 = os.more w" using serve_quiet[of a H lg c w] Cons.prems(2,3) by auto
  then show ?case using Cons sv by (auto split: if_splits)
qed simp

section \<open>Requests, then the installation\<close>

text \<open>
  C30: the offline mode ends and prints the permissions. Given requests and then the installation on the
  standard input, in any pieces and followed by the end of the input, the offline mode exits with the
  status zero after having served all of them as the abstract server does; when the installation is
  accepted, what it printed is exactly one line for each permission of the session, with the label of
  the application, and the paths and the plugs are marked by the MAC.
\<close>

theorem offline_installs:
  assumes "client_mem mem" "0 \<le> fdo" "client_create mem 0 fdo w = (0, Some c0, w0)" "rx ch = map RxData ps @ [RxEof]"
    "[] \<notin> set ps" "tx ch = []" "concat ps = stream (reqs @ [[n_install]])" "list_all sendable reqs" "list_all asked reqs"
    "[n_install] \<notin> set reqs" "[n_uninstall] \<notin> set reqs" "mac H = smack_mac S env"
  shows "\<exists>s rss. offline H machine_offline lg mem ch fdo w = Some (0, Some s)
    \<and> serve_all H (reqs @ [[n_install]]) lg ((context_init (cctx mem))\<lparr>permgr := Some machine_offline\<rparr>) w0
        = Some (rss, server_log s, cctx (cl s), world s)
    \<and> (last rss = [[n_done]] \<and> has_id (cctx (cl s)) \<longrightarrow>
         printed (world s) = printed w @ offline_text (smack_get_label (context_id (cctx (cl s)))) (cctx (cl s))
         \<and> smack_marked (cctx (cl s)) (world s))"
proof -
  let ?c = "(context_init (cctx mem))\<lparr>permgr := Some machine_offline\<rparr>"
  have inst: "sendable [n_install]" "asked [n_install]" by (code_simp, code_simp)
  have ms: "list_all sendable (reqs @ [[n_install]])" "list_all asked (reqs @ [[n_install]])" using assms(8,9) inst by simp_all
  obtain s rss where s: "offline H machine_offline lg mem ch fdo w = Some (0, Some s)"
    "serve_all H (reqs @ [[n_install]]) lg ?c w0 = Some (rss, server_log s, cctx (cl s), world s)"
    using offline_stream[OF assms(1-7) ms, of H machine_offline lg] by blast
  obtain rss0 lg0 c1 w1 r where sv: "serve_all H reqs lg ?c w0 = Some (rss0, lg0, c1, w1)"
    "serve H [n_install] lg0 c1 w1 = (r, server_log s, cctx (cl s), world s, True)" "rss = rss0 @ [r]" "length rss0 = length reqs"
    using serve_all_snoc[OF s(2)] by metis
  have "printed (world s) = printed w @ offline_text (smack_get_label (context_id (cctx (cl s)))) (cctx (cl s))
      \<and> smack_marked (cctx (cl s)) (world s)" if r: "r = [[n_done]]" and id: "has_id (cctx (cl s))"
  proof -
    have "result_of [n_install] r = 0" using r by (simp add: result_of_def)
    then obtain rc where c1: "cctx (cl s) = c1" "action_install H c1 w1 = (rc, world s)" "0 \<le> rc"
      using serve_install[OF sv(2)] by blast
    have pm: "permgr c1 = Some machine_offline" using serve_all_permgr[OF sv(1)] by simp
    have "ctx_inv ?c" using context_init_inv[of "cctx mem"] assms(1) by (simp add: client_mem_def ctx_inv_permgr)
    then have inv: "ctx_inv c1" by (rule serve_all_ctx_inv[OF sv(1)])
    have "os.more w1 = os.more w"
      using serve_all_quiet[OF sv(1) assms(10,11)] client_create_facts(2)[OF assms(3)] by simp
    then have "printed w1 = printed w" using more_manager by (auto simp: manager_state_def)
    then show ?thesis
      using smack_installs.offline_install[OF pm inv _ assms(12) c1(2,3)] id c1(1) by (simp add: smack_mac_def)
  qed
  then show ?thesis using s sv(3) by auto
qed

definition demo_offline_mem :: "(cyn_db, int, unit) machine_ext client" where
  "demo_offline_mem = \<lparr>cprot = raw_prot, cctx = demo_blank, version = 0, invalid = False, fdin = 0, fdout = 0\<rparr>"

definition demo_stdin :: "string list" where
  "demo_stdin = [''id demo'' @ [LF] @ ''path /d da'', ''ta'' @ [LF], ''permission urn:p'' @ [LF] @ ''install'', [LF]]"

lemma demo_offline_served:
  "map_option (\<lambda>(rs, lg, c, w). (rs, context_id c, permissions (permission_set c)))
     (serve_all demo_smack (demo_requests @ [[n_install]]) False ((context_init demo_blank)\<lparr>permgr := Some machine_offline\<rparr>) demo_store)
   = Some (replicate 4 [[n_done]], ''demo'', [''urn:p''])"
  by code_simp

theorem offline_installs_witness:
  "\<exists>s. offline demo_smack machine_offline False demo_offline_mem \<lparr>rx = map RxData demo_stdin @ [RxEof], tx = [], sent = []\<rparr> 9 demo_store
      = Some (0, Some s) \<and> printed (world s) = ''App:demo * * urn:p yes forever'' @ [LF]"
proof -
  have mem: "client_mem demo_offline_mem"
    by (simp add: client_mem_def demo_offline_mem_def demo_blank_def raw_prot_def PROT_MAX_BUFFER_LENGTH_def)
  have "fst (client_create demo_offline_mem 0 9 demo_store) = 0 \<and> snd (snd (client_create demo_offline_mem 0 9 demo_store)) = demo_store
      \<and> fst (snd (client_create demo_offline_mem 0 9 demo_store)) \<noteq> None"
    by (simp add: client_create_def prot_create_def context_create_def sys_malloc_nil demo_store_def)
  then obtain c0 where c0: "client_create demo_offline_mem 0 9 demo_store = (0, Some c0, demo_store)" by (metis option.exhaust prod.collapse)
  have i: "concat demo_stdin = stream (demo_requests @ [[n_install]])" "[] \<notin> set demo_stdin"
    "list_all sendable demo_requests" "list_all asked demo_requests"
    by (code_simp, simp add: demo_stdin_def, code_simp, code_simp)
  have m: "mac demo_smack = smack_mac sim_smack demo_env" by (simp add: mac_host_def)
  let ?ch = "\<lparr>rx = map RxData demo_stdin @ [RxEof], tx = [], sent = []\<rparr>"
  from offline_installs[OF mem _ c0 _ i(2) _ i(1,3,4) _ _ m, of ?ch False]
  obtain s rss where s: "offline demo_smack machine_offline False demo_offline_mem ?ch 9 demo_store = Some (0, Some s)"
    "serve_all demo_smack (demo_requests @ [[n_install]]) False ((context_init (cctx demo_offline_mem))\<lparr>permgr := Some machine_offline\<rparr>)
       demo_store = Some (rss, server_log s, cctx (cl s), world s)"
    "last rss = [[n_done]] \<and> has_id (cctx (cl s)) \<longrightarrow>
         printed (world s) = printed demo_store @ offline_text (smack_get_label (context_id (cctx (cl s)))) (cctx (cl s))"
    by auto
  have r: "rss = replicate 4 [[n_done]]" "context_id (cctx (cl s)) = ''demo''" "permissions (permission_set (cctx (cl s))) = [''urn:p'']"
    using demo_offline_served s(2) by (auto simp: demo_offline_mem_def simp del: serve_all.simps)
  have "rd (id_array (cctx (cl s))) 0 \<noteq> NUL" using r(2) by (cases "id_array (cctx (cl s))") (auto simp: context_id_def cstr_def rd_def)
  then have "has_id (cctx (cl s))" by (simp add: has_id_def)
  moreover have "smack_get_label ''demo'' = ''App:demo''" by code_simp
  ultimately show ?thesis
    using s(1,3) r by (simp add: numeral_eq_Suc offline_text_def demo_store_def)
qed

end
