(* ===== verification/Daemon_Run.thy ===== *)
theory Daemon_Run
  imports Daemon_Props Cmd_Output Offline
begin

text \<open>
  The whole of \<open>main\<close> of the daemon: what it prints before it starts, and what it runs, the server or
  the offline mode.
\<close>

section \<open>Texts\<close>

text \<open>The help, in which the default directory of the socket is printed.\<close>

definition daemon_helptxt :: "string \<Rightarrow> string" where
  "daemon_helptxt dir = lined
    ['''',
     ''usage: sec-lsm-managerd [options]...'',
     '''',
     ''otpions:'',
     ''    -u, --user xxx        set the user'',
     ''    -g, --group xxx       set the group'',
     ''    -G  --groups xxx,yyy  set additional groups'',
     ''    -l, --log             activate log of transactions'',
     ''    -k, --keep-going      continue to run on some errors'',
     ''    -s, --shutoff VALUE   shutting off time in seconds'',
     ''        --offline         offline operation'',
     '''',
     ''    -S, --socketdir xxx   set the base directory xxx for sockets'',
     ''                            (default: '' @ dir @ '')'',
     ''    -M, --make-socket-dir make the socket directory'',
     ''    -O, --own-socket-dir  set user and group on socket directory'',
     '''',
     ''    -h, --help            print this help and exit'',
     ''    -v, --version         print the version and exit'',
     '''']"

definition daemon_versiontxt :: "string \<Rightarrow> string" where
  "daemon_versiontxt ver = ''sec-lsm-managerd version '' @ ver"

text \<open>The long options: their names and whether they have an argument.\<close>

definition daemon_longopts :: "(string \<times> bool) list" where
  "daemon_longopts = [(''group'', True), (''groups'', True), (''help'', False), (''keep-going'', False), (''log'', False),
     (''make-socket-dir'', False), (''offline'', False), (''own-socket-dir'', False), (''shutoff'', True),
     (''socketdir'', True), (''user'', True), (''version'', False)]"

text \<open>What is printed on the standard output before the daemon ends or starts.\<close>

definition daemon_says :: "string \<Rightarrow> daemon_opt list \<Rightarrow> streams \<Rightarrow> streams" where
  "daemon_says ver opts s =
     (let f = fold set_opt opts no_opts
      in if dhelp f then print_out (daemon_helptxt ''/run'') s
         else if dversion f then puts (daemon_versiontxt ver) s
         else s)"

text \<open>Every long option is in the help.\<close>

lemma daemon_help_options:
  "\<forall>(n, arg) \<in> set daemon_longopts. ''--'' @ n \<in> set (words_of [] (daemon_helptxt ''/run''))"
  by code_simp

lemma daemon_says_exits:
  "daemon_says ver opts s \<noteq> s \<Longrightarrow> daemon_start env opts d = Some (Exits 0, d)"
  by (auto simp: daemon_says_def daemon_start_def Let_def split: if_splits)

section \<open>Running\<close>

text \<open>
  What has been started runs: \<open>offline\<close> over the standard input \<open>ch\<close>, which does not return, or the
  server. The exit status, \<open>None\<close> when the server still waits, and the final state.
\<close>

definition daemon_run ::
  "'z wstate host \<Rightarrow> 'z wstate perm_mgr_itf \<Rightarrow> 'z client \<Rightarrow> int + int \<Rightarrow> (string \<Rightarrow> int + int) \<Rightarrow> poll_result list \<Rightarrow>
     chan \<Rightarrow> int \<Rightarrow> launch \<Rightarrow> 'z server \<Rightarrow> (int option \<times> ('z session option + 'z server)) option" where
  "daemon_run H itf mem epfd sock rs ch fdo l s =
     (if l_offline l then map_option (\<lambda>(st, t). (Some st, Inl t)) (offline H itf (l_log l) mem ch fdo (sys_state s))
      else map_option (\<lambda>(st, u). (st, Inr u)) (daemon_serve H mem epfd sock rs l s))"

definition daemon_main ::
  "environ \<Rightarrow> daemon_opt list \<Rightarrow> 'z wstate host \<Rightarrow> 'z wstate perm_mgr_itf \<Rightarrow> 'z client \<Rightarrow> int + int \<Rightarrow>
     (string \<Rightarrow> int + int) \<Rightarrow> poll_result list \<Rightarrow> chan \<Rightarrow> int \<Rightarrow> 'z server \<Rightarrow> proc \<Rightarrow>
     (int option \<times> ('z session option + 'z server) option \<times> proc) option" where
  "daemon_main env opts H itf mem epfd sock rs ch fdo s d =
     Option.bind (daemon_start env opts d) (\<lambda>(st, d). case st of
         Exits e \<Rightarrow> Some (Some e, None, d)
       | Starts l \<Rightarrow> map_option (\<lambda>(e, x). (e, Some x, d)) (daemon_run H itf mem epfd sock rs ch fdo l s))"

text \<open>With the option of the offline mode, the daemon ends with the standard input.\<close>

lemma daemon_offline:
  assumes "daemon_start env opts d = Some (Starts l, d')" "l_offline l"
    and "client_mem mem" "0 \<le> fdo" "client_create mem 0 fdo (sys_state s) = (0, Some c, w0)"
    "rx ch = map RxData ps @ [RxEof]" "[] \<notin> set ps" "tx ch = []" "concat ps = stream ms" "list_all sendable ms" "list_all asked ms"
  shows "\<exists>t. daemon_main env opts H itf mem epfd sock rs ch fdo s d = Some (Some 0, Some (Inl (Some t)), d')
    \<and> (\<exists>rss. serve_all H ms (l_log l) ((context_init (cctx mem))\<lparr>permgr := Some itf\<rparr>) w0
         = Some (rss, server_log t, cctx (cl t), world t))"
  using offline_stream[OF assms(3-), of H itf "l_log l"] assms(1,2)
  by (auto simp: daemon_main_def daemon_run_def)

end
