(* ===== verification/Spec2Isabelle.thy ===== *)
theory Spec2Isabelle
  imports Utf8_Utils Context_Inv Prot_Link Mustach_Mem Smack_Props Selinux_Sim Isolation Remote_Selinux Server_Sessions Terminal Protocol_Log Sim_Libs Socket_Info Repo_Tests Daemon_Run
begin

text \<open>
  A model of sec-lsm-manager in HOL, with the theorems that make it correct. The program installs the
  security of applications on a system with a mandatory access control (MAC), Smack or SELinux,
  and a database of permissions, Cynagora. A client describes an application by requests: its
  identifier, its paths and their types, its permissions and its plugs; then asks for its
  installation or its uninstallation.

  \<^bold>\<open>The parts and how they interact.\<close> The command line client (\<open>src/main-sec-lsm-manager-cmd.c\<close>)
  calls the library of the clients (\<open>src/protocol/sec-lsm-manager.c\<close>). The library and the session of
  the daemon with a client (\<open>src/protocol/client.c\<close>) exchange records of fields over a connected socket
  (\<open>src/protocol/prot.c\<close>). The server (\<open>src/protocol/sec-lsm-manager-server.c\<close>, \<open>pollitem.c\<close>) accepts
  clients on a socket (\<open>socket.c\<close>), keeps their sessions in slots and dispatches what polling
  reports. A session fills a context (\<open>src/context\<close>); installing (\<open>src/action/action.c\<close>) checks the
  context, sets the permissions by a permission manager (\<open>src/perm-cynagora\<close>, or the offline
  one) and calls the MAC (\<open>src/lsm-smack\<close>, \<open>src/lsm-selinux\<close>), which render templates with the
  context (\<open>src/templating\<close>), write files and label paths (\<open>src/file-utils.c\<close>, \<open>xattr-utils.c\<close>). The
  daemon (\<open>src/main-sec-lsm-managerd.c\<close>) makes the directory of its socket, drops its privileges
  and runs the server.

  \<^bold>\<open>The theories.\<close> Functions, records and enumerations keep the names of the code.

  \<^item> \<open>Prelude\<close>: strings of C, fixed arrays, \<open>snprintf\<close>, values of \<open>errno\<close>, the collections of facts.
  \<^item> \<open>World\<close>, \<open>Channel\<close>: what the code uses of the kernel. \<open>os\<close> is a file system with links and
    extended attributes and a schedule of faults, one for each call that may fail; \<open>chan\<close> is a
    descriptor that scheduled events read from and write to. Theorems hold for every schedule.
  \<^item> \<open>Logging\<close>: \<open>log.c\<close>, the formats it uses, the two streams, and the text of the log of the protocol.
  \<^item> \<open>Keyed_Set\<close>: the locale \<open>keyed_set\<close>, the contract of the three sets of a context.
  \<^item> \<open>Utf8_Utils\<close>, \<open>Path_Utils\<close>, \<open>File_Utils\<close>: \<open>utf8-utils.c\<close>, \<open>path-utils.c\<close>, \<open>file-utils.c\<close> and
    \<open>xattr-utils.c\<close>.
  \<^item> \<open>Permissions\<close>, \<open>Paths\<close>, \<open>Plugs\<close>, \<open>Context\<close>, \<open>Context_Inv\<close>: the files of \<open>src/context\<close>. \<open>context_t\<close> is
    the record \<open>ctx\<close>, whose identifier stays in its fixed array as the code leaves it there.
  \<^item> \<open>Perm_Mgr\<close>: the interface \<open>perm_mgr_itf_t\<close>, \<open>perm-cynagora.c\<close> over any library \<open>cynagora_lib\<close>,
    the offline manager, and the simulated library. \<open>Action\<close>: \<open>action.c\<close>. \<open>Machine\<close> puts together
    the state these parts share and states the contract of a MAC, the locale \<open>mac_provider\<close>.
  \<^item> \<open>Mustach\<close>, \<open>Mustach_Mem\<close>, \<open>Template\<close>, \<open>Template_Render\<close>: \<open>mustach.c\<close>, \<open>template.c\<close>, and what
    rendering means.
  \<^item> \<open>Smack\<close>, \<open>Smack_Props\<close>: \<open>src/lsm-smack\<close>. \<open>Selinux\<close>, \<open>Selinux_Props\<close>, \<open>Selinux_Sim\<close>:
    \<open>src/lsm-selinux\<close>, and \<open>src/simulation/selinux/selinux.c\<close>.
  \<^item> \<open>Prot\<close>, \<open>Prot_Out\<close>, \<open>Prot_In\<close>, \<open>Prot_Link\<close>: \<open>prot.c\<close>; its two buffers keep their positions,
    their lengths and the offsets of the fields.
  \<^item> \<open>Client\<close>, \<open>Client_Props\<close>: \<open>client.c\<close>; the record \<open>session\<close> holds \<open>client_t\<close>, its channel, the
    system, the flag of the log and the records \<open>dolog_protocol\<close> printed. \<open>Protocol_Log\<close>: their text.
  \<^item> \<open>Server\<close>, \<open>Server_Props\<close>, \<open>Isolation\<close>: the server and its polling; slots, descriptors, epoll and clock.
  \<^item> \<open>Socket\<close>: \<open>socket.c\<close>. \<open>Ensure_Dir\<close>, \<open>Daemon\<close>, \<open>Daemon_Props\<close>: the start of the daemon.
    \<open>Offline\<close>: the offline mode, from its standard input to its standard output. \<open>Daemon_Run\<close>: the whole
    of \<open>main\<close>, and its help.
  \<^item> \<open>Manager_Lib\<close>, \<open>Manager_Props\<close>: the library of the clients; a call returns, waits for ever or
    aborts (\<open>Returns\<close>, \<open>Waits\<close>, \<open>Aborts\<close>). \<open>Delivery\<close>, \<open>Remote_Session\<close>: library and daemon together,
    the bytes of each side reaching the other in any pieces.
  \<^item> \<open>Session_Stream\<close>, \<open>Server_Sessions\<close>: a session on a stream of requests cut anywhere, and the server
    with the sessions of several clients.
  \<^item> \<open>Remote_Install\<close>, \<open>Remote_Selinux\<close>: library and daemon with Cynagora and Smack or SELinux behind,
    from the calls of the library to the labels of the files. \<open>Remote_Cmd\<close>: the command line client with the daemon.
  \<^item> \<open>Cmd\<close>, \<open>Cmd_Props\<close>: the command line client, which produces events; \<open>Cmd_Output\<close>: the texts of the
    events and of the help. \<open>Terminal\<close>: what is read on the terminal when the daemon serves it.
  \<^item> \<open>Sim_Libs\<close>: the simulations of libcynagora and libsmack, with what they tell. \<open>Socket_Info\<close>:
    \<open>socket-info.c\<close>.
  \<^item> \<open>Repo_Tests\<close>: the assertions of \<open>src/tests\<close> evaluated on the model.
\<close>

text \<open>
  \<^bold>\<open>What the theorems show.\<close>

  \<^item> Data: \<open>is_utf8\<close> accepts exactly the sequences of forms of UTF-8; \<open>path_std\<close> normalises absolute paths by
    components; a context that a client can reach is well formed whatever the operations and the
    failures of allocation; an identifier, a path, a permission or a plug is added exactly as the
    conditions of the code say; the flag of error stops every change until \<open>context_clear\<close>.
  \<^item> Actions: an installation that is refused changes nothing; one that succeeds had the
    right to export each plug; one that the MAC refuses leaves no permission; setting permissions
    is atomic over a Cynagora that keeps its contract.
  \<^item> MAC: the labels, marks, links and rules that a successful installation or uninstallation
    leaves, for Smack and for SELinux; under SELinux the labels are the right ones where the fault of
    \<open>trfid\<close>, which keeps four characters of an identifier, does not reach.
  \<^item> Templates: processing ends for every template that keeps its delimiters, and a plain template
    renders as its structure says.
  \<^item> Protocol: the circular output buffer refines a queue, the parsing of the input refines
    a split of the received text, putting a record is atomic, and a link carries records
    whatever the pieces the kernel makes of them.
  \<^item> Sessions: \<open>serve\<close> and \<open>serve_all\<close> are an abstract server, from a request to its replies and
    the next context. The handler of requests refines it, and so does the library of the
    clients composed with the session of the daemon, for any sequence of requests, \<open>display\<close> and \<open>log\<close>
    included, and any pieces of the streams; when the call that asks for the installation returns
    zero, what was described is installed. Processing any input stays in the buffers and returns; flushing
    only moves bytes, in order, to the channel. The
    log tells each request and its replies.
  \<^item> Server: an invariant of every reachable state; the requests of several clients, interleaved
    anyhow, are served as if one after the other; clients do not interfere and start with nothing;
    silent ones are let go; descriptors are closed once. Start: sockets, directory, groups and privileges.
    The offline mode ends with its input and prints the permissions.
  \<^item> Command line: commands, lines and pieces of the standard input; the help names the commands; what
    the terminal shows for requests typed to a daemon is what the abstract server replies.

  Where the code does not do what it means to, a lemma shows what it does
  (\<open>log_line_forged\<close>, \<open>help_lacks_plug\<close>, \<open>socket_info_zero\<close>, \<open>stale_id_after_clear\<close>,
  \<open>path_std_relative_becomes_absolute\<close>, \<open>prot_putx_keeps_partial_record\<close>,
  \<open>nested_section_breaks_iteration\<close>, \<open>smack_exec_failure_unseen\<close>, \<open>selinux_label_wrong\<close>,
  \<open>selinux_label_collision\<close>, \<open>is_utf8_accepts_overlong\<close>, \<open>supl_groups_words\<close>,
  \<open>failed_negotiation_leaks\<close>, \<open>error_message_size\<close>, \<open>separators_not_counted\<close>, \<open>dangling_link_loops\<close>,
  \<open>high_user_not_set\<close>).

  \<^bold>\<open>Interfaces.\<close> Each locale is interpreted on the model of the code: \<open>keyed_set\<close> on the permissions,
  the paths and the plugs; \<open>perm_mgr\<close> on the offline manager and, through the sublocale
  \<open>cynagora_ranges\<close>, on Cynagora; \<open>mac_provider\<close> on Smack and SELinux, and \<open>installing_mac\<close>, which
  extends it by what an installation leaves, on Smack and, through the sublocale \<open>apart_semanage\<close>, on
  SELinux over the two libraries; \<open>session_keeps\<close>, what every step of a session keeps, on the invariant of the session and on its input; \<open>quiet_semanage\<close>,
  what the installation of a module relies on, on a database of modules and on the simulated library.
\<close>

text \<open>
  \<^bold>\<open>Bounds and fuel.\<close> Integers of C whose overflow the code can meet are written with their bounds or
  their width: lengths of records, buffers and identifiers, numbers of options, user
  and group identifiers (32-bit words when they are set), events of polling. The loops of
  \<open>src/protocol\<close> that flush take a fuel: \<open>flush_fuel\<close> and \<open>slm_fuel\<close> are the scheduled events of
  the channel and the bytes to write, each turn uses one of them (\<open>flushw_fuel_enough\<close>,
  \<open>slm_flush_loop_returns\<close>). The turns of \<open>process\<close> take \<open>template_fuel\<close>, a bound by the length of
  the template and the number of plugs, enough for every session and every template that does not change its
  delimiters (\<open>template_fuel_enough\<close>). Following links stops at 40, as the kernel does. Loops that
  may not end are partial functions: \<open>do_all\<close> of the command line, \<open>ensuredir\<close> of the daemon and
  the loop of the offline mode; the other loops have a measure.

  \<^bold>\<open>Parameters.\<close> What is not in the repository is an argument: the functions of libcynagora
  (\<open>cynagora_lib\<close>), libsmack (\<open>smack_lib\<close>) and libsemanage (\<open>semanage_lib\<close>), the compilation script of
  SELinux, the environment, what \<open>getopt_long\<close> gives, the databases of users and groups, the
  resolver of names, the sockets of systemd, the results of polling, the order of
  \<open>readdir\<close>, the bytes of the standard input, and memory that was not written, a function of
  the frame and the state of each call. What the
  theorems assume of them is a named hypothesis (\<open>cynagora_contract\<close>, \<open>semanage_keeps\<close>, \<open>semanage_apart\<close>) or the laws of
  a locale, with an instance that satisfies it.

  \<^bold>\<open>Not modelled.\<close> The messages that the functions print by \<open>log.c\<close> while they work, and those of the
  daemon about its options: their texts go out and nothing reads them, so the definitions leave the
  calls of \<open>LOG\<close>, \<open>DEBUG\<close> and \<open>ERROR\<close> out, the two simulated libraries apart. \<open>selinux_restorecon\<close> of
  the simulation, which nothing calls, the handlers of signals and \<open>sd_notify\<close> of the daemon have no
  definition. The headers of the simulated libraries hold declarations only; the programs of the tests
  (their assertions apart), the fuzzing and the build for coverage are not part of the program.
  Threads do not occur: the daemon has one, and the lock of the library is a flag.
\<close>

end
